(* ===== verification/Prelude.thy ===== *)
theory Prelude
  imports Main "HOL-Library.AList"
begin

text \<open>
  The vocabulary every component shares.

  \<^item> Clock values. A Go \<open>time.Time\<close> is an \<open>int\<close> counting nanoseconds, with \<open>0\<close> for Go's zero
    time (the value \<open>IsZero\<close> recognises); a \<open>time.Duration\<close> is an \<open>int\<close> of nanoseconds.
    \<open>Time.Sub\<close> saturates at the 64-bit range of \<open>time.Duration\<close>, as the Go library documents.
  \<^item> Go maps. A map is an association list with distinct keys, read by \<open>map_of\<close>, written by
    \<open>AList.update\<close> and \<open>AList.delete\<close>, so that every operation that ranges over a map stays
    executable. Go leaves the iteration order unspecified; no property below depends on it.
  \<^item> Secondary indexes: a map of records together with a second map from a field of the record
    back to its key, which is how the gateway's registry finds a registration by its token.
  \<^item> 64-bit arithmetic, where a sum can wrap around.
\<close>

subsection \<open>Collections of rewrite rules\<close>

named_theorems go_time \<open>comparisons of clock values and durations\<close>
named_theorems go_map \<open>reads of a map after a write\<close>

subsection \<open>Time\<close>

type_synonym time = int
type_synonym duration = int

abbreviation (input) zero_time :: time where
  "zero_time \<equiv> 0"

definition second :: duration where
  "second = 1000000000"

definition minute :: duration where
  "minute = 60 * second"

definition hour :: duration where
  "hour = 60 * minute"

lemmas duration_defs = second_def minute_def hour_def

definition max_duration :: duration where
  "max_duration = 2 ^ 63 - 1"

definition min_duration :: duration where
  "min_duration = - (2 ^ 63)"

definition time_Sub :: "time \<Rightarrow> time \<Rightarrow> duration" where
  "time_Sub t u = max min_duration (min max_duration (t - u))"

lemma time_Sub_gt [go_time]:
  "min_duration \<le> d \<Longrightarrow> d < max_duration \<Longrightarrow> d < time_Sub t u \<longleftrightarrow> d < t - u"
  by (auto simp: time_Sub_def min_duration_def max_duration_def)

lemma time_Sub_le [go_time]:
  "min_duration \<le> d \<Longrightarrow> d < max_duration \<Longrightarrow> time_Sub t u \<le> d \<longleftrightarrow> t - u \<le> d"
  by (auto simp: time_Sub_def min_duration_def max_duration_def)

lemma time_Sub_lt [go_time]:
  "min_duration < d \<Longrightarrow> d \<le> max_duration \<Longrightarrow> time_Sub t u < d \<longleftrightarrow> t - u < d"
  by (auto simp: time_Sub_def min_duration_def max_duration_def)

lemma duration_range [simp]:
  "min_duration \<le> n * hour \<longleftrightarrow> min_duration \<le> n * 3600000000000"
  "n * hour < max_duration \<longleftrightarrow> n * 3600000000000 < max_duration"
  by (simp_all add: duration_defs)

text \<open>A hash function, as hex text.\<close>

type_synonym digest = "string \<Rightarrow> string"

subsection \<open>64-bit integers\<close>

text \<open>
  Where a program's sums can leave the range, an \<open>int64\<close> is an \<open>int\<close> reduced by \<open>wrap64\<close>, and
  division truncates towards zero.
\<close>

definition wrap64 :: "int \<Rightarrow> int" where
  "wrap64 n = (n + 2 ^ 63) mod 2 ^ 64 - 2 ^ 63"

definition trunc_div :: "int \<Rightarrow> int \<Rightarrow> int" where
  "trunc_div a b = (if (a < 0) = (b < 0) then \<bar>a\<bar> div \<bar>b\<bar> else - (\<bar>a\<bar> div \<bar>b\<bar>))"

lemma wrap64_id [simp]: "- (2 ^ 63) \<le> n \<Longrightarrow> n < 2 ^ 63 \<Longrightarrow> wrap64 n = n"
  by (simp add: wrap64_def)

lemma wrap64_range: "- (2 ^ 63) \<le> wrap64 n" "wrap64 n < 2 ^ 63"
  by (simp_all add: wrap64_def)

lemma trunc_div_nonneg [simp]: "0 \<le> a \<Longrightarrow> 0 < b \<Longrightarrow> trunc_div a b = a div b"
  by (simp add: trunc_div_def)

subsection \<open>Maps as association lists\<close>

type_synonym ('k, 'v) gomap = "('k \<times> 'v) list"

abbreviation keys :: "('k, 'v) gomap \<Rightarrow> 'k list" where
  "keys m \<equiv> map fst m"

abbreviation get :: "('k, 'v) gomap \<Rightarrow> 'k \<Rightarrow> 'v option" where
  "get \<equiv> map_of"

abbreviation put :: "'k \<Rightarrow> 'v \<Rightarrow> ('k, 'v) gomap \<Rightarrow> ('k, 'v) gomap" where
  "put \<equiv> AList.update"

abbreviation del :: "'k \<Rightarrow> ('k, 'v) gomap \<Rightarrow> ('k, 'v) gomap" where
  "del \<equiv> AList.delete"

text \<open>The interface the components use a map through, and what follows from it.\<close>

locale keyed_store =
  fixes rd :: "'m \<Rightarrow> 'k \<Rightarrow> 'v option"
    and wr :: "'k \<Rightarrow> 'v \<Rightarrow> 'm \<Rightarrow> 'm"
    and rm :: "'k \<Rightarrow> 'm \<Rightarrow> 'm"
    and wf :: "'m \<Rightarrow> bool"
  assumes rd_wr: "rd (wr k v m) = (rd m)(k \<mapsto> v)"
    and rd_rm: "rd (rm k m) = (rd m)(k := None)"
    and wf_wr: "wf m \<Longrightarrow> wf (wr k v m)"
    and wf_rm: "wf m \<Longrightarrow> wf (rm k m)"
begin

lemma rd_wr_same: "rd (wr k v m) k = Some v"
  by (simp add: rd_wr)

lemma rd_wr_other: "j \<noteq> k \<Longrightarrow> rd (wr k v m) j = rd m j"
  by (simp add: rd_wr)

lemma rd_rm_same: "rd (rm k m) k = None"
  by (simp add: rd_rm)

lemma rd_rm_other: "j \<noteq> k \<Longrightarrow> rd (rm k m) j = rd m j"
  by (simp add: rd_rm)

lemma rd_wr_rm: "rd m k = None \<Longrightarrow> rd (rm k (wr k v m)) = rd m"
  by (auto simp: rd_rm rd_wr)

lemma wf_fold_rm: "wf m \<Longrightarrow> wf (fold rm ks m)"
  by (induction ks arbitrary: m) (auto intro: wf_rm)

lemma rd_fold_rm: "rd (fold rm ks m) j = (if j \<in> set ks then None else rd m j)"
  by (induction ks arbitrary: m) (auto simp: rd_rm)

end

definition distinct_keys :: "('k, 'v) gomap \<Rightarrow> bool" where
  "distinct_keys m = distinct (keys m)"

interpretation gomap: keyed_store map_of AList.update AList.delete distinct_keys
  by unfold_locales
    (auto simp: distinct_keys_def update_conv' delete_conv' distinct_update distinct_delete)

lemmas gomap_rules [go_map] =
  gomap.rd_wr_same gomap.rd_wr_other gomap.rd_rm_same gomap.rd_rm_other

lemma get_map_values:
  "get (map (\<lambda>(k, v). (k, f k v)) m) k = map_option (f k) (get m k)"
  by (induction m) auto

lemma get_filter:
  "distinct_keys m \<Longrightarrow>
     get (filter (\<lambda>(k, v). P k v) m) k = (case get m k of None \<Rightarrow> None | Some v \<Rightarrow> if P k v then Some v else None)"
  by (induction m) (auto simp: distinct_keys_def split: option.splits dest: weak_map_of_SomeI
    intro!: map_of_eq_None_iff[THEN iffD2])

lemma distinct_keys_filter: "distinct_keys m \<Longrightarrow> distinct_keys (filter P m)"
  by (auto simp: distinct_keys_def distinct_map intro: inj_on_subset)

lemma distinct_keys_map_values [simp]:
  "distinct_keys (map (\<lambda>(k, v). (k, f k v)) m) = distinct_keys m"
  by (simp add: distinct_keys_def split_def comp_def)

text \<open>A set written entry by entry into a map of flags, and a list of pairs written into a map.\<close>

lemma get_fold_put_True: "get (fold (\<lambda>n m. put n True m) ns m) k = (if k \<in> set ns then Some True else get m k)"
  by (induction ns arbitrary: m) (auto simp: update_conv')

lemma keys_fold_put_True: "set (keys (fold (\<lambda>n m. put n True m) ns m)) = set ns \<union> set (keys m)"
  by (induction ns arbitrary: m) (auto simp: dom_update)

lemma distinct_fold_put_True: "distinct_keys m \<Longrightarrow> distinct_keys (fold (\<lambda>n m. put n True m) ns m)"
  by (induction ns arbitrary: m) (auto simp: distinct_keys_def distinct_update)

lemma distinct_fold_put: "distinct_keys m \<Longrightarrow> distinct_keys (fold (\<lambda>(k, v) m. put k v m) kvs m)"
  by (induction kvs arbitrary: m) (auto simp: distinct_keys_def distinct_update)

lemma get_fold_put: "distinct_keys kvs \<Longrightarrow>
    get (fold (\<lambda>(k, v) m. put k v m) kvs m) j = (case get kvs j of None \<Rightarrow> get m j | Some v \<Rightarrow> Some v)"
proof (induction kvs arbitrary: m)
  case (Cons kv kvs)
  obtain k v where kv: "kv = (k, v)" by (cases kv)
  then have "distinct_keys kvs" "get kvs k = None"
    using Cons.prems by (auto simp: distinct_keys_def map_of_eq_None_iff)
  then show ?case
    using Cons.IH [of "put k v m"] by (auto simp: kv update_conv' split: option.splits)
qed simp

lemma get_in_set: "distinct_keys m \<Longrightarrow> (k, v) \<in> set m \<longleftrightarrow> get m k = Some v"
  by (simp add: distinct_keys_def map_of_eq_Some_iff)

lemma count_values:
  assumes "distinct_keys m"
  shows "length (filter P (map snd m)) = card {k. \<exists>v. get m k = Some v \<and> P v}"
proof -
  let ?l = "filter (\<lambda>(k, v). P v) m"
  have "{k. \<exists>v. get m k = Some v \<and> P v} = set (keys ?l)"
    using assms by (force simp: get_in_set [symmetric])
  moreover have "distinct (keys ?l)"
    using distinct_keys_filter [OF assms] by (simp add: distinct_keys_def)
  ultimately have "card {k. \<exists>v. get m k = Some v \<and> P v} = length ?l"
    using distinct_card by fastforce
  then show ?thesis
    by (simp add: filter_map comp_def split_def)
qed

subsection \<open>A map with a secondary index\<close>

text \<open>
  \<open>indexed idx m t\<close>: \<open>t\<close> maps the index field of every record of \<open>m\<close> back to the record's key,
  and holds nothing else.
\<close>

definition indexed :: "('v \<Rightarrow> 'h) \<Rightarrow> ('k, 'v) gomap \<Rightarrow> ('h, 'k) gomap \<Rightarrow> bool" where
  "indexed idx m t \<longleftrightarrow>
     distinct_keys m \<and> distinct_keys t \<and>
     list_all (\<lambda>(k, v). get t (idx v) = Some k) m \<and>
     list_all (\<lambda>(h, k). (case get m k of None \<Rightarrow> False | Some v \<Rightarrow> idx v = h)) t"

lemma indexed_iff:
  "indexed idx m t \<longleftrightarrow>
     distinct_keys m \<and> distinct_keys t \<and>
     (\<forall>h k. get t h = Some k \<longleftrightarrow> (\<exists>v. get m k = Some v \<and> idx v = h))"
proof -
  have "list_all (\<lambda>(k, v). get t (idx v) = Some k) m \<longleftrightarrow>
          (\<forall>k v. get m k = Some v \<longrightarrow> get t (idx v) = Some k)" if "distinct_keys m"
    using that by (auto simp: list_all_iff get_in_set)
  moreover have "list_all (\<lambda>(h, k). (case get m k of None \<Rightarrow> False | Some v \<Rightarrow> idx v = h)) t \<longleftrightarrow>
          (\<forall>h k. get t h = Some k \<longrightarrow> (\<exists>v. get m k = Some v \<and> idx v = h))" if "distinct_keys t"
    using that by (fastforce simp: list_all_iff get_in_set split: option.splits)
  ultimately show ?thesis
    unfolding indexed_def by blast
qed

lemma indexed_distinct: "indexed idx m t \<Longrightarrow> distinct_keys m"
  by (simp add: indexed_def)

lemma indexed_lookup: "indexed idx m t \<Longrightarrow> get m k = Some v \<Longrightarrow> get t (idx v) = Some k"
  by (auto simp: indexed_iff)

lemma indexed_back:
  "indexed idx m t \<Longrightarrow> get t h = Some k \<Longrightarrow> \<exists>v. get m k = Some v \<and> idx v = h"
  by (auto simp: indexed_iff)

lemma indexed_inj:
  "indexed idx m t \<Longrightarrow> get m k = Some v \<Longrightarrow> get m k' = Some v' \<Longrightarrow> idx v = idx v' \<Longrightarrow> k = k'"
  by (metis indexed_lookup option.inject)

lemma indexed_empty [simp]: "indexed idx [] []"
  by (simp add: indexed_def distinct_keys_def)

lemma indexed_modify:
  assumes "indexed idx m t" and "get m k = Some v" and "idx v' = idx v"
  shows "indexed idx (put k v' m) t"
  using assms unfolding indexed_iff
  by (auto simp: gomap.rd_wr gomap.wf_wr)

lemma indexed_insert:
  assumes "indexed idx m t" and "get m k = None" and "get t (idx v) = None"
  shows "indexed idx (put k v m) (put (idx v) k t)"
proof -
  have "get m j = Some w \<Longrightarrow> idx w \<noteq> idx v" for j w
    using indexed_lookup [OF assms(1), of j w] assms(3) by auto
  then show ?thesis
    using assms unfolding indexed_iff by (auto simp: gomap.rd_wr gomap.wf_wr)
qed

lemma indexed_delete:
  assumes "indexed idx m t" and "get m k = Some v"
  shows "indexed idx (del k m) (del (idx v) t)"
proof -
  have inj: "get m j = Some w \<Longrightarrow> idx w = idx v \<longleftrightarrow> j = k" for j w
    using indexed_inj [OF assms(1), of j w k v] assms(2) by auto
  have "get (del (idx v) t) h = Some j \<longleftrightarrow> (\<exists>w. get (del k m) j = Some w \<and> idx w = h)" for h j
    using assms(1) inj by (cases "get m j") (auto simp: gomap.rd_rm indexed_iff)
  then show ?thesis
    using assms(1) by (simp add: indexed_iff gomap.wf_rm)
qed

end
