(* ===== verification/Gateway_Registry.thy ===== *)
theory Gateway_Registry
  imports Prelude
begin

text \<open>
  The gateway's subdomain registry, \<^verbatim>\<open>src/gateway/internal/registry/registry.go\<close>.

  The state is the record \<open>registry\<close>: the map of registrations, the map from token hashes back
  to labels, the dirty flag and the three settings. Every exported method and every locked helper
  is one definition of the same name. Each takes the instant \<open>now\<close> the Go code reads from
  \<open>time.Now\<close> (the several reads of one critical section are one instant here). The mutex makes
  each method atomic, so a run of the gateway is a sequence of operations.

  \<open>H\<close> is \<open>hex.EncodeToString(sha256.Sum256(_))\<close>: the properties hold for every digest function,
  and say so when they need two tokens not to collide. A token or nonce that
  \<open>crypto/rand\<close> produced arrives as \<open>Some t\<close>, an entropy failure as \<open>None\<close>.
\<close>

subsection \<open>Deadlines\<close>

definition pendingPinTTL :: duration where
  "pendingPinTTL = 24 * hour"

definition prevPinTTL :: duration where
  "prevPinTTL = 24 * hour"

definition challengeTTL :: duration where
  "challengeTTL = 5 * minute"

definition proofLease :: duration where
  "proofLease = 7 * 24 * hour"

definition unprovenReservationTTL :: duration where
  "unprovenReservationTTL = 2 * hour"

definition defaultTombstoneTTL :: duration where
  "defaultTombstoneTTL = 90 * 24 * hour"

definition firstPinSettleWindow :: duration where
  "firstPinSettleWindow = 2 * minute"

lemmas registry_ttls =
  pendingPinTTL_def prevPinTTL_def challengeTTL_def proofLease_def unprovenReservationTTL_def
  defaultTombstoneTTL_def firstPinSettleWindow_def

subsection \<open>Data\<close>

record entry =
  eSubdomain :: string
  eIP :: string
  eTokenHash :: string
  eToken :: string
  eCreatedAt :: time
  eLastSeen :: time
  eCertFingerprint :: string
  ePendingFingerprint :: string
  ePendingSince :: time
  ePrevFingerprint :: string
  ePrevSince :: time
  ePinUpdatedAt :: time
  eFirstPinnedAt :: time
  eProvenAt :: time
  eProofExpiry :: time
  eProofKeySPKI :: string
  eProofProtocol :: string
  eChallengeNonce :: string
  eChallengeExpiry :: time
  eFirstProvenAt :: time

record registry =
  rEntries :: "(string, entry) gomap"
  rTokens :: "(string, string) gomap"
  rDirty :: bool
  rInactivityTTL :: duration
  rTombstoneTTL :: duration
  rEnforceProof :: bool

definition New :: registry where
  "New = \<lparr>rEntries = [], rTokens = [], rDirty = False, rInactivityTTL = 30 * 24 * hour,
          rTombstoneTTL = defaultTombstoneTTL, rEnforceProof = False\<rparr>"

datatype Outcome = Created | Renewed | Moved | Unauthenticated

datatype reg_error =
    ErrSubdomainTaken string
  | ErrGeneratingToken
  | ErrInvalidToken
  | ErrSubdomainNotFound
  | ErrLapsed string

datatype AssertResult = AssertInvalidToken | AssertActive | AssertNeedsDial

subsection \<open>Tokens, nonces and fingerprints\<close>

definition tokenHashPrefix :: string where
  "tokenHashPrefix = ''sha256:''"

definition hashToken :: "digest \<Rightarrow> string \<Rightarrow> string" where
  "hashToken H token = tokenHashPrefix @ H token"

definition tokenMatches :: "digest \<Rightarrow> entry \<Rightarrow> string \<Rightarrow> bool" where
  "tokenMatches H e token \<longleftrightarrow> token \<noteq> [] \<and> eTokenHash e = hashToken H token"

definition nonceMatches :: "string \<Rightarrow> string \<Rightarrow> bool" where
  "nonceMatches issued submitted \<longleftrightarrow>
     submitted \<noteq> [] \<and> length issued = length submitted \<and> issued = submitted"

definition lower_hex :: "char \<Rightarrow> bool" where
  "lower_hex c \<longleftrightarrow> c \<in> set ''0123456789abcdef''"

definition ValidFingerprint :: "string \<Rightarrow> bool" where
  "ValidFingerprint fp \<longleftrightarrow> length fp = 64 \<and> list_all lower_hex fp"

definition FingerprintsEqual :: "string \<Rightarrow> string \<Rightarrow> bool" where
  "FingerprintsEqual a b \<longleftrightarrow> length a = length b \<and> a \<noteq> [] \<and> a = b"

subsection \<open>Lapse, release and proof state of one entry\<close>

definition lapsedAtLocked :: "time \<Rightarrow> registry \<Rightarrow> entry \<Rightarrow> time option" where
  "lapsedAtLocked now r e =
     (let inactive = eLastSeen e + rInactivityTTL r;
          unproven = eCreatedAt e + unprovenReservationTTL
      in if inactive < now then Some inactive
         else if rEnforceProof r \<and> eFirstProvenAt e = zero_time \<and> unproven < now then Some unproven
         else None)"

definition isExpiredLocked :: "time \<Rightarrow> registry \<Rightarrow> entry \<Rightarrow> bool" where
  "isExpiredLocked now r e \<longleftrightarrow> lapsedAtLocked now r e \<noteq> None"

definition isReleasableLocked :: "time \<Rightarrow> registry \<Rightarrow> entry \<Rightarrow> bool" where
  "isReleasableLocked now r e =
     (case lapsedAtLocked now r e of
        None \<Rightarrow> False
      | Some at \<Rightarrow>
          if eFirstProvenAt e = zero_time then True else rTombstoneTTL r < time_Sub now at)"

definition everProvenLocked :: "entry \<Rightarrow> bool" where
  "everProvenLocked e \<longleftrightarrow> eProvenAt e \<noteq> zero_time \<and> eProofKeySPKI e \<noteq> []"

definition leaseCurrentLocked :: "time \<Rightarrow> entry \<Rightarrow> bool" where
  "leaseCurrentLocked now e \<longleftrightarrow> everProvenLocked e \<and> now < eProofExpiry e"

definition proofValidLocked :: "time \<Rightarrow> entry \<Rightarrow> bool" where
  "proofValidLocked now e \<longleftrightarrow>
     leaseCurrentLocked now e \<and>
     (eCertFingerprint e = [] \<or> FingerprintsEqual (eCertFingerprint e) (eProofKeySPKI e))"

definition clearPinLocked :: "time \<Rightarrow> entry \<Rightarrow> entry" where
  "clearPinLocked now e = e\<lparr>eCertFingerprint := [], ePendingFingerprint := [],
     ePendingSince := zero_time, ePrevFingerprint := [], ePrevSince := zero_time,
     ePinUpdatedAt := now, eFirstPinnedAt := zero_time\<rparr>"

definition clearProofLocked :: "entry \<Rightarrow> entry" where
  "clearProofLocked e = e\<lparr>eProvenAt := zero_time, eProofExpiry := zero_time, eProofKeySPKI := [],
     eProofProtocol := [], eChallengeNonce := [], eChallengeExpiry := zero_time\<rparr>"

definition activateLocked :: "time \<Rightarrow> entry \<Rightarrow> string \<Rightarrow> entry" where
  "activateLocked now e fp =
     (if FingerprintsEqual (eCertFingerprint e) fp then e
      else
        let e1 = (if eCertFingerprint e = [] then e\<lparr>eFirstPinnedAt := now\<rparr>
                  else if eProofKeySPKI e = [] \<or> FingerprintsEqual (eCertFingerprint e) (eProofKeySPKI e)
                  then e\<lparr>ePrevFingerprint := eCertFingerprint e, ePrevSince := now\<rparr>
                  else e\<lparr>ePrevFingerprint := [], ePrevSince := zero_time\<rparr>)
        in e1\<lparr>eCertFingerprint := fp, ePendingFingerprint := [], ePendingSince := zero_time,
              ePinUpdatedAt := now\<rparr>)"

subsection \<open>Registration\<close>

text \<open>The entries are pointers in Go; a mutation of one is a write of the changed record.\<close>

definition store_entry :: "string \<Rightarrow> entry \<Rightarrow> registry \<Rightarrow> registry" where
  "store_entry s e r = r\<lparr>rEntries := put s e (rEntries r), rDirty := True\<rparr>"

definition drop_entry :: "string \<Rightarrow> entry \<Rightarrow> registry \<Rightarrow> registry" where
  "drop_entry s e r = r\<lparr>rEntries := del s (rEntries r), rTokens := del (eTokenHash e) (rTokens r)\<rparr>"

definition fresh_entry :: "digest \<Rightarrow> time \<Rightarrow> string \<Rightarrow> string \<Rightarrow> string \<Rightarrow> entry" where
  "fresh_entry H now subdomain ip newToken =
     \<lparr>eSubdomain = subdomain, eIP = ip, eTokenHash = hashToken H newToken, eToken = newToken,
      eCreatedAt = now, eLastSeen = now, eCertFingerprint = [], ePendingFingerprint = [],
      ePendingSince = zero_time, ePrevFingerprint = [], ePrevSince = zero_time,
      ePinUpdatedAt = zero_time, eFirstPinnedAt = zero_time, eProvenAt = zero_time,
      eProofExpiry = zero_time, eProofKeySPKI = [], eProofProtocol = [], eChallengeNonce = [],
      eChallengeExpiry = zero_time, eFirstProvenAt = zero_time\<rparr>"

definition release_spent :: "time \<Rightarrow> string \<Rightarrow> registry \<Rightarrow> registry" where
  "release_spent now subdomain r =
     (case get (rEntries r) subdomain of
        None \<Rightarrow> r
      | Some existing \<Rightarrow>
          if isReleasableLocked now r existing then drop_entry subdomain existing r else r)"

definition Register ::
  "digest \<Rightarrow> time \<Rightarrow> string option \<Rightarrow> registry \<Rightarrow> string \<Rightarrow> string \<Rightarrow> string
     \<Rightarrow> registry \<times> entry option \<times> Outcome \<times> reg_error option" where
  "Register H now newToken r0 subdomain ip token =
     (let r = release_spent now subdomain r0 in
      case get (rEntries r) subdomain of
        Some existing \<Rightarrow>
          (let authorised = tokenMatches H existing token;
               reviving = isExpiredLocked now r existing
           in if \<not> authorised \<and> eIP existing = ip then (r, Some existing, Unauthenticated, None)
              else if \<not> authorised then (r, None, Unauthenticated, Some (ErrSubdomainTaken subdomain))
              else if eIP existing = ip then
                let e1 = (if reviving then clearProofLocked existing else existing);
                    e2 = e1\<lparr>eLastSeen := now\<rparr>
                in (store_entry subdomain e2 r, Some e2, Renewed, None)
              else
                let e2 = clearProofLocked (clearPinLocked now (existing\<lparr>eIP := ip, eLastSeen := now\<rparr>))
                in (store_entry subdomain e2 r, Some e2, Moved, None))
      | None \<Rightarrow>
          (case newToken of
             None \<Rightarrow> (r, None, Created, Some ErrGeneratingToken)
           | Some t \<Rightarrow>
               let e = fresh_entry H now subdomain ip t;
                   r1 = r\<lparr>rEntries := put subdomain e (rEntries r)\<rparr>;
                   r2 = r1\<lparr>rTokens := put (eTokenHash e) subdomain (rTokens r1)\<rparr>
               in (r2\<lparr>rDirty := True\<rparr>, Some e, Created, None)))"

definition Deregister :: "digest \<Rightarrow> registry \<Rightarrow> string \<Rightarrow> registry \<times> (reg_error + string)" where
  "Deregister H r token =
     (case get (rTokens r) (hashToken H token) of
        None \<Rightarrow> (r, Inl ErrInvalidToken)
      | Some subdomain \<Rightarrow>
          if token = [] then (r, Inl ErrInvalidToken)
          else case get (rEntries r) subdomain of
                 None \<Rightarrow> (r, Inl ErrInvalidToken)
               | Some e \<Rightarrow>
                   if \<not> tokenMatches H e token then (r, Inl ErrInvalidToken)
                   else (r\<lparr>rEntries := del subdomain (rEntries r),
                           rTokens := del (hashToken H token) (rTokens r), rDirty := True\<rparr>,
                         Inr subdomain))"

definition HeldBy :: "digest \<Rightarrow> registry \<Rightarrow> string \<Rightarrow> string \<Rightarrow> bool" where
  "HeldBy H r subdomain token =
     (case get (rEntries r) subdomain of None \<Rightarrow> False | Some e \<Rightarrow> tokenMatches H e token)"

definition Lookup :: "time \<Rightarrow> registry \<Rightarrow> string \<Rightarrow> entry option" where
  "Lookup now r subdomain =
     (case get (rEntries r) subdomain of
        None \<Rightarrow> None
      | Some e \<Rightarrow> if isExpiredLocked now r e then None else Some e)"

definition Ping :: "digest \<Rightarrow> time \<Rightarrow> registry \<Rightarrow> string \<Rightarrow> registry \<times> reg_error option" where
  "Ping H now r token =
     (case get (rTokens r) (hashToken H token) of
        None \<Rightarrow> (r, Some ErrInvalidToken)
      | Some subdomain \<Rightarrow>
          if token = [] then (r, Some ErrInvalidToken)
          else case get (rEntries r) subdomain of
                 None \<Rightarrow> (r, Some ErrSubdomainNotFound)
               | Some e \<Rightarrow>
                   if \<not> tokenMatches H e token then (r, Some ErrInvalidToken)
                   else if isExpiredLocked now r e then (r, Some (ErrLapsed subdomain))
                   else (store_entry subdomain (e\<lparr>eLastSeen := now\<rparr>) r, None))"

subsection \<open>The periodic sweep\<close>

definition pending_stale :: "time \<Rightarrow> entry \<Rightarrow> bool" where
  "pending_stale now e \<longleftrightarrow>
     ePendingFingerprint e \<noteq> [] \<and> pendingPinTTL < time_Sub now (ePendingSince e)"

definition prev_stale :: "time \<Rightarrow> entry \<Rightarrow> bool" where
  "prev_stale now e \<longleftrightarrow> ePrevFingerprint e \<noteq> [] \<and> prevPinTTL < time_Sub now (ePrevSince e)"

definition expire_pins :: "time \<Rightarrow> entry \<Rightarrow> entry" where
  "expire_pins now e =
     (let e1 = (if pending_stale now e
                then e\<lparr>ePendingFingerprint := [], ePendingSince := zero_time\<rparr> else e)
      in if prev_stale now e1 then e1\<lparr>ePrevFingerprint := [], ePrevSince := zero_time\<rparr> else e1)"

text \<open>One turn of the loop of \<open>Cleanup\<close>, and the loop over the map's entries.\<close>

definition cleanup_turn :: "time \<Rightarrow> string \<times> entry \<Rightarrow> registry \<times> string list \<Rightarrow> registry \<times> string list" where
  "cleanup_turn now se acc =
     (case se of (s, e) \<Rightarrow> case acc of (r, removed) \<Rightarrow>
        if isReleasableLocked now r e then (drop_entry s e r, removed @ [s])
        else (r\<lparr>rEntries := put s (expire_pins now e) (rEntries r),
                rDirty := rDirty r \<or> pending_stale now e \<or> prev_stale now e\<rparr>, removed))"

definition Cleanup :: "time \<Rightarrow> registry \<Rightarrow> registry \<times> string list" where
  "Cleanup now r = fold (cleanup_turn now) (rEntries r) (r, [])"

definition Count :: "time \<Rightarrow> registry \<Rightarrow> nat" where
  "Count now r = length (filter (\<lambda>(s, e). \<not> isExpiredLocked now r e) (rEntries r))"

subsection \<open>Certificate pins\<close>

record PinState_t =
  Current :: string
  Pending :: string
  Prev :: string
  FirstPinnedAt :: time

definition no_pins :: PinState_t where
  "no_pins = \<lparr>Current = [], Pending = [], Prev = [], FirstPinnedAt = zero_time\<rparr>"

definition InFirstPinSettle :: "time \<Rightarrow> PinState_t \<Rightarrow> bool" where
  "InFirstPinSettle now ps \<longleftrightarrow>
     FirstPinnedAt ps \<noteq> zero_time \<and> time_Sub now (FirstPinnedAt ps) < firstPinSettleWindow"

definition Pinned :: "PinState_t \<Rightarrow> bool" where
  "Pinned ps \<longleftrightarrow> Current ps \<noteq> []"

definition PinState :: "time \<Rightarrow> registry \<Rightarrow> string \<Rightarrow> PinState_t" where
  "PinState now r subdomain =
     (case get (rEntries r) subdomain of
        None \<Rightarrow> no_pins
      | Some e \<Rightarrow>
          \<lparr>Current = eCertFingerprint e,
           Pending = (if ePendingFingerprint e \<noteq> [] \<and> time_Sub now (ePendingSince e) \<le> pendingPinTTL
                      then ePendingFingerprint e else []),
           Prev = (if ePrevFingerprint e \<noteq> [] \<and> time_Sub now (ePrevSince e) \<le> prevPinTTL
                   then ePrevFingerprint e else []),
           FirstPinnedAt = eFirstPinnedAt e\<rparr>)"

definition AssertPin :: "digest \<Rightarrow> registry \<Rightarrow> string \<Rightarrow> string \<Rightarrow> string \<Rightarrow> registry \<times> AssertResult" where
  "AssertPin H r subdomain token fp =
     (case get (rEntries r) subdomain of
        None \<Rightarrow> (r, AssertInvalidToken)
      | Some e \<Rightarrow>
          if \<not> tokenMatches H e token then (r, AssertInvalidToken)
          else if FingerprintsEqual (eCertFingerprint e) fp then
            (if ePendingFingerprint e \<noteq> [] \<or> ePrevFingerprint e \<noteq> []
             then store_entry subdomain
                    (e\<lparr>ePendingFingerprint := [], ePendingSince := zero_time,
                       ePrevFingerprint := [], ePrevSince := zero_time\<rparr>) r
             else r, AssertActive)
          else (r, AssertNeedsDial))"

text \<open>
  \<open>activateLocked\<close> sets the dirty flag only when it changes the entry.
\<close>

definition activate_at :: "time \<Rightarrow> registry \<Rightarrow> string \<Rightarrow> entry \<Rightarrow> string \<Rightarrow> registry" where
  "activate_at now r s e fp =
     (if FingerprintsEqual (eCertFingerprint e) fp then r
      else store_entry s (activateLocked now e fp) r)"

definition ActivatePin :: "digest \<Rightarrow> time \<Rightarrow> registry \<Rightarrow> string \<Rightarrow> string \<Rightarrow> string \<Rightarrow> registry \<times> bool" where
  "ActivatePin H now r subdomain token fp =
     (case get (rEntries r) subdomain of
        None \<Rightarrow> (r, False)
      | Some e \<Rightarrow>
          if \<not> tokenMatches H e token then (r, False) else (activate_at now r subdomain e fp, True))"

definition StorePendingPin ::
  "digest \<Rightarrow> time \<Rightarrow> registry \<Rightarrow> string \<Rightarrow> string \<Rightarrow> string \<Rightarrow> registry \<times> bool" where
  "StorePendingPin H now r subdomain token fp =
     (case get (rEntries r) subdomain of
        None \<Rightarrow> (r, False)
      | Some e \<Rightarrow>
          if \<not> tokenMatches H e token then (r, False)
          else (store_entry subdomain
                  (e\<lparr>ePendingFingerprint := fp, ePendingSince := now, ePinUpdatedAt := now\<rparr>) r, True))"

definition PromoteOnObserve :: "time \<Rightarrow> registry \<Rightarrow> string \<Rightarrow> string \<Rightarrow> registry \<times> bool" where
  "PromoteOnObserve now r subdomain observed =
     (case get (rEntries r) subdomain of
        None \<Rightarrow> (r, False)
      | Some e \<Rightarrow>
          if \<not> FingerprintsEqual (ePendingFingerprint e) observed then (r, False)
          else if pendingPinTTL < time_Sub now (ePendingSince e) then (r, False)
          else (activate_at now r subdomain e observed, True))"

subsection \<open>Proof of possession\<close>

datatype challenge_result =
    ChallengeError \<comment> \<open>accepted, but no nonce could be minted\<close>
  | ChallengeRefused
  | ChallengeNonce string

definition IssueChallenge ::
  "digest \<Rightarrow> time \<Rightarrow> string option \<Rightarrow> registry \<Rightarrow> string \<Rightarrow> string \<Rightarrow> registry \<times> challenge_result" where
  "IssueChallenge H now newNonce r subdomain token =
     (case get (rEntries r) subdomain of
        None \<Rightarrow> (r, ChallengeRefused)
      | Some e \<Rightarrow>
          if \<not> tokenMatches H e token then (r, ChallengeRefused)
          else if isExpiredLocked now r e then (r, ChallengeRefused)
          else if eChallengeNonce e \<noteq> [] \<and> now < eChallengeExpiry e
          then (r, ChallengeNonce (eChallengeNonce e))
          else case newNonce of
                 None \<Rightarrow> (r, ChallengeError)
               | Some n \<Rightarrow>
                   (store_entry subdomain
                      (e\<lparr>eChallengeNonce := n, eChallengeExpiry := now + challengeTTL\<rparr>) r,
                    ChallengeNonce n))"

definition ChallengeMatches :: "digest \<Rightarrow> time \<Rightarrow> registry \<Rightarrow> string \<Rightarrow> string \<Rightarrow> string \<Rightarrow> bool" where
  "ChallengeMatches H now r subdomain token nonce =
     (case get (rEntries r) subdomain of
        None \<Rightarrow> False
      | Some e \<Rightarrow>
          tokenMatches H e token \<and> \<not> (eChallengeNonce e = [] \<or> eChallengeExpiry e < now) \<and>
          nonceMatches (eChallengeNonce e) nonce)"

definition record_proof :: "time \<Rightarrow> string \<Rightarrow> string \<Rightarrow> entry \<Rightarrow> entry" where
  "record_proof now spki protocol e =
     (let e1 = (if eFirstProvenAt e = zero_time then e\<lparr>eFirstProvenAt := now\<rparr> else e)
      in e1\<lparr>eProvenAt := now, eProofExpiry := now + proofLease, eProofKeySPKI := spki,
            eProofProtocol := protocol, eChallengeNonce := [], eChallengeExpiry := zero_time\<rparr>)"

definition RecordProof ::
  "digest \<Rightarrow> time \<Rightarrow> registry \<Rightarrow> string \<Rightarrow> string \<Rightarrow> string \<Rightarrow> string \<Rightarrow> string \<Rightarrow> registry \<times> bool" where
  "RecordProof H now r subdomain token nonce spki protocol =
     (case get (rEntries r) subdomain of
        None \<Rightarrow> (r, False)
      | Some e \<Rightarrow>
          if \<not> tokenMatches H e token then (r, False)
          else if isExpiredLocked now r e then (r, False)
          else if eChallengeNonce e = [] \<or> \<not> nonceMatches (eChallengeNonce e) nonce then (r, False)
          else if eChallengeExpiry e < now then (r, False)
          else (store_entry subdomain (record_proof now spki protocol e) r, True))"

definition Challenge :: "time \<Rightarrow> registry \<Rightarrow> string \<Rightarrow> string" where
  "Challenge now r subdomain =
     (case get (rEntries r) subdomain of
        None \<Rightarrow> []
      | Some e \<Rightarrow> if eChallengeNonce e = [] \<or> eChallengeExpiry e < now then [] else eChallengeNonce e)"

definition Routable :: "time \<Rightarrow> registry \<Rightarrow> string \<Rightarrow> bool" where
  "Routable now r subdomain =
     (case get (rEntries r) subdomain of
        None \<Rightarrow> False
      | Some e \<Rightarrow> if isExpiredLocked now r e then False else proofValidLocked now e)"

definition ProofAuthorizes :: "time \<Rightarrow> registry \<Rightarrow> string \<Rightarrow> string \<Rightarrow> bool" where
  "ProofAuthorizes now r subdomain observed =
     (case get (rEntries r) subdomain of
        None \<Rightarrow> False
      | Some e \<Rightarrow>
          if isExpiredLocked now r e then False
          else if \<not> leaseCurrentLocked now e then False
          else FingerprintsEqual (eProofKeySPKI e) observed)"

definition ProvenKey :: "time \<Rightarrow> registry \<Rightarrow> string \<Rightarrow> string" where
  "ProvenKey now r subdomain =
     (case get (rEntries r) subdomain of
        None \<Rightarrow> []
      | Some e \<Rightarrow> if \<not> leaseCurrentLocked now e then [] else eProofKeySPKI e)"

subsection \<open>Audit counters\<close>

definition oldest_age :: "time \<Rightarrow> entry list \<Rightarrow> duration" where
  "oldest_age now es = fold (\<lambda>e oldest. max oldest (time_Sub now (eCreatedAt e))) es 0"

definition UnpinnedSummary :: "time \<Rightarrow> registry \<Rightarrow> nat \<times> duration" where
  "UnpinnedSummary now r =
     (let es = filter (\<lambda>e. \<not> (isExpiredLocked now r e \<or> eCertFingerprint e \<noteq> [])) (map snd (rEntries r))
      in (length es, oldest_age now es))"

definition UnprovenSummary :: "time \<Rightarrow> registry \<Rightarrow> nat \<times> duration" where
  "UnprovenSummary now r =
     (let es = filter (\<lambda>e. \<not> isExpiredLocked now r e \<and> \<not> proofValidLocked now e) (map snd (rEntries r))
      in (length es, oldest_age now es))"

definition NewestProofAge :: "time \<Rightarrow> registry \<Rightarrow> duration option" where
  "NewestProofAge now r =
     (let newest = fold (\<lambda>e t. if isExpiredLocked now r e then t else max t (eProvenAt e))
                     (map snd (rEntries r)) zero_time
      in if newest = zero_time then None else Some (time_Sub now newest))"

definition ProofOverdue :: "time \<Rightarrow> registry \<Rightarrow> duration \<Rightarrow> nat" where
  "ProofOverdue now r window =
     (let cutoff = now - window
      in length (filter (\<lambda>e. \<not> (isExpiredLocked now r e \<or> \<not> cutoff < eLastSeen e) \<and>
                             (\<not> proofValidLocked now e \<or> \<not> cutoff < eProvenAt e))
           (map snd (rEntries r))))"

end
