(* ===== verification/Gateway_Run.thy ===== *)
theory Gateway_Run
  imports Gateway_Registry
begin

text \<open>
  Runs of the registry: every state-changing method as one operation, the effect of an
  operation, the runs that respect the clock and what the callers check before they call, and
  the invariants of every run.
\<close>

subsection \<open>Operations and their effect\<close>

datatype op =
    OpRegister "string option" string string string
  | OpDeregister string
  | OpPing string
  | OpCleanup
  | OpAssertPin string string string
  | OpActivatePin string string string
  | OpStorePendingPin string string string
  | OpPromoteOnObserve string string
  | OpIssueChallenge "string option" string string
  | OpRecordProof string string string string string

fun exec :: "digest \<Rightarrow> time \<Rightarrow> registry \<Rightarrow> op \<Rightarrow> registry" where
  "exec H now r (OpRegister newToken s ip tok) = fst (Register H now newToken r s ip tok)"
| "exec H now r (OpDeregister tok) = fst (Deregister H r tok)"
| "exec H now r (OpPing tok) = fst (Ping H now r tok)"
| "exec H now r OpCleanup = fst (Cleanup now r)"
| "exec H now r (OpAssertPin s tok fp) = fst (AssertPin H r s tok fp)"
| "exec H now r (OpActivatePin s tok fp) = fst (ActivatePin H now r s tok fp)"
| "exec H now r (OpStorePendingPin s tok fp) = fst (StorePendingPin H now r s tok fp)"
| "exec H now r (OpPromoteOnObserve s observed) = fst (PromoteOnObserve now r s observed)"
| "exec H now r (OpIssueChallenge newNonce s tok) = fst (IssueChallenge H now newNonce r s tok)"
| "exec H now r (OpRecordProof s tok nonce spki protocol) =
     fst (RecordProof H now r s tok nonce spki protocol)"

text \<open>The credential an operation presents.\<close>

fun op_token :: "op \<Rightarrow> string option" where
  "op_token (OpRegister _ _ _ tok) = Some tok"
| "op_token (OpDeregister tok) = Some tok"
| "op_token (OpPing tok) = Some tok"
| "op_token OpCleanup = None"
| "op_token (OpAssertPin _ tok _) = Some tok"
| "op_token (OpActivatePin _ tok _) = Some tok"
| "op_token (OpStorePendingPin _ tok _) = Some tok"
| "op_token (OpPromoteOnObserve _ _) = None"
| "op_token (OpIssueChallenge _ _ tok) = Some tok"
| "op_token (OpRecordProof _ tok _ _ _) = Some tok"

text \<open>
  What the callers guarantee: a token from \<open>crypto/rand\<close> is not one already in use, and the
  handlers pass only well-formed fingerprints on (\<open>handlePinAssert\<close> calls \<open>ValidFingerprint\<close>
  first).
\<close>

fun admissible :: "digest \<Rightarrow> registry \<Rightarrow> op \<Rightarrow> bool" where
  "admissible H r (OpRegister (Some t) s ip tok) = (t \<noteq> [] \<and> get (rTokens r) (hashToken H t) = None)"
| "admissible H r (OpActivatePin s tok fp) = ValidFingerprint fp"
| "admissible H r (OpStorePendingPin s tok fp) = ValidFingerprint fp"
| "admissible H r _ = True"

text \<open>A run from a registry with the settings of \<open>r0\<close> and no entries; the clock never goes back.\<close>

definition empty_registry :: "registry \<Rightarrow> bool" where
  "empty_registry r \<longleftrightarrow> rEntries r = [] \<and> rTokens r = []"

inductive run :: "digest \<Rightarrow> registry \<Rightarrow> (time \<times> op) list \<Rightarrow> time \<Rightarrow> registry \<Rightarrow> bool"
  for H :: digest and r0 :: registry where
  start: "empty_registry r0 \<Longrightarrow> run H r0 [] zero_time r0"
| step: "run H r0 tr clock r \<Longrightarrow> clock \<le> now \<Longrightarrow> zero_time < now \<Longrightarrow> admissible H r op \<Longrightarrow>
    run H r0 (tr @ [(now, op)]) now (exec H now r op)"

inductive_cases run_stepE: "run H r0 (tr @ [x]) clock r"

subsection \<open>The settings never change\<close>

definition settings :: "registry \<Rightarrow> duration \<times> duration \<times> bool" where
  "settings r = (rInactivityTTL r, rTombstoneTTL r, rEnforceProof r)"

lemma lapsed_settings:
  "settings r = settings r' \<Longrightarrow> lapsedAtLocked now r e = lapsedAtLocked now r' e"
  by (auto simp: lapsedAtLocked_def settings_def Let_def)

lemma expired_settings:
  "settings r = settings r' \<Longrightarrow> isExpiredLocked now r e = isExpiredLocked now r' e"
  by (simp add: isExpiredLocked_def lapsed_settings [of r r'])

lemma releasable_settings:
  "settings r = settings r' \<Longrightarrow> isReleasableLocked now r e = isReleasableLocked now r' e"
  by (cases "lapsedAtLocked now r' e")
     (simp_all add: isReleasableLocked_def lapsed_settings [of r r'], auto simp: settings_def)

lemma settings_store_entry [simp]: "settings (store_entry s e r) = settings r"
  by (simp add: store_entry_def settings_def)

lemma settings_drop_entry [simp]: "settings (drop_entry s e r) = settings r"
  by (simp add: drop_entry_def settings_def)

lemma settings_release_spent [simp]: "settings (release_spent now s r) = settings r"
  by (simp add: release_spent_def split: option.splits)

lemma settings_cleanup_turn [simp]: "settings (fst (cleanup_turn now x acc)) = settings (fst acc)"
  by (auto simp: cleanup_turn_def settings_def drop_entry_def split: prod.splits)

lemma settings_cleanup_fold [simp]:
  "settings (fst (fold (cleanup_turn now) l acc)) = settings (fst acc)"
  by (induction l arbitrary: acc) auto

lemma settings_exec [simp]: "settings (exec H now r op) = settings r"
proof (cases op)
  case (OpRegister newToken s ip tok)
  then show ?thesis
    by (auto simp: Register_def Let_def split: option.splits)
       (simp_all add: settings_def release_spent_def drop_entry_def split: option.splits)
qed (auto simp: Deregister_def Ping_def Cleanup_def AssertPin_def ActivatePin_def activate_at_def
       StorePendingPin_def PromoteOnObserve_def IssueChallenge_def RecordProof_def
       split: option.splits,
     simp add: settings_def)

subsection \<open>The sweep, entry by entry\<close>

lemma cleanup_fold_entries:
  assumes "distinct_keys l"
  shows "get (rEntries (fst (fold (cleanup_turn now) l (r, removed)))) s =
    (case get l s of
       None \<Rightarrow> get (rEntries r) s
     | Some e \<Rightarrow> if isReleasableLocked now r e then None else Some (expire_pins now e))"
  using assms
proof (induction l arbitrary: r removed)
  case Nil
  then show ?case by simp
next
  case (Cons x l)
  obtain k e where x: "x = (k, e)" by (cases x)
  obtain r1 rem1 where turn: "cleanup_turn now x (r, removed) = (r1, rem1)"
    by (cases "cleanup_turn now x (r, removed)")
  have dist: "distinct_keys l" and notin: "get l k = None"
    using Cons.prems x by (auto simp: distinct_keys_def map_of_eq_None_iff)
  have same: "settings r1 = settings r"
    using settings_cleanup_turn [of now x "(r, removed)"] turn by simp
  have r1: "get (rEntries r1) =
      (get (rEntries r))(k := if isReleasableLocked now r e then None else Some (expire_pins now e))"
    using turn x by (auto simp: cleanup_turn_def drop_entry_def gomap.rd_wr gomap.rd_rm split: if_splits)
  show ?case
    using Cons.IH [OF dist, of r1 rem1] turn x notin r1
    by (auto simp: releasable_settings [OF same] split: option.splits)
qed

lemma get_Cleanup:
  assumes "distinct_keys (rEntries r)"
  shows "get (rEntries (fst (Cleanup now r))) s =
    (case get (rEntries r) s of
       None \<Rightarrow> None
     | Some e \<Rightarrow> if isReleasableLocked now r e then None else Some (expire_pins now e))"
  using cleanup_fold_entries [OF assms, of now r "[]" s] by (simp add: Cleanup_def split: option.splits)

subsection \<open>What each entry update leaves alone\<close>

lemma tokenHash_updates [simp]:
  "eTokenHash (clearPinLocked now e) = eTokenHash e"
  "eTokenHash (clearProofLocked e) = eTokenHash e"
  "eTokenHash (activateLocked now e fp) = eTokenHash e"
  "eTokenHash (expire_pins now e) = eTokenHash e"
  "eTokenHash (record_proof now spki protocol e) = eTokenHash e"
  "eTokenHash (fresh_entry H now s ip t) = hashToken H t"
  by (simp_all add: clearPinLocked_def clearProofLocked_def activateLocked_def expire_pins_def
      record_proof_def fresh_entry_def Let_def)

subsection \<open>The token index\<close>

definition reg_index :: "registry \<Rightarrow> bool" where
  "reg_index r = indexed eTokenHash (rEntries r) (rTokens r)"

lemma reg_index_dirty [simp]: "reg_index (r\<lparr>rDirty := d\<rparr>) = reg_index r"
  by (simp add: reg_index_def)

lemma reg_index_distinct: "reg_index r \<Longrightarrow> distinct_keys (rEntries r)"
  by (simp add: reg_index_def indexed_distinct)

lemma reg_index_store_entry:
  "reg_index r \<Longrightarrow> get (rEntries r) s = Some e \<Longrightarrow> eTokenHash e' = eTokenHash e \<Longrightarrow>
     reg_index (store_entry s e' r)"
  by (simp add: reg_index_def store_entry_def indexed_modify)

lemma reg_index_drop_entry:
  "reg_index r \<Longrightarrow> get (rEntries r) s = Some e \<Longrightarrow> reg_index (drop_entry s e r)"
  by (simp add: reg_index_def drop_entry_def indexed_delete)

lemma reg_index_release_spent: "reg_index r \<Longrightarrow> reg_index (release_spent now s r)"
  by (simp add: release_spent_def reg_index_drop_entry split: option.splits)

lemma reg_index_cleanup_turn:
  assumes "reg_index r" and "get (rEntries r) s = Some e"
  shows "reg_index (fst (cleanup_turn now (s, e) (r, removed)))"
  using assms reg_index_drop_entry [OF assms]
  by (simp add: cleanup_turn_def) (simp add: reg_index_def indexed_modify)

lemma reg_index_cleanup_fold:
  assumes "reg_index r" and "distinct_keys l"
    and "\<And>s e. (s, e) \<in> set l \<Longrightarrow> get (rEntries r) s = Some e"
  shows "reg_index (fst (fold (cleanup_turn now) l (r, removed)))"
  using assms
proof (induction l arbitrary: r removed)
  case Nil
  then show ?case by simp
next
  case (Cons x l)
  obtain k e where x: "x = (k, e)" by (cases x)
  obtain r1 rem1 where turn: "cleanup_turn now x (r, removed) = (r1, rem1)"
    by (cases "cleanup_turn now x (r, removed)")
  have "reg_index r1"
    using reg_index_cleanup_turn [of r k e now removed] Cons.prems turn x by simp
  moreover have "distinct_keys l"
    using Cons.prems x by (simp add: distinct_keys_def)
  moreover have "get (rEntries r1) s = Some d" if "(s, d) \<in> set l" for s d
  proof -
    have "s \<noteq> k"
      using that Cons.prems(2) x by (force simp: distinct_keys_def)
    then have "get (rEntries r1) s = get (rEntries r) s"
      using turn x by (auto simp: cleanup_turn_def drop_entry_def go_map split: if_splits)
    then show ?thesis
      using Cons.prems(3) that by simp
  qed
  ultimately show ?case
    using Cons.IH [of r1 rem1] turn by simp
qed

lemma reg_index_Cleanup: "reg_index r \<Longrightarrow> reg_index (fst (Cleanup now r))"
  unfolding Cleanup_def
  by (rule reg_index_cleanup_fold) (auto simp: reg_index_distinct get_in_set)

lemma tokens_release_spent:
  "get (rTokens r) h = None \<Longrightarrow> get (rTokens (release_spent now s r)) h = None"
  by (auto simp: release_spent_def drop_entry_def gomap.rd_rm split: option.splits)

lemma reg_index_Register:
  assumes "reg_index r" and "\<And>t. newToken = Some t \<Longrightarrow> get (rTokens r) (hashToken H t) = None"
  shows "reg_index (fst (Register H now newToken r s ip tok))"
proof -
  let ?r = "release_spent now s r"
  have idx: "reg_index ?r"
    using assms(1) by (rule reg_index_release_spent)
  show ?thesis
  proof (cases "get (rEntries ?r) s")
    case None
    show ?thesis
    proof (cases newToken)
      case (Some t)
      have "get (rTokens ?r) (hashToken H t) = None"
        using assms(2) [OF Some] by (rule tokens_release_spent)
      then show ?thesis
        using idx None Some indexed_insert [of eTokenHash "rEntries ?r" "rTokens ?r" s "fresh_entry H now s ip t"]
        by (simp add: Register_def Let_def reg_index_def)
    qed (use idx None in \<open>simp add: Register_def Let_def\<close>)
  next
    case (Some e)
    then show ?thesis
      using idx by (auto simp: Register_def Let_def intro!: reg_index_store_entry)
  qed
qed

lemma reg_index_Deregister: "reg_index r \<Longrightarrow> reg_index (fst (Deregister H r tok))"
  using indexed_delete [of eTokenHash "rEntries r" "rTokens r"]
  by (auto simp: Deregister_def reg_index_def tokenMatches_def split: option.splits)
     (metis)

theorem reg_index_exec:
  assumes "reg_index r" and "admissible H r op"
  shows "reg_index (exec H now r op)"
proof (cases op)
  case (OpRegister newToken s ip tok)
  with assms show ?thesis
    by (cases newToken) (auto intro!: reg_index_Register)
qed (use assms in \<open>auto simp: Ping_def AssertPin_def ActivatePin_def activate_at_def
       StorePendingPin_def PromoteOnObserve_def IssueChallenge_def RecordProof_def
       reg_index_Deregister reg_index_Cleanup
       split: option.splits intro!: reg_index_store_entry\<close>)

subsection \<open>A rule for invariants of the entries\<close>

text \<open>
  What has to be shown so that \<open>P\<close> of every entry before an operation gives \<open>Q\<close> of every entry
  after it: one law per way the code writes an entry.
\<close>

definition entries_sat :: "(string \<Rightarrow> entry \<Rightarrow> bool) \<Rightarrow> registry \<Rightarrow> bool" where
  "entries_sat P r \<longleftrightarrow> (\<forall>s e. get (rEntries r) s = Some e \<longrightarrow> P s e)"

lemma entries_satI: "(\<And>s e. get (rEntries r) s = Some e \<Longrightarrow> P s e) \<Longrightarrow> entries_sat P r"
  by (simp add: entries_sat_def)

lemma entries_satD: "entries_sat P r \<Longrightarrow> get (rEntries r) s = Some e \<Longrightarrow> P s e"
  by (simp add: entries_sat_def)

lemma entries_sat_store_entry: "entries_sat P r \<Longrightarrow> P s e \<Longrightarrow> entries_sat P (store_entry s e r)"
  by (simp add: entries_sat_def store_entry_def gomap.rd_wr)

lemma entries_sat_drop_entry: "entries_sat P r \<Longrightarrow> entries_sat P (drop_entry s e r)"
  by (simp add: entries_sat_def drop_entry_def gomap.rd_rm)

lemma entries_sat_release_spent: "entries_sat P r \<Longrightarrow> entries_sat P (release_spent now s r)"
  by (simp add: release_spent_def entries_sat_drop_entry split: option.splits)

lemma entries_sat_mono: "entries_sat P r \<Longrightarrow> (\<And>s e. P s e \<Longrightarrow> Q s e) \<Longrightarrow> entries_sat Q r"
  by (simp add: entries_sat_def)

locale entry_rule =
  fixes H :: digest and now :: time and op :: op
    and P :: "string \<Rightarrow> entry \<Rightarrow> bool" and Q :: "string \<Rightarrow> entry \<Rightarrow> bool"
  assumes keep: "P s e \<Longrightarrow> Q s e"
    and fresh: "op = OpRegister (Some t) s ip tok \<Longrightarrow> Q s (fresh_entry H now s ip t)"
    and touch: "P s e \<Longrightarrow> tokenMatches H e tok \<Longrightarrow> op_token op = Some tok \<Longrightarrow> Q s (e\<lparr>eLastSeen := now\<rparr>)"
    and revive: "op = OpRegister nt s (eIP e) tok \<Longrightarrow> tokenMatches H e tok \<Longrightarrow> P s e \<Longrightarrow>
        Q s ((clearProofLocked e)\<lparr>eLastSeen := now\<rparr>)"
    and move: "op = OpRegister nt s ip tok \<Longrightarrow> tokenMatches H e tok \<Longrightarrow> P s e \<Longrightarrow>
        Q s (clearProofLocked (clearPinLocked now (e\<lparr>eIP := ip, eLastSeen := now\<rparr>)))"
    and sweep: "op = OpCleanup \<Longrightarrow> P s e \<Longrightarrow> Q s (expire_pins now e)"
    and reassert: "op = OpAssertPin s tok fp \<Longrightarrow> tokenMatches H e tok \<Longrightarrow> P s e \<Longrightarrow>
        Q s (e\<lparr>ePendingFingerprint := [], ePendingSince := zero_time,
                ePrevFingerprint := [], ePrevSince := zero_time\<rparr>)"
    and activate: "op = OpActivatePin s tok fp \<Longrightarrow> tokenMatches H e tok \<Longrightarrow> P s e \<Longrightarrow>
        Q s (activateLocked now e fp)"
    and pend: "op = OpStorePendingPin s tok fp \<Longrightarrow> tokenMatches H e tok \<Longrightarrow> P s e \<Longrightarrow>
        Q s (e\<lparr>ePendingFingerprint := fp, ePendingSince := now, ePinUpdatedAt := now\<rparr>)"
    and promote: "op = OpPromoteOnObserve s fp \<Longrightarrow> FingerprintsEqual (ePendingFingerprint e) fp \<Longrightarrow>
        P s e \<Longrightarrow> Q s (activateLocked now e fp)"
    and challenge: "op = OpIssueChallenge (Some n) s tok \<Longrightarrow> tokenMatches H e tok \<Longrightarrow> P s e \<Longrightarrow>
        Q s (e\<lparr>eChallengeNonce := n, eChallengeExpiry := now + challengeTTL\<rparr>)"
    and prove: "op = OpRecordProof s tok nonce spki protocol \<Longrightarrow> tokenMatches H e tok \<Longrightarrow> P s e \<Longrightarrow>
        Q s (record_proof now spki protocol e)"
begin

lemma entries_keep: "entries_sat P r \<Longrightarrow> entries_sat Q r"
  by (erule entries_sat_mono) (rule keep)

lemma entries_write: "entries_sat P r \<Longrightarrow> Q s e \<Longrightarrow> entries_sat Q (store_entry s e r)"
  by (simp add: entries_sat_store_entry entries_keep)

lemma entries_Register:
  assumes "entries_sat P r" and "op = OpRegister nt s ip tok"
  shows "entries_sat Q (fst (Register H now nt r s ip tok))"
proof -
  let ?r = "release_spent now s r"
  have P: "entries_sat P ?r" and Q: "entries_sat Q ?r"
    using assms(1) by (auto intro: entries_sat_release_spent entries_keep)
  show ?thesis
  proof (cases "get (rEntries ?r) s")
    case None
    show ?thesis
      using None Q fresh assms(2)
      by (cases nt) (auto simp: Register_def Let_def entries_sat_def gomap.rd_wr)
  next
    case (Some e)
    have "P s e" using P Some by (rule entries_satD)
    then show ?thesis
      using Some P Q assms(2) touch revive move
      by (auto simp: Register_def Let_def intro!: entries_write)
  qed
qed

lemma entries_Cleanup:
  "distinct_keys (rEntries r) \<Longrightarrow> entries_sat P r \<Longrightarrow> op = OpCleanup \<Longrightarrow>
     entries_sat Q (fst (Cleanup now r))"
  by (auto simp: entries_sat_def get_Cleanup sweep split: option.splits if_splits)

lemma entries_exec:
  assumes "distinct_keys (rEntries r)" and P: "entries_sat P r"
  shows "entries_sat Q (exec H now r op)"
proof (cases op)
  case (OpRegister nt s ip tok)
  with P show ?thesis by (simp add: entries_Register)
next
  case OpCleanup
  with assms show ?thesis by (simp add: entries_Cleanup)
next
  case (OpDeregister tok)
  with entries_keep [OF P] show ?thesis
    by (auto simp: Deregister_def entries_sat_def gomap.rd_rm split: option.splits)
next
  case (OpPing tok)
  with P entries_keep [OF P] touch show ?thesis
    by (auto simp: Ping_def entries_satD split: option.splits intro!: entries_write)
next
  case (OpAssertPin s tok fp)
  with P entries_keep [OF P] reassert show ?thesis
    by (auto simp: AssertPin_def entries_satD split: option.splits intro!: entries_write)
next
  case (OpActivatePin s tok fp)
  with P entries_keep [OF P] activate show ?thesis
    by (auto simp: ActivatePin_def activate_at_def entries_satD split: option.splits intro!: entries_write)
next
  case (OpStorePendingPin s tok fp)
  with P entries_keep [OF P] pend show ?thesis
    by (auto simp: StorePendingPin_def entries_satD split: option.splits intro!: entries_write)
next
  case (OpPromoteOnObserve s fp)
  with P entries_keep [OF P] promote show ?thesis
    by (auto simp: PromoteOnObserve_def activate_at_def entries_satD split: option.splits intro!: entries_write)
next
  case (OpIssueChallenge nonce s tok)
  with P entries_keep [OF P] challenge show ?thesis
    by (auto simp: IssueChallenge_def entries_satD split: option.splits intro!: entries_write)
next
  case (OpRecordProof s tok nonce spki protocol)
  with P entries_keep [OF P] prove show ?thesis
    by (auto simp: RecordProof_def entries_satD split: option.splits intro!: entries_write)
qed

end

lemmas entry_updates =
  clearPinLocked_def clearProofLocked_def activateLocked_def expire_pins_def record_proof_def
  fresh_entry_def Let_def

subsection \<open>Well-formed entries\<close>

definition entry_ok :: "time \<Rightarrow> string \<Rightarrow> entry \<Rightarrow> bool" where
  "entry_ok clock s e \<longleftrightarrow>
     eSubdomain e = s \<and>
     zero_time < eCreatedAt e \<and> eCreatedAt e \<le> eLastSeen e \<and> eLastSeen e \<le> clock \<and>
     (eCertFingerprint e = [] \<longleftrightarrow> eFirstPinnedAt e = zero_time) \<and>
     (ePendingFingerprint e \<noteq> [] \<longrightarrow> zero_time < ePendingSince e \<and> ePendingSince e \<le> clock) \<and>
     (ePrevFingerprint e \<noteq> [] \<longrightarrow> zero_time < ePrevSince e \<and> ePrevSince e \<le> clock) \<and>
     (eChallengeNonce e \<noteq> [] \<longrightarrow> eChallengeExpiry e \<le> clock + challengeTTL) \<and>
     zero_time \<le> eFirstProvenAt e \<and> eFirstProvenAt e \<le> clock \<and>
     (if eProvenAt e = zero_time then eProofKeySPKI e = [] \<and> eProofExpiry e = zero_time
      else zero_time < eFirstProvenAt e \<and> eFirstProvenAt e \<le> eProvenAt e \<and> eProvenAt e \<le> clock \<and>
           eProofExpiry e = eProvenAt e + proofLease)"

fun op_ok :: "op \<Rightarrow> bool" where
  "op_ok (OpActivatePin s tok fp) = ValidFingerprint fp"
| "op_ok (OpStorePendingPin s tok fp) = ValidFingerprint fp"
| "op_ok _ = True"

definition tick :: "time \<Rightarrow> time \<Rightarrow> op \<Rightarrow> bool" where
  "tick clock now op \<longleftrightarrow> clock \<le> now \<and> zero_time < now \<and> op_ok op"

lemma admissible_op_ok: "admissible H r op \<Longrightarrow> op_ok op"
  by (cases op) auto

lemma ValidFingerprint_nonempty: "ValidFingerprint fp \<Longrightarrow> fp \<noteq> []"
  by (auto simp: ValidFingerprint_def)

lemma entry_ok_later: "entry_ok clock s e \<Longrightarrow> clock \<le> now \<Longrightarrow> entry_ok now s e"
  by (auto simp: entry_ok_def split: if_splits)

lemma FingerprintsEqual_iff: "FingerprintsEqual a b \<longleftrightarrow> b \<noteq> [] \<and> a = b"
  by (auto simp: FingerprintsEqual_def)

lemma entry_ok_activate:
  "entry_ok now s e \<Longrightarrow> fp \<noteq> [] \<Longrightarrow> zero_time < now \<Longrightarrow> entry_ok now s (activateLocked now e fp)"
  by (simp add: entry_ok_def activateLocked_def Let_def)

lemma entry_ok_fresh: "zero_time < now \<Longrightarrow> entry_ok now s (fresh_entry H now s ip t)"
  by (simp add: entry_ok_def fresh_entry_def)

lemma entry_ok_touch: "entry_ok now s e \<Longrightarrow> entry_ok now s (e\<lparr>eLastSeen := now\<rparr>)"
  by (simp add: entry_ok_def)

lemma entry_ok_clearProof: "entry_ok now s e \<Longrightarrow> entry_ok now s (clearProofLocked e)"
  by (simp add: entry_ok_def clearProofLocked_def split: if_splits)

lemma entry_ok_clearPin: "entry_ok now s e \<Longrightarrow> entry_ok now s (clearPinLocked t e)"
  by (simp add: entry_ok_def clearPinLocked_def)

lemma entry_ok_move: "entry_ok now s e \<Longrightarrow> entry_ok now s (e\<lparr>eIP := ip\<rparr>)"
  by (simp add: entry_ok_def)

lemma entry_ok_sweep: "entry_ok now s e \<Longrightarrow> entry_ok now s (expire_pins now e)"
  by (simp add: entry_ok_def expire_pins_def Let_def)

lemma entry_ok_reassert: "entry_ok now s e \<Longrightarrow>
    entry_ok now s (e\<lparr>ePendingFingerprint := [], ePendingSince := zero_time,
                       ePrevFingerprint := [], ePrevSince := zero_time\<rparr>)"
  by (simp add: entry_ok_def)

lemma entry_ok_pend: "entry_ok now s e \<Longrightarrow> zero_time < now \<Longrightarrow>
    entry_ok now s (e\<lparr>ePendingFingerprint := fp, ePendingSince := now, ePinUpdatedAt := now\<rparr>)"
  by (simp add: entry_ok_def)

lemma entry_ok_challenge: "entry_ok now s e \<Longrightarrow>
    entry_ok now s (e\<lparr>eChallengeNonce := n, eChallengeExpiry := now + challengeTTL\<rparr>)"
  by (simp add: entry_ok_def)

lemma entry_ok_prove: "entry_ok now s e \<Longrightarrow> zero_time < now \<Longrightarrow>
    entry_ok now s (record_proof now spki protocol e)"
  by (simp add: entry_ok_def record_proof_def Let_def)

lemmas entry_ok_intros =
  entry_ok_fresh entry_ok_touch entry_ok_clearProof entry_ok_clearPin entry_ok_move entry_ok_sweep
  entry_ok_reassert entry_ok_pend entry_ok_challenge entry_ok_prove

interpretation clocked: entry_rule H now op
  "\<lambda>s e. tick clock now op \<longrightarrow> entry_ok clock s e" "\<lambda>s e. tick clock now op \<longrightarrow> entry_ok now s e"
  for H now op clock
proof unfold_locales
  fix s e tok fp
  show "tick clock now op \<longrightarrow> entry_ok now s (activateLocked now e fp)"
    if "op = OpActivatePin s tok fp" and "tick clock now op \<longrightarrow> entry_ok clock s e"
    using that entry_ok_later [of clock s e now] ValidFingerprint_nonempty [of fp]
    by (simp add: tick_def entry_ok_activate)
  show "tick clock now op \<longrightarrow> entry_ok now s (activateLocked now e fp)"
    if "op = OpPromoteOnObserve s fp" and "FingerprintsEqual (ePendingFingerprint e) fp"
      and "tick clock now op \<longrightarrow> entry_ok clock s e"
    using that entry_ok_later [of clock s e now]
    by (simp add: tick_def entry_ok_activate FingerprintsEqual_iff)
  show "tick clock now op \<longrightarrow> entry_ok now s (clearProofLocked (clearPinLocked now (e\<lparr>eIP := ip, eLastSeen := now\<rparr>)))"
    if "tick clock now op \<longrightarrow> entry_ok clock s e" for ip
    using that entry_ok_later [of clock s e now] entry_ok_touch [OF entry_ok_move, of now s e ip]
    by (simp add: tick_def entry_ok_clearProof entry_ok_clearPin)
qed (use entry_ok_later in \<open>blast intro: entry_ok_intros dest: tick_def [THEN iffD1]\<close>)+

subsection \<open>Where the pins come from\<close>

fun asserts :: "digest \<Rightarrow> string \<Rightarrow> string \<Rightarrow> op \<Rightarrow> bool" where
  "asserts H h fp (OpActivatePin s tok f) = (f = fp \<and> tok \<noteq> [] \<and> hashToken H tok = h)"
| "asserts H h fp (OpStorePendingPin s tok f) = (f = fp \<and> tok \<noteq> [] \<and> hashToken H tok = h)"
| "asserts H h fp _ = False"

definition asserted :: "digest \<Rightarrow> (time \<times> op) list \<Rightarrow> string \<Rightarrow> string \<Rightarrow> bool" where
  "asserted H tr h fp = list_ex (\<lambda>(now, op). asserts H h fp op) tr"

definition pins :: "entry \<Rightarrow> string list" where
  "pins e = filter (\<lambda>fp. fp \<noteq> []) [eCertFingerprint e, ePendingFingerprint e, ePrevFingerprint e]"

definition pins_asserted :: "digest \<Rightarrow> (time \<times> op) list \<Rightarrow> entry \<Rightarrow> bool" where
  "pins_asserted H tr e = list_all (asserted H tr (eTokenHash e)) (pins e)"

lemma asserted_snoc [simp]:
  "asserted H (tr @ [(now, op)]) h fp \<longleftrightarrow> asserted H tr h fp \<or> asserts H h fp op"
  by (simp add: asserted_def)

lemma pins_asserted_iff:
  "pins_asserted H tr e \<longleftrightarrow>
     (eCertFingerprint e \<noteq> [] \<longrightarrow> asserted H tr (eTokenHash e) (eCertFingerprint e)) \<and>
     (ePendingFingerprint e \<noteq> [] \<longrightarrow> asserted H tr (eTokenHash e) (ePendingFingerprint e)) \<and>
     (ePrevFingerprint e \<noteq> [] \<longrightarrow> asserted H tr (eTokenHash e) (ePrevFingerprint e))"
  by (auto simp: pins_asserted_def pins_def)

interpretation pinned: entry_rule H now op
  "\<lambda>s. pins_asserted H tr" "\<lambda>s. pins_asserted H (tr @ [(now, op)])" for H now op tr
  by unfold_locales
    (auto simp: pins_asserted_iff entry_updates tokenMatches_def FingerprintsEqual_def)

subsection \<open>Where the proofs come from\<close>

fun proves :: "digest \<Rightarrow> string \<Rightarrow> entry \<Rightarrow> time \<times> op \<Rightarrow> bool" where
  "proves H s e (now, OpRecordProof s' tok nonce spki protocol) =
     (now = eProvenAt e \<and> s' = s \<and> tok \<noteq> [] \<and> hashToken H tok = eTokenHash e \<and>
      spki = eProofKeySPKI e)"
| "proves H s e _ = False"

definition proof_traced :: "digest \<Rightarrow> (time \<times> op) list \<Rightarrow> string \<Rightarrow> entry \<Rightarrow> bool" where
  "proof_traced H tr s e \<longleftrightarrow> eProvenAt e \<noteq> zero_time \<longrightarrow> list_ex (proves H s e) tr"

lemma proves_cong:
  "eProvenAt e' = eProvenAt e \<Longrightarrow> eTokenHash e' = eTokenHash e \<Longrightarrow> eProofKeySPKI e' = eProofKeySPKI e
    \<Longrightarrow> proves H s e' x = proves H s e x"
  by (cases "(H, s, e, x)" rule: proves.cases) auto

lemma proof_traced_cong:
  "proof_traced H tr s e \<Longrightarrow> eProvenAt e' = eProvenAt e \<Longrightarrow> eTokenHash e' = eTokenHash e \<Longrightarrow>
     eProofKeySPKI e' = eProofKeySPKI e \<Longrightarrow> proof_traced H (tr @ [x]) s e'"
  by (auto simp: proof_traced_def list_ex_iff proves_cong [of e' e])

lemma proof_traced_cleared: "eProvenAt e = zero_time \<Longrightarrow> proof_traced H tr s e"
  by (simp add: proof_traced_def)

lemma activateLocked_proof [simp]:
  "eProvenAt (activateLocked now e fp) = eProvenAt e"
  "eProofKeySPKI (activateLocked now e fp) = eProofKeySPKI e"
  "eProofExpiry (activateLocked now e fp) = eProofExpiry e"
  by (simp_all add: activateLocked_def Let_def)

lemma expire_pins_proof [simp]:
  "eProvenAt (expire_pins now e) = eProvenAt e"
  "eProofKeySPKI (expire_pins now e) = eProofKeySPKI e"
  "eProofExpiry (expire_pins now e) = eProofExpiry e"
  by (simp_all add: expire_pins_def Let_def)

interpretation traced: entry_rule H now op
  "proof_traced H tr" "proof_traced H (tr @ [(now, op)])" for H now op tr
  by unfold_locales
    (auto intro: proof_traced_cong proof_traced_cleared simp: clearProofLocked_def fresh_entry_def,
     auto simp: proof_traced_def record_proof_def Let_def tokenMatches_def)

subsection \<open>The invariants of a run\<close>

definition reg_inv :: "digest \<Rightarrow> (time \<times> op) list \<Rightarrow> time \<Rightarrow> registry \<Rightarrow> bool" where
  "reg_inv H tr clock r \<longleftrightarrow>
     reg_index r \<and> entries_sat (entry_ok clock) r \<and>
     entries_sat (\<lambda>s. pins_asserted H tr) r \<and> entries_sat (proof_traced H tr) r"

lemma run_reg_inv: "run H r0 tr clock r \<Longrightarrow> reg_inv H tr clock r"
proof (induction rule: run.induct)
  case start
  then show ?case
    by (simp add: reg_inv_def reg_index_def entries_sat_def empty_registry_def)
next
  case (step tr clock r now op)
  have idx: "reg_index r" and dist: "distinct_keys (rEntries r)"
    using step.IH by (auto simp: reg_inv_def reg_index_distinct)
  have tick: "tick clock now op"
    using step.hyps by (simp add: tick_def admissible_op_ok)
  have "entries_sat (\<lambda>s e. tick clock now op \<longrightarrow> entry_ok clock s e) r"
    using step.IH by (simp add: reg_inv_def entries_sat_def)
  from clocked.entries_exec [OF dist this] tick
  have "entries_sat (entry_ok now) (exec H now r op)"
    by (simp add: entries_sat_def)
  then show ?case
    using step.IH reg_index_exec [OF idx step.hyps(4)]
      pinned.entries_exec [OF dist] traced.entries_exec [OF dist]
    by (simp add: reg_inv_def)
qed

lemma run_settings: "run H r0 tr clock r \<Longrightarrow> settings r = settings r0"
  by (induction rule: run.induct) auto

end
