(* ===== verification/Gateway_Properties.thy ===== *)
theory Gateway_Properties
  imports Gateway_Run
begin

text \<open>
  What the registry promises its clients: who may change a registration, what a routable label
  has behind it, where every accepted fingerprint came from, how long a lapsed label is held for
  its holder, and that the sweep and the audit counters agree with the routing decision.
\<close>

subsection \<open>Sequences of operations\<close>

fun exec_all :: "digest \<Rightarrow> registry \<Rightarrow> (time \<times> op) list \<Rightarrow> registry" where
  "exec_all H r [] = r"
| "exec_all H r ((now, op) # ops) = exec_all H (exec H now r op) ops"

fun admissible_all :: "digest \<Rightarrow> registry \<Rightarrow> time \<Rightarrow> (time \<times> op) list \<Rightarrow> bool" where
  "admissible_all H r clock [] = True"
| "admissible_all H r clock ((now, op) # ops) \<longleftrightarrow>
     clock \<le> now \<and> zero_time < now \<and> admissible H r op \<and> admissible_all H (exec H now r op) now ops"

fun end_clock :: "time \<Rightarrow> (time \<times> op) list \<Rightarrow> time" where
  "end_clock clock [] = clock"
| "end_clock clock ((now, op) # ops) = end_clock now ops"

lemma run_exec_all:
  "run H r0 tr clock r \<Longrightarrow> admissible_all H r clock ops \<Longrightarrow>
     run H r0 (tr @ ops) (end_clock clock ops) (exec_all H r ops)"
proof (induction ops arbitrary: tr clock r)
  case (Cons x ops)
  obtain now op where x: "x = (now, op)" by (cases x)
  have "run H r0 (tr @ [(now, op)]) now (exec H now r op)"
    using Cons.prems x by (auto intro: run.step)
  from Cons.IH [OF this] Cons.prems x show ?case by simp
qed simp

text \<open>A cluster that registers, proves its key and has its pin promoted, as a concrete run.\<close>

definition demo_fp :: string where
  "demo_fp = replicate 64 (CHR ''a'')"

definition demo_ops :: "(time \<times> op) list" where
  "demo_ops = [(1, OpRegister (Some ''tok'') ''lab'' ''198.51.100.7'' []),
     (2, OpIssueChallenge (Some ''n1'') ''lab'' ''tok''),
     (3, OpRecordProof ''lab'' ''tok'' ''n1'' demo_fp ''v1''),
     (4, OpStorePendingPin ''lab'' ''tok'' demo_fp),
     (5, OpPromoteOnObserve ''lab'' demo_fp)]"

definition demo_reg :: registry where
  "demo_reg = exec_all id New demo_ops"

definition demo_entry :: entry where
  "demo_entry = the (get (rEntries demo_reg) ''lab'')"

lemma demo_run: "run id New demo_ops 5 demo_reg"
proof -
  have "run id New [] zero_time New"
    by (rule run.start) (simp add: empty_registry_def New_def)
  moreover have "admissible_all id New zero_time demo_ops"
    by code_simp
  moreover have "end_clock zero_time demo_ops = 5"
    by (simp add: demo_ops_def)
  ultimately show ?thesis
    using run_exec_all [of id New "[]" zero_time New demo_ops] by (simp add: demo_reg_def)
qed

lemma demo_lookup: "get (rEntries demo_reg) ''lab'' = Some demo_entry"
  unfolding demo_entry_def by code_simp

subsection \<open>Strangers\<close>

definition stranger :: "digest \<Rightarrow> entry \<Rightarrow> op \<Rightarrow> bool" where
  "stranger H e op = (case op_token op of None \<Rightarrow> True | Some tok \<Rightarrow> \<not> tokenMatches H e tok)"

text \<open>The part of an entry that decides who holds the label, where it points and what it may serve.\<close>

definition holding :: "entry \<Rightarrow> string \<times> string \<times> time \<times> time \<times> time \<times> string \<times> time \<times> string" where
  "holding e = (eTokenHash e, eIP e, eCreatedAt e, eLastSeen e, eProvenAt e, eProofKeySPKI e,
                eFirstProvenAt e, eChallengeNonce e)"

lemma holding_expire_pins [simp]: "holding (expire_pins now e) = holding e"
  by (simp add: holding_def expire_pins_def Let_def)

lemma holding_activate [simp]: "holding (activateLocked now e fp) = holding e"
  by (simp add: holding_def activateLocked_def Let_def)

lemma cert_expire_pins [simp]: "eCertFingerprint (expire_pins now e) = eCertFingerprint e"
  by (simp add: expire_pins_def Let_def)

lemma cert_activate:
  "FingerprintsEqual a fp \<Longrightarrow> eCertFingerprint (activateLocked now e fp) = fp"
  by (simp add: activateLocked_def Let_def FingerprintsEqual_iff)

definition pin_kept :: "op \<Rightarrow> string \<Rightarrow> entry \<Rightarrow> entry \<Rightarrow> bool" where
  "pin_kept op s e e' \<longleftrightarrow>
     eCertFingerprint e' = eCertFingerprint e \<or>
     (op = OpPromoteOnObserve s (ePendingFingerprint e) \<and>
      eCertFingerprint e' = ePendingFingerprint e)"

lemma stranger_Register:
  assumes "get (rEntries r) s = Some e" and "\<not> isReleasableLocked now r e" and "\<not> tokenMatches H e tok"
  shows "get (rEntries (fst (Register H now nt r s' ip tok))) s = Some e"
proof (cases "s' = s")
  case True
  then show ?thesis
    using assms by (simp add: Register_def Let_def release_spent_def)
next
  case False
  then have "get (rEntries (release_spent now s' r)) s = Some e"
    using assms(1) by (auto simp: release_spent_def drop_entry_def go_map split: option.splits)
  then show ?thesis
    using False by (auto simp: Register_def Let_def store_entry_def go_map split: option.splits)
qed

lemma stranger_Deregister:
  assumes "get (rEntries r) s = Some e" and "\<not> tokenMatches H e tok"
  shows "get (rEntries (fst (Deregister H r tok))) s = Some e"
  using assms by (auto simp: Deregister_def gomap.rd_rm split: option.splits)

lemma stranger_exec:
  assumes "distinct_keys (rEntries r)" and e: "get (rEntries r) s = Some e"
    and held: "\<not> isReleasableLocked now r e" and stranger: "stranger H e op"
  shows "\<exists>e'. get (rEntries (exec H now r op)) s = Some e' \<and> holding e' = holding e \<and> pin_kept op s e e'"
proof (cases op)
  case (OpRegister nt s' ip tok)
  then show ?thesis
    using assms by (simp add: stranger_def stranger_Register pin_kept_def)
next
  case (OpDeregister tok)
  then show ?thesis
    using assms by (simp add: stranger_def stranger_Deregister pin_kept_def)
next
  case OpCleanup
  then show ?thesis
    using assms by (simp add: get_Cleanup pin_kept_def)
next
  case (OpPromoteOnObserve s' fp)
  then show ?thesis
    using e cert_activate
    by (auto simp: PromoteOnObserve_def activate_at_def store_entry_def gomap.rd_wr pin_kept_def
        FingerprintsEqual_iff split: option.splits)
qed (use e stranger in \<open>auto simp: stranger_def Ping_def AssertPin_def ActivatePin_def activate_at_def
       StorePendingPin_def IssueChallenge_def RecordProof_def store_entry_def gomap.rd_wr pin_kept_def
       split: option.splits\<close>)



subsection \<open>The tombstone\<close>

definition hold_deadline :: "registry \<Rightarrow> entry \<Rightarrow> time" where
  "hold_deadline r e = eLastSeen e + rInactivityTTL r + rTombstoneTTL r"

lemma tombstone_held:
  assumes "eFirstProvenAt e \<noteq> zero_time" and "now \<le> hold_deadline r e"
    and "zero_time \<le> rTombstoneTTL r" and "rTombstoneTTL r < max_duration"
  shows "\<not> isReleasableLocked now r e"
proof -
  have "min_duration \<le> rTombstoneTTL r"
    using assms(3) by (simp add: min_duration_def)
  then show ?thesis
    using assms by (auto simp: isReleasableLocked_def lapsedAtLocked_def Let_def hold_deadline_def
        time_Sub_gt split: option.splits if_splits)
qed

lemma settings_hold:
  "settings r = settings r' \<Longrightarrow> holding e = holding e' \<Longrightarrow> hold_deadline r e = hold_deadline r' e'"
  by (simp add: hold_deadline_def settings_def holding_def)

lemma stranger_holding: "holding e = holding e' \<Longrightarrow> stranger H e op = stranger H e' op"
  by (cases "op_token op") (simp_all add: stranger_def tokenMatches_def holding_def)

text \<open>
  C2. The tombstone: a label that has ever been proven stays with its holder for the inactivity
  period and the tombstone period after the last sign of life. Whatever strangers do in that
  time, in any order and any number of operations, the entry is still there with the same token
  hash, address and proof history.
\<close>

theorem tombstone_protects_label:
  assumes "run H r0 tr clock r" and "admissible_all H r clock ops"
    and "get (rEntries r) s = Some e" and "eFirstProvenAt e \<noteq> zero_time"
    and "list_all (\<lambda>(now, op). now \<le> hold_deadline r e \<and> stranger H e op) ops"
    and "zero_time \<le> rTombstoneTTL r" and "rTombstoneTTL r < max_duration"
  shows "\<exists>e'. get (rEntries (exec_all H r ops)) s = Some e' \<and> holding e' = holding e"
  using assms
proof (induction ops arbitrary: tr clock r e)
  case Nil
  then show ?case by simp
next
  case (Cons x ops)
  obtain now op where x: "x = (now, op)" by (cases x)
  have "\<not> isReleasableLocked now r e"
    using Cons.prems x by (intro tombstone_held) auto
  then obtain e1 where e1: "get (rEntries (exec H now r op)) s = Some e1" "holding e1 = holding e"
    using stranger_exec [of r s e now H op] Cons.prems x run_reg_inv [OF Cons.prems(1)]
    by (auto simp: reg_inv_def reg_index_distinct)
  have same: "settings (exec H now r op) = settings r" by simp
  have "\<exists>e'. get (rEntries (exec_all H (exec H now r op) ops)) s = Some e' \<and> holding e' = holding e1"
  proof (rule Cons.IH)
    show "run H r0 (tr @ [(now, op)]) now (exec H now r op)"
      using Cons.prems x by (auto intro: run.step)
    show "list_all (\<lambda>(t, p). t \<le> hold_deadline (exec H now r op) e1 \<and> stranger H e1 p) ops"
      using Cons.prems(5) x settings_hold [OF same e1(2)] stranger_holding [OF e1(2)] by simp
  qed (use Cons.prems x e1 same in \<open>auto simp: holding_def settings_def\<close>)
  then show ?case
    using x e1 by simp
qed

theorem tombstone_protects_label_witness:
  "\<exists>e'. get (rEntries (exec_all id demo_reg
        [(hour, OpCleanup), (31 * 24 * hour, OpRegister (Some ''u'') ''lab'' ''203.0.113.9'' ''guess''),
         (119 * 24 * hour, OpCleanup)])) ''lab'' = Some e' \<and> holding e' = holding demo_entry"
  by (rule tombstone_protects_label [OF demo_run _ demo_lookup]; code_simp)

subsection \<open>Moving and reviving\<close>

text \<open>
  A move or a revival suspends routing: after \<open>Register\<close> answers \<open>Moved\<close>, or \<open>Renewed\<close> on a
  registration that had lapsed, no instant makes the label routable or authorizes any key until a
  new proof is recorded, no challenge is outstanding, and after a move no fingerprint is accepted.
  The record that the label has served is kept.
\<close>

lemma moved_or_revived_suspends:
  assumes "Register H now nt r s ip tok = (r', Some e', out, None)"
    and "get (rEntries r) s = Some e"
    and "out = Moved \<or> (out = Renewed \<and> isExpiredLocked now r e)"
  shows "\<not> Routable t r' s \<and> \<not> ProofAuthorizes t r' s key \<and> Challenge t r' s = [] \<and>
    (out = Moved \<longrightarrow> PinState t r' s = no_pins) \<and> eFirstProvenAt e' = eFirstProvenAt e \<and>
    eIP e' = ip \<and> eTokenHash e' = eTokenHash e"
proof -
  have kept: "\<not> isReleasableLocked now r e"
    using assms by (auto simp: Register_def release_spent_def drop_entry_def go_map Let_def split: option.splits)
  show ?thesis
    using assms kept
    by (auto simp: Register_def release_spent_def Let_def store_entry_def go_map Routable_def
        ProofAuthorizes_def Challenge_def PinState_def no_pins_def proofValidLocked_def
        leaseCurrentLocked_def everProvenLocked_def clearProofLocked_def clearPinLocked_def
        split: if_splits)
qed

subsection \<open>Pins and proofs\<close>

text \<open>
  No poisoned pin: in every run, each fingerprint the registry accepts for a label, as current,
  pending or previous, was handed to it by a caller holding that registration's token. Observing a
  handshake can promote a pending fingerprint; it never introduces one.
\<close>

lemma accepted_pins_are_asserted:
  assumes "run H r0 tr clock r" and "fp \<noteq> []"
    and "fp \<in> {Current (PinState now r s), Pending (PinState now r s), Prev (PinState now r s)}"
  shows "\<exists>e. get (rEntries r) s = Some e \<and> asserted H tr (eTokenHash e) fp"
proof -
  obtain e where e: "get (rEntries r) s = Some e"
    using assms(2,3) by (auto simp: PinState_def no_pins_def split: option.splits)
  have "pins_asserted H tr e"
    using run_reg_inv [OF assms(1)] e by (auto simp: reg_inv_def entries_sat_def)
  then show ?thesis
    using e assms(2,3) by (auto simp: PinState_def pins_asserted_iff split: if_splits)
qed

text \<open>
  C3. Routing rests on a recent proof: when a label is routable, a caller with its token completed
  \<open>RecordProof\<close> for it within the last proof lease, for the very key on record, and the enforced
  pin, if there is one, is that key.
\<close>

theorem routable_rests_on_proof:
  assumes "run H r0 tr clock r" and "clock \<le> now" and "Routable now r s"
  shows "\<exists>e tok nonce protocol.
    get (rEntries r) s = Some e \<and> tokenMatches H e tok \<and>
    (eProvenAt e, OpRecordProof s tok nonce (eProofKeySPKI e) protocol) \<in> set tr \<and>
    eProvenAt e \<le> now \<and> now < eProvenAt e + proofLease \<and>
    (eCertFingerprint e = [] \<or> eCertFingerprint e = eProofKeySPKI e)"
proof -
  obtain e where e: "get (rEntries r) s = Some e" "proofValidLocked now e"
    using assms(3) by (auto simp: Routable_def split: option.splits if_splits)
  have inv: "entry_ok clock s e" "proof_traced H tr s e"
    using run_reg_inv [OF assms(1)] e by (auto simp: reg_inv_def entries_sat_def)
  have proven: "eProvenAt e \<noteq> zero_time" "now < eProofExpiry e"
    "eCertFingerprint e = [] \<or> eCertFingerprint e = eProofKeySPKI e"
    using e(2) by (auto simp: proofValidLocked_def leaseCurrentLocked_def everProvenLocked_def FingerprintsEqual_iff)
  then obtain x where x: "x \<in> set tr" "proves H s e x"
    using inv(2) by (auto simp: proof_traced_def list_ex_iff)
  then obtain tok nonce protocol where
    "x = (eProvenAt e, OpRecordProof s tok nonce (eProofKeySPKI e) protocol)" "tokenMatches H e tok"
    by (cases "(H, s, e, x)" rule: proves.cases) (auto simp: tokenMatches_def)
  then show ?thesis
    using e(1) x(1) proven inv(1) assms(2) by (force simp: entry_ok_def)
qed

theorem routable_rests_on_proof_witness:
  "\<exists>e tok nonce protocol.
    get (rEntries demo_reg) ''lab'' = Some e \<and> tokenMatches id e tok \<and>
    (eProvenAt e, OpRecordProof ''lab'' tok nonce (eProofKeySPKI e) protocol) \<in> set demo_ops \<and>
    eProvenAt e \<le> 6 \<and> 6 < eProvenAt e + proofLease \<and>
    (eCertFingerprint e = [] \<or> eCertFingerprint e = eProofKeySPKI e)"
  by (rule routable_rests_on_proof [OF demo_run]; code_simp)

subsection \<open>Challenges\<close>

definition mints :: "string \<Rightarrow> string \<Rightarrow> op \<Rightarrow> bool" where
  "mints s n op = (case op of OpIssueChallenge (Some m) s' _ \<Rightarrow> m = n \<and> s' = s | _ \<Rightarrow> False)"

interpretation spent: entry_rule H now op
  "\<lambda>s' e. n \<noteq> [] \<and> s' = s \<and> \<not> mints s n op \<longrightarrow> eChallengeNonce e \<noteq> n"
  "\<lambda>s' e. n \<noteq> [] \<and> s' = s \<and> \<not> mints s n op \<longrightarrow> eChallengeNonce e \<noteq> n" for H now op s n
  by unfold_locales (auto simp: entry_updates mints_def)

definition nonce_absent :: "string \<Rightarrow> string \<Rightarrow> registry \<Rightarrow> bool" where
  "nonce_absent s n r = (case get (rEntries r) s of None \<Rightarrow> True | Some e \<Rightarrow> eChallengeNonce e \<noteq> n)"

lemma nonce_absent_exec:
  assumes "distinct_keys (rEntries r)" and "n \<noteq> []" and "\<not> mints s n op" and "nonce_absent s n r"
  shows "nonce_absent s n (exec H now r op)"
proof -
  have "entries_sat (\<lambda>s' e. n \<noteq> [] \<and> s' = s \<and> \<not> mints s n op \<longrightarrow> eChallengeNonce e \<noteq> n) r"
    using assms(4) by (auto simp: entries_sat_def nonce_absent_def)
  from spent.entries_exec [OF assms(1) this] show ?thesis
    using assms by (auto simp: entries_sat_def nonce_absent_def split: option.splits)
qed

lemma nonce_absent_exec_all:
  assumes "reg_index r" and "admissible_all H r clock ops" and "n \<noteq> []"
    and "list_all (\<lambda>(now, op). \<not> mints s n op) ops" and "nonce_absent s n r"
  shows "nonce_absent s n (exec_all H r ops)"
  using assms
proof (induction ops arbitrary: r clock)
  case (Cons x ops)
  obtain now op where x: "x = (now, op)" by (cases x)
  show ?case
    using Cons x nonce_absent_exec [of r n s op H now] reg_index_exec [of r H op now]
    by (auto simp: reg_index_distinct)
qed simp

lemma nonce_absent_refused:
  "nonce_absent s n r \<Longrightarrow> RecordProof H now r s tok n spki protocol = (r, False)"
  by (auto simp: nonce_absent_def RecordProof_def nonceMatches_def split: option.splits)

text \<open>
  A nonce proves once: after a successful \<open>RecordProof\<close> with nonce \<open>n\<close>, every later attempt
  with \<open>n\<close> is refused and changes nothing, whatever happens in between, unless the registry mints
  that very nonce again.
\<close>

lemma proof_nonce_single_use:
  assumes "run H r0 tr clock r" and "RecordProof H now r s tok n spki protocol = (r1, True)"
    and "admissible_all H r1 now ops" and "list_all (\<lambda>(t, op). \<not> mints s n op) ops"
  shows "RecordProof H t (exec_all H r1 ops) s tok' n spki' protocol' = (exec_all H r1 ops, False)"
proof (rule nonce_absent_refused)
  have idx: "reg_index r"
    using run_reg_inv [OF assms(1)] by (simp add: reg_inv_def)
  have "reg_index r1"
    using reg_index_exec [of r H "OpRecordProof s tok n spki protocol" now] idx assms(2) by simp
  moreover have "n \<noteq> [] \<and> nonce_absent s n r1"
    using assms(2)
    by (auto simp: RecordProof_def nonce_absent_def nonceMatches_def store_entry_def go_map
        record_proof_def Let_def split: option.splits if_splits)
  ultimately show "nonce_absent s n (exec_all H r1 ops)"
    using assms(3,4) nonce_absent_exec_all by blast
qed

subsection \<open>From registration to routing\<close>

lemma exec_ttl: "rInactivityTTL (exec H now r op) = rInactivityTTL r"
  using settings_exec [of H now r op] by (simp add: settings_def)

lemma not_expired_recent:
  "now \<le> eLastSeen e + rInactivityTTL r \<Longrightarrow>
   (rEnforceProof r \<longrightarrow> eFirstProvenAt e \<noteq> zero_time \<or> now \<le> eCreatedAt e + unprovenReservationTTL) \<Longrightarrow>
   \<not> isExpiredLocked now r e"
  by (auto simp: isExpiredLocked_def lapsedAtLocked_def Let_def)

text \<open>
  C9. A cluster that follows the protocol gets to serve: registering a free label, answering the
  challenge within its five minutes and proving a key makes the label routable from that moment
  until the lease ends (or the inactivity period does), and authorizes exactly that key.
\<close>

theorem register_prove_routes:
  assumes free: "get (rEntries r) s = None" and "tok \<noteq> []" and "n \<noteq> []" and "spki \<noteq> []"
    and times: "zero_time < t1" "t1 \<le> t2" "t2 \<le> t3" "t3 \<le> t2 + challengeTTL"
      "t2 \<le> t1 + hour" "t3 \<le> t" "t < t3 + proofLease" "t \<le> t1 + rInactivityTTL r"
    and ops: "r' = exec_all H r
      [(t1, OpRegister (Some tok) s ip []), (t2, OpIssueChallenge (Some n) s tok),
       (t3, OpRecordProof s tok n spki protocol)]"
  shows "Routable t r' s \<and> (ProofAuthorizes t r' s key \<longleftrightarrow> key = spki)"
proof -
  let ?e1 = "fresh_entry H t1 s ip tok"
  let ?r1 = "exec H t1 r (OpRegister (Some tok) s ip [])"
  let ?e2 = "?e1\<lparr>eChallengeNonce := n, eChallengeExpiry := t2 + challengeTTL\<rparr>"
  let ?r2 = "exec H t2 ?r1 (OpIssueChallenge (Some n) s tok)"
  let ?r3 = "exec H t3 ?r2 (OpRecordProof s tok n spki protocol)"
  have bounds: "t2 \<le> t1 + unprovenReservationTTL" "t3 \<le> t1 + unprovenReservationTTL"
    using times by (auto simp: unprovenReservationTTL_def challengeTTL_def duration_defs)
  have e1: "get (rEntries ?r1) s = Some ?e1"
    using free by (simp add: Register_def Let_def release_spent_def go_map)
  have ttl: "rInactivityTTL ?r1 = rInactivityTTL r" "rInactivityTTL ?r2 = rInactivityTTL r"
    "rInactivityTTL ?r3 = rInactivityTTL r"
    by (simp_all only: exec_ttl)
  have "\<not> isExpiredLocked t2 ?r1 ?e1"
    using times bounds ttl by (intro not_expired_recent) (auto simp: fresh_entry_def)
  then have e2: "get (rEntries ?r2) s = Some ?e2"
    using e1 assms(2) by (simp add: IssueChallenge_def store_entry_def go_map tokenMatches_def fresh_entry_def)
  have "\<not> isExpiredLocked t3 ?r2 ?e2"
    using times bounds ttl by (intro not_expired_recent) (auto simp: fresh_entry_def)
  then have e3: "get (rEntries ?r3) s = Some (record_proof t3 spki protocol ?e2)"
    using e2 assms(2,3) times
    by (simp add: RecordProof_def store_entry_def go_map tokenMatches_def nonceMatches_def fresh_entry_def)
  have "\<not> isExpiredLocked t ?r3 (record_proof t3 spki protocol ?e2)"
    using times ttl by (intro not_expired_recent) (auto simp: record_proof_def fresh_entry_def Let_def)
  then show ?thesis
    using e3 ops assms(4) times
    by (auto simp: Routable_def ProofAuthorizes_def proofValidLocked_def leaseCurrentLocked_def
        everProvenLocked_def record_proof_def fresh_entry_def Let_def FingerprintsEqual_iff)
qed

theorem register_prove_routes_witness:
  "Routable hour (exec_all id New
     [(1, OpRegister (Some ''tok'') ''lab'' ''198.51.100.7'' []), (2, OpIssueChallenge (Some ''n1'') ''lab'' ''tok''),
      (3, OpRecordProof ''lab'' ''tok'' ''n1'' demo_fp ''v1'')]) ''lab''"
  by (rule register_prove_routes [THEN conjunct1, of New "''lab''" "''tok''" "''n1''" demo_fp 1 2 3]; code_simp)

subsection \<open>The sweep is invisible\<close>

lemma expired_later: "isExpiredLocked now r e \<Longrightarrow> now \<le> t \<Longrightarrow> isExpiredLocked t r e"
  by (auto simp: isExpiredLocked_def lapsedAtLocked_def Let_def split: if_splits)

lemma releasable_expired: "isReleasableLocked now r e \<Longrightarrow> isExpiredLocked now r e"
  by (auto simp: isReleasableLocked_def isExpiredLocked_def split: option.splits)

lemma pin_ttl_range [simp]:
  "min_duration \<le> pendingPinTTL" "pendingPinTTL < max_duration"
  "min_duration \<le> prevPinTTL" "prevPinTTL < max_duration"
  by (simp_all add: registry_ttls duration_defs min_duration_def max_duration_def)

lemma expired_expire_pins [simp]: "isExpiredLocked t r (expire_pins now e) = isExpiredLocked t r e"
  by (simp add: isExpiredLocked_def lapsedAtLocked_def expire_pins_def Let_def)

lemma proofValid_expire_pins [simp]: "proofValidLocked t (expire_pins now e) = proofValidLocked t e"
  by (simp add: proofValidLocked_def leaseCurrentLocked_def everProvenLocked_def)

lemma settings_Cleanup: "settings (fst (Cleanup now r)) = settings r"
  by (simp add: Cleanup_def)

lemma PinState_expire_pins:
  assumes "get (rEntries r) s = Some e" and "get (rEntries r') s = Some (expire_pins now e)" and "now \<le> t"
  shows "PinState t r' s = PinState t r s"
  using assms
  by (auto simp: PinState_def expire_pins_def Let_def pending_stale_def prev_stale_def time_Sub_gt time_Sub_le)

lemma removed_cleanup_fold:
  "snd (fold (cleanup_turn now) l (r, removed)) =
     removed @ keys (filter (\<lambda>(s, e). isReleasableLocked now r e) l)"
proof (induction l arbitrary: r removed)
  case (Cons x l)
  obtain k e where x: "x = (k, e)" by (cases x)
  obtain r1 rem1 where turn: "cleanup_turn now x (r, removed) = (r1, rem1)"
    by (cases "cleanup_turn now x (r, removed)")
  have same: "settings r1 = settings r"
    using settings_cleanup_turn [of now x "(r, removed)"] turn by simp
  have "rem1 = removed @ (if isReleasableLocked now r e then [k] else [])"
    using turn x by (auto simp: cleanup_turn_def split: if_splits)
  then show ?case
    using Cons.IH [of r1 rem1] turn x by (simp add: releasable_settings [OF same] split_def)
qed simp



subsection \<open>The audit counters\<close>

text \<open>
  The cutover audit counts what the routing gate refuses: \<open>UnprovenSummary\<close> is the number of
  served labels that \<open>Routable\<close> refuses, \<open>UnpinnedSummary\<close> the number of served labels without an
  enforced pin, \<open>Count\<close> the number of served labels; so a zero never hides a refused registration.
\<close>

lemma audit_counts_refusals:
  assumes "run H r0 tr clock r"
  shows "fst (UnprovenSummary now r) = card {s. Lookup now r s \<noteq> None \<and> \<not> Routable now r s} \<and>
    fst (UnpinnedSummary now r) = card {s. Lookup now r s \<noteq> None \<and> \<not> Pinned (PinState now r s)} \<and>
    Count now r = card {s. Lookup now r s \<noteq> None}"
proof -
  have dist: "distinct_keys (rEntries r)"
    using run_reg_inv [OF assms] by (simp add: reg_inv_def reg_index_distinct)
  have "Count now r = length (filter (\<lambda>e. \<not> isExpiredLocked now r e) (map snd (rEntries r)))"
    by (simp add: Count_def filter_map comp_def split_def)
  moreover have "{s. Lookup now r s \<noteq> None \<and> \<not> Routable now r s} =
      {s. \<exists>e. get (rEntries r) s = Some e \<and> \<not> isExpiredLocked now r e \<and> \<not> proofValidLocked now e}"
    by (auto simp: Lookup_def Routable_def split: option.splits if_splits)
  moreover have "{s. Lookup now r s \<noteq> None \<and> \<not> Pinned (PinState now r s)} =
      {s. \<exists>e. get (rEntries r) s = Some e \<and> \<not> (isExpiredLocked now r e \<or> eCertFingerprint e \<noteq> [])}"
    by (auto simp: Lookup_def Pinned_def PinState_def split: option.splits if_splits)
  moreover have "{s. Lookup now r s \<noteq> None} =
      {s. \<exists>e. get (rEntries r) s = Some e \<and> \<not> isExpiredLocked now r e}"
    by (auto simp: Lookup_def split: option.splits if_splits)
  ultimately show ?thesis
    by (simp only: UnprovenSummary_def UnpinnedSummary_def Let_def fst_conv count_values [OF dist])
qed

end
