(* ===== verification/Go_Strings.thy ===== *)
theory Go_Strings
  imports Prelude
begin

text \<open>
  The functions of Go's \<^verbatim>\<open>strings\<close> and \<^verbatim>\<open>net\<close> packages that the components call, on strings
  read as lists of bytes, with the laws the components' proofs use. \<open>ToLower\<close> and \<open>TrimSpace\<close>
  treat the ASCII range only: host names and header values outside it are rejected by Go's HTTP
  server before any of this code runs.
\<close>

subsection \<open>Prefixes and suffixes\<close>

definition HasPrefix :: "string \<Rightarrow> string \<Rightarrow> bool" where
  "HasPrefix s p \<longleftrightarrow> take (length p) s = p"

definition HasSuffix :: "string \<Rightarrow> string \<Rightarrow> bool" where
  "HasSuffix s p \<longleftrightarrow> length p \<le> length s \<and> drop (length s - length p) s = p"

definition TrimSuffix :: "string \<Rightarrow> string \<Rightarrow> string" where
  "TrimSuffix s p = (if HasSuffix s p then take (length s - length p) s else s)"

definition TrimPrefix :: "string \<Rightarrow> string \<Rightarrow> string" where
  "TrimPrefix s p = (if HasPrefix s p then drop (length p) s else s)"

lemma HasPrefix_append [simp]: "HasPrefix (p @ s) p"
  by (simp add: HasPrefix_def)

lemma HasPrefix_Nil [simp]: "HasPrefix s []"
  by (simp add: HasPrefix_def)

lemma HasPrefix_iff: "HasPrefix s p \<longleftrightarrow> (\<exists>t. s = p @ t)"
  by (metis HasPrefix_def append_eq_conv_conj append_take_drop_id)

lemma HasSuffix_append [simp]: "HasSuffix (s @ p) p"
  by (simp add: HasSuffix_def)

lemma HasSuffix_iff: "HasSuffix s p \<longleftrightarrow> (\<exists>t. s = t @ p)"
  by (auto simp: HasSuffix_def) (metis append_take_drop_id)

lemma TrimSuffix_append [simp]: "TrimSuffix (s @ p) p = s"
  by (simp add: TrimSuffix_def)

lemma TrimPrefix_append [simp]: "TrimPrefix (p @ s) p = s"
  by (simp add: TrimPrefix_def)

subsection \<open>Searching\<close>

definition Index :: "string \<Rightarrow> string \<Rightarrow> nat option" where
  "Index s sub = find (\<lambda>i. HasPrefix (drop i s) sub) [0..<Suc (length s)]"

definition LastIndex :: "string \<Rightarrow> string \<Rightarrow> nat option" where
  "LastIndex s sub = find (\<lambda>i. HasPrefix (drop i s) sub) (rev [0..<Suc (length s)])"

definition Contains :: "string \<Rightarrow> string \<Rightarrow> bool" where
  "Contains s sub \<longleftrightarrow> Index s sub \<noteq> None"

lemma Contains_iff: "Contains s sub \<longleftrightarrow> (\<exists>a b. s = a @ sub @ b)"
proof
  assume "Contains s sub"
  then obtain i where "HasPrefix (drop i s) sub"
    by (auto simp: Contains_def Index_def find_Some_iff)
  then show "\<exists>a b. s = a @ sub @ b"
    by (metis HasPrefix_iff append_take_drop_id)
next
  assume "\<exists>a b. s = a @ sub @ b"
  then obtain a b where s: "s = a @ sub @ b" by blast
  have "length a \<in> set [0..<Suc (length s)]" and "HasPrefix (drop (length a) s) sub"
    using s by simp_all
  then show "Contains s sub"
    unfolding Contains_def Index_def find_None_iff by blast
qed

lemma find_rev_last:
  assumes "P i" and "i \<le> n" and "\<And>j. i < j \<Longrightarrow> j \<le> n \<Longrightarrow> \<not> P j"
  shows "find P (rev [0..<Suc n]) = Some i"
  using assms
proof (induction n)
  case (Suc n)
  show ?case
  proof (cases "i = Suc n")
    case False
    then have "\<not> P (Suc n)" using Suc.prems by auto
    then show ?thesis using Suc False by simp
  qed (use Suc.prems in simp)
qed simp

lemma LastIndex_eqI:
  assumes "HasPrefix (drop i s) sub" and "i \<le> length s"
    and "\<And>j. i < j \<Longrightarrow> j \<le> length s \<Longrightarrow> \<not> HasPrefix (drop j s) sub"
  shows "LastIndex s sub = Some i"
  unfolding LastIndex_def using assms by (rule find_rev_last)

lemma LastIndex_SomeD:
  assumes "LastIndex s sub = Some i"
  shows "HasPrefix (drop i s) sub" and "i \<le> length s"
proof -
  obtain j where j: "j < length (rev [0..<Suc (length s)])" "HasPrefix (drop i s) sub"
    "i = rev [0..<Suc (length s)] ! j"
    using assms by (auto simp: LastIndex_def find_Some_iff simp del: upt_Suc)
  then have "i \<in> set (rev [0..<Suc (length s)])"
    using nth_mem by blast
  then show "HasPrefix (drop i s) sub" and "i \<le> length s"
    using j by auto
qed

lemma LastIndex_None: "\<not> Contains s sub \<Longrightarrow> LastIndex s sub = None"
  by (simp add: Contains_def Index_def LastIndex_def find_None_iff del: upt_Suc)

lemma Contains_char: "Contains s [c] \<longleftrightarrow> c \<in> set s"
  by (auto simp: Contains_iff) (metis split_list)

subsection \<open>Case, spaces and replacement\<close>

definition lower_char :: "char \<Rightarrow> char" where
  "lower_char c = (if 65 \<le> (of_char c :: nat) \<and> (of_char c :: nat) \<le> 90 then char_of ((of_char c :: nat) + 32) else c)"

definition ToLower :: "string \<Rightarrow> string" where
  "ToLower s = map lower_char s"

definition EqualFold :: "string \<Rightarrow> string \<Rightarrow> bool" where
  "EqualFold a b \<longleftrightarrow> ToLower a = ToLower b"

definition is_space :: "char \<Rightarrow> bool" where
  "is_space c \<longleftrightarrow> (of_char c :: nat) \<in> {9, 10, 11, 12, 13, 32}"

definition TrimSpace :: "string \<Rightarrow> string" where
  "TrimSpace s = rev (dropWhile is_space (rev (dropWhile is_space s)))"

definition replace_char :: "char \<Rightarrow> char \<Rightarrow> string \<Rightarrow> string" where
  "replace_char a b s = map (\<lambda>c. if c = a then b else c) s"

lemma replace_char_append [simp]: "replace_char a b (s @ t) = replace_char a b s @ replace_char a b t"
  by (simp add: replace_char_def)

lemma replace_char_back: "b \<notin> set s \<Longrightarrow> replace_char b a (replace_char a b s) = s"
  by (auto simp: replace_char_def intro: map_idI)

subsection \<open>Joining and splitting\<close>

fun Join :: "string list \<Rightarrow> string \<Rightarrow> string" where
  "Join [] sep = []"
| "Join [s] sep = s"
| "Join (s # t # ss) sep = s @ sep @ Join (t # ss) sep"

fun split_at :: "char \<Rightarrow> string \<Rightarrow> string list" where
  "split_at c [] = [[]]"
| "split_at c (x # xs) =
     (if x = c then [] # split_at c xs
      else case split_at c xs of [] \<Rightarrow> [[x]] | w # ws \<Rightarrow> (x # w) # ws)"

lemma split_at_clean: "c \<notin> set s \<Longrightarrow> split_at c s = [s]"
  by (induction s) auto

lemma split_at_append: "c \<notin> set s \<Longrightarrow> split_at c (s @ c # t) = s # split_at c t"
  by (induction s) auto

lemma split_Join:
  "ss \<noteq> [] \<Longrightarrow> list_all (\<lambda>s. c \<notin> set s) ss \<Longrightarrow> split_at c (Join ss [c]) = ss"
proof (induction ss rule: induct_list012)
  case (3 s t ss)
  then show ?case using split_at_append by simp
qed (auto simp: split_at_clean)

text \<open>A joined key determines its fields when none of them holds the separator.\<close>

lemma Join_inj:
  assumes "Join ss [c] = Join ts [c]" and "ss \<noteq> []" and "ts \<noteq> []"
    and "list_all (\<lambda>s. c \<notin> set s) ss" and "list_all (\<lambda>s. c \<notin> set s) ts"
  shows "ss = ts"
  using assms split_Join by metis

lemma split_at_nonempty [simp]: "split_at c s \<noteq> []"
  by (cases "(c, s)" rule: split_at.cases) (auto split: list.splits)

lemma Join_split: "split_at c s = ws \<Longrightarrow> Join ws [c] = s"
proof (induction s arbitrary: ws)
  case (Cons x s)
  obtain w vs where s: "split_at c s = w # vs"
    by (cases "split_at c s") simp_all
  then have "Join (w # vs) [c] = s" using Cons.IH by simp
  then show ?case using Cons.prems s by (cases vs) (auto split: if_splits)
qed simp

subsection \<open>Decimal numbers\<close>

definition digit :: "nat \<Rightarrow> char" where
  "digit n = char_of (48 + n)"

definition is_digit :: "char \<Rightarrow> bool" where
  "is_digit c \<longleftrightarrow> 48 \<le> (of_char c :: nat) \<and> (of_char c :: nat) \<le> 57"

definition digit_val :: "char \<Rightarrow> nat" where
  "digit_val c = of_char c - 48"

fun decimal :: "nat \<Rightarrow> string" where
  "decimal n = (if n < 10 then [digit n] else decimal (n div 10) @ [digit (n mod 10)])"

declare decimal.simps [simp del]

definition decimal_val :: "string \<Rightarrow> nat" where
  "decimal_val s = fold (\<lambda>c n. 10 * n + digit_val c) s 0"

lemma digit_facts [simp]: "n < 10 \<Longrightarrow> is_digit (digit n)" "n < 10 \<Longrightarrow> digit_val (digit n) = n"
  by (simp_all add: digit_def is_digit_def digit_val_def)

lemma decimal_digits: "list_all is_digit (decimal n)"
proof (induction n rule: decimal.induct)
  case (1 n)
  then show ?case by (subst decimal.simps) simp
qed

lemma decimal_val_decimal: "decimal_val (decimal n) = n"
proof (induction n rule: decimal.induct)
  case (1 n)
  then show ?case by (subst decimal.simps) (simp add: decimal_val_def)
qed

lemma decimal_nonempty [simp]: "decimal n \<noteq> []"
  by (subst decimal.simps) simp

lemma decimal_inj: "decimal m = decimal n \<Longrightarrow> m = n"
  by (metis decimal_val_decimal)

lemma decimal_leading: "n \<noteq> 0 \<Longrightarrow> hd (decimal n) \<noteq> CHR ''0''"
proof (induction n rule: decimal.induct)
  case (1 n)
  show ?case
  proof (cases "n < 10")
    case True
    then have "digit_val (digit n) \<noteq> digit_val (CHR ''0'')"
      using 1 by (simp add: digit_val_def digit_def)
    then have "digit n \<noteq> CHR ''0''"
      by auto
    then show ?thesis using True by (subst decimal.simps) simp
  next
    case False
    then have "n div 10 \<noteq> 0" by simp
    then show ?thesis using 1 False by (subst decimal.simps) simp
  qed
qed

subsection \<open>Hosts and addresses\<close>

text \<open>\<open>net.SplitHostPort\<close>, with every one of its errors as \<open>None\<close>.\<close>

definition SplitHostPort :: "string \<Rightarrow> (string \<times> string) option" where
  "SplitHostPort hp =
     (case LastIndex hp '':'' of
        None \<Rightarrow> None
      | Some i \<Rightarrow>
          if hp ! 0 = CHR ''['' then
            (case Index hp '']'' of
               None \<Rightarrow> None
             | Some e \<Rightarrow>
                 if e + 1 = length hp then None
                 else if e + 1 \<noteq> i then None
                 else if Contains (drop 1 hp) ''['' then None
                 else if Contains (drop (e + 1) hp) '']'' then None
                 else Some (take (e - 1) (drop 1 hp), drop (i + 1) hp))
          else if Contains (take i hp) '':'' then None
          else if Contains hp ''['' then None
          else if Contains hp '']'' then None
          else Some (take i hp, drop (i + 1) hp))"

type_synonym ipv4 = "nat \<times> nat \<times> nat \<times> nat"

definition parse_octet :: "string \<Rightarrow> nat option" where
  "parse_octet s =
     (if s = [] \<or> \<not> list_all is_digit s then None
      else if 1 < length s \<and> hd s = CHR ''0'' then None
      else if 3 < length s \<or> 255 < decimal_val s then None
      else Some (decimal_val s))"

text \<open>The dotted form; \<open>net.ParseIP\<close> reads every string without a colon this way.\<close>

definition parseIPv4 :: "string \<Rightarrow> ipv4 option" where
  "parseIPv4 s =
     (case map parse_octet (split_at (CHR ''.'') s) of
        [Some a, Some b, Some c, Some d] \<Rightarrow> Some (a, b, c, d)
      | _ \<Rightarrow> None)"

definition ipv4_String :: "ipv4 \<Rightarrow> string" where
  "ipv4_String ip = (case ip of (a, b, c, d) \<Rightarrow> Join [decimal a, decimal b, decimal c, decimal d] ''.'')"

definition ipv4_ok :: "ipv4 \<Rightarrow> bool" where
  "ipv4_ok ip = (case ip of (a, b, c, d) \<Rightarrow> a \<le> 255 \<and> b \<le> 255 \<and> c \<le> 255 \<and> d \<le> 255)"

lemma decimal_length_small: "n \<le> 255 \<Longrightarrow> length (decimal n) \<le> 3"
  by (subst decimal.simps, subst decimal.simps, subst decimal.simps) auto

lemma parse_octet_decimal: "n \<le> 255 \<Longrightarrow> parse_octet (decimal n) = Some n"
proof -
  assume n: "n \<le> 255"
  have "\<not> (1 < length (decimal n) \<and> hd (decimal n) = CHR ''0'')"
    using decimal_leading [of n] by (cases "n = 0") (auto simp: decimal.simps [of 0])
  then show ?thesis
    using n decimal_length_small [OF n] decimal_digits [of n]
    by (simp add: parse_octet_def decimal_val_decimal)
qed

lemma dot_not_decimal: "CHR ''.'' \<notin> set (decimal n)"
  using decimal_digits [of n] by (auto simp: list_all_iff is_digit_def)

lemma dash_not_decimal: "CHR ''-'' \<notin> set (decimal n)"
  using decimal_digits [of n] by (auto simp: list_all_iff is_digit_def)

lemma parse_String: "ipv4_ok ip \<Longrightarrow> parseIPv4 (ipv4_String ip) = Some ip"
proof -
  assume ok: "ipv4_ok ip"
  obtain a b c d where ip: "ip = (a, b, c, d)" by (cases ip)
  have "split_at (CHR ''.'') (Join [decimal a, decimal b, decimal c, decimal d] ''.'') =
      [decimal a, decimal b, decimal c, decimal d]"
    by (rule split_Join) (simp_all add: dot_not_decimal)
  then show ?thesis
    using ok ip by (simp add: parseIPv4_def ipv4_String_def ipv4_ok_def parse_octet_decimal)
qed

lemma parseIPv4_ok: "parseIPv4 s = Some ip \<Longrightarrow> ipv4_ok ip"
  by (auto simp: parseIPv4_def ipv4_ok_def parse_octet_def split: list.splits option.splits if_splits)

end
