(* ===== verification/Gateway_Store.thy ===== *)
theory Gateway_Store
  imports Gateway_Properties Go_Strings "HOL-Library.List_Lexorder" "HOL-Library.Char_ord"
begin

text \<open>
  Persistence of the registry, \<^verbatim>\<open>src/gateway/internal/registry/store.go\<close>: the snapshot on disk,
  \<open>SaveTo\<close>, \<open>RegisterDurably\<close>, \<open>FlushIfDirty\<close>, \<open>LoadFrom\<close>, the two prunes and \<open>FlagEntries\<close>.

  The file is the value its JSON decodes to. The token itself is not part of the JSON
  (\<^verbatim>\<open>json:"-"\<close>), so a snapshot holds the entries with an empty token. A write that fails, at any
  of its stages, leaves the file as it was, because only the final rename touches it.
\<close>

subsection \<open>The file\<close>

datatype save_error =
    ErrMarshal | ErrMkdir | ErrCreateTemp | ErrWriteTemp | ErrCloseTemp | ErrRename

datatype snapshot_file = Missing | Unreadable | Corrupt | Snapshot "entry list"

datatype load_error = ErrReading | ErrParsing

definition forget_token :: "entry \<Rightarrow> entry" where
  "forget_token e = e\<lparr>eToken := []\<rparr>"

definition snapshot :: "registry \<Rightarrow> entry list" where
  "snapshot r = map (\<lambda>(s, e). forget_token e) (rEntries r)"

text \<open>\<open>fault\<close> is the stage of the write that fails, if one does.\<close>

definition saveLocked :: "save_error option \<Rightarrow> registry \<Rightarrow> snapshot_file \<Rightarrow> snapshot_file \<times> save_error option" where
  "saveLocked fault r disk =
     (case fault of Some err \<Rightarrow> (disk, Some err) | None \<Rightarrow> (Snapshot (snapshot r), None))"

definition SaveTo :: "save_error option \<Rightarrow> registry \<Rightarrow> snapshot_file \<Rightarrow> snapshot_file \<times> save_error option" where
  "SaveTo fault r disk = saveLocked fault r disk"

datatype durable_error =
    RegError reg_error
  | ErrNotRecorded save_error
  | ErrNotRecordedNorWithdrawn save_error reg_error

definition RegisterDurably ::
  "digest \<Rightarrow> time \<Rightarrow> string option \<Rightarrow> save_error option \<Rightarrow> registry \<Rightarrow> snapshot_file \<Rightarrow> string \<Rightarrow> string \<Rightarrow> string
     \<Rightarrow> registry \<times> snapshot_file \<times> entry option \<times> Outcome \<times> durable_error option" where
  "RegisterDurably H now newToken fault r disk subdomain ip token =
     (case Register H now newToken r subdomain ip token of
        (r1, e, outcome, err) \<Rightarrow>
          if err \<noteq> None \<or> outcome \<noteq> Created then (r1, disk, e, outcome, map_option RegError err)
          else
            case saveLocked fault r1 disk of
              (disk1, None) \<Rightarrow> (r1, disk1, e, outcome, None)
            | (disk1, Some serr) \<Rightarrow>
                (case Deregister H r1 (case e of Some x \<Rightarrow> eToken x | None \<Rightarrow> []) of
                   (r2, Inl derr) \<Rightarrow> (r2, disk1, None, outcome, Some (ErrNotRecordedNorWithdrawn serr derr))
                 | (r2, Inr _) \<Rightarrow> (r2, disk1, None, outcome, Some (ErrNotRecorded serr))))"

subsection \<open>Flushing\<close>

text \<open>
  \<open>FlushIfDirty\<close> gives the lock up around the write, so other operations can run between its
  three parts: clearing the flag, the write, and setting the flag again if the write failed.
\<close>

definition flush_begin :: "registry \<Rightarrow> registry" where
  "flush_begin r = r\<lparr>rDirty := False\<rparr>"

definition flush_failed :: "registry \<Rightarrow> registry" where
  "flush_failed r = r\<lparr>rDirty := True\<rparr>"

definition FlushIfDirty :: "save_error option \<Rightarrow> registry \<Rightarrow> snapshot_file \<Rightarrow> registry \<times> snapshot_file \<times> (save_error + bool)" where
  "FlushIfDirty fault r disk =
     (if \<not> rDirty r then (r, disk, Inr False)
      else
        let r1 = flush_begin r in
        case SaveTo fault r1 disk of
          (disk1, Some err) \<Rightarrow> (flush_failed r1, disk1, Inl err)
        | (disk1, None) \<Rightarrow> (r1, disk1, Inr True))"

subsection \<open>Loading\<close>

definition needs_history :: "entry \<Rightarrow> bool" where
  "needs_history e \<longleftrightarrow>
     eFirstProvenAt e = zero_time \<and> eProvenAt e \<noteq> zero_time \<and> eProofKeySPKI e \<noteq> []"

definition needs_hash :: "entry \<Rightarrow> bool" where
  "needs_hash e \<longleftrightarrow> \<not> HasPrefix (eTokenHash e) tokenHashPrefix"

definition migrate_entry :: "digest \<Rightarrow> entry \<Rightarrow> entry" where
  "migrate_entry H e0 =
     (let e1 = (if needs_history e0 then e0\<lparr>eFirstProvenAt := eProvenAt e0\<rparr> else e0)
      in if needs_hash e1 then e1\<lparr>eTokenHash := hashToken H (eTokenHash e1)\<rparr> else e1)"

definition load_turn :: "digest \<Rightarrow> entry \<Rightarrow> registry \<Rightarrow> registry" where
  "load_turn H e0 r =
     (let e = migrate_entry H e0
      in r\<lparr>rEntries := put (eSubdomain e) e (rEntries r),
           rTokens := put (eTokenHash e) (eSubdomain e) (rTokens r),
           rDirty := rDirty r \<or> needs_history e0 \<or> needs_hash e0\<rparr>)"

definition LoadFrom :: "digest \<Rightarrow> registry \<Rightarrow> snapshot_file \<Rightarrow> registry \<times> load_error option" where
  "LoadFrom H r disk =
     (case disk of
        Missing \<Rightarrow> (r, None)
      | Unreadable \<Rightarrow> (r, Some ErrReading)
      | Corrupt \<Rightarrow> (r, Some ErrParsing)
      | Snapshot es \<Rightarrow>
          (fold (load_turn H) es (r\<lparr>rEntries := [], rTokens := [], rDirty := False\<rparr>), None))"

subsection \<open>Pruning and reporting\<close>

definition prune_turn :: "(entry \<Rightarrow> bool) \<Rightarrow> string \<times> entry \<Rightarrow> registry \<times> nat \<Rightarrow> registry \<times> nat" where
  "prune_turn unwanted se acc =
     (case se of (s, e) \<Rightarrow> case acc of (r, removed) \<Rightarrow>
        if unwanted e then (drop_entry s e r, Suc removed) else (r, removed))"

definition Prune :: "(string \<Rightarrow> bool) \<Rightarrow> registry \<Rightarrow> registry \<times> nat" where
  "Prune keep r = fold (prune_turn (\<lambda>e. \<not> keep (eIP e))) (rEntries r) (r, 0)"

definition PruneEntries :: "(entry \<Rightarrow> bool) \<Rightarrow> registry \<Rightarrow> registry \<times> nat" where
  "PruneEntries unwanted r = fold (prune_turn unwanted) (rEntries r) (r, 0)"

definition FlagEntries :: "(entry \<Rightarrow> bool) \<Rightarrow> registry \<Rightarrow> string list" where
  "FlagEntries report r = sort (map fst (filter (\<lambda>(s, e). report e) (rEntries r)))"

subsection \<open>The durable registration\<close>

interpretation hashed: entry_rule H now op
  "\<lambda>s e. HasPrefix (eTokenHash e) tokenHashPrefix" "\<lambda>s e. HasPrefix (eTokenHash e) tokenHashPrefix"
  for H now op
  by unfold_locales (simp_all add: HasPrefix_def hashToken_def)

lemma run_hashed:
  "run H r0 tr clock r \<Longrightarrow> entries_sat (\<lambda>s e. HasPrefix (eTokenHash e) tokenHashPrefix) r"
proof (induction rule: run.induct)
  case start
  then show ?case by (simp add: entries_sat_def empty_registry_def)
next
  case (step tr clock r now op)
  have "distinct_keys (rEntries r)"
    using run_reg_inv [OF step.hyps(1)] by (simp add: reg_inv_def reg_index_distinct)
  then show ?case
    using step.IH by (rule hashed.entries_exec)
qed

lemma Register_Created:
  assumes "Register H now newToken r s ip tok = (r1, e, Created, None)"
  shows "\<exists>t. newToken = Some t \<and> e = Some (fresh_entry H now s ip t) \<and>
    get (rEntries (release_spent now s r)) s = None \<and>
    rEntries r1 = put s (fresh_entry H now s ip t) (rEntries (release_spent now s r)) \<and>
    rTokens r1 = put (hashToken H t) s (rTokens (release_spent now s r)) \<and> rDirty r1"
  using assms
  by (auto simp: Register_def Let_def split: option.splits if_splits)

lemma fresh_entry_token [simp]: "eToken (fresh_entry H now s ip t) = t"
  by (simp add: fresh_entry_def)

lemma Deregister_fresh:
  assumes "get (rTokens r) (hashToken H t) = Some s" and "get (rEntries r) s = Some e"
    and "t \<noteq> []" and "eTokenHash e = hashToken H t"
  shows "Deregister H r t = (r\<lparr>rEntries := del s (rEntries r), rTokens := del (hashToken H t) (rTokens r),
            rDirty := True\<rparr>, Inr s)"
  using assms by (simp add: Deregister_def tokenMatches_def)

text \<open>
  A registration is announced only when it is on disk: if \<open>RegisterDurably\<close> reports a new
  registration, the snapshot on disk holds it; if the write failed, the registration has been
  withdrawn from memory again (the withdrawal itself cannot fail), the file is what it was, and no
  other label was touched except that a spent tombstone of the same name is gone.
\<close>

lemma durable_registration:
  assumes "run H r0 tr clock r" and "newToken = Some t"
    and fresh: "t \<noteq> []" "get (rTokens r) (hashToken H t) = None"
    and reg: "RegisterDurably H now newToken fault r disk s ip tok = (r', disk', e, Created, err)"
  shows "case fault of
      None \<Rightarrow> err = None \<and> (\<exists>x. e = Some x \<and> get (rEntries r') s = Some x \<and> eToken x = t \<and>
                 disk' = Snapshot (snapshot r') \<and> forget_token x \<in> set (snapshot r'))
    | Some f \<Rightarrow> err = Some (ErrNotRecorded f) \<and> e = None \<and> disk' = disk \<and>
                 get (rEntries r') = (get (rEntries r))(s := None) \<and> rDirty r'"
proof -
  obtain r1 e1 out err1 where R: "Register H now newToken r s ip tok = (r1, e1, out, err1)"
    by (cases "Register H now newToken r s ip tok")
  have "err1 = None \<and> out = Created"
  proof (cases "err1 \<noteq> None \<or> out \<noteq> Created")
    case True
    with R reg have "out = Created \<and> err1 \<noteq> None"
      by (auto simp: RegisterDurably_def split: if_splits)
    with R assms(2) show ?thesis
      by (auto simp: Register_def Let_def split: option.splits if_splits)
  qed auto
  with R have R: "Register H now newToken r s ip tok = (r1, e1, Created, None)" by simp
  let ?e = "fresh_entry H now s ip t" and ?r = "release_spent now s r"
  have r1: "e1 = Some ?e" "get (rEntries ?r) s = None" "rEntries r1 = put s ?e (rEntries ?r)"
    "rTokens r1 = put (hashToken H t) s (rTokens ?r)"
    using Register_Created [OF R] assms(2) by auto
  have gone: "get (rEntries ?r) = (get (rEntries r))(s := None)"
    using r1(2) by (auto simp: release_spent_def drop_entry_def gomap.rd_rm split: option.splits if_splits)
  have get1: "get (rEntries r1) s = Some ?e"
    using r1(3) by (simp add: go_map)
  have dereg: "Deregister H r1 t = (r1\<lparr>rEntries := del s (rEntries r1),
      rTokens := del (hashToken H t) (rTokens r1), rDirty := True\<rparr>, Inr s)"
    using r1 fresh(1) get1 by (intro Deregister_fresh [of r1 H t s ?e]) (simp_all add: go_map)
  show ?thesis
  proof (cases fault)
    case None
    have "forget_token ?e \<in> set (snapshot r1)"
      using map_of_SomeD [OF get1] by (force simp: snapshot_def)
    moreover have "r' = r1" "disk' = Snapshot (snapshot r1)" "e = Some ?e" "err = None"
      using None reg R r1(1) by (auto simp: RegisterDurably_def saveLocked_def)
    ultimately show ?thesis
      using None get1 by simp
  next
    case (Some f)
    have "del s (rEntries r1) = del s (put s ?e (rEntries ?r))"
      using r1(3) by simp
    then have "get (del s (rEntries r1)) = (get (rEntries r))(s := None)"
      using gone by (simp add: gomap.rd_rm gomap.rd_wr)
    then show ?thesis
      using Some reg R r1(1) dereg fresh_entry_token by (auto simp: RegisterDurably_def saveLocked_def)
  qed
qed

subsection \<open>Saving and loading\<close>

text \<open>What a registry needs so that its snapshot is read back unchanged.\<close>

definition well_stored :: "time \<Rightarrow> registry \<Rightarrow> bool" where
  "well_stored clock r \<longleftrightarrow>
     reg_index r \<and> entries_sat (entry_ok clock) r \<and>
     entries_sat (\<lambda>s e. HasPrefix (eTokenHash e) tokenHashPrefix) r"

definition loadable :: "string \<Rightarrow> entry \<Rightarrow> bool" where
  "loadable s e \<longleftrightarrow> eSubdomain e = s \<and> \<not> needs_history e \<and> \<not> needs_hash e"

lemma entry_ok_loadable:
  "entry_ok clock s e \<Longrightarrow> HasPrefix (eTokenHash e) tokenHashPrefix \<Longrightarrow> loadable s e"
  by (auto simp: loadable_def entry_ok_def needs_history_def needs_hash_def split: if_splits)

lemma well_stored_loadable: "well_stored clock r \<Longrightarrow> entries_sat loadable r"
  by (auto simp: well_stored_def entries_sat_def) (blast intro: entry_ok_loadable)

lemma forget_token_fields [simp]:
  "eSubdomain (forget_token e) = eSubdomain e" "eTokenHash (forget_token e) = eTokenHash e"
  "eLastSeen (forget_token e) = eLastSeen e" "eCreatedAt (forget_token e) = eCreatedAt e"
  "eFirstProvenAt (forget_token e) = eFirstProvenAt e"
  "needs_history (forget_token e) = needs_history e" "needs_hash (forget_token e) = needs_hash e"
  by (simp_all add: forget_token_def needs_history_def needs_hash_def)

lemma load_turn_loadable:
  "loadable s e \<Longrightarrow> load_turn H (forget_token e) r =
     r\<lparr>rEntries := put s (forget_token e) (rEntries r), rTokens := put (eTokenHash e) s (rTokens r)\<rparr>"
  by (simp add: load_turn_def migrate_entry_def loadable_def)

lemma load_fold:
  assumes "distinct_keys l" and "distinct (map (eTokenHash \<circ> snd) l)"
    and "\<And>s e. (s, e) \<in> set l \<Longrightarrow> loadable s e \<and> get (rEntries r) s = None \<and> get (rTokens r) (eTokenHash e) = None"
    and "reg_index r"
  shows "reg_index (fold (load_turn H) (map (\<lambda>(s, e). forget_token e) l) r) \<and>
    rDirty (fold (load_turn H) (map (\<lambda>(s, e). forget_token e) l) r) = rDirty r \<and>
    get (rEntries (fold (load_turn H) (map (\<lambda>(s, e). forget_token e) l) r)) s =
      (case get l s of None \<Rightarrow> get (rEntries r) s | Some e \<Rightarrow> Some (forget_token e))"
  using assms
proof (induction l arbitrary: r)
  case (Cons x l)
  obtain k d where x: "x = (k, d)" by (cases x)
  let ?r = "r\<lparr>rEntries := put k (forget_token d) (rEntries r), rTokens := put (eTokenHash d) k (rTokens r)\<rparr>"
  have here: "loadable k d" "get (rEntries r) k = None" "get (rTokens r) (eTokenHash d) = None"
    using Cons.prems(3) [of k d] x by auto
  have "reg_index ?r"
    using indexed_insert [of eTokenHash "rEntries r" "rTokens r" k "forget_token d"] here Cons.prems(4)
    by (simp add: reg_index_def)
  moreover have "loadable s e \<and> get (rEntries ?r) s = None \<and> get (rTokens ?r) (eTokenHash e) = None"
    if "(s, e) \<in> set l" for s e
  proof -
    have "s \<noteq> k" "eTokenHash e \<noteq> eTokenHash d"
      using that Cons.prems(1,2) x by (force simp: distinct_keys_def)+
    then show ?thesis
      using that Cons.prems(3) [of s e] by (simp add: go_map)
  qed
  moreover have tl: "distinct_keys l" "distinct (map (eTokenHash \<circ> snd) l)" and "get l k = None"
    using Cons.prems(1,2) x by (simp_all add: distinct_keys_def map_of_eq_None_iff comp_def)
  ultimately have "reg_index (fold (load_turn H) (map (\<lambda>(s, e). forget_token e) l) ?r) \<and>
    rDirty (fold (load_turn H) (map (\<lambda>(s, e). forget_token e) l) ?r) = rDirty ?r \<and>
    get (rEntries (fold (load_turn H) (map (\<lambda>(s, e). forget_token e) l) ?r)) s =
      (case get l s of None \<Rightarrow> get (rEntries ?r) s | Some e \<Rightarrow> Some (forget_token e))"
    by (intro Cons.IH)
  then show ?case
    using x \<open>get l k = None\<close> load_turn_loadable [OF here(1)] by (simp add: gomap.rd_wr split: option.splits)
qed simp

lemma distinct_hashes:
  assumes "reg_index r"
  shows "distinct (map (eTokenHash \<circ> snd) (rEntries r))"
proof -
  have dist: "distinct_keys (rEntries r)" and idx: "indexed eTokenHash (rEntries r) (rTokens r)"
    using assms by (simp_all add: reg_index_distinct reg_index_def)
  have "inj_on (eTokenHash \<circ> snd) (set (rEntries r))"
    using indexed_inj [OF idx] dist by (fastforce simp: inj_on_def get_in_set)
  moreover have "distinct (rEntries r)"
    using dist by (simp add: distinct_keys_def distinct_map)
  ultimately show ?thesis
    by (simp add: distinct_map)
qed

lemma load_snapshot:
  assumes "well_stored clock r"
  shows "case LoadFrom H r1 (Snapshot (snapshot r)) of (r', err) \<Rightarrow>
    err = None \<and> settings r' = settings r1 \<and> reg_index r' \<and> \<not> rDirty r' \<and>
    get (rEntries r') = (\<lambda>s. map_option forget_token (get (rEntries r) s))"
proof -
  let ?r = "r1\<lparr>rEntries := [], rTokens := [], rDirty := False\<rparr>"
  have idx: "reg_index r"
    using assms by (simp add: well_stored_def)
  have load: "reg_index (fold (load_turn H) (snapshot r) ?r) \<and>
      rDirty (fold (load_turn H) (snapshot r) ?r) = rDirty ?r \<and>
      get (rEntries (fold (load_turn H) (snapshot r) ?r)) s =
        (case get (rEntries r) s of None \<Rightarrow> get (rEntries ?r) s | Some e \<Rightarrow> Some (forget_token e))" for s
    unfolding snapshot_def
    using reg_index_distinct [OF idx] distinct_hashes [OF idx] well_stored_loadable [OF assms]
    by (intro load_fold) (auto simp: get_in_set entries_sat_def reg_index_def)
  have "settings (fold (load_turn H) es r0) = settings r0" for es r0
    by (induction es arbitrary: r0) (simp_all add: load_turn_def settings_def Let_def)
  then show ?thesis
    using load by (auto simp: LoadFrom_def settings_def fun_eq_iff split: option.splits)
qed

text \<open>
  What is saved is what is loaded: the snapshot of any reachable registry, loaded into a fresh
  process, gives back every entry (the token itself, which is never written, aside) and a token
  index that finds the same labels, and needs no migration write.
\<close>

lemma save_load_roundtrip:
  assumes "run H r0 tr clock r" and "SaveTo None r disk = (disk', err)" and "LoadFrom H r1 disk' = (r', lerr)"
  shows "err = None \<and> lerr = None \<and> \<not> rDirty r' \<and> reg_index r' \<and>
    get (rEntries r') s = map_option forget_token (get (rEntries r) s) \<and>
    get (rTokens r') h = get (rTokens r) h"
proof -
  have stored: "well_stored clock r"
    using run_reg_inv [OF assms(1)] run_hashed [OF assms(1)] by (simp add: well_stored_def reg_inv_def)
  have disk: "disk' = Snapshot (snapshot r) \<and> err = None"
    using assms(2) by (auto simp: SaveTo_def saveLocked_def)
  have r': "lerr = None" "reg_index r'" "\<not> rDirty r'"
    "get (rEntries r') = (\<lambda>s. map_option forget_token (get (rEntries r) s))"
    using load_snapshot [OF stored, where H = H and ?r1.0 = r1] assms(3) disk by auto
  have idx: "indexed eTokenHash (rEntries r) (rTokens r)" "indexed eTokenHash (rEntries r') (rTokens r')"
    using r'(2) stored by (simp_all add: reg_index_def well_stored_def)
  have "get (rTokens r') h = Some k \<longleftrightarrow> get (rTokens r) h = Some k" for k
    using idx r'(4) by (auto simp: indexed_iff)
  then have "get (rTokens r') h = get (rTokens r) h"
    by (cases "get (rTokens r) h") (auto intro: option.expand)
  then show ?thesis
    using r' disk by simp
qed

subsection \<open>No lost update\<close>

text \<open>
  The interleavings of the registry's operations with saves and the periodic flush. A save takes
  its snapshot under the read lock and renames it into place later; \<open>saveMu\<close> admits one save at a
  time. A flush clears the flag, saves, and sets the flag again when the save failed; operations
  run between any two of these.
\<close>

datatype flush = Idle | Cleared | Failed

record store =
  sReg :: registry
  sDisk :: snapshot_file
  sClock :: time
  sFlush :: flush
  sSave :: "(bool \<times> entry list) option" \<comment> \<open>the snapshot being written, and whether the flush wrote it\<close>

inductive store_step :: "digest \<Rightarrow> store \<Rightarrow> store \<Rightarrow> bool" for H :: digest where
  operate: "sClock st \<le> now \<Longrightarrow> zero_time < now \<Longrightarrow> admissible H (sReg st) op \<Longrightarrow>
    store_step H st (st\<lparr>sReg := exec H now (sReg st) op, sClock := now\<rparr>)"
| save_begin: "sSave st = None \<Longrightarrow> store_step H st (st\<lparr>sSave := Some (False, snapshot (sReg st))\<rparr>)"
| save_ok: "sSave st = Some (False, es) \<Longrightarrow> store_step H st (st\<lparr>sDisk := Snapshot es, sSave := None\<rparr>)"
| save_err: "sSave st = Some (False, es) \<Longrightarrow> store_step H st (st\<lparr>sSave := None\<rparr>)"
| flush_start: "sFlush st = Idle \<Longrightarrow> rDirty (sReg st) \<Longrightarrow>
    store_step H st (st\<lparr>sReg := flush_begin (sReg st), sFlush := Cleared\<rparr>)"
| flush_snap: "sFlush st = Cleared \<Longrightarrow> sSave st = None \<Longrightarrow>
    store_step H st (st\<lparr>sSave := Some (True, snapshot (sReg st))\<rparr>)"
| flush_ok: "sFlush st = Cleared \<Longrightarrow> sSave st = Some (True, es) \<Longrightarrow>
    store_step H st (st\<lparr>sDisk := Snapshot es, sSave := None, sFlush := Idle\<rparr>)"
| flush_err: "sFlush st = Cleared \<Longrightarrow> sSave st = Some (True, es) \<Longrightarrow>
    store_step H st (st\<lparr>sSave := None, sFlush := Failed\<rparr>)"
| flush_retry: "sFlush st = Failed \<Longrightarrow>
    store_step H st (st\<lparr>sReg := flush_failed (sReg st), sFlush := Idle\<rparr>)"

inductive store_run :: "digest \<Rightarrow> store \<Rightarrow> bool" for H :: digest where
  boot: "empty_registry r \<Longrightarrow>
    store_run H \<lparr>sReg = r, sDisk = Missing, sClock = zero_time, sFlush = Idle, sSave = None\<rparr>"
| move: "store_run H st \<Longrightarrow> store_step H st st' \<Longrightarrow> store_run H st'"

text \<open>A snapshot covers the memory when a restart from it would show the same live entries.\<close>

definition saved :: "entry list \<Rightarrow> string \<Rightarrow> entry option" where
  "saved es = get (map (\<lambda>e. (eSubdomain e, e)) es)"

definition covers :: "time \<Rightarrow> registry \<Rightarrow> entry list \<Rightarrow> bool" where
  "covers now r es \<longleftrightarrow>
     (\<forall>s. saved es s = map_option forget_token (get (rEntries r) s) \<or>
          (get (rEntries r) s = None \<and> (\<exists>x. saved es s = Some x \<and> isReleasableLocked now r x)))"

definition file_covers :: "time \<Rightarrow> registry \<Rightarrow> snapshot_file \<Rightarrow> bool" where
  "file_covers now r f =
     (case f of Snapshot es \<Rightarrow> covers now r es | _ \<Rightarrow> covers now r [])"

lemma time_Sub_mono: "t \<le> t' \<Longrightarrow> time_Sub t u \<le> time_Sub t' u"
  by (auto simp: time_Sub_def)

lemma releasable_later: "isReleasableLocked now r e \<Longrightarrow> now \<le> t \<Longrightarrow> isReleasableLocked t r e"
  using time_Sub_mono [of now t "eLastSeen e + rInactivityTTL r"]
  by (auto simp: isReleasableLocked_def lapsedAtLocked_def Let_def split: if_splits)

lemma releasable_forget [simp]: "isReleasableLocked now r (forget_token e) = isReleasableLocked now r e"
  by (simp add: isReleasableLocked_def lapsedAtLocked_def Let_def)

text \<open>An operation that leaves the flag clear has only dropped releasable entries.\<close>

definition quiet :: "time \<Rightarrow> registry \<Rightarrow> registry \<Rightarrow> bool" where
  "quiet now r r' \<longleftrightarrow>
     (\<forall>s. get (rEntries r') s = get (rEntries r) s \<or>
          (get (rEntries r') s = None \<and> (\<exists>e. get (rEntries r) s = Some e \<and> isReleasableLocked now r e)))"

lemma quiet_refl [simp]: "quiet now r r"
  by (simp add: quiet_def)

lemma quiet_release_spent [simp]: "quiet now r (release_spent now s r)"
  by (auto simp: quiet_def release_spent_def drop_entry_def gomap.rd_rm split: option.splits)

lemma dirty_release_spent [simp]: "rDirty (release_spent now s r) = rDirty r"
  by (simp add: release_spent_def drop_entry_def split: option.splits)

lemma dirty_store_entry [simp]: "rDirty (store_entry s e r)"
  by (simp add: store_entry_def)

lemma dirty_cleanup_fold:
  "rDirty (fst (fold (cleanup_turn now) l (r, removed))) \<longleftrightarrow>
     rDirty r \<or> (\<exists>(s, e) \<in> set l. \<not> isReleasableLocked now r e \<and> (pending_stale now e \<or> prev_stale now e))"
proof (induction l arbitrary: r removed)
  case (Cons x l)
  obtain k e where x: "x = (k, e)" by (cases x)
  obtain r1 rem1 where turn: "cleanup_turn now x (r, removed) = (r1, rem1)"
    by (cases "cleanup_turn now x (r, removed)")
  have same: "settings r1 = settings r"
    using settings_cleanup_turn [of now x "(r, removed)"] turn by simp
  have "rDirty r1 \<longleftrightarrow> rDirty r \<or> (\<not> isReleasableLocked now r e \<and> (pending_stale now e \<or> prev_stale now e))"
    using turn x by (auto simp: cleanup_turn_def drop_entry_def split: if_splits)
  then show ?case
    using Cons.IH [of r1 rem1] turn x releasable_settings [OF same] by auto
qed simp

lemma expire_pins_fresh: "\<not> pending_stale now e \<Longrightarrow> \<not> prev_stale now e \<Longrightarrow> expire_pins now e = e"
  by (simp add: expire_pins_def)

lemma quiet_Cleanup:
  assumes "distinct_keys (rEntries r)" and "\<not> rDirty (fst (Cleanup now r))"
  shows "quiet now r (fst (Cleanup now r))"
proof -
  have "expire_pins now e = e" if "get (rEntries r) s = Some e" "\<not> isReleasableLocked now r e" for s e
    using assms(2) that map_of_SomeD [OF that(1)]
    by (intro expire_pins_fresh) (auto simp: Cleanup_def dirty_cleanup_fold)
  then show ?thesis
    using assms(1) by (auto simp: quiet_def get_Cleanup split: option.splits)
qed

lemma quiet_exec:
  assumes "distinct_keys (rEntries r)" and "\<not> rDirty (exec H now r op)"
  shows "quiet now r (exec H now r op)"
proof (cases op)
  case (OpRegister nt s ip tok)
  then show ?thesis
    using assms(2) by (auto simp: Register_def Let_def split: option.splits if_splits)
next
  case OpCleanup
  then show ?thesis
    using assms by (simp add: quiet_Cleanup)
qed (use assms(2) in \<open>auto simp: Deregister_def Ping_def AssertPin_def ActivatePin_def activate_at_def
       StorePendingPin_def PromoteOnObserve_def IssueChallenge_def RecordProof_def
       split: option.splits if_splits\<close>)

lemma dirty_exec:
  assumes "rDirty r"
  shows "rDirty (exec H now r op)"
proof (cases op)
  case OpCleanup
  then show ?thesis
    using assms by (simp add: Cleanup_def dirty_cleanup_fold)
qed (use assms in \<open>auto simp: Register_def Let_def Deregister_def Ping_def AssertPin_def ActivatePin_def
       activate_at_def StorePendingPin_def PromoteOnObserve_def IssueChallenge_def RecordProof_def
       split: option.splits\<close>)

lemma well_stored_exec:
  assumes "well_stored clock r" and "clock \<le> now" and "zero_time < now" and "admissible H r op"
  shows "well_stored now (exec H now r op)"
proof -
  have dist: "distinct_keys (rEntries r)"
    using assms(1) by (simp add: well_stored_def reg_index_distinct)
  have "tick clock now op"
    using assms by (simp add: tick_def admissible_op_ok)
  moreover have "entries_sat (\<lambda>s e. tick clock now op \<longrightarrow> entry_ok clock s e) r"
    using assms(1) by (simp add: well_stored_def entries_sat_def)
  ultimately have "entries_sat (entry_ok now) (exec H now r op)"
    using clocked.entries_exec [OF dist, of clock now op H] by (simp add: entries_sat_def)
  then show ?thesis
    using assms hashed.entries_exec [OF dist] reg_index_exec by (simp add: well_stored_def)
qed

lemma saved_snapshot:
  assumes "well_stored clock r"
  shows "saved (snapshot r) s = map_option forget_token (get (rEntries r) s)"
proof -
  have "eSubdomain e = k" if "(k, e) \<in> set (rEntries r)" for k e
    using assms that
    by (auto simp: well_stored_def entries_sat_def entry_ok_def reg_index_distinct get_in_set [symmetric])
  then have "map (\<lambda>e. (eSubdomain e, e)) (snapshot r) = map (\<lambda>(k, e). (k, forget_token e)) (rEntries r)"
    by (auto simp: snapshot_def)
  then show ?thesis
    by (simp add: saved_def get_map_values)
qed

lemma covers_snapshot: "well_stored clock r \<Longrightarrow> covers now r (snapshot r)"
  by (simp add: covers_def saved_snapshot)

lemma covers_quiet:
  assumes "covers clock r es" and "quiet now r r'" and "clock \<le> now" and "settings r' = settings r"
  shows "covers now r' es"
proof -
  have same: "isReleasableLocked now r' x = isReleasableLocked now r x" for x
    using assms(4) by (rule releasable_settings)
  show ?thesis
    unfolding covers_def
  proof
    fix s
    show "saved es s = map_option forget_token (get (rEntries r') s) \<or>
      (get (rEntries r') s = None \<and> (\<exists>x. saved es s = Some x \<and> isReleasableLocked now r' x))"
      using assms(1,2) releasable_later [OF _ assms(3)]
      unfolding covers_def quiet_def same by (metis option.simps(8,9) releasable_forget)
  qed
qed

definition snap_ok :: "time \<Rightarrow> entry list \<Rightarrow> bool" where
  "snap_ok clock es \<longleftrightarrow> (\<exists>r clock'. clock' \<le> clock \<and> well_stored clock' r \<and> es = snapshot r)"

definition recorded :: "store \<Rightarrow> bool" where
  "recorded st \<longleftrightarrow>
     (\<forall>b es. sSave st = Some (b, es) \<longrightarrow> covers (sClock st) (sReg st) es) \<and>
     ((\<forall>es. sSave st \<noteq> Some (True, es)) \<longrightarrow> file_covers (sClock st) (sReg st) (sDisk st))"

definition unwritten :: "store \<Rightarrow> bool" where
  "unwritten st \<longleftrightarrow>
     rDirty (sReg st) \<or> sFlush st = Failed \<or> (sFlush st = Cleared \<and> (\<forall>es. sSave st \<noteq> Some (True, es)))"

definition store_inv :: "store \<Rightarrow> bool" where
  "store_inv st \<longleftrightarrow>
     well_stored (sClock st) (sReg st) \<and>
     (sDisk st = Missing \<or> (\<exists>es. sDisk st = Snapshot es \<and> snap_ok (sClock st) es)) \<and>
     (\<forall>b es. sSave st = Some (b, es) \<longrightarrow> snap_ok (sClock st) es) \<and>
     (\<forall>es. sSave st = Some (True, es) \<longrightarrow> sFlush st = Cleared) \<and>
     (unwritten st \<or> recorded st)"

lemma recorded_quiet:
  assumes "recorded st" and "quiet now (sReg st) r'" and "sClock st \<le> now" and "settings r' = settings (sReg st)"
  shows "recorded (st\<lparr>sReg := r', sClock := now\<rparr>)"
  using assms(1) covers_quiet [OF _ assms(2-4)]
  by (auto simp: recorded_def file_covers_def split: snapshot_file.splits)

lemma snap_ok_later: "snap_ok clock es \<Longrightarrow> clock \<le> now \<Longrightarrow> snap_ok now es"
  unfolding snap_ok_def using order_trans by blast

lemma dirty_flush_failed [simp]: "rDirty (flush_failed r)"
  by (simp add: flush_failed_def)

lemma well_stored_dirty [simp]:
  "well_stored clock (flush_begin r) = well_stored clock r"
  "well_stored clock (flush_failed r) = well_stored clock r"
  by (simp_all add: well_stored_def flush_begin_def flush_failed_def entries_sat_def)

lemma store_inv_operate:
  assumes "store_inv st" and now: "sClock st \<le> now" "zero_time < now" and adm: "admissible H (sReg st) op"
  shows "store_inv (st\<lparr>sReg := exec H now (sReg st) op, sClock := now\<rparr>)"
proof -
  let ?st = "st\<lparr>sReg := exec H now (sReg st) op, sClock := now\<rparr>"
  have dist: "distinct_keys (rEntries (sReg st))"
    using assms(1) by (simp add: store_inv_def well_stored_def reg_index_distinct)
  have "unwritten ?st \<or> recorded ?st"
  proof (cases "unwritten st \<or> rDirty (sReg ?st)")
    case True
    then show ?thesis
      using dirty_exec by (auto simp: unwritten_def)
  next
    case False
    then have "recorded st" and "quiet now (sReg st) (exec H now (sReg st) op)"
      using assms(1) quiet_exec [OF dist] by (simp_all add: store_inv_def)
    then show ?thesis
      using recorded_quiet [OF _ _ now(1) settings_exec] by blast
  qed
  then show ?thesis
    using assms well_stored_exec [OF _ now adm] snap_ok_later [OF _ now(1)] by (auto simp: store_inv_def)
qed

lemma snap_ok_now: "well_stored clock r \<Longrightarrow> snap_ok clock (snapshot r)"
  by (auto simp: snap_ok_def)

lemmas store_inv_unfold = store_inv_def unwritten_def recorded_def file_covers_def

lemma store_inv_step: "store_step H st st' \<Longrightarrow> store_inv st \<Longrightarrow> store_inv st'"
proof (induction rule: store_step.induct)
  case (operate st now op)
  then show ?case by (simp add: store_inv_operate)
next
  case (save_begin st)
  then show ?case by (auto simp: store_inv_unfold snap_ok_now covers_snapshot)
next
  case (flush_snap st)
  then show ?case by (auto simp: store_inv_unfold snap_ok_now covers_snapshot)
next
  case (flush_start st)
  then show ?case by (auto simp: store_inv_def unwritten_def)
next
  case (flush_retry st)
  then show ?case by (auto simp: store_inv_def unwritten_def)
qed (auto simp: store_inv_unfold)

lemma store_run_inv: "store_run H st \<Longrightarrow> store_inv st"
proof (induction rule: store_run.induct)
  case (boot r)
  then show ?case
    by (simp add: store_inv_unfold well_stored_def reg_index_def entries_sat_def empty_registry_def
        covers_def saved_def)
next
  case (move st st')
  then show ?case by (blast intro: store_inv_step)
qed

lemma load_covering:
  assumes "store_inv st" and "\<not> unwritten st" and "\<forall>es. sSave st \<noteq> Some (True, es)"
    and "empty_registry r1" and "LoadFrom H r1 (sDisk st) = (r', err)"
  shows "err = None \<and> settings r' = settings r1 \<and>
    (get (rEntries r') s = map_option forget_token (get (rEntries (sReg st)) s) \<or>
     (get (rEntries (sReg st)) s = None \<and>
      (\<exists>x. get (rEntries r') s = Some x \<and> isReleasableLocked (sClock st) (sReg st) x)))"
proof -
  have cov: "file_covers (sClock st) (sReg st) (sDisk st)"
    using assms(1-3) by (auto simp: store_inv_def recorded_def)
  consider "sDisk st = Missing" | r clock where "sDisk st = Snapshot (snapshot r)" "well_stored clock r"
    using assms(1) by (auto simp: store_inv_def snap_ok_def)
  then show ?thesis
  proof cases
    case 1
    then show ?thesis
      using cov assms(4,5) by (auto simp: file_covers_def covers_def saved_def LoadFrom_def empty_registry_def)
  next
    case 2
    then have "get (rEntries r') s = saved (snapshot r) s" "err = None" "settings r' = settings r1"
      using load_snapshot [OF 2(2), where H = H and ?r1.0 = r1] assms(5) by (auto simp: saved_snapshot)
    then show ?thesis
      using cov 2 by (auto simp: file_covers_def covers_def)
  qed
qed

lemma Routable_forget:
  "isExpiredLocked t r (forget_token e) = isExpiredLocked t r e"
  "proofValidLocked t (forget_token e) = proofValidLocked t e"
  by (simp_all add: isExpiredLocked_def lapsedAtLocked_def Let_def proofValidLocked_def leaseCurrentLocked_def
      everProvenLocked_def, simp_all add: forget_token_def)

text \<open>
  C6. No lost update: whenever the flush is idle and the dirty flag is clear, in any interleaving of
  operations, saves, flushes and failed writes, a restart from the file shows every label that is
  live in memory with the same entry, serves it if and only if it was served, and shows no label
  that was not live.
\<close>

theorem flush_loses_nothing:
  assumes "store_run H st" and "sFlush st = Idle" and "\<not> rDirty (sReg st)"
    and "empty_registry r1" and "settings r1 = settings (sReg st)"
    and "LoadFrom H r1 (sDisk st) = (r', err)" and "sClock st \<le> t"
  shows "err = None \<and> Lookup t r' s = map_option forget_token (Lookup t (sReg st) s) \<and>
    Routable t r' s = Routable t (sReg st) s"
proof -
  have inv: "store_inv st"
    using assms(1) by (rule store_run_inv)
  then have "\<forall>es. sSave st \<noteq> Some (True, es)" and "\<not> unwritten st"
    using assms(2,3) by (auto simp: store_inv_def unwritten_def)
  then have r': "err = None \<and> settings r' = settings r1 \<and>
    (get (rEntries r') s = map_option forget_token (get (rEntries (sReg st)) s) \<or>
     (get (rEntries (sReg st)) s = None \<and>
      (\<exists>x. get (rEntries r') s = Some x \<and> isReleasableLocked (sClock st) (sReg st) x)))"
    using load_covering [OF inv _ _ assms(4,6)] by blast
  have same: "isExpiredLocked t r' e = isExpiredLocked t (sReg st) e" for e
    using r' assms(5) by (intro expired_settings) simp
  have gone: "isExpiredLocked t r' x" if "isReleasableLocked (sClock st) (sReg st) x" for x
    using expired_later [OF releasable_expired [OF that] assms(7)] same by simp
  show ?thesis
    using r' gone same
    by (cases "get (rEntries (sReg st)) s") (auto simp: Lookup_def Routable_def Routable_forget)
qed

definition demo_store :: store where
  "demo_store = \<lparr>sReg = flush_begin (exec id 1 New (OpRegister (Some ''tok'') ''lab'' ''198.51.100.7'' [])),
     sDisk = Snapshot (snapshot (exec id 1 New (OpRegister (Some ''tok'') ''lab'' ''198.51.100.7'' []))),
     sClock = 1, sFlush = Idle, sSave = None\<rparr>"

lemma demo_store_run: "store_run id demo_store"
proof -
  let ?op = "OpRegister (Some ''tok'') ''lab'' ''198.51.100.7'' []"
  let ?r = "exec id 1 New ?op"
  let ?st0 = "\<lparr>sReg = New, sDisk = Missing, sClock = zero_time, sFlush = Idle, sSave = None\<rparr>"
  have adm: "admissible id New ?op" and dirty: "rDirty ?r" by code_simp+
  have "store_run id ?st0"
    by (rule store_run.boot) (simp add: empty_registry_def New_def)
  from store_run.move [OF this store_step.operate [of ?st0 1 id ?op]]
  have "store_run id (?st0\<lparr>sReg := ?r, sClock := 1\<rparr>)"
    using adm by simp
  from store_run.move [OF this store_step.flush_start] dirty
  have "store_run id (?st0\<lparr>sReg := flush_begin ?r, sClock := 1, sFlush := Cleared\<rparr>)"
    by simp
  from store_run.move [OF this store_step.flush_snap]
  have "store_run id (?st0\<lparr>sReg := flush_begin ?r, sClock := 1, sFlush := Cleared,
      sSave := Some (True, snapshot (flush_begin ?r))\<rparr>)"
    by simp
  from store_run.move [OF this store_step.flush_ok [of _ "snapshot (flush_begin ?r)"]]
  show ?thesis
    by (simp add: demo_store_def flush_begin_def snapshot_def)
qed

theorem flush_loses_nothing_witness:
  "Lookup 2 (fst (LoadFrom id New (sDisk demo_store))) ''lab'' =
     map_option forget_token (Lookup 2 (sReg demo_store) ''lab'')"
proof -
  have load: "LoadFrom id New (sDisk demo_store) =
      (fst (LoadFrom id New (sDisk demo_store)), snd (LoadFrom id New (sDisk demo_store)))"
    by simp
  have "sFlush demo_store = Idle" "\<not> rDirty (sReg demo_store)" "sClock demo_store \<le> 2"
    by (simp_all add: demo_store_def flush_begin_def)
  moreover have "empty_registry New" "settings New = settings (sReg demo_store)"
    by code_simp+
  ultimately show ?thesis
    using flush_loses_nothing [OF demo_store_run _ _ _ _ load, of 2] by blast
qed

subsection \<open>Pruning\<close>

lemma prune_fold:
  assumes "reg_index r" and "distinct_keys l" and "\<And>s e. (s, e) \<in> set l \<Longrightarrow> get (rEntries r) s = Some e"
  shows "reg_index (fst (fold (prune_turn unwanted) l (r, n))) \<and>
    snd (fold (prune_turn unwanted) l (r, n)) = n + length (filter (\<lambda>(s, e). unwanted e) l) \<and>
    get (rEntries (fst (fold (prune_turn unwanted) l (r, n)))) s =
      (case get l s of Some e \<Rightarrow> if unwanted e then None else Some e | None \<Rightarrow> get (rEntries r) s)"
  using assms
proof (induction l arbitrary: r n)
  case (Cons x l)
  obtain k e where x: "x = (k, e)" by (cases x)
  let ?r = "if unwanted e then drop_entry k e r else r"
  let ?n = "if unwanted e then Suc n else n"
  have here: "get (rEntries r) k = Some e" and "get l k = None" and "distinct_keys l"
    using Cons.prems(2,3) x by (auto simp: distinct_keys_def map_of_eq_None_iff)
  have idx: "reg_index ?r"
    using Cons.prems(1) here by (simp add: reg_index_drop_entry)
  have rest: "get (rEntries ?r) s = Some d" if "(s, d) \<in> set l" for s d
  proof -
    have "s \<noteq> k"
      using that Cons.prems(2) x by (force simp: distinct_keys_def)
    then show ?thesis
      using Cons.prems(3) [of s d] that by (simp add: drop_entry_def go_map)
  qed
  from Cons.IH [OF idx \<open>distinct_keys l\<close> rest, of ?n] show ?case
    using x here \<open>get l k = None\<close>
    by (auto simp: prune_turn_def drop_entry_def go_map split: option.splits if_splits)
qed simp

text \<open>
  Pruning is exact: \<open>PruneEntries\<close> removes the entries the predicate names and no other, counts
  them, and leaves the token index consistent, so a pruned registration's token finds nothing;
  \<open>Prune\<close> is the same for the addresses that fail the policy.
\<close>

lemma prune_is_exact:
  assumes "run H r0 tr clock r"
  shows "case PruneEntries unwanted r of (r', n) \<Rightarrow>
      reg_index r' \<and> n = card {s. \<exists>e. get (rEntries r) s = Some e \<and> unwanted e} \<and>
      get (rEntries r') s = (case get (rEntries r) s of Some e \<Rightarrow> if unwanted e then None else Some e | None \<Rightarrow> None) \<and>
      Prune keep r = PruneEntries (\<lambda>e. \<not> keep (eIP e)) r"
proof -
  have idx: "reg_index r" and dist: "distinct_keys (rEntries r)"
    using run_reg_inv [OF assms] by (simp_all add: reg_inv_def reg_index_distinct)
  have "length (filter (\<lambda>(s, e). unwanted e) (rEntries r)) = card {s. \<exists>e. get (rEntries r) s = Some e \<and> unwanted e}"
    using count_values [OF dist, of unwanted] by (simp add: filter_map comp_def split_def)
  then show ?thesis
    using prune_fold [OF idx dist, of unwanted 0 s] dist
    by (auto simp: PruneEntries_def Prune_def get_in_set split: prod.splits option.splits)
qed

end
