(* ===== verification/Hostnames.thy ===== *)
theory Hostnames
  imports Go_Strings
begin

text \<open>
  How Kipper derives the host names it serves, \<^verbatim>\<open>src/controller/pkg/hostnames/hostnames.go\<close>, and the
  message a proof of possession signs, \<^verbatim>\<open>src/controller/pkg/hopproof/hopproof.go\<close>. The gateway's
  registration guard and its router both build on these functions.
\<close>

subsection \<open>Labels\<close>

definition DerivedRouteSeparator :: string where
  "DerivedRouteSeparator = ''--''"

definition kipperRunSuffix :: string where
  "kipperRunSuffix = ''.kipper.run''"

definition MaxLabelLength :: nat where
  "MaxLabelLength = 63"

definition label_alnum :: "char \<Rightarrow> bool" where
  "label_alnum c \<longleftrightarrow> c \<in> set ''abcdefghijklmnopqrstuvwxyz0123456789''"

text \<open>The regular expression \<^verbatim>\<open>^[a-z0-9]([a-z0-9-]{0,61}[a-z0-9])?$\<close>, matched by hand.\<close>

definition LabelPattern :: "string \<Rightarrow> bool" where
  "LabelPattern s \<longleftrightarrow>
     s \<noteq> [] \<and> label_alnum (hd s) \<and>
     (length s = 1 \<or>
      (length s \<le> 63 \<and> label_alnum (last s) \<and>
       list_all (\<lambda>c. label_alnum c \<or> c = CHR ''-'') (butlast (tl s))))"

definition ReservedLabels :: "string list" where
  "ReservedLabels =
     [''console'', ''console-api'', ''dex'', ''api'', ''www'', ''admin'', ''kipper'', ''register'', ''health'',
      ''status'', ''gateway'',
      ''login'', ''logout'', ''auth'', ''sso'', ''oauth'', ''oidc'', ''account'', ''accounts'', ''signup'',
      ''docs'', ''support'', ''help'', ''security'', ''billing'', ''blog'',
      ''mail'', ''smtp'', ''mx'', ''ns1'', ''ns2'', ''webmail'']"

definition LabelForIP :: "string \<Rightarrow> string" where
  "LabelForIP ip = replace_char (CHR ''.'') (CHR ''-'') ip"

text \<open>
  \<open>net.ParseIP\<close> also reads the colon forms. Such an input is never the dashed form of an IPv4
  address, which has no colon, so the round trip of \<open>IPShapedLabel\<close> rejects it either way.
\<close>

definition IPShapedLabel :: "string \<Rightarrow> bool" where
  "IPShapedLabel label =
     (case parseIPv4 (replace_char (CHR ''-'') (CHR ''.'') label) of
        None \<Rightarrow> False
      | Some ip \<Rightarrow> LabelForIP (ipv4_String ip) = label)"

datatype label_error = ErrPattern | ErrSeparator | ErrReserved

definition ValidateClusterLabel :: "string \<Rightarrow> label_error option" where
  "ValidateClusterLabel label =
     (if \<not> LabelPattern label then Some ErrPattern
      else if Contains label DerivedRouteSeparator then Some ErrSeparator
      else if label \<in> set ReservedLabels then Some ErrReserved
      else None)"

subsection \<open>Hosts\<close>

definition IsKipperRun :: "string \<Rightarrow> bool" where
  "IsKipperRun host = HasSuffix host kipperRunSuffix"

definition SubdomainFor :: "string \<Rightarrow> string \<Rightarrow> string" where
  "SubdomainFor prefix domain =
     (if HasSuffix domain kipperRunSuffix then prefix @ DerivedRouteSeparator @ domain
      else prefix @ ''.'' @ domain)"

definition HostFor :: "string \<Rightarrow> string \<Rightarrow> string \<Rightarrow> string" where
  "HostFor prefix override domain = (if override \<noteq> [] then override else SubdomainFor prefix domain)"

definition UIDomainFor :: "string \<Rightarrow> string" where
  "UIDomainFor domain =
     (if domain = ''kipper.run'' \<or> HasSuffix domain kipperRunSuffix then [] else domain)"

subsection \<open>The signed message of a proof\<close>

definition Protocol :: string where
  "Protocol = ''kipper-hop-proof-v1''"

text \<open>The bytes that are hashed; the digest itself is SHA-256 of them.\<close>

definition Digest_msg :: "string \<Rightarrow> string \<Rightarrow> string \<Rightarrow> string \<Rightarrow> string \<Rightarrow> string" where
  "Digest_msg nonce label ip origin token =
     Join [Protocol, nonce, label, ip, origin, token] [CHR 0x0A]"

text \<open>
  \<open>sha\<close> is SHA-256, \<open>decode\<close> base64 decoding and \<open>ecdsa\<close> the signature check of the standard
  library; \<open>pub\<close> is absent for Go's nil key.
\<close>

definition Verify ::
  "(string \<Rightarrow> string) \<Rightarrow> (string \<Rightarrow> string option) \<Rightarrow> ('key \<Rightarrow> string \<Rightarrow> string \<Rightarrow> bool) \<Rightarrow> 'key option
     \<Rightarrow> string \<Rightarrow> string \<Rightarrow> string \<Rightarrow> string \<Rightarrow> string \<Rightarrow> string \<Rightarrow> bool" where
  "Verify sha decode ecdsa pub nonce label ip origin token sigB64 =
     (case pub of
        None \<Rightarrow> False
      | Some k \<Rightarrow>
          (case decode sigB64 of
             None \<Rightarrow> False
           | Some sg \<Rightarrow> ecdsa k (sha (Digest_msg nonce label ip origin token)) sg))"

subsection \<open>Facts about labels\<close>

lemma label_alnum_not_dash [simp]: "\<not> label_alnum (CHR ''-'')"
  by (simp add: label_alnum_def)

lemma LabelPattern_chars:
  assumes "LabelPattern s"
  shows "list_all (\<lambda>c. label_alnum c \<or> c = CHR ''-'') s"
proof (cases "length s = 1")
  case True
  then obtain c where "s = [c]" by (auto simp: length_Suc_conv)
  then show ?thesis using assms by (simp add: LabelPattern_def)
next
  case False
  then obtain c t d where s: "s = c # t @ [d]"
    using assms by (cases s; cases "tl s" rule: rev_cases) (auto simp: LabelPattern_def)
  then show ?thesis
    using assms by (simp add: LabelPattern_def butlast_append)
qed

lemma LabelPattern_no_char:
  "LabelPattern s \<Longrightarrow> c \<noteq> CHR ''-'' \<Longrightarrow> \<not> label_alnum c \<Longrightarrow> c \<notin> set s"
  using LabelPattern_chars by (fastforce simp: list_all_iff)

lemma LabelPattern_hd: "LabelPattern s \<Longrightarrow> s \<noteq> [] \<and> hd s \<noteq> CHR ''-''"
  using label_alnum_not_dash unfolding LabelPattern_def by metis

text \<open>The last separator of \<open>p--s\<close> is the one in front of a valid label \<open>s\<close>.\<close>

lemma LastIndex_derived:
  assumes "LabelPattern s" and "\<not> Contains s DerivedRouteSeparator"
  shows "LastIndex (p @ DerivedRouteSeparator @ s) DerivedRouteSeparator = Some (length p)"
proof (rule LastIndex_eqI)
  let ?t = "p @ DerivedRouteSeparator @ s"
  show "\<not> HasPrefix (drop j ?t) DerivedRouteSeparator" if "length p < j" "j \<le> length ?t" for j
  proof (cases "j = length p + 1")
    case True
    then have "drop j ?t = CHR ''-'' # s"
      by (simp add: DerivedRouteSeparator_def)
    then show ?thesis
      using LabelPattern_hd [OF assms(1)] by (cases s) (auto simp: HasPrefix_def DerivedRouteSeparator_def)
  next
    case False
    define k where "k = j - length p - 2"
    then have "j = length p + Suc (Suc k)"
      using that False by linarith
    then have k: "drop j ?t = drop k s"
      by (simp add: DerivedRouteSeparator_def)
    show ?thesis
    proof
      assume "HasPrefix (drop j ?t) DerivedRouteSeparator"
      then obtain u where "drop k s = DerivedRouteSeparator @ u"
        using k by (auto simp: HasPrefix_iff)
      then have "s = take k s @ DerivedRouteSeparator @ u"
        by (metis append_take_drop_id)
      then show False
        using assms(2) Contains_iff by blast
    qed
  qed
qed simp_all

subsection \<open>Properties\<close>

text \<open>
  The names reserved for addresses are exactly the default names: a label is refused to
  strangers as address-shaped if and only if some IPv4 address renders to it.
\<close>

lemma ip_shaped_labels_are_default_names:
  "IPShapedLabel label \<longleftrightarrow> (\<exists>ip. ipv4_ok ip \<and> label = LabelForIP (ipv4_String ip))"
proof
  assume shaped: "IPShapedLabel label"
  then obtain ip where "parseIPv4 (replace_char (CHR ''-'') (CHR ''.'') label) = Some ip"
    by (cases "parseIPv4 (replace_char (CHR ''-'') (CHR ''.'') label)") (simp_all add: IPShapedLabel_def)
  then have "ipv4_ok ip \<and> label = LabelForIP (ipv4_String ip)"
    using shaped parseIPv4_ok by (simp add: IPShapedLabel_def)
  then show "\<exists>ip. ipv4_ok ip \<and> label = LabelForIP (ipv4_String ip)" by blast
next
  assume "\<exists>ip. ipv4_ok ip \<and> label = LabelForIP (ipv4_String ip)"
  then obtain ip where ip: "ipv4_ok ip" "label = LabelForIP (ipv4_String ip)" by blast
  have "CHR ''-'' \<notin> set (ipv4_String ip)"
    by (auto simp: ipv4_String_def dash_not_decimal split: prod.splits)
  then have "replace_char (CHR ''-'') (CHR ''.'') label = ipv4_String ip"
    using ip(2) by (simp add: LabelForIP_def replace_char_back)
  then show "IPShapedLabel label"
    using ip by (simp add: IPShapedLabel_def parse_String)
qed

text \<open>
  The signed message is unambiguous: two proofs whose fields hold no newline sign the same
  bytes only if nonce, label, address, origin and token all agree, so a signature is usable for the
  exact registration it was issued for and no other.
\<close>

lemma proof_message_unambiguous:
  assumes "Digest_msg n l i g t = Digest_msg n' l' i' g' t'"
    and "list_all (\<lambda>s. CHR 0x0A \<notin> set s) [n, l, i, g, t, n', l', i', g', t']"
  shows "n = n' \<and> l = l' \<and> i = i' \<and> g = g' \<and> t = t'"
proof -
  have "CHR 0x0A \<notin> set Protocol" by (simp add: Protocol_def)
  then have "[Protocol, n, l, i, g, t] = [Protocol, n', l', i', g', t']"
    using assms Join_inj [of "[Protocol, n, l, i, g, t]" "CHR 0x0A" "[Protocol, n', l', i', g', t']"]
    by (simp add: Digest_msg_def)
  then show ?thesis by simp
qed

end
