(* ===== verification/Gateway_Proxy.thy ===== *)
theory Gateway_Proxy
  imports Gateway_Properties Hostnames
begin

text \<open>
  The gateway's data plane, \<^verbatim>\<open>src/gateway/proxy.go\<close>: the bounded cache of reverse proxies, the
  resolution of a host to a registration, the gates a request passes before it is proxied, the
  per-cluster concurrency cap and the verification of the upstream certificate.

  The in-flight counters are pointers in Go (\<open>*atomic.Int64\<close>) that a request keeps until it is
  done, so they live in an explicit heap: \<open>pxInFlight\<close> maps a label to an index of \<open>pxCounters\<close>.
\<close>

subsection \<open>The proxy cache\<close>

definition maxCachedProxies :: nat where
  "maxCachedProxies = 4096"

definition graceLogInterval :: duration where
  "graceLogInterval = 5 * minute"

text \<open>
  \<open>pcOrder\<close> is the linked list, most recently used first; \<open>pcItems\<close> the map into it. \<open>pcClosed\<close>
  records the proxies \<open>closeIdle\<close> was called on, latest first.
\<close>

record 'p proxyCache =
  pcOrder :: "(string, 'p) gomap"
  pcItems :: "(string, 'p) gomap"
  pcCap :: nat
  pcClosed :: "'p list"

definition newProxyCache :: "nat \<Rightarrow> 'p proxyCache" where
  "newProxyCache n = \<lparr>pcOrder = [], pcItems = [], pcCap = n, pcClosed = []\<rparr>"

definition cache_len :: "'p proxyCache \<Rightarrow> nat" where
  "cache_len c = length (pcOrder c)"

definition MoveToFront :: "string \<Rightarrow> 'p \<Rightarrow> (string, 'p) gomap \<Rightarrow> (string, 'p) gomap" where
  "MoveToFront key p order = (key, p) # del key order"

definition cache_get :: "'p proxyCache \<Rightarrow> string \<Rightarrow> 'p proxyCache \<times> 'p option" where
  "cache_get c key =
     (case get (pcItems c) key of
        Some p \<Rightarrow> (c\<lparr>pcOrder := MoveToFront key p (pcOrder c)\<rparr>, Some p)
      | None \<Rightarrow> (c, None))"

definition cache_add :: "'p proxyCache \<Rightarrow> string \<Rightarrow> 'p \<Rightarrow> 'p proxyCache \<times> 'p" where
  "cache_add c key proxy =
     (case get (pcItems c) key of
        Some p \<Rightarrow>
          (c\<lparr>pcOrder := MoveToFront key p (pcOrder c), pcClosed := proxy # pcClosed c\<rparr>, p)
      | None \<Rightarrow>
          let c1 = c\<lparr>pcOrder := (key, proxy) # pcOrder c, pcItems := put key proxy (pcItems c)\<rparr>
          in if pcCap c1 < length (pcOrder c1) then
               (case last (pcOrder c1) of
                  (k, ent) \<Rightarrow> (c1\<lparr>pcOrder := butlast (pcOrder c1), pcItems := del k (pcItems c1),
                                  pcClosed := ent # pcClosed c1\<rparr>, proxy))
             else (c1, proxy))"

subsection \<open>The proxy\<close>

text \<open>What \<open>buildProxy\<close> puts into a reverse proxy and its transport.\<close>

record reverseProxy =
  rpTarget :: string
  rpServerName :: string
  rpVerify :: string \<comment> \<open>the label \<open>verifyPin\<close> is bound to\<close>
  rpKeepAlives :: bool

record Proxy =
  pxBaseDomain :: string
  pxEnforceProof :: bool
  pxProofSkipLogged :: "(string, time) gomap"
  pxGraceLogged :: "(string, time) gomap"
  pxProxies :: "reverseProxy proxyCache"
  pxClusterInFlight :: int
  pxInFlight :: "(string, nat) gomap"
  pxCounters :: "int list"

datatype admission = NoCap | Slot nat | AtCap

definition enterCluster :: "Proxy \<Rightarrow> string \<Rightarrow> Proxy \<times> admission" where
  "enterCluster p subdomain =
     (if pxClusterInFlight p \<le> 0 then (p, NoCap)
      else
        let (p1, counter) =
              (case get (pxInFlight p) subdomain of
                 Some a \<Rightarrow> (p, a)
               | None \<Rightarrow> (p\<lparr>pxInFlight := put subdomain (length (pxCounters p)) (pxInFlight p),
                             pxCounters := pxCounters p @ [0]\<rparr>, length (pxCounters p)))
        in if pxClusterInFlight p1 \<le> pxCounters p1 ! counter then (p1, AtCap)
           else (p1\<lparr>pxCounters := (pxCounters p1)[counter := pxCounters p1 ! counter + 1]\<rparr>, Slot counter))"

text \<open>The closure \<open>enterCluster\<close> hands back.\<close>

definition release :: "Proxy \<Rightarrow> nat \<Rightarrow> Proxy" where
  "release p counter = p\<lparr>pxCounters := (pxCounters p)[counter := pxCounters p ! counter - 1]\<rparr>"

definition forgetCluster :: "Proxy \<Rightarrow> string \<Rightarrow> Proxy" where
  "forgetCluster p subdomain =
     (let p1 = p\<lparr>pxProofSkipLogged := del subdomain (pxProofSkipLogged p),
                 pxGraceLogged := del subdomain (pxGraceLogged p)\<rparr>
      in case get (pxInFlight p1) subdomain of
           Some a \<Rightarrow> if pxCounters p1 ! a = 0 then p1\<lparr>pxInFlight := del subdomain (pxInFlight p1)\<rparr> else p1
         | None \<Rightarrow> p1)"

datatype skip_reason = NeverProven | LeaseLapsed | PinNotProven

definition logProofSkip :: "time \<Rightarrow> Proxy \<Rightarrow> entry \<Rightarrow> Proxy \<times> skip_reason option" where
  "logProofSkip now p entry =
     (if (case get (pxProofSkipLogged p) (eSubdomain entry) of
            Some before \<Rightarrow> time_Sub now before < graceLogInterval | None \<Rightarrow> False)
      then (p, None)
      else (p\<lparr>pxProofSkipLogged := put (eSubdomain entry) now (pxProofSkipLogged p)\<rparr>,
            Some (if eProvenAt entry = zero_time then NeverProven
                  else if \<not> now < eProofExpiry entry then LeaseLapsed
                  else PinNotProven)))"

definition logGrace :: "time \<Rightarrow> Proxy \<Rightarrow> string \<Rightarrow> Proxy" where
  "logGrace now p subdomain =
     (if (case get (pxGraceLogged p) subdomain of
            Some before \<Rightarrow> time_Sub now before < graceLogInterval | None \<Rightarrow> False)
      then p else p\<lparr>pxGraceLogged := put subdomain now (pxGraceLogged p)\<rparr>)"

subsection \<open>Hosts\<close>

definition normaliseHost :: "string \<Rightarrow> string" where
  "normaliseHost host0 =
     (let host = ToLower host0
      in case SplitHostPort host of Some (h, port) \<Rightarrow> h | None \<Rightarrow> host)"

definition findCluster :: "time \<Rightarrow> Proxy \<Rightarrow> registry \<Rightarrow> string \<Rightarrow> entry option" where
  "findCluster now p r host0 =
     (let host = (case LastIndex host0 '':'' of Some idx \<Rightarrow> take idx host0 | None \<Rightarrow> host0);
          suffix = ''.'' @ pxBaseDomain p
      in if \<not> HasSuffix host suffix then None
         else
           let label = TrimSuffix host suffix
           in if label = [] then None
              else case Lookup now r label of
                     Some e \<Rightarrow> Some e
                   | None \<Rightarrow>
                       (case LastIndex label DerivedRouteSeparator of
                          Some idx \<Rightarrow>
                            if 0 < idx then Lookup now r (drop (idx + length DerivedRouteSeparator) label)
                            else None
                        | None \<Rightarrow> None))"

subsection \<open>Building and caching\<close>

text \<open>\<open>parses\<close> tells whether \<open>url.Parse\<close> accepts the target.\<close>

definition buildProxy :: "(string \<Rightarrow> bool) \<Rightarrow> string \<Rightarrow> entry \<Rightarrow> bool \<Rightarrow> reverseProxy option" where
  "buildProxy parses host entry pinned =
     (let targetHost = (if Contains (eIP entry) '':'' then ''['' @ eIP entry @ '']'' else eIP entry)
      in if \<not> parses (''https://'' @ targetHost) then None
         else Some \<lparr>rpTarget = targetHost, rpServerName = host, rpVerify = eSubdomain entry,
                    rpKeepAlives = pinned\<rparr>)"

text \<open>The authorization state a transport is keyed by.\<close>

definition proxy_key :: "time \<Rightarrow> registry \<Rightarrow> string \<Rightarrow> entry \<Rightarrow> string list" where
  "proxy_key now r host entry =
     (let pins = PinState now r (eSubdomain entry);
          settle = (if InFirstPinSettle now pins then ''settle'' else [])
      in [eIP entry, host, Current pins, Pending pins, Prev pins, settle,
          ProvenKey now r (eSubdomain entry)])"

definition proxyFor ::
  "(string \<Rightarrow> bool) \<Rightarrow> time \<Rightarrow> Proxy \<Rightarrow> registry \<Rightarrow> string \<Rightarrow> entry \<Rightarrow> Proxy \<times> reverseProxy option" where
  "proxyFor parses now p r host entry =
     (let pinned = Pinned (PinState now r (eSubdomain entry));
          key = Join (proxy_key now r host entry) ''|''
      in case cache_get (pxProxies p) key of
           (c, Some cached) \<Rightarrow> (p\<lparr>pxProxies := c\<rparr>, Some cached)
         | (c, None) \<Rightarrow>
             (case buildProxy parses host entry pinned of
                None \<Rightarrow> (p\<lparr>pxProxies := c\<rparr>, None)
              | Some proxy \<Rightarrow>
                  (case cache_add c key proxy of (c1, used) \<Rightarrow> (p\<lparr>pxProxies := c1\<rparr>, Some used))))"

subsection \<open>Verifying the upstream certificate\<close>

datatype verify_error = NoCertificate | MatchesNoPin | NoCurrentProof

definition checkPin :: "time \<Rightarrow> Proxy \<Rightarrow> registry \<Rightarrow> string \<Rightarrow> string \<Rightarrow> Proxy \<times> registry \<times> verify_error option" where
  "checkPin now p r subdomain observed =
     (let pins = PinState now r subdomain
      in if FingerprintsEqual observed (Pending pins)
         then (p, fst (PromoteOnObserve now r subdomain observed), None)
         else if Current pins = [] then (logGrace now p subdomain, r, None)
         else if FingerprintsEqual observed (Current pins) \<or> FingerprintsEqual observed (Prev pins)
         then (p, r, None)
         else if InFirstPinSettle now pins then (p, r, None)
         else (p, r, Some MatchesNoPin))"

text \<open>\<open>cert\<close> is the fingerprint of the leaf the peer presented, if it presented one.\<close>

definition verifyPin :: "time \<Rightarrow> Proxy \<Rightarrow> registry \<Rightarrow> string \<Rightarrow> string option \<Rightarrow> Proxy \<times> registry \<times> verify_error option" where
  "verifyPin now p r subdomain cert =
     (case cert of
        None \<Rightarrow> (p, r, Some NoCertificate)
      | Some observed \<Rightarrow>
          (case checkPin now p r subdomain observed of
             (p1, r1, Some err) \<Rightarrow> (p1, r1, Some err)
           | (p1, r1, None) \<Rightarrow>
               if pxEnforceProof p1 \<and> \<not> ProofAuthorizes now r1 subdomain observed
               then (p1, r1, Some NoCurrentProof)
               else (p1, r1, None)))"

subsection \<open>The middleware\<close>

datatype routing =
    PassThrough
  | OverBudget string
  | NotRoutable
  | ClusterBusy
  | BadTarget admission
  | Proxied admission entry reverseProxy

text \<open>
  \<open>budget\<close> is the rate limiter, if one is configured: whether the request with this key is over
  its limit. \<open>client\<close> is the key \<open>rateLimitKey\<close> computed, empty when no client was measured.
\<close>

definition Middleware ::
  "(string \<Rightarrow> bool) \<Rightarrow> (string \<Rightarrow> bool) option \<Rightarrow> time \<Rightarrow> Proxy \<Rightarrow> registry \<Rightarrow> string \<Rightarrow> string \<Rightarrow> Proxy \<times> routing" where
  "Middleware parses budget now p r client requestHost =
     (let host = normaliseHost requestHost
      in case findCluster now p r host of
           None \<Rightarrow> (p, PassThrough)
         | Some entry \<Rightarrow>
             let key = (if client = [] then ''cluster:'' @ eSubdomain entry else client)
             in if (case budget of Some over \<Rightarrow> over key | None \<Rightarrow> False) then (p, OverBudget key)
                else if pxEnforceProof p \<and> \<not> Routable now r (eSubdomain entry)
                then (fst (logProofSkip now p entry), NotRoutable)
                else
                  (case enterCluster p (eSubdomain entry) of
                     (p1, AtCap) \<Rightarrow> (p1, ClusterBusy)
                   | (p1, slot) \<Rightarrow>
                       (case proxyFor parses now p1 r host entry of
                          (p2, None) \<Rightarrow> (p2, BadTarget slot)
                        | (p2, Some proxy) \<Rightarrow> (p2, Proxied slot entry proxy))))"

subsection \<open>The cache is an LRU\<close>

text \<open>
  The interface \<open>proxyFor\<close> uses the cache through. \<open>view\<close> is what the cache holds; a lookup
  reports it, a store keeps a subset of the old content and the new pair, and what it hands back is
  in the cache under that key or the proxy just built.
\<close>

locale transport_cache =
  fixes lookup :: "'c \<Rightarrow> string \<Rightarrow> 'c \<times> 'p option"
    and insert :: "'c \<Rightarrow> string \<Rightarrow> 'p \<Rightarrow> 'c \<times> 'p"
    and view :: "'c \<Rightarrow> string \<Rightarrow> 'p option"
    and ok :: "'c \<Rightarrow> bool"
  assumes lookup_hit: "ok c \<Longrightarrow> snd (lookup c k) = view c k"
    and lookup_view: "ok c \<Longrightarrow> view (fst (lookup c k)) = view c"
    and lookup_ok: "ok c \<Longrightarrow> ok (fst (lookup c k))"
    and insert_view: "ok c \<Longrightarrow> view (fst (insert c k p)) j = Some q \<Longrightarrow> view c j = Some q \<or> (j = k \<and> q = p)"
    and insert_result: "ok c \<Longrightarrow> snd (insert c k p) = (case view c k of Some q \<Rightarrow> q | None \<Rightarrow> p)"
    and insert_ok: "ok c \<Longrightarrow> ok (fst (insert c k p))"
begin

text \<open>Whatever holds of a proxy when it is stored under its key holds of every proxy handed out.\<close>

definition built :: "(string \<Rightarrow> 'p \<Rightarrow> bool) \<Rightarrow> 'c \<Rightarrow> bool" where
  "built B c \<longleftrightarrow> ok c \<and> (\<forall>k p. view c k = Some p \<longrightarrow> B k p)"

lemma built_lookup:
  "built B c \<Longrightarrow> built B (fst (lookup c k)) \<and> (snd (lookup c k) = Some p \<longrightarrow> B k p)"
  by (auto simp: built_def lookup_hit lookup_view lookup_ok)

lemma built_insert:
  "built B c \<Longrightarrow> B k p \<Longrightarrow> built B (fst (insert c k p)) \<and> B k (snd (insert c k p))"
  by (auto simp: built_def insert_ok insert_result dest: insert_view split: option.splits)

end

definition cache_ok :: "'p proxyCache \<Rightarrow> bool" where
  "cache_ok c \<longleftrightarrow>
     distinct_keys (pcOrder c) \<and> get (pcItems c) = get (pcOrder c) \<and> length (pcOrder c) \<le> pcCap c \<and> 0 < pcCap c"

lemma cache_ok_new: "0 < n \<Longrightarrow> cache_ok (newProxyCache n)"
  by (simp add: cache_ok_def newProxyCache_def distinct_keys_def)

lemma distinct_MoveToFront: "distinct_keys order \<Longrightarrow> distinct_keys (MoveToFront key p order)"
  using gomap.wf_rm [of order key] gomap.rd_rm_same [of key order]
  by (simp add: MoveToFront_def distinct_keys_def map_of_eq_None_iff)

lemma get_MoveToFront: "get order key = Some p \<Longrightarrow> get (MoveToFront key p order) = get order"
  by (auto simp: MoveToFront_def gomap.rd_rm)

lemma length_delete_hit:
  "distinct_keys m \<Longrightarrow> get m k = Some v \<Longrightarrow> Suc (length (del k m)) = length m"
proof (induction m)
  case (Cons x m)
  show ?case
  proof (cases "fst x = k")
    case True
    then have "k \<notin> fst ` set m" using Cons.prems by (auto simp: distinct_keys_def)
    then show ?thesis using True by (simp add: delete_id)
  next
    case False
    then show ?thesis using Cons by (cases x) (auto simp: distinct_keys_def)
  qed
qed simp

lemma length_MoveToFront:
  "distinct_keys order \<Longrightarrow> get order key = Some p \<Longrightarrow> length (MoveToFront key p order) = length order"
  by (simp add: MoveToFront_def length_delete_hit)

lemma get_butlast:
  assumes "distinct_keys (m @ [(k, v)])"
  shows "get m = (get (m @ [(k, v)]))(k := None)"
proof
  fix j
  have "get m k = None" using assms by (auto simp: distinct_keys_def map_of_eq_None_iff)
  then show "get m j = ((get (m @ [(k, v)]))(k := None)) j"
    by (auto simp: map_add_def split: option.splits)
qed

lemma cache_ok_get: "cache_ok c \<Longrightarrow> cache_ok (fst (cache_get c k))"
  by (auto simp: cache_get_def cache_ok_def distinct_MoveToFront get_MoveToFront length_MoveToFront
      split: option.splits)

text \<open>The state after a miss: pushed in front, the oldest dropped when over the cap.\<close>

lemma cache_add_miss:
  assumes ok: "cache_ok c" and miss: "get (pcItems c) k = None"
  shows "cache_ok (fst (cache_add c k p)) \<and> snd (cache_add c k p) = p \<and>
    pcOrder (fst (cache_add c k p)) = (k, p) # take (pcCap c - 1) (pcOrder c) \<and> pcCap (fst (cache_add c k p)) = pcCap c"
proof (cases "length (pcOrder c) = pcCap c")
  case True
  then obtain m k1 v1 where m: "pcOrder c = m @ [(k1, v1)]"
    using ok by (cases "pcOrder c" rule: rev_cases) (auto simp: cache_ok_def)
  have dist: "distinct_keys (((k, p) # m) @ [(k1, v1)])"
    using ok miss m by (auto simp: cache_ok_def distinct_keys_def map_of_eq_None_iff)
  have "cache_add c k p = (c\<lparr>pcOrder := (k, p) # m, pcItems := del k1 (put k p (pcItems c)),
      pcClosed := v1 # pcClosed c\<rparr>, p)"
    using True miss m by (simp add: cache_add_def)
  moreover have "take (pcCap c - 1) (pcOrder c) = m" "Suc (length m) = pcCap c"
    using True m by simp_all
  moreover have "distinct_keys ((k, p) # m)"
    using dist by (simp add: distinct_keys_def)
  moreover have "get (del k1 (put k p (pcItems c))) = get ((k, p) # m)"
    using get_butlast [OF dist] ok m by (simp add: cache_ok_def gomap.rd_rm gomap.rd_wr)
  ultimately show ?thesis
    by (simp add: cache_ok_def)
next
  case False
  then have short: "length (pcOrder c) \<le> pcCap c - 1"
    using ok by (auto simp: cache_ok_def)
  have "distinct_keys ((k, p) # pcOrder c)"
    using ok miss by (auto simp: cache_ok_def distinct_keys_def map_of_eq_None_iff)
  then show ?thesis
    using False short ok miss by (auto simp: cache_add_def Let_def cache_ok_def gomap.rd_wr)
qed

lemma cache_add_hit:
  assumes "cache_ok c" and "get (pcItems c) k = Some q"
  shows "cache_ok (fst (cache_add c k p)) \<and> snd (cache_add c k p) = q \<and>
    pcOrder (fst (cache_add c k p)) = MoveToFront k q (pcOrder c) \<and> pcCap (fst (cache_add c k p)) = pcCap c"
  using assms by (auto simp: cache_add_def cache_ok_def distinct_MoveToFront get_MoveToFront length_MoveToFront)

lemma get_take_prefix:
  "distinct_keys m \<Longrightarrow> get (take n m) j = Some q \<Longrightarrow> get m j = Some q"
  by (metis append_take_drop_id map_add_Some_iff map_of_append distinct_keys_def map_of_SomeD
      in_set_takeD map_of_eq_Some_iff)

interpretation proxies: transport_cache cache_get cache_add "\<lambda>c. get (pcOrder c)" cache_ok
proof unfold_locales
  fix c :: "'a proxyCache" and k p j q
  assume ok: "cache_ok c"
  then show "snd (cache_get c k) = get (pcOrder c) k"
    by (auto simp: cache_get_def cache_ok_def split: option.splits)
  show "get (pcOrder (fst (cache_get c k))) = get (pcOrder c)"
    using ok by (auto simp: cache_get_def cache_ok_def get_MoveToFront split: option.splits)
  show "cache_ok (fst (cache_get c k))"
    using ok by (rule cache_ok_get)
  show "snd (cache_add c k p) = (case get (pcOrder c) k of Some q \<Rightarrow> q | None \<Rightarrow> p)"
    using ok cache_add_hit [OF ok, of k _ p] cache_add_miss [OF ok, of k p]
    by (auto simp: cache_ok_def split: option.splits)
  show "cache_ok (fst (cache_add c k p))"
    using cache_add_hit [OF ok] cache_add_miss [OF ok] by (cases "get (pcItems c) k") auto
  show "get (pcOrder c) j = Some q \<or> (j = k \<and> q = p)" if "get (pcOrder (fst (cache_add c k p))) j = Some q"
  proof (cases "get (pcItems c) k")
    case None
    then show ?thesis
      using that cache_add_miss [OF ok None, of p] ok get_take_prefix [of "pcOrder c" "pcCap c - 1" j q]
      by (auto simp: cache_ok_def split: if_splits)
  next
    case (Some x)
    then show ?thesis
      using that cache_add_hit [OF ok Some, of p] ok get_MoveToFront [of "pcOrder c" k x]
      by (simp add: cache_ok_def)
  qed
qed

text \<open>One request's use of the cache, and the keys in the order of their last use.\<close>

definition cache_use :: "string \<times> 'p \<Rightarrow> 'p proxyCache \<Rightarrow> 'p proxyCache" where
  "cache_use kp c =
     (case kp of (k, p) \<Rightarrow>
        case cache_get c k of (c1, Some q) \<Rightarrow> c1 | (c1, None) \<Rightarrow> fst (cache_add c1 k p))"

definition touch :: "string \<Rightarrow> string list \<Rightarrow> string list" where
  "touch k ks = k # removeAll k ks"

lemma take_removeAll_miss: "k \<notin> set (take n ks) \<Longrightarrow> take n (removeAll k ks) = take n ks"
  by (induction ks arbitrary: n) (auto simp: take_Cons split: nat.splits)

lemma take_touch_miss: "0 < n \<Longrightarrow> k \<notin> set (take n ks) \<Longrightarrow> take n (touch k ks) = k # take (n - 1) (take n ks)"
proof -
  assume n: "0 < n" and "k \<notin> set (take n ks)"
  then have "k \<notin> set (take (n - 1) ks)"
    by (meson diff_le_self set_take_subset_set_take subsetD)
  then show ?thesis
    using n by (cases n) (simp_all add: touch_def take_removeAll_miss)
qed

lemma take_touch_hit:
  assumes "distinct ks" and "k \<in> set (take n ks)"
  shows "take n (touch k ks) = touch k (take n ks)"
proof -
  obtain a b where ks: "take n ks = a @ k # b"
    using assms(2) by (meson split_list)
  then have len: "length a < n" and full: "ks = a @ k # b @ drop n ks"
    by (metis length_append length_take less_add_Suc1 list.size(4) min_less_iff_conj add_Suc_right nat_add_left_cancel_less
        min.strict_boundedE add.commute, metis append.assoc append_Cons append_take_drop_id)
  have rest: "k \<notin> set a" "k \<notin> set b" "k \<notin> set (drop n ks)"
    using assms(1) full by (metis Un_iff distinct_append set_append disjoint_iff list.set_intros(1) distinct.simps(2))+
  have "removeAll k ks = a @ b @ drop n ks"
    using full rest by (metis removeAll.simps(2) removeAll_append removeAll_id)
  moreover have "length (a @ b) = n - 1 \<or> drop n ks = []"
    using arg_cong [OF ks, of length] by auto
  moreover have "length (a @ b) \<le> n - 1"
    using arg_cong [OF ks, of length] by auto
  ultimately have "take (n - 1) (removeAll k ks) = a @ b"
    by auto
  then show ?thesis
    using len ks rest by (cases n) (simp_all add: touch_def)
qed

lemma distinct_touch: "distinct ks \<Longrightarrow> distinct (touch k ks)"
  by (simp add: touch_def distinct_removeAll)

lemma cache_use_step:
  assumes ok: "cache_ok c" and order: "keys (pcOrder c) = take (pcCap c) ks" and "distinct ks"
  shows "cache_ok (cache_use (k, p) c) \<and> pcCap (cache_use (k, p) c) = pcCap c \<and>
    keys (pcOrder (cache_use (k, p) c)) = take (pcCap c) (touch k ks)"
proof (cases "get (pcItems c) k")
  case None
  then have "get (pcOrder c) k = None"
    using ok by (simp add: cache_ok_def)
  then have "k \<notin> set (take (pcCap c) ks)"
    using order by (metis list.set_map map_of_eq_None_iff)
  moreover have "0 < pcCap c"
    using ok by (simp add: cache_ok_def)
  moreover have "keys (take (pcCap c - 1) (pcOrder c)) = take (pcCap c - 1) (take (pcCap c) ks)"
    using order by (metis take_map)
  ultimately show ?thesis
    using None cache_add_miss [OF ok None, of p] take_touch_miss [of "pcCap c" k ks]
    by (simp add: cache_use_def cache_get_def)
next
  case (Some q)
  then have "k \<in> set (take (pcCap c) ks)"
    using ok order by (metis cache_ok_def list.set_map map_of_eq_None_iff option.distinct(1))
  then show ?thesis
    using Some ok order take_touch_hit [OF assms(3), of k "pcCap c"] cache_ok_get [OF ok, of k]
    by (simp add: cache_use_def cache_get_def MoveToFront_def delete_keys touch_def)
qed

lemma cache_uses:
  assumes "cache_ok c" and "keys (pcOrder c) = take (pcCap c) ks" and "distinct ks"
  shows "cache_ok (fold cache_use uses c) \<and> pcCap (fold cache_use uses c) = pcCap c \<and>
    keys (pcOrder (fold cache_use uses c)) = take (pcCap c) (fold touch (map fst uses) ks)"
  using assms
proof (induction uses arbitrary: c ks)
  case (Cons x uses)
  obtain k p where x: "x = (k, p)" by (cases x)
  show ?case
    using Cons.IH [of "cache_use x c" "touch k ks"] cache_use_step [OF Cons.prems, of k p] Cons.prems x
    by (simp add: distinct_touch)
qed simp

text \<open>
  The proxy cache is a bounded LRU: after any sequence of uses it holds exactly the keys most
  recently used, in that order, never more than its capacity, whichever requests hit or missed.
\<close>

lemma proxy_cache_is_lru:
  assumes "0 < n"
  shows "keys (pcOrder (fold cache_use uses (newProxyCache n))) = take n (fold touch (map fst uses) []) \<and>
    cache_len (fold cache_use uses (newProxyCache n)) \<le> n"
proof -
  from cache_uses [OF cache_ok_new [OF assms], of "[]" uses] show ?thesis
    by (simp add: newProxyCache_def cache_ok_def cache_len_def)
qed

subsection \<open>A transport serves one authorization state\<close>

text \<open>
  The proxies in the cache fit their key: dialled address, server name and the pin mode the first
  pin field shows.
\<close>

definition fits_key :: "string \<Rightarrow> reverseProxy \<Rightarrow> bool" where
  "fits_key key rp \<longleftrightarrow>
     (\<exists>ip host cur rest. key = Join (ip # host # cur # rest) ''|'' \<and> length rest = 4 \<and>
        list_all (\<lambda>f. CHR ''|'' \<notin> set f) (ip # host # cur # rest) \<and>
        rpTarget rp = (if Contains ip '':'' then ''['' @ ip @ '']'' else ip) \<and>
        rpServerName rp = host \<and> (rpKeepAlives rp \<longleftrightarrow> cur \<noteq> []))"

definition clean_key :: "time \<Rightarrow> registry \<Rightarrow> string \<Rightarrow> entry \<Rightarrow> bool" where
  "clean_key now r host e = list_all (\<lambda>f. CHR ''|'' \<notin> set f) (proxy_key now r host e)"

lemma buildProxy_fits:
  assumes "clean_key now r host e"
    and "buildProxy parses host e (Pinned (PinState now r (eSubdomain e))) = Some rp"
  shows "fits_key (Join (proxy_key now r host e) ''|'') rp"
proof -
  let ?pins = "PinState now r (eSubdomain e)"
  let ?rest = "[Pending ?pins, Prev ?pins, if InFirstPinSettle now ?pins then ''settle'' else [],
     ProvenKey now r (eSubdomain e)]"
  have "proxy_key now r host e = eIP e # host # Current ?pins # ?rest"
    by (simp add: proxy_key_def Let_def)
  moreover have "rpTarget rp = (if Contains (eIP e) '':'' then ''['' @ eIP e @ '']'' else eIP e) \<and>
      rpServerName rp = host \<and> (rpKeepAlives rp \<longleftrightarrow> Current ?pins \<noteq> [])"
    using assms(2) by (auto simp: buildProxy_def Let_def Pinned_def split: if_splits)
  ultimately show ?thesis
    using assms(1) unfolding fits_key_def clean_key_def
    by (intro exI [of _ "eIP e"] exI [of _ host] exI [of _ "Current ?pins"] exI [of _ ?rest]) simp
qed

lemma proxyFor_built:
  assumes "proxies.built fits_key (pxProxies p)" and "clean_key now r host e"
    and "proxyFor parses now p r host e = (p', Some rp)"
  shows "proxies.built fits_key (pxProxies p') \<and> fits_key (Join (proxy_key now r host e) ''|'') rp"
proof -
  let ?key = "Join (proxy_key now r host e) ''|''"
  obtain c hit where get: "cache_get (pxProxies p) ?key = (c, hit)"
    by (cases "cache_get (pxProxies p) ?key")
  have c: "proxies.built fits_key c" "\<And>q. hit = Some q \<Longrightarrow> fits_key ?key q"
    using proxies.built_lookup [OF assms(1), of ?key] get by auto
  show ?thesis
  proof (cases hit)
    case (Some q)
    then show ?thesis using assms(3) get c by (auto simp: proxyFor_def Let_def)
  next
    case None
    then obtain q where q: "buildProxy parses host e (Pinned (PinState now r (eSubdomain e))) = Some q"
      using assms(3) get by (auto simp: proxyFor_def Let_def split: option.splits)
    have "p' = p\<lparr>pxProxies := fst (cache_add c ?key q)\<rparr> \<and> rp = snd (cache_add c ?key q)"
      using assms(3) get None q by (auto simp: proxyFor_def Let_def split: prod.splits)
    then show ?thesis
      using proxies.built_insert [OF c(1) buildProxy_fits [OF assms(2) q]] by simp
  qed
qed

text \<open>Every state the cache can reach through \<open>proxyFor\<close>, with the registry changing in between.\<close>

inductive served :: "(string \<Rightarrow> bool) \<Rightarrow> Proxy \<Rightarrow> bool" for parses :: "string \<Rightarrow> bool" where
  served_start: "pxProxies p = newProxyCache n \<Longrightarrow> 0 < n \<Longrightarrow> served parses p"
| served_request: "served parses p \<Longrightarrow> clean_key now r host e \<Longrightarrow>
    proxyFor parses now p r host e = (p', rp) \<Longrightarrow> served parses p'"

lemma proxyFor_failed:
  "proxies.built fits_key (pxProxies p) \<Longrightarrow> proxyFor parses now p r host e = (p', None) \<Longrightarrow>
     proxies.built fits_key (pxProxies p')"
  using proxies.built_lookup [of fits_key "pxProxies p" "Join (proxy_key now r host e) ''|''"]
  by (auto simp: proxyFor_def Let_def split: prod.splits option.splits)

lemma served_built: "served parses p \<Longrightarrow> proxies.built fits_key (pxProxies p)"
proof (induction rule: served.induct)
  case (served_start p n)
  then show ?case
    using cache_ok_new [of n] by (simp add: proxies.built_def) (simp add: newProxyCache_def)
next
  case (served_request p now r host e p' rp)
  then show ?case
    by (cases rp) (auto simp: proxyFor_failed dest: proxyFor_built)
qed

text \<open>
  A pooled connection never crosses a policy change: the proxy a request gets dials the entry's
  address with the request's host as server name and keeps connections alive only in the pinned
  mode, even when it came from the cache; and two requests share a cache key only if address, host,
  accepted pins, settle state and proven key all agree. (None of these fields holds a vertical bar.)
\<close>

lemma transport_matches_authorization:
  assumes "served parses p" and "clean_key now r host e"
    and "proxyFor parses now p r host e = (p', Some rp)"
  shows "rpTarget rp = (if Contains (eIP e) '':'' then ''['' @ eIP e @ '']'' else eIP e) \<and>
    rpServerName rp = host \<and> (rpKeepAlives rp \<longleftrightarrow> Pinned (PinState now r (eSubdomain e))) \<and>
    (clean_key now2 r2 host2 e2 \<longrightarrow>
       Join (proxy_key now r host e) ''|'' = Join (proxy_key now2 r2 host2 e2) ''|'' \<longrightarrow>
       proxy_key now r host e = proxy_key now2 r2 host2 e2)"
proof -
  have fits: "fits_key (Join (proxy_key now r host e) ''|'') rp"
    using proxyFor_built [OF served_built [OF assms(1)] assms(2,3)] by simp
  then obtain ip h cur rest where k: "Join (proxy_key now r host e) ''|'' = Join (ip # h # cur # rest) ''|''"
    "list_all (\<lambda>f. CHR ''|'' \<notin> set f) (ip # h # cur # rest)"
    "rpTarget rp = (if Contains ip '':'' then ''['' @ ip @ '']'' else ip)"
    "rpServerName rp = h" "rpKeepAlives rp \<longleftrightarrow> cur \<noteq> []"
    unfolding fits_key_def by blast
  have "proxy_key now r host e \<noteq> []" for now r host e
    by (simp add: proxy_key_def Let_def)
  then have "proxy_key now r host e = ip # h # cur # rest"
    using Join_inj [OF k(1)] k(2) assms(2) by (simp add: clean_key_def)
  moreover have "proxy_key now r host e = proxy_key now2 r2 host2 e2"
    if "clean_key now2 r2 host2 e2" "Join (proxy_key now r host e) ''|'' = Join (proxy_key now2 r2 host2 e2) ''|''"
    using Join_inj [OF that(2)] that(1) assms(2) \<open>\<And>now r host e. proxy_key now r host e \<noteq> []\<close>
    by (simp add: clean_key_def)
  ultimately show ?thesis
    using k(3-5) by (auto simp: proxy_key_def Let_def Pinned_def)
qed

definition demo_proxy :: Proxy where
  "demo_proxy = \<lparr>pxBaseDomain = ''kipper.run'', pxEnforceProof = True, pxProofSkipLogged = [],
     pxGraceLogged = [], pxProxies = newProxyCache 4096, pxClusterInFlight = 2, pxInFlight = [],
     pxCounters = []\<rparr>"

end
