(* ===== verification/Gateway_Traffic.thy ===== *)
theory Gateway_Traffic
  imports Gateway_Proxy
begin

text \<open>
  What the data plane guarantees while requests, releases and sweeps interleave: the concurrency
  cap of a cluster, which key a verified connection ends at, and which registration a host name
  reaches.
\<close>

subsection \<open>The concurrency cap\<close>

text \<open>
  Requests hold the counter they were admitted with until they release it. \<open>held\<close> lists the
  label and the counter of every request under way.
\<close>

datatype traffic = Enter string | Leave "string \<times> nat" | Forget string

fun traffic_turn :: "traffic \<Rightarrow> Proxy \<times> (string \<times> nat) list \<Rightarrow> Proxy \<times> (string \<times> nat) list" where
  "traffic_turn (Enter s) (p, held) =
     (case enterCluster p s of (p1, Slot a) \<Rightarrow> (p1, (s, a) # held) | (p1, _) \<Rightarrow> (p1, held))"
| "traffic_turn (Leave sa) (p, held) =
     (if sa \<in> set held then (release p (snd sa), remove1 sa held) else (p, held))"
| "traffic_turn (Forget s) (p, held) = (forgetCluster p s, held)"

definition live :: "string \<Rightarrow> (string \<times> nat) list \<Rightarrow> nat" where
  "live s held = length (filter (\<lambda>(t, a). t = s) held)"

definition counters_ok :: "Proxy \<Rightarrow> (string \<times> nat) list \<Rightarrow> bool" where
  "counters_ok p held \<longleftrightarrow>
     (\<forall>s a. (s, a) \<in> set held \<longrightarrow> get (pxInFlight p) s = Some a) \<and>
     (\<forall>s a. get (pxInFlight p) s = Some a \<longrightarrow>
        a < length (pxCounters p) \<and> pxCounters p ! a = int (live s held) \<and> int (live s held) \<le> pxClusterInFlight p) \<and>
     (\<forall>s t a. get (pxInFlight p) s = Some a \<longrightarrow> get (pxInFlight p) t = Some a \<longrightarrow> s = t)"

lemma live_Cons [simp]: "live s ((t, a) # held) = (if t = s then Suc (live s held) else live s held)"
  by (simp add: live_def)

lemma live_remove1:
  "(t, a) \<in> set held \<Longrightarrow> live s (remove1 (t, a) held) = (if t = s then live s held - 1 else live s held)"
  by (simp add: live_def filter_remove1 length_remove1)

lemma live_zero: "(\<And>a. (s, a) \<notin> set held) \<Longrightarrow> live s held = 0"
  by (auto simp: live_def filter_empty_conv)

lemma live_pos: "(s, a) \<in> set held \<Longrightarrow> 0 < live s held"
  by (auto simp: live_def filter_empty_conv)

lemma counters_ok_install:
  assumes "counters_ok p held" and "get (pxInFlight p) s = None" and "0 < pxClusterInFlight p"
  shows "counters_ok (p\<lparr>pxInFlight := put s (length (pxCounters p)) (pxInFlight p),
                        pxCounters := pxCounters p @ [0]\<rparr>) held"
proof -
  have none: "(s, a) \<notin> set held" for a
    using assms(1,2) by (force simp: counters_ok_def)
  have "live s held = 0"
    using none by (rule live_zero)
  then show ?thesis
    using assms none unfolding counters_ok_def
    by (auto simp: gomap.rd_wr nth_append intro: less_SucI split: if_splits)
qed

lemma counters_ok_admit:
  assumes "counters_ok p held" and "get (pxInFlight p) s = Some a" and "pxCounters p ! a < pxClusterInFlight p"
  shows "counters_ok (p\<lparr>pxCounters := (pxCounters p)[a := pxCounters p ! a + 1]\<rparr>) ((s, a) # held)"
  using assms unfolding counters_ok_def by (auto simp: nth_list_update)

lemma counters_ok_enter:
  assumes ok: "counters_ok p held" and cap: "0 < pxClusterInFlight p"
  shows "case traffic_turn (Enter s) (p, held) of (p', held') \<Rightarrow> counters_ok p' held'"
proof -
  let ?fresh = "p\<lparr>pxInFlight := put s (length (pxCounters p)) (pxInFlight p), pxCounters := pxCounters p @ [0]\<rparr>"
  show ?thesis
  proof (cases "get (pxInFlight p) s")
    case None
    have ok1: "counters_ok ?fresh held"
      using counters_ok_install [OF ok None cap] .
    have a: "get (pxInFlight ?fresh) s = Some (length (pxCounters p))" "pxCounters ?fresh ! length (pxCounters p) = 0"
      by (simp_all add: go_map)
    have "enterCluster p s = (?fresh\<lparr>pxCounters := (pxCounters ?fresh)[length (pxCounters p) := 1]\<rparr>, Slot (length (pxCounters p)))"
      using None cap by (simp add: enterCluster_def Let_def)
    then show ?thesis
      using counters_ok_admit [OF ok1 a(1)] a(2) cap by simp
  next
    case (Some a)
    then show ?thesis
      using ok cap counters_ok_admit [OF ok Some] by (auto simp: enterCluster_def Let_def)
  qed
qed

lemma counters_ok_leave:
  assumes ok: "counters_ok p held" and sa: "(s, a) \<in> set held"
  shows "counters_ok (release p a) (remove1 (s, a) held)"
proof -
  have a: "get (pxInFlight p) s = Some a" "pxCounters p ! a = int (live s held)" "a < length (pxCounters p)"
    "int (live s held) \<le> pxClusterInFlight p"
    using assms by (auto simp: counters_ok_def)
  have "0 < live s held"
    using sa by (rule live_pos)
  moreover have "int (live s held) - 1 \<le> pxClusterInFlight p"
    using a(4) by simp
  ultimately show ?thesis
    using assms a(1-3) unfolding counters_ok_def release_def
    by (auto simp: live_remove1 nth_list_update of_nat_diff dest: notin_set_remove1 set_remove1_subset [THEN subsetD])
qed

lemma counters_ok_logs [simp]:
  "counters_ok (p\<lparr>pxProofSkipLogged := l, pxGraceLogged := g\<rparr>) held = counters_ok p held"
  by (simp add: counters_ok_def)

lemma counters_ok_drop:
  assumes "counters_ok p held" and "\<And>a. (s, a) \<notin> set held"
  shows "counters_ok (p\<lparr>pxInFlight := del s (pxInFlight p)\<rparr>) held"
  using assms unfolding counters_ok_def by (simp add: gomap.rd_rm)

lemma counters_ok_forget:
  assumes "counters_ok p held"
  shows "counters_ok (forgetCluster p s) held"
proof -
  let ?p = "p\<lparr>pxProofSkipLogged := del s (pxProofSkipLogged p), pxGraceLogged := del s (pxGraceLogged p)\<rparr>"
  have "(s, a) \<notin> set held" if "get (pxInFlight p) s = Some b" "pxCounters p ! b = 0" for a b
    using assms that live_pos [of s a held] unfolding counters_ok_def by fastforce
  then have "counters_ok (?p\<lparr>pxInFlight := del s (pxInFlight ?p)\<rparr>) held"
    if "get (pxInFlight p) s = Some b" "pxCounters p ! b = 0" for b
    using that assms by (intro counters_ok_drop) simp_all
  then show ?thesis
    using assms unfolding forgetCluster_def Let_def by (simp split: option.splits)
qed

lemma cap_constant: "pxClusterInFlight (fst (traffic_turn ev (p, held))) = pxClusterInFlight p"
  by (cases ev) (auto simp: enterCluster_def release_def forgetCluster_def Let_def split: option.splits)

lemma counters_ok_turn:
  assumes "counters_ok p held" and "0 < pxClusterInFlight p"
  shows "case traffic_turn ev (p, held) of (p', held') \<Rightarrow> counters_ok p' held'"
proof (cases ev)
  case (Enter s)
  then show ?thesis using counters_ok_enter [OF assms] by simp
next
  case (Leave sa)
  then show ?thesis using counters_ok_leave assms by (cases sa) auto
next
  case (Forget s)
  then show ?thesis using counters_ok_forget assms by simp
qed

lemma counters_ok_traffic:
  "counters_ok p held \<Longrightarrow> 0 < pxClusterInFlight p \<Longrightarrow>
     case fold traffic_turn evs (p, held) of (p', held') \<Rightarrow>
       counters_ok p' held' \<and> pxClusterInFlight p' = pxClusterInFlight p"
proof (induction evs arbitrary: p held)
  case (Cons ev evs)
  obtain p1 held1 where turn: "traffic_turn ev (p, held) = (p1, held1)"
    by (cases "traffic_turn ev (p, held)")
  then show ?case
    using Cons.IH [of p1 held1] Cons.prems counters_ok_turn [OF Cons.prems, of ev] cap_constant [of ev p held]
    by simp
qed simp

text \<open>
  C7. The concurrency cap holds for every interleaving of arriving requests, finishing requests and
  \<open>forgetCluster\<close> calls, releases included that come after the cluster was forgotten: no cluster
  ever has more than \<open>ClusterInFlight\<close> requests under way.
\<close>

theorem in_flight_never_exceeds_cap:
  assumes "pxInFlight p = []" and "0 < pxClusterInFlight p"
  shows "int (live s (snd (fold traffic_turn evs (p, [])))) \<le> pxClusterInFlight p"
proof -
  have "counters_ok p []"
    using assms(1) by (simp add: counters_ok_def)
  from counters_ok_traffic [OF this assms(2), of evs]
  obtain p' held where h: "fold traffic_turn evs (p, []) = (p', held)" "counters_ok p' held"
    "pxClusterInFlight p' = pxClusterInFlight p"
    by (cases "fold traffic_turn evs (p, [])") auto
  show ?thesis
  proof (cases "get (pxInFlight p') s")
    case None
    then have "live s held = 0"
      using h(2) by (intro live_zero) (force simp: counters_ok_def)
    then show ?thesis using h assms(2) by simp
  next
    case (Some a)
    then show ?thesis using h by (auto simp: counters_ok_def)
  qed
qed

theorem in_flight_never_exceeds_cap_witness:
  "int (live ''lab'' (snd (fold traffic_turn
      [Enter ''lab'', Enter ''lab'', Forget ''lab'', Enter ''lab'', Leave (''lab'', 0), Enter ''lab''] (demo_proxy, [])))) \<le> 2"
  using in_flight_never_exceeds_cap [of demo_proxy "''lab''"
      "[Enter ''lab'', Enter ''lab'', Forget ''lab'', Enter ''lab'', Leave (''lab'', 0), Enter ''lab'']"]
  by (simp add: demo_proxy_def)

subsection \<open>Where a verified connection ends\<close>

lemma PromoteOnObserve_entry:
  "get (rEntries r) s = Some e \<Longrightarrow>
     \<exists>e'. get (rEntries (fst (PromoteOnObserve now r s fp))) s = Some e' \<and> holding e' = holding e \<and>
       eProofExpiry e' = eProofExpiry e"
  by (auto simp: PromoteOnObserve_def activate_at_def store_entry_def go_map)

lemma settings_Promote [simp]: "settings (fst (PromoteOnObserve now r s fp)) = settings r"
  by (auto simp: PromoteOnObserve_def activate_at_def split: option.splits)

lemma expired_holding: "holding e' = holding e \<Longrightarrow> isExpiredLocked now r e' = isExpiredLocked now r e"
  by (simp add: isExpiredLocked_def lapsedAtLocked_def holding_def Let_def)

lemma ProofAuthorizes_promote:
  "ProofAuthorizes now (fst (PromoteOnObserve now r s fp)) s k = ProofAuthorizes now r s k"
proof (cases "get (rEntries r) s")
  case None
  then show ?thesis by (simp add: PromoteOnObserve_def ProofAuthorizes_def)
next
  case (Some e)
  obtain e' where e': "get (rEntries (fst (PromoteOnObserve now r s fp))) s = Some e'" "holding e' = holding e"
    "eProofExpiry e' = eProofExpiry e"
    using PromoteOnObserve_entry [OF Some] by blast
  have "isExpiredLocked now (fst (PromoteOnObserve now r s fp)) e' = isExpiredLocked now r e"
    using expired_settings [OF settings_Promote] expired_holding [OF e'(2)] by simp
  then show ?thesis
    using Some e' by (simp add: ProofAuthorizes_def leaseCurrentLocked_def everProvenLocked_def holding_def)
qed

text \<open>The fingerprints \<open>checkPin\<close> lets through.\<close>

definition pin_accepts :: "time \<Rightarrow> PinState_t \<Rightarrow> string \<Rightarrow> bool" where
  "pin_accepts now ps observed \<longleftrightarrow>
     \<not> Pinned ps \<or> InFirstPinSettle now ps \<or>
     (observed \<noteq> [] \<and> observed \<in> {Current ps, Pending ps, Prev ps})"

lemma checkPin_accepts: "snd (snd (checkPin now p r s observed)) = None \<longleftrightarrow> pin_accepts now (PinState now r s) observed"
  by (auto simp: checkPin_def Let_def pin_accepts_def Pinned_def FingerprintsEqual_iff)

lemma checkPin_state:
  "fst (snd (checkPin now p r s observed)) = r \<or>
   fst (snd (checkPin now p r s observed)) = fst (PromoteOnObserve now r s observed)"
  by (simp add: checkPin_def Let_def)

lemma checkPin_enforce: "pxEnforceProof (fst (checkPin now p r s observed)) = pxEnforceProof p"
  by (simp add: checkPin_def Let_def logGrace_def)

lemma verifyPin_accepts:
  "snd (snd (verifyPin now p r s cert)) = None \<longleftrightarrow>
     (\<exists>observed. cert = Some observed \<and> pin_accepts now (PinState now r s) observed \<and>
        (pxEnforceProof p \<longrightarrow> ProofAuthorizes now r s observed))"
proof (cases cert)
  case None
  then show ?thesis by (simp add: verifyPin_def)
next
  case (Some observed)
  obtain p1 r1 err where c: "checkPin now p r s observed = (p1, r1, err)"
    by (cases "checkPin now p r s observed") auto
  have "ProofAuthorizes now r1 s observed = ProofAuthorizes now r s observed"
    using checkPin_state [of now p r s observed] c ProofAuthorizes_promote by auto
  then show ?thesis
    using Some c checkPin_accepts [of now p r s observed] checkPin_enforce [of now p r s observed]
    by (cases err) (simp_all add: verifyPin_def)
qed

text \<open>
  The certificate check accepts exactly what it should: \<open>verifyPin\<close> lets a handshake through if
  and only if the peer showed a leaf whose fingerprint the accepted pins admit (any leaf while
  unpinned or in the first-pin settle window) and, under enforcement, the leaf is the key a current
  proof of possession names.
\<close>

lemma handshake_verification_exact:
  "snd (snd (verifyPin now p r s cert)) = None \<longleftrightarrow>
     (\<exists>observed. cert = Some observed \<and> pin_accepts now (PinState now r s) observed \<and>
        (pxEnforceProof p \<longrightarrow> ProofAuthorizes now r s observed))"
  by (rule verifyPin_accepts)

text \<open>
  C5. Under enforcement a connection ends at a proven key: if \<open>verifyPin\<close> accepts a leaf for a
  label, then a caller holding that registration's token completed a proof of possession for
  exactly this key within the last proof lease.
\<close>

theorem verified_key_was_proven:
  assumes "run H r0 tr clock r" and "clock \<le> now" and "pxEnforceProof p"
    and "snd (snd (verifyPin now p r s (Some observed))) = None"
  shows "\<exists>e tok nonce protocol at. get (rEntries r) s = Some e \<and> tokenMatches H e tok \<and>
    (at, OpRecordProof s tok nonce observed protocol) \<in> set tr \<and> now < at + proofLease"
proof -
  have "ProofAuthorizes now r s observed"
    using assms(3,4) by (simp add: verifyPin_accepts)
  then obtain e where e: "get (rEntries r) s = Some e" "leaseCurrentLocked now e" "eProofKeySPKI e = observed"
    by (auto simp: ProofAuthorizes_def FingerprintsEqual_iff split: option.splits if_splits)
  have "proof_traced H tr s e" "entry_ok clock s e"
    using run_reg_inv [OF assms(1)] e(1) by (auto simp: reg_inv_def entries_sat_def)
  moreover have "eProvenAt e \<noteq> zero_time" "now < eProofExpiry e"
    using e(2) by (simp_all add: leaseCurrentLocked_def everProvenLocked_def)
  ultimately obtain x where x: "x \<in> set tr" "proves H s e x" and lease: "now < eProvenAt e + proofLease"
    by (auto simp: proof_traced_def list_ex_iff entry_ok_def)
  then obtain tok nonce protocol where
    "x = (eProvenAt e, OpRecordProof s tok nonce observed protocol)" "tokenMatches H e tok"
    using e(3) by (cases "(H, s, e, x)" rule: proves.cases) (auto simp: tokenMatches_def)
  then show ?thesis
    using e(1) x(1) lease by blast
qed

theorem verified_key_was_proven_witness:
  "\<exists>e tok nonce protocol at. get (rEntries demo_reg) ''lab'' = Some e \<and> tokenMatches id e tok \<and>
    (at, OpRecordProof ''lab'' tok nonce demo_fp protocol) \<in> set demo_ops \<and> 6 < at + proofLease"
  by (rule verified_key_was_proven [OF demo_run, of 6 demo_proxy]; code_simp)

subsection \<open>Which registration a host reaches\<close>

lemma findCluster_plain:
  assumes "CHR '':'' \<notin> set label" and "CHR '':'' \<notin> set (pxBaseDomain p)" and "label \<noteq> []"
  shows "findCluster now p r (label @ ''.'' @ pxBaseDomain p) =
    (case Lookup now r label of
       Some e \<Rightarrow> Some e
     | None \<Rightarrow>
         (case LastIndex label DerivedRouteSeparator of
            Some idx \<Rightarrow> if 0 < idx then Lookup now r (drop (idx + length DerivedRouteSeparator) label) else None
          | None \<Rightarrow> None))"
proof -
  have "\<not> Contains (label @ ''.'' @ pxBaseDomain p) '':''"
    using assms by (simp add: Contains_char)
  then have "LastIndex (label @ ''.'' @ pxBaseDomain p) '':'' = None"
    by (rule LastIndex_None)
  then show ?thesis
    using assms(3) unfolding findCluster_def Let_def
    by (simp only: option.case HasSuffix_append TrimSuffix_append if_False not_True_eq_False)
qed

definition labels_plain :: "registry \<Rightarrow> bool" where
  "labels_plain r \<longleftrightarrow> list_all (\<lambda>(s, e). \<not> Contains s DerivedRouteSeparator) (rEntries r)"

lemma labels_plain_Lookup: "labels_plain r \<Longrightarrow> Contains s DerivedRouteSeparator \<Longrightarrow> Lookup now r s = None"
  by (auto simp: labels_plain_def Lookup_def list_all_iff split: option.splits dest: map_of_SomeD)

text \<open>
  Derived routes reach their own cluster and cannot be shadowed: when no registered label holds
  the separator, the host name \<open>SubdomainFor\<close> derives for a service of a cluster, on the gateway's
  domain, resolves to that cluster's registration and to nothing else, whatever the service prefix.
\<close>

lemma derived_route_reaches_its_cluster:
  assumes "labels_plain r" and "pxBaseDomain p = ''kipper.run''"
    and "ValidateClusterLabel label = None" and "prefix \<noteq> []" and "CHR '':'' \<notin> set prefix"
  shows "findCluster now p r (SubdomainFor prefix (label @ ''.kipper.run'')) = Lookup now r label \<and>
    findCluster now p r (label @ ''.kipper.run'') = Lookup now r label"
proof -
  have label: "LabelPattern label" "\<not> Contains label DerivedRouteSeparator"
    using assms(3) by (auto simp: ValidateClusterLabel_def split: if_splits)
  have nocolon: "CHR '':'' \<notin> set label"
    using label(1) by (rule LabelPattern_no_char) (simp_all add: label_alnum_def)
  have "label \<noteq> []"
    using LabelPattern_hd [OF label(1)] by simp
  let ?derived = "prefix @ DerivedRouteSeparator @ label"
  have base: "''.kipper.run'' = ''.'' @ pxBaseDomain p"
    using assms(2) by simp
  have host: "SubdomainFor prefix (label @ ''.kipper.run'') = ?derived @ ''.'' @ pxBaseDomain p"
    using HasSuffix_append [of label "''.kipper.run''"] assms(2) by (simp add: SubdomainFor_def kipperRunSuffix_def)
  have "Contains ?derived DerivedRouteSeparator"
    by (auto simp: Contains_iff)
  then have "Lookup now r ?derived = None"
    using assms(1) by (intro labels_plain_Lookup)
  moreover have "findCluster now p r (?derived @ ''.'' @ pxBaseDomain p) =
      (case Lookup now r ?derived of
         Some e \<Rightarrow> Some e
       | None \<Rightarrow>
           (case LastIndex ?derived DerivedRouteSeparator of
              Some idx \<Rightarrow> if 0 < idx then Lookup now r (drop (idx + length DerivedRouteSeparator) ?derived) else None
            | None \<Rightarrow> None))"
    using nocolon assms(2,4,5) by (intro findCluster_plain) (simp_all add: DerivedRouteSeparator_def)
  ultimately have "findCluster now p r (?derived @ ''.'' @ pxBaseDomain p) = Lookup now r label"
    using assms(4) by (simp add: LastIndex_derived [OF label])
  moreover have "findCluster now p r (label @ ''.'' @ pxBaseDomain p) = Lookup now r label"
    using findCluster_plain [OF nocolon _ \<open>label \<noteq> []\<close>, of p now r] assms(2) LastIndex_None [OF label(2)]
    by (simp split: option.splits)
  ultimately show ?thesis
    using host base by simp
qed

end
