(* ===== verification/Gateway_Handlers.thy ===== *)
theory Gateway_Handlers
  imports Gateway_Store Gateway_Traffic
begin

text \<open>
  The gateway's API, \<^verbatim>\<open>src/gateway/main.go\<close>: registration, pin assertion, proof, release, heartbeat,
  the sweep, the status page and the start-up policy, on the registry, its file and the proxy.

  A handler makes several registry calls and gives the lock up in between, in particular while it
  dials the cluster. \<open>sched\<close> says for the \<open>i\<close>-th call at which instant it runs and which
  operations of other requests ran since the previous one; \<open>fault\<close> says which stage of the save
  fails, if one does. \<open>observe\<close> is the dial, \<open>None\<close> for a failure. The entry a renewal gets back is
  the live record in Go, which the handler goes on reading without the lock; here it is the value
  at the time of the call.
\<close>

subsection \<open>The world a handler works on\<close>

record gateway =
  gwReg :: registry
  gwDisk :: snapshot_file
  gwProxy :: Proxy

type_synonym sched = "nat \<Rightarrow> time \<times> (time \<times> op) list"

definition others :: "digest \<Rightarrow> sched \<Rightarrow> nat \<Rightarrow> gateway \<Rightarrow> gateway" where
  "others H sched i w = w\<lparr>gwReg := exec_all H (gwReg w) (snd (sched i))\<rparr>"

definition save_world :: "save_error option \<Rightarrow> gateway \<Rightarrow> gateway \<times> save_error option" where
  "save_world fault w =
     (case SaveTo fault (gwReg w) (gwDisk w) of (disk, err) \<Rightarrow> (w\<lparr>gwDisk := disk\<rparr>, err))"

subsection \<open>Requests and replies\<close>

record registerRequest =
  rqSubdomain :: string
  rqIP :: string
  rqCertFingerprint :: string
  rqToken :: string

definition pinNone :: string where "pinNone = ''none''"
definition pinActive :: string where "pinActive = ''active''"
definition pinPending :: string where "pinPending = ''pending''"

record registerResponse =
  rsSubdomain :: string
  rsDomain :: string
  rsToken :: string
  rsPin :: string
  rsAsserted :: string
  rsObserved :: string
  rsChallenge :: string

datatype reply = Answer nat registerResponse | Refuse nat

record proofRequest =
  pqSubdomain :: string
  pqToken :: string
  pqNonce :: string
  pqSignature :: string

datatype proof_reply = Proven time | ProvenGone | NotProven nat

definition heartbeatWindow :: duration where
  "heartbeatWindow = 48 * hour"

subsection \<open>Registration\<close>

definition respondPinResult :: "save_error option \<Rightarrow> gateway \<Rightarrow> nat \<Rightarrow> registerResponse \<Rightarrow> gateway \<times> reply" where
  "respondPinResult fault w status resp =
     (case save_world fault w of
        (w1, Some err) \<Rightarrow> (w1, Refuse 500)
      | (w1, None) \<Rightarrow> (w1, Answer status resp))"

definition handlePinAssert ::
  "digest \<Rightarrow> string \<Rightarrow> (string \<Rightarrow> string \<Rightarrow> string option) \<Rightarrow> sched \<Rightarrow> save_error option \<Rightarrow> gateway \<Rightarrow> entry
     \<Rightarrow> registerRequest \<Rightarrow> registerResponse \<Rightarrow> gateway \<times> reply" where
  "handlePinAssert H baseDomain observe sched fault w0 entry req resp =
     (if \<not> ValidFingerprint (rqCertFingerprint req) then (w0, Refuse 400)
      else
        let w1 = others H sched 3 w0 in
        case AssertPin H (gwReg w1) (eSubdomain entry) (rqToken req) (rqCertFingerprint req) of
          (r, AssertInvalidToken) \<Rightarrow> (w1\<lparr>gwReg := r\<rparr>, Refuse 403)
        | (r, AssertActive) \<Rightarrow>
            respondPinResult fault (w1\<lparr>gwReg := r\<rparr>) 201 (resp\<lparr>rsPin := pinActive\<rparr>)
        | (r, AssertNeedsDial) \<Rightarrow>
            let observed = observe (eIP entry) (eSubdomain entry @ ''.'' @ baseDomain);
                w2 = others H sched 4 (w1\<lparr>gwReg := r\<rparr>)
            in if (case observed of Some o1 \<Rightarrow> FingerprintsEqual o1 (rqCertFingerprint req) | None \<Rightarrow> False)
               then
                 (case ActivatePin H (fst (sched 4)) (gwReg w2) (eSubdomain entry) (rqToken req) (rqCertFingerprint req) of
                    (r2, False) \<Rightarrow> (w2\<lparr>gwReg := r2\<rparr>, Refuse 403)
                  | (r2, True) \<Rightarrow>
                      respondPinResult fault (w2\<lparr>gwReg := r2\<rparr>) 201 (resp\<lparr>rsPin := pinActive\<rparr>))
               else
                 (case StorePendingPin H (fst (sched 4)) (gwReg w2) (eSubdomain entry) (rqToken req) (rqCertFingerprint req) of
                    (r2, False) \<Rightarrow> (w2\<lparr>gwReg := r2\<rparr>, Refuse 403)
                  | (r2, True) \<Rightarrow>
                      respondPinResult fault (w2\<lparr>gwReg := r2\<rparr>) 202
                        (resp\<lparr>rsPin := pinPending, rsAsserted := rqCertFingerprint req,
                              rsObserved := (case observed of Some o1 \<Rightarrow> o1 | None \<Rightarrow> [])\<rparr>)))"

text \<open>The checks ahead of the registry call, in their order; \<open>None\<close> lets the request through.\<close>

definition register_guard ::
  "digest \<Rightarrow> (string \<Rightarrow> bool) \<Rightarrow> registry \<Rightarrow> registerRequest \<Rightarrow> nat option" where
  "register_guard H isPublicIP r req =
     (if \<not> LabelPattern (rqSubdomain req) then Some 400
      else if Contains (rqSubdomain req) DerivedRouteSeparator then Some 400
      else
        let renewal = HeldBy H r (rqSubdomain req) (rqToken req)
        in if \<not> renewal \<and> rqSubdomain req \<in> set ReservedLabels then Some 409
           else if \<not> isPublicIP (rqIP req) then Some 400
           else if \<not> renewal \<and> IPShapedLabel (rqSubdomain req) \<and> rqSubdomain req \<noteq> LabelForIP (rqIP req)
           then Some 409
           else None)"

text \<open>\<open>body\<close> is the decoded request, \<open>None\<close> when it does not decode.\<close>

definition handleRegister ::
  "digest \<Rightarrow> (string \<Rightarrow> bool) \<Rightarrow> string \<Rightarrow> (string \<Rightarrow> string \<Rightarrow> string option) \<Rightarrow> sched
     \<Rightarrow> string option \<Rightarrow> string option \<Rightarrow> save_error option \<Rightarrow> registerRequest option \<Rightarrow> gateway \<Rightarrow> gateway \<times> reply" where
  "handleRegister H isPublicIP baseDomain observe sched newToken newNonce fault body w =
     (case body of
        None \<Rightarrow> (w, Refuse 400)
      | Some req \<Rightarrow>
          let w0 = others H sched 0 w in
          case register_guard H isPublicIP (gwReg w0) req of
            Some status \<Rightarrow> (w0, Refuse status)
          | None \<Rightarrow>
              let w1 = others H sched 1 w0 in
              case RegisterDurably H (fst (sched 1)) newToken fault (gwReg w1) (gwDisk w1)
                     (rqSubdomain req) (rqIP req) (rqToken req) of
                (r, disk, result, outcome, Some err) \<Rightarrow>
                  (w1\<lparr>gwReg := r, gwDisk := disk\<rparr>,
                   Refuse (case err of RegError (ErrSubdomainTaken _) \<Rightarrow> 409 | _ \<Rightarrow> 500))
              | (r, disk, None, outcome, None) \<Rightarrow> (w1\<lparr>gwReg := r, gwDisk := disk\<rparr>, Refuse 500)
              | (r, disk, Some entry, outcome, None) \<Rightarrow>
                  let w2 = w1\<lparr>gwReg := r, gwDisk := disk\<rparr>;
                      resp = \<lparr>rsSubdomain = eSubdomain entry, rsDomain = eSubdomain entry @ ''.'' @ baseDomain,
                              rsToken = [], rsPin = [], rsAsserted = [], rsObserved = [], rsChallenge = []\<rparr>
                  in if outcome = Created
                     then (w2, Answer 201 (resp\<lparr>rsToken := eToken entry, rsPin := pinNone\<rparr>))
                     else
                       let w3 = others H sched 2 w2 in
                       case IssueChallenge H (fst (sched 2)) newNonce (gwReg w3) (eSubdomain entry) (rqToken req) of
                         (r3, ChallengeError) \<Rightarrow> (w3\<lparr>gwReg := r3\<rparr>, Refuse 500)
                       | (r3, answer) \<Rightarrow>
                           let w4 = w3\<lparr>gwReg := r3\<rparr>;
                               resp1 = (case answer of ChallengeNonce n \<Rightarrow> resp\<lparr>rsChallenge := n\<rparr> | _ \<Rightarrow> resp)
                           in if rqCertFingerprint req = [] then
                                let resp2 = resp1\<lparr>rsPin := (if Pinned (PinState (fst (sched 2)) (gwReg w4) (eSubdomain entry))
                                                            then pinActive else pinNone)\<rparr>
                                in respondPinResult fault w4 201 resp2
                              else handlePinAssert H baseDomain observe sched fault w4 entry req resp1)"

subsection \<open>Proof, release, heartbeat\<close>

definition handleProof ::
  "digest \<Rightarrow> (string \<Rightarrow> string) \<Rightarrow> (string \<Rightarrow> string option) \<Rightarrow> ('key \<Rightarrow> string \<Rightarrow> string \<Rightarrow> bool) \<Rightarrow> string
     \<Rightarrow> (string \<Rightarrow> string \<Rightarrow> ('key \<times> string) option) \<Rightarrow> sched \<Rightarrow> save_error option \<Rightarrow> proofRequest option
     \<Rightarrow> gateway \<Rightarrow> gateway \<times> proof_reply" where
  "handleProof H sha decode ecdsa baseDomain observe sched fault body w =
     (case body of
        None \<Rightarrow> (w, NotProven 400)
      | Some req \<Rightarrow>
          let w0 = others H sched 0 w in
          case Lookup (fst (sched 0)) (gwReg w0) (pqSubdomain req) of
            None \<Rightarrow> (w0, NotProven 404)
          | Some entry \<Rightarrow>
              let w1 = others H sched 1 w0 in
              if \<not> ChallengeMatches H (fst (sched 1)) (gwReg w1) (pqSubdomain req) (pqToken req) (pqNonce req)
              then (w1, NotProven 409)
              else
                case observe (eIP entry) (pqSubdomain req @ ''.'' @ baseDomain) of
                  None \<Rightarrow> (w1, NotProven 202)
                | Some (pub, keySPKI) \<Rightarrow>
                    if \<not> Verify sha decode ecdsa (Some pub) (pqNonce req) (eSubdomain entry) (eIP entry)
                          baseDomain (pqToken req) (pqSignature req)
                    then (w1, NotProven 403)
                    else
                      let w2 = others H sched 2 w1 in
                      case RecordProof H (fst (sched 2)) (gwReg w2) (pqSubdomain req) (pqToken req)
                             (pqNonce req) keySPKI Protocol of
                        (r, False) \<Rightarrow> (w2\<lparr>gwReg := r\<rparr>, NotProven 403)
                      | (r, True) \<Rightarrow>
                          (case save_world fault (w2\<lparr>gwReg := r\<rparr>) of
                             (w3, Some err) \<Rightarrow> (w3, NotProven 500)
                           | (w3, None) \<Rightarrow>
                               let w4 = others H sched 3 w3 in
                               (w4, case Lookup (fst (sched 3)) (gwReg w4) (pqSubdomain req) of
                                      Some proven \<Rightarrow> Proven (eProofExpiry proven)
                                    | None \<Rightarrow> ProvenGone)))"

definition handleDeregister :: "digest \<Rightarrow> save_error option \<Rightarrow> string option \<Rightarrow> gateway \<Rightarrow> gateway \<times> nat" where
  "handleDeregister H fault body w =
     (case body of
        None \<Rightarrow> (w, 400)
      | Some token \<Rightarrow>
          (case Deregister H (gwReg w) token of
             (r, Inl err) \<Rightarrow> (w\<lparr>gwReg := r\<rparr>, 404)
           | (r, Inr subdomain) \<Rightarrow>
               (case save_world fault (w\<lparr>gwReg := r, gwProxy := forgetCluster (gwProxy w) subdomain\<rparr>) of
                  (w1, Some err) \<Rightarrow> (w1, 500)
                | (w1, None) \<Rightarrow> (w1, 204))))"

definition handlePing :: "digest \<Rightarrow> time \<Rightarrow> string option \<Rightarrow> gateway \<Rightarrow> gateway \<times> nat" where
  "handlePing H now body w =
     (case body of
        None \<Rightarrow> (w, 400)
      | Some token \<Rightarrow>
          (case Ping H now (gwReg w) token of
             (r, Some err) \<Rightarrow> (w\<lparr>gwReg := r\<rparr>, 404)
           | (r, None) \<Rightarrow> (w\<lparr>gwReg := r\<rparr>, 200)))"

definition sweep :: "time \<Rightarrow> save_error option \<Rightarrow> gateway \<Rightarrow> gateway \<times> string list" where
  "sweep now fault w =
     (case Cleanup now (gwReg w) of
        (r, removed) \<Rightarrow>
          let w1 = w\<lparr>gwReg := r, gwProxy := fold (\<lambda>s p. forgetCluster p s) removed (gwProxy w)\<rparr>
          in if removed = [] then (w1, []) else (fst (save_world fault w1), sort removed))"

subsection \<open>Status and site\<close>

definition bearerToken :: "string \<Rightarrow> string \<times> bool" where
  "bearerToken header =
     (let scheme = ''Bearer ''
      in if length header < length scheme \<or> \<not> EqualFold (take (length scheme) header) scheme then ([], False)
         else let credential = TrimSpace (drop (length scheme) header) in (credential, credential \<noteq> []))"

record status_page =
  stRegistrations :: nat
  stUnpinned :: nat
  stUnpinnedOldest :: duration
  stUnproven :: nat
  stUnprovenOldest :: duration
  stProofOverdue :: nat
  stLastProofAge :: "duration option"
  stProofBeforeRoute :: bool

datatype status_reply = StatusNotFound | StatusUnauthorized | StatusPage status_page

definition handleStatus :: "time \<Rightarrow> registry \<Rightarrow> string \<Rightarrow> string \<Rightarrow> status_reply" where
  "handleStatus now r token authorization =
     (if token = [] then StatusNotFound
      else case bearerToken authorization of
             (presented, ok) \<Rightarrow>
               if \<not> ok \<or> presented \<noteq> token then StatusUnauthorized
               else
                 let (unpinned, oldest) = UnpinnedSummary now r;
                     (unproven, unprovenOldest) = UnprovenSummary now r
                 in StatusPage
                      \<lparr>stRegistrations = Count now r, stUnpinned = unpinned,
                       stUnpinnedOldest = oldest div second, stUnproven = unproven,
                       stUnprovenOldest = unprovenOldest div second,
                       stProofOverdue = ProofOverdue now r heartbeatWindow,
                       stLastProofAge = map_option (\<lambda>age. age div second) (NewestProofAge now r),
                       stProofBeforeRoute = rEnforceProof r\<rparr>)"

text \<open>Whether \<open>siteRedirect\<close> answers with a redirect to the project site.\<close>

definition siteRedirect :: "string \<Rightarrow> string \<Rightarrow> string \<Rightarrow> string \<Rightarrow> bool" where
  "siteRedirect baseDomain requestHost path meth =
     (let host = normaliseHost requestHost;
          apexRoot = host = baseDomain \<and> path = ''/'' \<and> (meth = ''GET'' \<or> meth = ''HEAD'')
      in apexRoot \<or> host = ''www.'' @ baseDomain)"

subsection \<open>Start-up\<close>

definition prunableEntry :: "entry \<Rightarrow> bool" where
  "prunableEntry e \<longleftrightarrow> ValidateClusterLabel (eSubdomain e) \<noteq> None \<and> eFirstProvenAt e = zero_time"

definition grandfatheredEntry :: "entry \<Rightarrow> bool" where
  "grandfatheredEntry e \<longleftrightarrow> ValidateClusterLabel (eSubdomain e) \<noteq> None \<and> eFirstProvenAt e \<noteq> zero_time"

definition addressMismatch :: "entry \<Rightarrow> bool" where
  "addressMismatch e \<longleftrightarrow> IPShapedLabel (eSubdomain e) \<and> eSubdomain e \<noteq> LabelForIP (eIP e)"

text \<open>
  The loading part of \<open>main\<close>: load, drop non-public addresses, drop refused labels that never
  served, save if anything was dropped. A load error ends the process.
\<close>

definition startup ::
  "digest \<Rightarrow> (string \<Rightarrow> bool) \<Rightarrow> bool \<Rightarrow> save_error option \<Rightarrow> snapshot_file \<Rightarrow> load_error + (registry \<times> snapshot_file)" where
  "startup H isPublicIP enforceProof fault disk =
     (case LoadFrom H New disk of
        (r, Some err) \<Rightarrow> Inl err
      | (r, None) \<Rightarrow>
          case Prune isPublicIP r of
            (r1, dropped1) \<Rightarrow>
              case PruneEntries prunableEntry r1 of
                (r2, dropped2) \<Rightarrow>
                  let disk' = (if 0 < dropped1 \<or> 0 < dropped2 then fst (SaveTo fault r2 disk) else disk)
                  in Inr (r2\<lparr>rEnforceProof := enforceProof\<rparr>, disk'))"

end
