(* ===== verification/Gateway_Handler_Properties.thy ===== *)
theory Gateway_Handler_Properties
  imports Gateway_Handlers
begin

text \<open>
  What the gateway's API guarantees its callers, with other requests interleaved between the
  registry calls of a handler: which names a claim can take, what a proof is bound to, and that an
  acknowledged change is on disk.
\<close>

subsection \<open>Interleaved operations\<close>

lemma distinct_release_spent:
  "distinct_keys (rEntries r) \<Longrightarrow> distinct_keys (rEntries (release_spent now s r))"
  by (simp add: release_spent_def drop_entry_def gomap.wf_rm split: option.splits)

lemma distinct_store_entry [simp]:
  "distinct_keys (rEntries r) \<Longrightarrow> distinct_keys (rEntries (store_entry s e r))"
  by (simp add: store_entry_def gomap.wf_wr)

lemma distinct_cleanup_fold:
  "distinct_keys (rEntries (fst acc)) \<Longrightarrow> distinct_keys (rEntries (fst (fold (cleanup_turn now) l acc)))"
proof (induction l arbitrary: acc)
  case (Cons x l)
  have "distinct_keys (rEntries (fst (cleanup_turn now x acc)))"
    using Cons.prems by (auto simp: cleanup_turn_def drop_entry_def gomap.wf_rm gomap.wf_wr split: prod.splits)
  then show ?case using Cons.IH by simp
qed simp

lemma distinct_exec:
  assumes "distinct_keys (rEntries r)"
  shows "distinct_keys (rEntries (exec H now r op))"
proof (cases op)
  case (OpRegister nt s ip tok)
  then show ?thesis
    using distinct_release_spent [OF assms]
    by (auto simp: Register_def Let_def gomap.wf_wr split: option.splits)
next
  case OpCleanup
  then show ?thesis
    using assms by (simp add: Cleanup_def distinct_cleanup_fold)
qed (use assms in \<open>auto simp: Deregister_def Ping_def AssertPin_def ActivatePin_def activate_at_def
       StorePendingPin_def PromoteOnObserve_def IssueChallenge_def RecordProof_def gomap.wf_rm
       split: option.splits\<close>)

lemma exec_all_invariant:
  assumes "distinct_keys (rEntries r)" and "entries_sat P r"
    and "\<And>now op r. (now, op) \<in> set ops \<Longrightarrow> distinct_keys (rEntries r) \<Longrightarrow> entries_sat P r \<Longrightarrow>
           entries_sat P (exec H now r op)"
  shows "distinct_keys (rEntries (exec_all H r ops)) \<and> entries_sat P (exec_all H r ops)"
  using assms
proof (induction ops arbitrary: r)
  case (Cons x ops)
  obtain now op where x: "x = (now, op)" by (cases x)
  have "entries_sat P (exec H now r op)" "distinct_keys (rEntries (exec H now r op))"
    using Cons.prems x distinct_exec by auto
  then show ?case
    using Cons.IH [of "exec H now r op"] Cons.prems(3) x by auto
qed simp

lemma save_world_ok:
  "save_world fault w = (w', None) \<longleftrightarrow> fault = None \<and> w' = w\<lparr>gwDisk := Snapshot (snapshot (gwReg w))\<rparr>"
  by (auto simp: save_world_def SaveTo_def saveLocked_def split: option.splits)

lemma save_world_err:
  "save_world fault w = (w', Some err) \<longleftrightarrow> fault = Some err \<and> w' = w"
  by (auto simp: save_world_def SaveTo_def saveLocked_def split: option.splits)

lemmas save_world_cases = save_world_ok save_world_err

subsection \<open>A proof is bound to the dialled address\<close>

definition fresh_nonce :: "string \<Rightarrow> op \<Rightarrow> bool" where
  "fresh_nonce n op \<longleftrightarrow> n \<noteq> [] \<and> (\<forall>s tok. op \<noteq> OpIssueChallenge (Some n) s tok)"

definition challenge_at :: "string \<Rightarrow> string \<Rightarrow> string \<Rightarrow> string \<Rightarrow> entry \<Rightarrow> bool" where
  "challenge_at s n ip t e \<longleftrightarrow> (t = s \<longrightarrow> eChallengeNonce e = n \<longrightarrow> eIP e = ip)"

lemma challenge_at_same:
  "challenge_at s n ip t e \<Longrightarrow> eChallengeNonce e' = eChallengeNonce e \<Longrightarrow> eIP e' = eIP e \<Longrightarrow> challenge_at s n ip t e'"
  by (simp add: challenge_at_def)

lemma challenge_at_cleared: "n \<noteq> [] \<Longrightarrow> eChallengeNonce e = [] \<Longrightarrow> challenge_at s n ip t e"
  by (auto simp: challenge_at_def)

interpretation bound: entry_rule H now op
  "\<lambda>t e. fresh_nonce n op \<longrightarrow> challenge_at s n ip t e" "\<lambda>t e. fresh_nonce n op \<longrightarrow> challenge_at s n ip t e"
  for H now op s n ip
  by unfold_locales
    (auto simp: fresh_nonce_def entry_updates intro: challenge_at_cleared challenge_at_same,
     auto simp: challenge_at_def)

lemma bound_exec_all:
  assumes "distinct_keys (rEntries r)" and "entries_sat (challenge_at s n ip) r"
    and "list_all (\<lambda>(now, op). fresh_nonce n op) ops"
  shows "distinct_keys (rEntries (exec_all H r ops)) \<and> entries_sat (challenge_at s n ip) (exec_all H r ops)"
proof (rule exec_all_invariant [OF assms(1,2)])
  fix now op and r :: registry
  assume "(now, op) \<in> set ops" and dist: "distinct_keys (rEntries r)" and sat: "entries_sat (challenge_at s n ip) r"
  then have "fresh_nonce n op"
    using assms(3) by (auto simp: list_all_iff)
  then show "entries_sat (challenge_at s n ip) (exec H now r op)"
    using bound.entries_exec [OF dist, of n op s ip H now] sat by (simp add: entries_sat_def)
qed

lemma RecordProof_True:
  assumes "RecordProof H now r s tok nonce spki protocol = (r', True)"
  shows "\<exists>e. get (rEntries r) s = Some e \<and> tokenMatches H e tok \<and> eChallengeNonce e = nonce \<and> nonce \<noteq> [] \<and>
    get (rEntries r') s = Some (record_proof now spki protocol e)"
  using assms
  by (auto simp: RecordProof_def nonceMatches_def store_entry_def go_map split: option.splits if_splits)

text \<open>
  C4. A proof is bound to the address it was checked at: when \<open>handleProof\<close> records a proof, the
  registration saved to disk carries the key the dial found at that registration's own address, and
  the signature verified under that key for this label, address and token. This holds although other
  requests, moves of the same registration included, run while the gateway dials, provided the
  nonce was not minted a second time.
\<close>

theorem proof_binds_to_dialled_address:
  assumes "run H r0 tr clock (gwReg w)" and "admissible_all H (gwReg w) clock (snd (sched 0))"
    and fresh: "list_all (\<lambda>(now, op). fresh_nonce (pqNonce req) op) (snd (sched 1) @ snd (sched 2))"
    and reply: "handleProof H sha decode ecdsa base observe sched fault (Some req) w = (w', Proven expiry)"
  shows "\<exists>e es pub. gwDisk w' = Snapshot es \<and> e \<in> set es \<and> eTokenHash e = hashToken H (pqToken req) \<and>
    observe (eIP e) (pqSubdomain req @ ''.'' @ base) = Some (pub, eProofKeySPKI e) \<and>
    Verify sha decode ecdsa (Some pub) (pqNonce req) (pqSubdomain req) (eIP e) base (pqToken req) (pqSignature req)"
proof -
  let ?s = "pqSubdomain req" and ?n = "pqNonce req"
  define w0 where "w0 = others H sched 0 w"
  define w1 where "w1 = others H sched 1 w0"
  define w2 where "w2 = others H sched 2 w1"
  obtain entry pub key r where h: "Lookup (fst (sched 0)) (gwReg w0) ?s = Some entry"
    "observe (eIP entry) (?s @ ''.'' @ base) = Some (pub, key)"
    "Verify sha decode ecdsa (Some pub) ?n (eSubdomain entry) (eIP entry) base (pqToken req) (pqSignature req)"
    "RecordProof H (fst (sched 2)) (gwReg w2) ?s (pqToken req) ?n key Protocol = (r, True)"
    and saved: "gwDisk w' = Snapshot (snapshot r)"
    using reply
    by (auto simp: handleProof_def Let_def w0_def w1_def w2_def others_def save_world_cases
        split: option.splits if_splits prod.splits bool.splits)
  have run0: "run H r0 (tr @ snd (sched 0)) (end_clock clock (snd (sched 0))) (gwReg w0)"
    using run_exec_all [OF assms(1,2)] by (simp add: w0_def others_def)
  have e0: "get (rEntries (gwReg w0)) ?s = Some entry"
    using h(1) by (auto simp: Lookup_def split: option.splits if_splits)
  have inv0: "distinct_keys (rEntries (gwReg w0))" "eSubdomain entry = ?s"
    using run_reg_inv [OF run0] e0 by (auto simp: reg_inv_def reg_index_distinct entries_sat_def entry_ok_def)
  have "entries_sat (challenge_at ?s ?n (eIP entry)) (gwReg w0)"
    using e0 by (auto simp: entries_sat_def challenge_at_def)
  then have "entries_sat (challenge_at ?s ?n (eIP entry)) (gwReg w2)"
    using bound_exec_all inv0(1) fresh by (simp add: w1_def w2_def others_def)
  moreover obtain e where e: "get (rEntries (gwReg w2)) ?s = Some e" "tokenMatches H e (pqToken req)"
    "eChallengeNonce e = ?n" "get (rEntries r) ?s = Some (record_proof (fst (sched 2)) key Protocol e)"
    using RecordProof_True [OF h(4)] by blast
  ultimately have "eIP e = eIP entry"
    by (auto simp: entries_sat_def challenge_at_def)
  let ?e = "forget_token (record_proof (fst (sched 2)) key Protocol e)"
  have "?e \<in> set (snapshot r)"
    using map_of_SomeD [OF e(4)] by (force simp: snapshot_def)
  moreover have "eIP ?e = eIP entry" "eProofKeySPKI ?e = key" "eTokenHash ?e = hashToken H (pqToken req)"
    using e(2) \<open>eIP e = eIP entry\<close> by (simp_all add: forget_token_def record_proof_def Let_def tokenMatches_def)
  ultimately show ?thesis
    using h(2,3) inv0(2) saved by (intro exI [of _ ?e] exI [of _ "snapshot r"] exI [of _ pub]) simp
qed

text \<open>A cluster that registered and was challenged, then proves its key.\<close>

definition demo_world :: gateway where
  "demo_world = \<lparr>gwReg = exec_all id New (take 2 demo_ops), gwDisk = Missing, gwProxy = demo_proxy\<rparr>"

definition demo_proof :: proofRequest where
  "demo_proof = \<lparr>pqSubdomain = ''lab'', pqToken = ''tok'', pqNonce = ''n1'', pqSignature = ''sig''\<rparr>"

definition demo_sched :: sched where
  "demo_sched i = (3, [])"

lemma demo_world_run: "run id New (take 2 demo_ops) 2 (gwReg demo_world)"
proof -
  have "run id New [] zero_time New"
    by (rule run.start) (simp add: empty_registry_def New_def)
  moreover have "admissible_all id New zero_time (take 2 demo_ops)" by code_simp
  moreover have "end_clock zero_time (take 2 demo_ops) = 2" by code_simp
  ultimately show ?thesis
    using run_exec_all [of id New "[]" zero_time New "take 2 demo_ops"] by (simp add: demo_world_def)
qed

theorem proof_binds_to_dialled_address_witness:
  "\<exists>e es pub.
     gwDisk (fst (handleProof id id Some (\<lambda>k d sg. sg = ''sig'') ''kipper.run''
       (\<lambda>ip sni. Some ((), demo_fp)) demo_sched None (Some demo_proof) demo_world)) = Snapshot es \<and>
     e \<in> set es \<and> eTokenHash e = hashToken id ''tok'' \<and>
     (\<lambda>ip sni. Some ((), demo_fp)) (eIP e) (''lab'' @ ''.'' @ ''kipper.run'') = Some (pub, eProofKeySPKI e) \<and>
     Verify id Some (\<lambda>k d sg. sg = ''sig'') (Some pub) ''n1'' ''lab'' (eIP e) ''kipper.run'' ''tok'' ''sig''"
proof -
  let ?call = "handleProof id id Some (\<lambda>k d sg. sg = ''sig'') ''kipper.run''
       (\<lambda>ip sni. Some ((), demo_fp)) demo_sched None (Some demo_proof) demo_world"
  have "(case snd ?call of Proven t \<Rightarrow> True | _ \<Rightarrow> False)" by code_simp
  then obtain t where "?call = (fst ?call, Proven t)"
    by (cases ?call; cases "snd ?call") auto
  from proof_binds_to_dialled_address [OF demo_world_run _ _ this] show ?thesis
    by (simp add: demo_sched_def demo_proof_def)
qed

subsection \<open>Names a claim can take\<close>

lemma handlePinAssert_token:
  "handlePinAssert H base observe sched fault w e req resp = (w', Answer st resp') \<Longrightarrow> rsToken resp' = rsToken resp"
  by (auto simp: handlePinAssert_def Let_def respondPinResult_def
      split: if_splits AssertResult.splits option.splits prod.splits bool.splits)

lemma register_guard_claim:
  assumes "register_guard H isPublicIP r req = None" and "\<not> HeldBy H r (rqSubdomain req) (rqToken req)"
  shows "ValidateClusterLabel (rqSubdomain req) = None \<and> isPublicIP (rqIP req) \<and>
    (IPShapedLabel (rqSubdomain req) \<longrightarrow> rqSubdomain req = LabelForIP (rqIP req))"
  using assms by (auto simp: register_guard_def Let_def ValidateClusterLabel_def split: if_splits)

lemma RegisterDurably_Created:
  assumes "RegisterDurably H now nt fault r disk s ip tok = (r', disk', Some e, Created, None)"
  shows "fault = None \<and> disk' = Snapshot (snapshot r') \<and> get (rEntries r') s = Some e \<and> eIP e = ip"
proof -
  obtain r1 e1 out err where R: "Register H now nt r s ip tok = (r1, e1, out, err)"
    by (cases "Register H now nt r s ip tok")
  then have "out = Created \<and> err = None \<and> fault = None \<and> r' = r1 \<and> e1 = Some e \<and> disk' = Snapshot (snapshot r1)"
    using assms by (auto simp: RegisterDurably_def saveLocked_def split: if_splits option.splits prod.splits sum.splits)
  moreover from this R Register_Created [of H now nt r s ip tok r1 e1]
  obtain t where "e = fresh_entry H now s ip t" "rEntries r1 = put s e (rEntries (release_spent now s r))"
    by auto
  ultimately show ?thesis
    by (simp add: go_map fresh_entry_def)
qed

text \<open>
  A token is disclosed only for an admissible, saved claim: when \<open>handleRegister\<close> hands out a
  token to a caller that did not hold the label, the label passes the whole registration policy, the
  address is public, an address-shaped label names the caller's own address, and the registration
  with that token is in memory and in the file.
\<close>

lemma token_disclosed_only_for_saved_claim:
  assumes "handleRegister H isPublicIP base observe sched nt nn fault (Some req) w = (w', Answer st resp)"
    and "rsToken resp \<noteq> []" and "\<not> HeldBy H (gwReg (others H sched 0 w)) (rqSubdomain req) (rqToken req)"
  shows "ValidateClusterLabel (rqSubdomain req) = None \<and> isPublicIP (rqIP req) \<and>
    (IPShapedLabel (rqSubdomain req) \<longrightarrow> rqSubdomain req = LabelForIP (rqIP req)) \<and>
    gwDisk w' = Snapshot (snapshot (gwReg w')) \<and>
    (\<exists>e. get (rEntries (gwReg w')) (rqSubdomain req) = Some e \<and> eToken e = rsToken resp \<and> eIP e = rqIP req)"
proof -
  define w0 where "w0 = others H sched 0 w"
  define w1 where "w1 = others H sched 1 w0"
  have guard: "register_guard H isPublicIP (gwReg w0) req = None"
    using assms(1) by (auto simp: handleRegister_def Let_def w0_def split: option.splits)
  obtain r disk res out err where dur: "RegisterDurably H (fst (sched 1)) nt fault (gwReg w1) (gwDisk w1)
      (rqSubdomain req) (rqIP req) (rqToken req) = (r, disk, res, out, err)"
    by (metis prod_cases5)
  have "err = None \<and> (\<exists>e. res = Some e)"
    using assms(1) guard dur by (auto simp: handleRegister_def Let_def w0_def w1_def split: option.splits)
  then obtain e where e: "err = None" "res = Some e" by blast
  have "out = Created"
  proof (rule ccontr)
    assume "out \<noteq> Created"
    then have "rsToken resp = []"
      using assms(1) guard dur e
      by (auto simp: handleRegister_def Let_def w0_def w1_def respondPinResult_def dest!: handlePinAssert_token
          split: option.splits challenge_result.splits if_splits prod.splits)
    then show False using assms(2) by simp
  qed
  then have "w' = w1\<lparr>gwReg := r, gwDisk := disk\<rparr>" "rsToken resp = eToken e"
    using assms(1) guard dur e by (auto simp: handleRegister_def Let_def w0_def w1_def)
  then show ?thesis
    using RegisterDurably_Created [of H "fst (sched 1)" nt fault "gwReg w1"] dur e \<open>out = Created\<close>
      register_guard_claim [OF guard] assms(3) by (simp add: w0_def)
qed

definition demo_claim :: registerRequest where
  "demo_claim = \<lparr>rqSubdomain = ''two'', rqIP = ''203.0.113.9'', rqCertFingerprint = [], rqToken = []\<rparr>"

definition spent_world :: gateway where
  "spent_world = \<lparr>gwReg = exec_all id New [(1, OpRegister (Some ''tok'') ''docs'' ''198.51.100.7'' [])],
     gwDisk = Missing, gwProxy = demo_proxy\<rparr>"

text \<open>
  A spent reservation escapes the claim rules: the guard takes a request for a renewal whenever the presented token matches the stored entry,
  even one whose tombstone has run out. \<open>Register\<close> drops such an entry and creates a new claim, so
  the holder of a spent reservation takes a reserved label anew, with a new token.
\<close>

lemma spent_reservation_reclaims_reserved_label:
  "ValidateClusterLabel ''docs'' = Some ErrReserved \<and>
   (case snd (handleRegister id (\<lambda>_. True) ''kipper.run'' (\<lambda>_ _. None) (\<lambda>i. (31 * 24 * hour, [])) (Some ''new'') None None
      (Some \<lparr>rqSubdomain = ''docs'', rqIP = ''198.51.100.7'', rqCertFingerprint = [], rqToken = ''tok''\<rparr>) spent_world) of
      Answer st resp \<Rightarrow> st = 201 \<and> rsToken resp = ''new''
    | Refuse st \<Rightarrow> False)"
  by code_simp

subsection \<open>Acknowledged changes are on disk\<close>

definition on_disk :: "gateway \<Rightarrow> string \<Rightarrow> entry \<Rightarrow> bool" where
  "on_disk w s e \<longleftrightarrow> (\<exists>es. gwDisk w = Snapshot es \<and> forget_token e \<in> set es) \<and> get (rEntries (gwReg w)) s = Some e"

lemma on_disk_saved:
  "get (rEntries (gwReg w)) s = Some e \<Longrightarrow> on_disk (w\<lparr>gwDisk := Snapshot (snapshot (gwReg w))\<rparr>) s e"
  by (force simp: on_disk_def snapshot_def dest: map_of_SomeD)

lemma AssertPin_Active:
  "AssertPin H r s tok fp = (r', AssertActive) \<Longrightarrow>
     \<exists>e. get (rEntries r') s = Some e \<and> tokenMatches H e tok \<and> eCertFingerprint e = fp"
  by (auto simp: AssertPin_def FingerprintsEqual_iff store_entry_def go_map tokenMatches_def
      split: option.splits if_splits)

lemma ActivatePin_True:
  assumes "ActivatePin H now r s tok fp = (r', True)"
  shows "\<exists>e. get (rEntries r') s = Some e \<and> tokenMatches H e tok \<and> eCertFingerprint e = fp"
proof -
  obtain e where e: "get (rEntries r) s = Some e" "tokenMatches H e tok" "r' = activate_at now r s e fp"
    using assms by (auto simp: ActivatePin_def split: option.splits if_splits)
  show ?thesis
  proof (cases "FingerprintsEqual (eCertFingerprint e) fp")
    case True
    then show ?thesis using e by (auto simp: activate_at_def FingerprintsEqual_iff)
  next
    case False
    then have "eCertFingerprint (activateLocked now e fp) = fp"
      by (simp add: activateLocked_def Let_def)
    then show ?thesis
      using e False by (simp add: activate_at_def store_entry_def go_map tokenMatches_def)
  qed
qed

lemma StorePendingPin_True:
  "StorePendingPin H now r s tok fp = (r', True) \<Longrightarrow>
     \<exists>e. get (rEntries r') s = Some e \<and> tokenMatches H e tok \<and> ePendingFingerprint e = fp"
  by (auto simp: StorePendingPin_def store_entry_def go_map tokenMatches_def split: option.splits if_splits)

lemma respondPinResult_Answer:
  "respondPinResult fault w st resp = (w', Answer st' resp') \<longleftrightarrow>
     fault = None \<and> w' = w\<lparr>gwDisk := Snapshot (snapshot (gwReg w))\<rparr> \<and> st' = st \<and> resp' = resp"
  by (auto simp: respondPinResult_def save_world_cases split: prod.splits option.splits)

text \<open>
  A pin is persisted before it is acknowledged: when \<open>handlePinAssert\<close> answers anything but an
  error, the registration of the caller's token is in memory and in the file with the asserted
  fingerprint, as the enforced pin when the answer is \<open>active\<close>, as a pending one when it is
  \<open>pending\<close>; and it is enforced only if it already was or the gateway's own dial observed it.
\<close>

lemma acknowledged_pin_is_saved:
  assumes "handlePinAssert H base observe sched fault w entry req resp = (w', Answer st resp')"
  shows "\<exists>e. on_disk w' (eSubdomain entry) e \<and> tokenMatches H e (rqToken req) \<and>
    ((rsPin resp' = pinActive \<and> st = 201 \<and> eCertFingerprint e = rqCertFingerprint req \<and>
      (observe (eIP entry) (eSubdomain entry @ ''.'' @ base) = Some (rqCertFingerprint req) \<or>
       snd (AssertPin H (gwReg (others H sched 3 w)) (eSubdomain entry) (rqToken req) (rqCertFingerprint req)) = AssertActive)) \<or>
     (rsPin resp' = pinPending \<and> st = 202 \<and> ePendingFingerprint e = rqCertFingerprint req))"
proof -
  let ?s = "eSubdomain entry" and ?fp = "rqCertFingerprint req" and ?tok = "rqToken req"
  let ?seen = "observe (eIP entry) (?s @ ''.'' @ base)"
  define w1 where "w1 = others H sched 3 w"
  obtain r res where A: "AssertPin H (gwReg w1) ?s ?tok ?fp = (r, res)"
    by (cases "AssertPin H (gwReg w1) ?s ?tok ?fp")
  define w2 where "w2 = others H sched 4 (w1\<lparr>gwReg := r\<rparr>)"
  have valid: "ValidFingerprint ?fp"
    using assms by (simp add: handlePinAssert_def split: if_splits)
  consider "res = AssertActive" "w' = w1\<lparr>gwReg := r, gwDisk := Snapshot (snapshot r)\<rparr>" "st = 201" "rsPin resp' = pinActive"
    | r2 where "ActivatePin H (fst (sched 4)) (gwReg w2) ?s ?tok ?fp = (r2, True)" "?seen = Some ?fp"
      "w' = w2\<lparr>gwReg := r2, gwDisk := Snapshot (snapshot r2)\<rparr>" "st = 201" "rsPin resp' = pinActive"
    | r2 where "StorePendingPin H (fst (sched 4)) (gwReg w2) ?s ?tok ?fp = (r2, True)"
      "w' = w2\<lparr>gwReg := r2, gwDisk := Snapshot (snapshot r2)\<rparr>" "st = 202" "rsPin resp' = pinPending"
    using assms valid A
    by (auto simp: handlePinAssert_def Let_def w1_def w2_def respondPinResult_Answer FingerprintsEqual_iff
        split: AssertResult.splits if_splits prod.splits bool.splits option.splits)
  then show ?thesis
  proof cases
    case 1
    then obtain e where "get (rEntries r) ?s = Some e" "tokenMatches H e ?tok" "eCertFingerprint e = ?fp"
      using AssertPin_Active A by blast
    then show ?thesis
      using 1 A on_disk_saved [of "w1\<lparr>gwReg := r\<rparr>" ?s e] by (auto simp: w1_def)
  next
    case 2
    then obtain e where "get (rEntries r2) ?s = Some e" "tokenMatches H e ?tok" "eCertFingerprint e = ?fp"
      using ActivatePin_True by blast
    then show ?thesis
      using 2 on_disk_saved [of "w2\<lparr>gwReg := r2\<rparr>" ?s e] by auto
  next
    case 3
    then obtain e where "get (rEntries r2) ?s = Some e" "tokenMatches H e ?tok" "ePendingFingerprint e = ?fp"
      using StorePendingPin_True by blast
    then show ?thesis
      using 3 on_disk_saved [of "w2\<lparr>gwReg := r2\<rparr>" ?s e] by auto
  qed
qed

definition demo_assert :: registerRequest where
  "demo_assert = \<lparr>rqSubdomain = ''lab'', rqIP = ''198.51.100.7'', rqCertFingerprint = demo_fp, rqToken = ''tok''\<rparr>"

definition demo_resp :: registerResponse where
  "demo_resp = \<lparr>rsSubdomain = ''lab'', rsDomain = ''lab.kipper.run'', rsToken = [], rsPin = [], rsAsserted = [],
     rsObserved = [], rsChallenge = []\<rparr>"

text \<open>
  A release is durable and complete: when \<open>handleDeregister\<close> answers 204, the label the token
  held is gone from memory and from the file, the token finds nothing any more, and every other
  registration is as it was.
\<close>

lemma release_is_durable:
  assumes "run H r0 tr clock (gwReg w)" and "handleDeregister H fault (Some tok) w = (w', 204)"
  shows "\<exists>s e. get (rEntries (gwReg w)) s = Some e \<and> tokenMatches H e tok \<and>
    get (rEntries (gwReg w')) = (get (rEntries (gwReg w)))(s := None) \<and>
    gwDisk w' = Snapshot (snapshot (gwReg w')) \<and> saved (snapshot (gwReg w')) s = None \<and>
    get (rTokens (gwReg w')) (hashToken H tok) = None"
proof -
  obtain r s where D: "Deregister H (gwReg w) tok = (r, Inr s)"
    and w': "w' = w\<lparr>gwReg := r, gwProxy := forgetCluster (gwProxy w) s, gwDisk := Snapshot (snapshot r)\<rparr>"
    using assms(2)
    by (auto simp: handleDeregister_def save_world_cases split: prod.splits sum.splits option.splits)
  then obtain e where e: "get (rEntries (gwReg w)) s = Some e" "tokenMatches H e tok"
    "r = (gwReg w)\<lparr>rEntries := del s (rEntries (gwReg w)), rTokens := del (hashToken H tok) (rTokens (gwReg w)),
                     rDirty := True\<rparr>"
    by (auto simp: Deregister_def split: option.splits if_splits)
  have stored: "well_stored clock (gwReg w)"
    using run_reg_inv [OF assms(1)] run_hashed [OF assms(1)] by (simp add: well_stored_def reg_inv_def)
  have "reg_index r"
    using reg_index_Deregister [of "gwReg w" H tok] D stored by (simp add: well_stored_def)
  then have "well_stored clock r"
    using stored e(3) by (auto simp: well_stored_def entries_sat_def gomap.rd_rm)
  then have "saved (snapshot r) s = None"
    using e(3) by (simp add: saved_snapshot gomap.rd_rm)
  then show ?thesis
    using e w' by (intro exI [of _ s] exI [of _ e]) (simp add: gomap.rd_rm)
qed

subsection \<open>Start-up policy\<close>

lemma prune_fold_entries:
  "distinct_keys l \<Longrightarrow> get (rEntries (fst (fold (prune_turn unwanted) l (r, n)))) s =
     (case get l s of
        Some e \<Rightarrow> if unwanted e then None else get (rEntries r) s
      | None \<Rightarrow> get (rEntries r) s)"
proof (induction l arbitrary: r n)
  case (Cons x l)
  obtain k e where x: "x = (k, e)" by (cases x)
  have "get l k = None" and "distinct_keys l"
    using Cons.prems x by (auto simp: distinct_keys_def map_of_eq_None_iff)
  then show ?case
    using Cons.IH x by (auto simp: prune_turn_def drop_entry_def gomap.rd_rm split: option.splits)
qed simp

lemma distinct_prune_fold:
  "distinct_keys (rEntries r) \<Longrightarrow> distinct_keys (rEntries (fst (fold (prune_turn unwanted) l (r, n))))"
  by (induction l arbitrary: r n) (auto simp: prune_turn_def drop_entry_def gomap.wf_rm split: prod.splits)

lemma distinct_load_fold:
  "distinct_keys (rEntries r) \<Longrightarrow> distinct_keys (rEntries (fold (load_turn H) es r))"
  by (induction es arbitrary: r) (auto simp: load_turn_def Let_def gomap.wf_wr)

lemma get_PruneEntries:
  "distinct_keys (rEntries r) \<Longrightarrow> get (rEntries (fst (PruneEntries unwanted r))) s =
     (case get (rEntries r) s of Some e \<Rightarrow> if unwanted e then None else Some e | None \<Rightarrow> None)"
  by (simp add: PruneEntries_def prune_fold_entries split: option.splits)

text \<open>
  The start-up policy is exact: whatever the file holds, after start-up a registration is
  present if and only if it was loaded, points at a public address, and has a label the current
  policy admits or has served before; and it is present unchanged.
\<close>

lemma startup_policy_exact:
  assumes "startup H isPublicIP enforce fault disk = Inr (r, disk')"
  shows "get (rEntries r) s =
    (case get (rEntries (fst (LoadFrom H New disk))) s of
       Some e \<Rightarrow> if isPublicIP (eIP e) \<and> (ValidateClusterLabel (eSubdomain e) = None \<or> eFirstProvenAt e \<noteq> zero_time)
                then Some e else None
     | None \<Rightarrow> None)"
proof -
  let ?r0 = "fst (LoadFrom H New disk)"
  let ?r1 = "fst (PruneEntries (\<lambda>e. \<not> isPublicIP (eIP e)) ?r0)"
  let ?r2 = "fst (PruneEntries prunableEntry ?r1)"
  have dist: "distinct_keys (rEntries ?r0)"
    by (simp add: LoadFrom_def New_def distinct_load_fold distinct_keys_def [of "[]"] split: snapshot_file.splits)
  have dist1: "distinct_keys (rEntries ?r1)"
    unfolding PruneEntries_def using dist by (rule distinct_prune_fold)
  have "rEntries r = rEntries ?r2"
    using assms by (auto simp: startup_def Prune_def PruneEntries_def Let_def split: prod.splits option.splits)
  then show ?thesis
    using get_PruneEntries [OF dist1] get_PruneEntries [OF dist]
    by (auto simp: prunableEntry_def split: option.splits)
qed

end
