(* ===== verification/Datamover_Plan.thy ===== *)
theory Datamover_Plan
  imports Go_Strings
begin

text \<open>
  The transfer manifest and the chunk plan of the data mover,
  \<^verbatim>\<open>src/datamover/internal/manifest/manifest.go\<close> and \<^verbatim>\<open>src/datamover/internal/chunk/plan.go\<close>.
  The exporter and the importer compute the same plan from the manifest. Sizes and offsets are
  \<open>int64\<close>: every sum and product of the plan is reduced by \<open>wrap64\<close>, as in the code.
\<close>

subsection \<open>The manifest\<close>

definition TypeFile :: string where "TypeFile = ''file''"
definition TypeDir :: string where "TypeDir = ''dir''"
definition TypeSymlink :: string where "TypeSymlink = ''symlink''"

record mentry =
  mPath :: string
  mType :: string
  mSize :: int
  mMode :: nat
  mUID :: int
  mGID :: int
  mMtime :: int
  mSHA256 :: string
  mLinkTarget :: string

record manifest =
  mfChunkSize :: int
  mfEntries :: "mentry list"

definition manifest_TotalBytes :: "manifest \<Rightarrow> int" where
  "manifest_TotalBytes m = fold (\<lambda>e t. wrap64 (t + mSize e)) (mfEntries m) 0"

text \<open>Go's lexical \<open>path.Clean\<close>: the segments that remain, the latest on top.\<close>

fun clean_segs :: "bool \<Rightarrow> string list \<Rightarrow> string list \<Rightarrow> string list" where
  "clean_segs rooted [] st = rev st"
| "clean_segs rooted (seg # segs) st =
     (if seg = [] \<or> seg = ''.'' then clean_segs rooted segs st
      else if seg = ''..'' then
        (case st of
           [] \<Rightarrow> clean_segs rooted segs (if rooted then [] else [seg])
         | t # ts \<Rightarrow> if t = ''..'' then clean_segs rooted segs (seg # st) else clean_segs rooted segs ts)
      else clean_segs rooted segs (seg # st))"

definition path_Clean :: "string \<Rightarrow> string" where
  "path_Clean p =
     (let rooted = HasPrefix p ''/'';
          out = (if rooted then ''/'' else []) @ Join (clean_segs rooted (split_at (CHR ''/'') p) []) ''/''
      in if out = [] then ''.'' else out)"

datatype manifest_error =
    ErrChunkSize | ErrEmptyPath | ErrAbsolutePath | ErrUncleanPath | ErrEscapingPath
  | ErrNegativeSize | ErrMalformedSHA | ErrFileLink | ErrDirFields | ErrNoLinkTarget | ErrLinkFields
  | ErrUnknownType | ErrDuplicatePath

definition validatePath :: "string \<Rightarrow> manifest_error option" where
  "validatePath p =
     (if p = [] then Some ErrEmptyPath
      else if HasPrefix p ''/'' then Some ErrAbsolutePath
      else if p \<noteq> path_Clean p then Some ErrUncleanPath
      else if list_ex (\<lambda>seg. seg = ''..'' \<or> seg = ''.'') (split_at (CHR ''/'') p) then Some ErrEscapingPath
      else None)"

definition validateEntry :: "mentry \<Rightarrow> manifest_error option" where
  "validateEntry e =
     (case validatePath (mPath e) of
        Some err \<Rightarrow> Some err
      | None \<Rightarrow>
          if mType e = TypeFile then
            (if mSize e < 0 then Some ErrNegativeSize
             else if length (mSHA256 e) \<noteq> 64 then Some ErrMalformedSHA
             else if mLinkTarget e \<noteq> [] then Some ErrFileLink
             else None)
          else if mType e = TypeDir then
            (if mSize e \<noteq> 0 \<or> mSHA256 e \<noteq> [] \<or> mLinkTarget e \<noteq> [] then Some ErrDirFields else None)
          else if mType e = TypeSymlink then
            (if mLinkTarget e = [] then Some ErrNoLinkTarget
             else if mSize e \<noteq> 0 \<or> mSHA256 e \<noteq> [] then Some ErrLinkFields
             else None)
          else Some ErrUnknownType)"

fun validate_entries :: "string list \<Rightarrow> mentry list \<Rightarrow> manifest_error option" where
  "validate_entries seen [] = None"
| "validate_entries seen (e # es) =
     (case validateEntry e of
        Some err \<Rightarrow> Some err
      | None \<Rightarrow> if mPath e \<in> set seen then Some ErrDuplicatePath else validate_entries (mPath e # seen) es)"

definition Validate :: "manifest \<Rightarrow> manifest_error option" where
  "Validate m = (if mfChunkSize m \<le> 0 then Some ErrChunkSize else validate_entries [] (mfEntries m))"

subsection \<open>The chunk plan\<close>

record plan =
  pChunkSize :: int
  pTotal :: int
  pStarts :: "int list"
  pFiles :: "mentry list"

fun plan_starts :: "int \<Rightarrow> mentry list \<Rightarrow> int list \<times> int" where
  "plan_starts off [] = ([], off)"
| "plan_starts off (f # fs) =
     (case plan_starts (wrap64 (off + mSize f)) fs of (starts, tot) \<Rightarrow> (off # starts, tot))"

definition NewPlan :: "manifest \<Rightarrow> plan" where
  "NewPlan m =
     (case plan_starts 0 (mfEntries m) of
        (starts, tot) \<Rightarrow>
          \<lparr>pChunkSize = mfChunkSize m, pTotal = tot, pStarts = starts, pFiles = mfEntries m\<rparr>)"

definition plan_TotalBytes :: "plan \<Rightarrow> int" where
  "plan_TotalBytes p = pTotal p"

definition EntryOffset :: "plan \<Rightarrow> nat \<Rightarrow> int" where
  "EntryOffset p i = pStarts p ! i"

definition NumChunks :: "plan \<Rightarrow> int" where
  "NumChunks p =
     (if pTotal p = 0 then 0
      else trunc_div (wrap64 (wrap64 (pTotal p + pChunkSize p) - 1)) (pChunkSize p))"

definition ChunkLength :: "plan \<Rightarrow> int \<Rightarrow> int" where
  "ChunkLength p n =
     (let start = wrap64 (n * pChunkSize p);
          end1 = wrap64 (start + pChunkSize p);
          end2 = (if end1 > pTotal p then pTotal p else end1)
      in if end2 \<le> start then 0 else wrap64 (end2 - start))"

record span =
  spFileIndex :: nat
  spPath :: string
  spFileOffset :: int
  spLength :: int

text \<open>Go's \<open>sort.Search\<close>: the binary search itself.\<close>

function search_between :: "(nat \<Rightarrow> bool) \<Rightarrow> nat \<Rightarrow> nat \<Rightarrow> nat" where
  "search_between f i j =
     (if i < j then
        (let h = (i + j) div 2
         in if \<not> f h then search_between f (h + 1) j else search_between f i h)
      else i)"
  by auto
termination by (relation "measure (\<lambda>(f, i, j). j - i)") auto

declare search_between.simps [simp del]

definition sort_Search :: "nat \<Rightarrow> (nat \<Rightarrow> bool) \<Rightarrow> nat" where
  "sort_Search n f = search_between f 0 n"

text \<open>The loop over the files from index \<open>i\<close> on: \<open>xs\<close> pairs the files left with their starts.\<close>

fun spans_from :: "int \<Rightarrow> int \<Rightarrow> nat \<Rightarrow> (int \<times> mentry) list \<Rightarrow> span list" where
  "spans_from start end1 i [] = []"
| "spans_from start end1 i ((st, f) # xs) =
     (if st < end1 then
        (if mSize f = 0 then spans_from start end1 (Suc i) xs
         else
           let so = max start st - st;
               eo = min end1 (wrap64 (st + mSize f)) - st
           in \<lparr>spFileIndex = i, spPath = mPath f, spFileOffset = so, spLength = eo - so\<rparr>
              # spans_from start end1 (Suc i) xs)
      else [])"

definition Spans :: "plan \<Rightarrow> int \<Rightarrow> span list" where
  "Spans p n =
     (let start = wrap64 (n * pChunkSize p);
          end1 = wrap64 (start + ChunkLength p n)
      in if end1 \<le> start then []
         else
           let i = sort_Search (length (pFiles p))
                     (\<lambda>i. wrap64 (pStarts p ! i + mSize (pFiles p ! i)) > start)
           in spans_from start end1 i (drop i (zip (pStarts p) (pFiles p))))"

subsection \<open>Validated paths stay below the root\<close>

definition safe_segs :: "string list \<Rightarrow> bool" where
  "safe_segs segs \<longleftrightarrow> list_all (\<lambda>seg. seg \<noteq> [] \<and> seg \<noteq> ''.'' \<and> seg \<noteq> ''..'') segs"

lemma clean_segs_plain:
  "list_all (\<lambda>seg. seg \<noteq> ''.'' \<and> seg \<noteq> ''..'') segs \<Longrightarrow>
     clean_segs rooted segs st = rev st @ filter (\<lambda>seg. seg \<noteq> []) segs"
  by (induction segs arbitrary: st) auto

lemma split_at_no_sep: "w \<in> set (split_at c s) \<Longrightarrow> c \<notin> set w"
  by (induction s arbitrary: w) (auto split: if_splits list.splits)

lemma validatePath_segs:
  assumes "validatePath p = None"
  shows "safe_segs (split_at (CHR ''/'') p)"
proof -
  let ?segs = "split_at (CHR ''/'') p"
  have p: "p \<noteq> []" "\<not> HasPrefix p ''/''" "p = path_Clean p"
    "list_all (\<lambda>seg. seg \<noteq> ''.'' \<and> seg \<noteq> ''..'') ?segs"
    using assms by (auto simp: validatePath_def list_ex_iff list_all_iff split: if_splits)
  let ?kept = "filter (\<lambda>seg. seg \<noteq> []) ?segs"
  have out: "path_Clean p = (if Join ?kept ''/'' = [] then ''.'' else Join ?kept ''/'')"
    using p(2) clean_segs_plain [OF p(4), of False "[]"] by (simp add: path_Clean_def)
  have "?kept = ?segs"
  proof (cases "Join ?kept ''/'' = []")
    case True
    then have "p = ''.''" using out p(3) by simp
    then show ?thesis by simp
  next
    case False
    then have "Join ?kept ''/'' = p" "?kept \<noteq> []" using out p(3) by auto
    moreover have "list_all (\<lambda>s. CHR ''/'' \<notin> set s) ?kept"
      using split_at_no_sep by (fastforce simp: list_all_iff)
    ultimately show ?thesis
      using split_Join by metis
  qed
  then have "\<forall>seg \<in> set ?segs. seg \<noteq> []"
    unfolding filter_id_conv .
  then show ?thesis
    using p(4) by (simp add: safe_segs_def list_all_iff)
qed

lemma clean_segs_safe: "safe_segs segs \<Longrightarrow> clean_segs rooted segs st = rev st @ segs"
  by (induction segs arbitrary: st) (auto simp: safe_segs_def)

lemma split_at_append_sep: "split_at c (s @ c # t) = split_at c s @ split_at c t"
proof (induction s)
  case (Cons x s)
  obtain w ws where "split_at c s = w # ws" by (cases "split_at c s") simp_all
  then show ?case using Cons by simp
qed simp

lemma safe_segs_append [simp]: "safe_segs (a @ b) \<longleftrightarrow> safe_segs a \<and> safe_segs b"
  by (simp add: safe_segs_def)

lemma validate_entries_sound:
  "validate_entries seen es = None \<Longrightarrow>
     list_all (\<lambda>e. validateEntry e = None) es \<and> distinct (map mPath es) \<and> set (map mPath es) \<inter> set seen = {}"
proof (induction es arbitrary: seen)
  case (Cons e es)
  then have "validateEntry e = None" "mPath e \<notin> set seen" "validate_entries (mPath e # seen) es = None"
    by (auto split: option.splits if_splits)
  then show ?case using Cons.IH [of "mPath e # seen"] by auto
qed simp

definition clean_root :: "string \<Rightarrow> bool" where
  "clean_root root \<longleftrightarrow> HasPrefix root ''/'' \<and> safe_segs (split_at (CHR ''/'') (drop 1 root))"

lemma path_Clean_below:
  assumes "clean_root root" and "safe_segs (split_at (CHR ''/'') p)"
  shows "path_Clean (root @ ''/'' @ p) = root @ ''/'' @ p"
proof -
  obtain x where x: "root = CHR ''/'' # x"
    using assms(1) by (auto simp: clean_root_def HasPrefix_iff)
  let ?segs = "split_at (CHR ''/'') (x @ CHR ''/'' # p)"
  have segs: "safe_segs ?segs"
    using assms x by (simp add: clean_root_def split_at_append_sep)
  then have "clean_segs True (split_at (CHR ''/'') (root @ ''/'' @ p)) [] = ?segs"
    using clean_segs_safe [OF segs, of True "[]"] x by simp
  moreover have "HasPrefix (root @ ''/'' @ p) ''/''"
    using x by (simp add: HasPrefix_def)
  moreover have "Join ?segs ''/'' = x @ CHR ''/'' # p"
    by (rule Join_split) simp
  ultimately show ?thesis
    using x by (simp add: path_Clean_def)
qed

lemma validateEntry_size: "validateEntry e = None \<Longrightarrow> 0 \<le> mSize e"
  by (simp add: validateEntry_def split: option.splits if_splits)

lemma Validate_facts:
  assumes "Validate m = None"
  shows "list_all (\<lambda>e. validateEntry e = None) (mfEntries m)" and "distinct (map mPath (mfEntries m))"
    and "0 < mfChunkSize m" and "\<And>e. e \<in> set (mfEntries m) \<Longrightarrow> 0 \<le> mSize e"
proof -
  show all: "list_all (\<lambda>e. validateEntry e = None) (mfEntries m)" "distinct (map mPath (mfEntries m))" "0 < mfChunkSize m"
    using assms validate_entries_sound [of "[]" "mfEntries m"] by (auto simp: Validate_def split: if_splits)
  show "0 \<le> mSize e" if "e \<in> set (mfEntries m)" for e
    using that all(1) validateEntry_size by (simp add: list_all_iff)
qed

text \<open>
  A validated manifest cannot reach outside the import root: the path of every entry, joined to
  a clean root, is already in cleaned form, so no segment of it climbs back up; no two entries share
  a path; and directories and symlinks carry no bytes.
\<close>

lemma validated_manifest_is_contained:
  assumes "Validate m = None" and "e \<in> set (mfEntries m)" and "clean_root root"
  shows "path_Clean (root @ ''/'' @ mPath e) = root @ ''/'' @ mPath e \<and>
    safe_segs (split_at (CHR ''/'') (mPath e)) \<and>
    0 \<le> mSize e \<and> (mType e \<noteq> TypeFile \<longrightarrow> mSize e = 0) \<and> distinct (map mPath (mfEntries m))"
proof -
  have e: "validateEntry e = None"
    using Validate_facts(1) [OF assms(1)] assms(2) by (simp add: list_all_iff)
  then have "safe_segs (split_at (CHR ''/'') (mPath e))"
    by (intro validatePath_segs) (auto simp: validateEntry_def split: option.splits)
  moreover have "mType e \<noteq> TypeFile \<longrightarrow> mSize e = 0"
    using e by (auto simp: validateEntry_def split: option.splits if_splits)
  ultimately show ?thesis
    using path_Clean_below [OF assms(3)] Validate_facts [OF assms(1)] assms(2) by blast
qed

definition demo_manifest :: manifest where
  "demo_manifest = \<lparr>mfChunkSize = 4, mfEntries =
     [\<lparr>mPath = ''a'', mType = ''dir'', mSize = 0, mMode = 493, mUID = 0, mGID = 0, mMtime = 0, mSHA256 = [], mLinkTarget = []\<rparr>,
      \<lparr>mPath = ''a/x'', mType = ''file'', mSize = 6, mMode = 420, mUID = 0, mGID = 0, mMtime = 0,
        mSHA256 = replicate 64 (CHR ''0''), mLinkTarget = []\<rparr>,
      \<lparr>mPath = ''b'', mType = ''file'', mSize = 3, mMode = 420, mUID = 0, mGID = 0, mMtime = 0,
        mSHA256 = replicate 64 (CHR ''1''), mLinkTarget = []\<rparr>]\<rparr>"

lemma demo_manifest_valid: "Validate demo_manifest = None"
  by code_simp

subsection \<open>The binary search\<close>

lemma search_between_least:
  assumes "i \<le> j" and "\<And>a b. a \<le> b \<Longrightarrow> f a \<Longrightarrow> f b"
    and "\<And>k. k < i \<Longrightarrow> \<not> f k" and "j < n \<Longrightarrow> f j"
  shows "i \<le> search_between f i j \<and> search_between f i j \<le> j \<and> (\<forall>k < search_between f i j. \<not> f k) \<and>
    (search_between f i j < n \<longrightarrow> f (search_between f i j))"
  using assms
proof (induction f i j rule: search_between.induct)
  case (1 f i j)
  show ?case
  proof (cases "i < j")
    case False
    then show ?thesis using "1.prems" by (subst (1 2 3 4 5) search_between.simps) simp
  next
    case True
    define h where "h = (i + j) div 2"
    have h: "i \<le> h" "h < j" using True by (simp_all add: h_def)
    show ?thesis
    proof (cases "f h")
      case fh: True
      have "search_between f i j = search_between f i h"
        using True fh by (subst search_between.simps) (simp add: h_def)
      moreover have "i \<le> search_between f i h \<and> search_between f i h \<le> h \<and> (\<forall>k < search_between f i h. \<not> f k) \<and>
          (search_between f i h < n \<longrightarrow> f (search_between f i h))"
        by (rule "1.IH"(2) [OF True h_def]) (use fh h "1.prems" in simp_all)
      ultimately show ?thesis
        using h by simp
    next
      case fh: False
      have "search_between f i j = search_between f (h + 1) j"
        using True fh by (subst search_between.simps) (simp add: h_def)
      moreover have below: "\<not> f k" if "k < h + 1" for k
        using "1.prems"(2) [of k h] fh that by fastforce
      moreover have "h + 1 \<le> search_between f (h + 1) j \<and> search_between f (h + 1) j \<le> j \<and>
          (\<forall>k < search_between f (h + 1) j. \<not> f k) \<and> (search_between f (h + 1) j < n \<longrightarrow> f (search_between f (h + 1) j))"
        by (rule "1.IH"(1) [OF True h_def fh]) (use h "1.prems" below in simp_all)
      ultimately show ?thesis
        using h by simp
    qed
  qed
qed

lemma search_between_cong:
  "j \<le> n \<Longrightarrow> (\<And>k. k < n \<Longrightarrow> f k = g k) \<Longrightarrow> search_between f i j = search_between g i j"
proof (induction f i j rule: search_between.induct)
  case (1 f i j)
  have h: "(i + j) div 2 < n" if "i < j"
    using that "1.prems"(1) by simp
  show ?case
    using 1 h by (subst (1 2) search_between.simps) (simp add: Let_def)
qed

lemma sort_Search_cong: "(\<And>i. i < n \<Longrightarrow> f i = g i) \<Longrightarrow> sort_Search n f = sort_Search n g"
  unfolding sort_Search_def by (rule search_between_cong [of n n]) auto

lemma sort_Search_least:
  assumes "\<And>a b. a \<le> b \<Longrightarrow> b < n \<Longrightarrow> f a \<Longrightarrow> f b"
  shows "sort_Search n f \<le> n \<and> (\<forall>k < sort_Search n f. \<not> f k) \<and> (sort_Search n f < n \<longrightarrow> f (sort_Search n f))"
proof -
  let ?g = "\<lambda>k. k < n \<longrightarrow> f k"
  have "sort_Search n f = search_between ?g 0 n"
    unfolding sort_Search_def by (rule search_between_cong [of n n]) auto
  moreover have "?g b" if "a \<le> b" "?g a" for a b
    using assms [of a b] that by simp
  then have "0 \<le> search_between ?g 0 n \<and> search_between ?g 0 n \<le> n \<and> (\<forall>k < search_between ?g 0 n. \<not> ?g k) \<and>
      (search_between ?g 0 n < n \<longrightarrow> ?g (search_between ?g 0 n))"
    by (intro search_between_least) simp_all
  moreover define S where "S = sort_Search n f"
  ultimately have "S \<le> n" "\<forall>k < S. \<not> ?g k" "S < n \<longrightarrow> ?g S"
    by metis+
  then show ?thesis
    unfolding S_def [symmetric] by blast
qed

subsection \<open>The plan under sizes that fit\<close>

text \<open>Whole sizes as lengths of the contents; \<open>off\<close> is where the first of them begins.\<close>

definition sized :: "mentry list \<Rightarrow> string list \<Rightarrow> bool" where
  "sized fs cs \<longleftrightarrow> map mSize fs = map (int \<circ> length) cs"

fun offsets :: "nat \<Rightarrow> string list \<Rightarrow> nat list" where
  "offsets off [] = []"
| "offsets off (c # cs) = off # offsets (off + length c) cs"

lemma length_offsets [simp]: "length (offsets off cs) = length cs"
  by (induction cs arbitrary: off) auto

lemma nth_offsets: "i < length cs \<Longrightarrow> offsets off cs ! i = off + length (concat (take i cs))"
  by (induction cs arbitrary: off i) (auto simp: nth_Cons split: nat.splits)

lemma sized_Cons: "sized (f # fs) cs \<Longrightarrow> \<exists>c cs'. cs = c # cs' \<and> mSize f = int (length c) \<and> sized fs cs'"
  by (cases cs) (auto simp: sized_def)

lemma sized_length: "sized fs cs \<Longrightarrow> length fs = length cs"
  unfolding sized_def by (metis length_map)

lemma sized_nth: "sized fs cs \<Longrightarrow> i < length cs \<Longrightarrow> mSize (fs ! i) = int (length (cs ! i))"
proof -
  assume s: "sized fs cs" and i: "i < length cs"
  then have "map mSize fs ! i = map (int \<circ> length) cs ! i"
    by (simp add: sized_def)
  then show ?thesis
    using i sized_length [OF s] by simp
qed

lemma plan_starts_fit:
  assumes "sized fs cs" and "int (off + length (concat cs)) < 2 ^ 63"
  shows "plan_starts (int off) fs = (map int (offsets off cs), int (off + length (concat cs)))"
  using assms
proof (induction fs arbitrary: cs off)
  case Nil
  then show ?case by (simp add: sized_def)
next
  case (Cons f fs)
  obtain c cs' where c: "cs = c # cs'" "mSize f = int (length c)" "sized fs cs'"
    using sized_Cons [OF Cons.prems(1)] by blast
  have "wrap64 (int off + mSize f) = int (off + length c)"
    using Cons.prems(2) c by (simp add: wrap64_def)
  then show ?case
    using Cons.IH [OF c(3), of "off + length c"] Cons.prems(2) c by (simp add: add.assoc)
qed

definition fits :: "manifest \<Rightarrow> string list \<Rightarrow> bool" where
  "fits m cs \<longleftrightarrow>
     sized (mfEntries m) cs \<and> 0 < mfChunkSize m \<and> int (length (concat cs)) + mfChunkSize m < 2 ^ 63"

text \<open>The bytes of chunk \<open>j\<close>: the slice of all contents in manifest order.\<close>

definition payload :: "manifest \<Rightarrow> string list \<Rightarrow> nat \<Rightarrow> string" where
  "payload m cs j = take (nat (mfChunkSize m)) (drop (j * nat (mfChunkSize m)) (concat cs))"

lemma NewPlan_fit:
  "fits m cs \<Longrightarrow> NewPlan m = \<lparr>pChunkSize = mfChunkSize m, pTotal = int (length (concat cs)),
     pStarts = map int (offsets 0 cs), pFiles = mfEntries m\<rparr>"
  using plan_starts_fit [of "mfEntries m" cs 0] by (simp add: NewPlan_def fits_def)

lemma ceil_div_int: "0 < k \<Longrightarrow> trunc_div (int t + int k - 1) (int k) = int ((t + k - 1) div k)"
  by (simp add: zdiv_int of_nat_diff)

lemma NumChunks_fit:
  assumes "fits m cs"
  shows "NumChunks (NewPlan m) =
    int ((length (concat cs) + nat (mfChunkSize m) - 1) div nat (mfChunkSize m))"
proof -
  define k where "k = nat (mfChunkSize m)"
  define t where "t = length (concat cs)"
  have k: "mfChunkSize m = int k" "0 < k" "int t + int k < 2 ^ 63"
    using assms by (simp_all add: fits_def k_def t_def)
  then have "wrap64 (wrap64 (int t + int k) - 1) = int t + int k - 1"
    by simp
  moreover have "(0 + k - 1) div k = 0"
    using k(2) by simp
  ultimately show ?thesis
    using k ceil_div_int [OF k(2), of t]
    unfolding NumChunks_def NewPlan_fit [OF assms] k_def [symmetric] t_def [symmetric] by simp
qed

lemma ceil_div_iff: "0 < k \<Longrightarrow> j < (t + k - 1) div k \<longleftrightarrow> j * k < (t :: nat)"
proof -
  assume k: "0 < k"
  have "j < (t + k - 1) div k \<longleftrightarrow> Suc j * k \<le> t + k - 1"
    using k by (metis Suc_le_eq less_eq_div_iff_mult_less_eq)
  also have "\<dots> \<longleftrightarrow> j * k < t"
    using k by auto
  finally show ?thesis .
qed

lemma NumChunks_iff:
  "fits m cs \<Longrightarrow> int j < NumChunks (NewPlan m) \<longleftrightarrow> j * nat (mfChunkSize m) < length (concat cs)"
  using ceil_div_iff [of "nat (mfChunkSize m)" j "length (concat cs)"] NumChunks_fit [of m cs]
  by (simp add: fits_def del: length_concat)

lemma length_payload: "length (payload m cs j) = min (nat (mfChunkSize m)) (length (concat cs) - j * nat (mfChunkSize m))"
  by (simp add: payload_def)

lemma ChunkLength_fit:
  assumes "fits m cs" and "j * nat (mfChunkSize m) < length (concat cs)"
  shows "ChunkLength (NewPlan m) (int j) = int (length (payload m cs j))"
proof -
  define k where "k = nat (mfChunkSize m)"
  define t where "t = length (concat cs)"
  define a where "a = j * k"
  have k: "mfChunkSize m = int k" "0 < k" "int t + int k < 2 ^ 63" "a < t"
    using assms by (simp_all add: fits_def k_def t_def a_def)
  have jk: "int j * int k = int a"
    by (simp add: a_def)
  have "wrap64 (int a) = int a" "wrap64 (int a + int k) = int a + int k"
    "wrap64 (int t - int a) = int t - int a" "wrap64 (int k) = int k"
    using k(3,4) by simp_all
  moreover have "int (min k (t - a)) = (if int a + int k > int t then int t - int a else int k)"
    using k(4) by (auto simp: min_def of_nat_diff)
  ultimately show ?thesis
    using k jk unfolding ChunkLength_def NewPlan_fit [OF assms(1)] length_payload Let_def
      k_def [symmetric] t_def [symmetric] a_def [symmetric] by simp
qed

subsection \<open>The spans of a chunk hold its bytes\<close>

definition read_span :: "string list \<Rightarrow> span \<Rightarrow> string" where
  "read_span cs sp = take (nat (spLength sp)) (drop (nat (spFileOffset sp)) (cs ! spFileIndex sp))"

lemma spans_later:
  assumes "sized fs cs" and "start \<le> off" and "int (off + length (concat cs)) < 2 ^ 63"
    and "\<And>j. j < length cs \<Longrightarrow> all ! (i + j) = cs ! j"
  shows "concat (map (read_span all) (spans_from (int start) (int end1) i (zip (map int (offsets off cs)) fs))) =
    take (end1 - off) (concat cs)"
  using assms
proof (induction fs arbitrary: cs off i)
  case Nil
  then show ?case by (simp add: sized_def)
next
  case (Cons f fs)
  obtain c cs' where c: "cs = c # cs'" "mSize f = int (length c)" "sized fs cs'"
    using sized_Cons [OF Cons.prems(1)] by blast
  have all: "all ! i = c" "\<And>j. j < length cs' \<Longrightarrow> all ! (Suc i + j) = cs' ! j"
    using Cons.prems(4) [of 0] Cons.prems(4) [of "Suc _"] c by auto
  have rest: "concat (map (read_span all) (spans_from (int start) (int end1) (Suc i)
      (zip (map int (offsets (off + length c) cs')) fs))) = take (end1 - (off + length c)) (concat cs')"
    using Cons.prems(2,3) c all(2) by (intro Cons.IH) simp_all
  have wrap: "wrap64 (int off + int (length c)) = int (off + length c)"
    using Cons.prems(3) c by (simp add: wrap64_def)
  have piece: "nat (min (int end1) (int (off + length c)) - int off) = min (end1 - off) (length c)"
    by auto
  have read: "read_span all \<lparr>spFileIndex = i, spPath = mPath f, spFileOffset = 0,
      spLength = min (int end1) (int (off + length c)) - int off\<rparr> = take (end1 - off) c"
    unfolding read_span_def using all(1) piece by (simp add: min_def)
  show ?case
  proof (cases "off < end1 \<and> c \<noteq> []")
    case True
    have "max (int start) (int off) = int off"
      using Cons.prems(2) by simp
    then show ?thesis
      using True rest read wrap c by (simp add: Let_def)
  next
    case False
    then show ?thesis
      using rest c by auto
  qed
qed

lemma nth_take_concat: "i < length cs \<Longrightarrow> length (concat (take (Suc i) cs)) = length (concat (take i cs)) + length (cs ! i)"
  by (simp add: take_Suc_conv_app_nth)

lemma mono_take_concat: "i \<le> j \<Longrightarrow> length (concat (take i cs)) \<le> length (concat (take j cs))"
proof -
  assume "i \<le> j"
  then have "take j cs = take i cs @ take (j - i) (drop i cs)"
    by (metis le_add_diff_inverse take_add)
  then show ?thesis by simp
qed

lemma drop_concat:
  "drop (length (concat (take i cs))) (concat cs) = concat (drop i cs)"
  by (metis append_eq_conv_conj append_take_drop_id concat_append)

text \<open>Where the search stops: the file that holds byte \<open>a\<close> of the stream.\<close>

lemma search_file:
  assumes "a < length (concat cs)"
  shows "\<exists>i < length cs. sort_Search (length cs) (\<lambda>i. a < length (concat (take (Suc i) cs))) = i \<and>
    length (concat (take i cs)) \<le> a \<and> a < length (concat (take (Suc i) cs))"
proof -
  let ?f = "\<lambda>i. a < length (concat (take (Suc i) cs))"
  define i where "i = sort_Search (length cs) ?f"
  have mono: "?f y" if "x \<le> y" "?f x" for x y
    using that(2) mono_take_concat [of "Suc x" "Suc y" cs] that(1) by (meson Suc_le_mono less_le_trans)
  have s: "i \<le> length cs" "\<And>k. k < i \<Longrightarrow> \<not> ?f k" "i < length cs \<Longrightarrow> ?f i"
    using sort_Search_least [of "length cs" ?f] mono unfolding i_def by blast+
  have "i < length cs"
  proof (rule ccontr)
    assume "\<not> i < length cs"
    then have "i = length cs" using s(1) by simp
    moreover from this have "length cs \<noteq> 0" using assms by auto
    ultimately have "\<not> ?f (length cs - 1)" using s(2) [of "length cs - 1"] by simp
    then show False using assms \<open>length cs \<noteq> 0\<close> by simp
  qed
  moreover have "length (concat (take i cs)) \<le> a"
  proof (cases i)
    case (Suc k)
    then show ?thesis using s(2) [of k] by simp
  qed simp
  ultimately show ?thesis
    using s(3) by (auto simp: i_def)
qed

lemma zip_drop_offsets:
  assumes "i < length cs" and "length fs = length cs"
  shows "drop i (zip (map int (offsets 0 cs)) fs) =
    (int (length (concat (take i cs))), fs ! i) #
      zip (map int (offsets (length (concat (take (Suc i) cs))) (drop (Suc i) cs))) (drop (Suc i) fs)"
proof -
  have drop: "drop j (offsets off cs) = offsets (off + length (concat (take j cs))) (drop j cs)" for j off and cs :: "string list"
    by (induction cs arbitrary: j off) (auto simp: drop_Cons add.assoc split: nat.splits)
  have "drop i (zip (map int (offsets 0 cs)) fs) = zip (map int (drop i (offsets 0 cs))) (drop i fs)"
    by (simp add: drop_zip drop_map)
  also have "drop i fs = fs ! i # drop (Suc i) fs"
    using assms by (simp add: Cons_nth_drop_Suc)
  also have "drop i (offsets 0 cs) = length (concat (take i cs)) # drop (Suc i) (offsets 0 cs)"
    using assms by (metis Cons_nth_drop_Suc add_0 length_offsets nth_offsets)
  finally show ?thesis
    by (simp add: drop)
qed

lemma spans_from_file:
  assumes "sized fs cs" and "i < length cs" and "a < b" and "b \<le> length (concat cs)"
    and "length (concat (take i cs)) \<le> a" and "a < length (concat (take (Suc i) cs))"
    and "int (length (concat cs)) < 2 ^ 63"
  shows "concat (map (read_span cs) (spans_from (int a) (int b) i (drop i (zip (map int (offsets 0 cs)) fs)))) =
    take (b - a) (drop a (concat cs))"
proof -
  define o0 where "o0 = length (concat (take i cs))"
  define o1 where "o1 = length (concat (take (Suc i) cs))"
  have o1: "o1 = o0 + length (cs ! i)" "o0 \<le> a" "a < o1"
    using nth_take_concat [OF assms(2)] assms(5,6) by (simp_all add: o0_def o1_def)
  have len: "length fs = length cs" and size: "mSize (fs ! i) = int (length (cs ! i))"
    using sized_length [OF assms(1)] sized_nth [OF assms(1,2)] by simp_all
  have "o1 \<le> length (concat cs)"
    using mono_take_concat [of "Suc i" "length cs" cs] assms(2) by (simp add: o1_def)
  then have wrap: "wrap64 (int o0 + int (length (cs ! i))) = int o1"
    using assms(7) o1 by (simp add: wrap64_def)
  have rest: "concat (map (read_span cs) (spans_from (int a) (int b) (Suc i)
      (zip (map int (offsets o1 (drop (Suc i) cs))) (drop (Suc i) fs)))) = take (b - o1) (concat (drop (Suc i) cs))"
  proof (rule spans_later)
    show "sized (drop (Suc i) fs) (drop (Suc i) cs)"
      using assms(1) by (simp add: sized_def drop_map [symmetric])
    show "int (o1 + length (concat (drop (Suc i) cs))) < 2 ^ 63"
      using assms(7) by (metis append_take_drop_id concat_append length_append o1_def)
  qed (use o1 in \<open>auto simp: o1_def\<close>)
  have "concat cs = concat (take i cs) @ cs ! i @ concat (drop (Suc i) cs)"
    using assms(2) by (metis Cons_nth_drop_Suc append_take_drop_id concat.simps(2) concat_append)
  then have "drop a (concat cs) = drop (a - o0) (cs ! i) @ concat (drop (Suc i) cs)"
    using o1 by (simp add: o0_def)
  then have stream: "take (b - a) (drop a (concat cs)) =
      take (b - a) (drop (a - o0) (cs ! i)) @ take (b - o1) (concat (drop (Suc i) cs))"
    using o1 by (simp add: add.commute)
  let ?sp = "\<lparr>spFileIndex = i, spPath = mPath (fs ! i), spFileOffset = int a - int o0,
      spLength = min (int b) (int o1) - int o0 - (int a - int o0)\<rparr>"
  have "read_span cs ?sp = take (min b o1 - a) (drop (a - o0) (cs ! i))"
    using o1 by (simp add: read_span_def nat_diff_distrib' min_def)
  also have "\<dots> = take (b - a) (drop (a - o0) (cs ! i))"
    using o1 by (auto simp: min_def)
  finally have read: "read_span cs ?sp = take (b - a) (drop (a - o0) (cs ! i))" .
  have "cs ! i \<noteq> []" "int o0 < int b" "max (int a) (int o0) = int a"
    using o1 assms(3) by auto
  then show ?thesis
    using rest read wrap stream size
    unfolding zip_drop_offsets [OF assms(2) len] o0_def [symmetric] o1_def [symmetric]
    by (simp add: Let_def)
qed

text \<open>Where the loop over the files starts, and between which offsets it cuts.\<close>

lemma Spans_fit:
  assumes "fits m cs" and "int j < NumChunks (NewPlan m)"
  defines "a \<equiv> j * nat (mfChunkSize m)"
  defines "b \<equiv> a + length (payload m cs j)"
  obtains i where "i < length cs" and "length (concat (take i cs)) \<le> a" and "a < length (concat (take (Suc i) cs))"
    and "a < b" and "b \<le> length (concat cs)"
    and "Spans (NewPlan m) (int j) = spans_from (int a) (int b) i (drop i (zip (map int (offsets 0 cs)) (mfEntries m)))"
proof -
  have a: "a < length (concat cs)"
    using assms(2) NumChunks_iff [OF assms(1), of j] by (simp add: a_def)
  have len: "ChunkLength (NewPlan m) (int j) = int (length (payload m cs j))"
    using ChunkLength_fit [OF assms(1)] a by (simp add: a_def)
  have size: "mfChunkSize m = int (nat (mfChunkSize m))" "0 < mfChunkSize m"
    and small: "int (length (concat cs)) < 2 ^ 63" and sized: "sized (mfEntries m) cs"
    using assms(1) by (auto simp: fits_def)
  have b: "a < b" "b \<le> length (concat cs)"
    using a size by (auto simp: b_def length_payload a_def)
  have start: "wrap64 (int j * mfChunkSize m) = int a"
  proof -
    have "int j * mfChunkSize m = int a"
      using size(1) by (simp add: a_def)
    moreover have "int a < 2 ^ 63"
      using a small by linarith
    ultimately show ?thesis by simp
  qed
  have stop: "wrap64 (int a + int (length (payload m cs j))) = int b"
    using b small by (simp add: b_def)
  have cond: "int a < wrap64 (pStarts (NewPlan m) ! i + mSize (mfEntries m ! i)) \<longleftrightarrow> a < length (concat (take (Suc i) cs))"
    if "i < length cs" for i
  proof -
    have "wrap64 (int (length (concat (take i cs))) + int (length (cs ! i))) = int (length (concat (take (Suc i) cs)))"
      using nth_take_concat [OF that] mono_take_concat [of "Suc i" "length cs" cs] that small by simp
    moreover have "mSize (mfEntries m ! i) = int (length (cs ! i))"
      using sized that by (rule sized_nth)
    ultimately show ?thesis
      using that by (simp add: NewPlan_fit [OF assms(1)] nth_offsets)
  qed
  obtain i where i: "i < length cs" "length (concat (take i cs)) \<le> a" "a < length (concat (take (Suc i) cs))"
    "sort_Search (length cs) (\<lambda>i. a < length (concat (take (Suc i) cs))) = i"
    using search_file [OF a] by blast
  have "sort_Search (length (mfEntries m)) (\<lambda>i. int a < wrap64 (pStarts (NewPlan m) ! i + mSize (mfEntries m ! i))) = i"
    using sort_Search_cong [OF cond] i(4) sized_length [OF sized] by simp
  then have "Spans (NewPlan m) (int j) = spans_from (int a) (int b) i (drop i (zip (map int (offsets 0 cs)) (mfEntries m)))"
    using len start stop b(1) by (simp add: Spans_def Let_def NewPlan_fit [OF assms(1)])
  then show thesis using that i(1-3) b by blast
qed

text \<open>
  The exporter sends the right bytes: for every chunk number below \<open>NumChunks\<close>, reading the
  spans of the plan from the files, in order, gives exactly that slice of the contents laid end to
  end in manifest order, and its length is \<open>ChunkLength\<close>. (The contents and one chunk fit an int64.)
\<close>

lemma spans_hold_the_chunk:
  assumes "fits m cs" and "0 \<le> n" and "n < NumChunks (NewPlan m)"
  shows "concat (map (read_span cs) (Spans (NewPlan m) n)) = payload m cs (nat n) \<and>
    ChunkLength (NewPlan m) n = int (length (payload m cs (nat n)))"
proof -
  define j where "j = nat n"
  define a where "a = j * nat (mfChunkSize m)"
  define b where "b = a + length (payload m cs j)"
  have n: "n = int j" "int j < NumChunks (NewPlan m)" using assms(2,3) by (simp_all add: j_def)
  have sized: "sized (mfEntries m) cs" and small: "int (length (concat cs)) < 2 ^ 63"
    using assms(1) by (auto simp: fits_def)
  obtain i where i: "i < length cs" "length (concat (take i cs)) \<le> a" "a < length (concat (take (Suc i) cs))"
    and b: "a < b" "b \<le> length (concat cs)"
    and "Spans (NewPlan m) n = spans_from (int a) (int b) i (drop i (zip (map int (offsets 0 cs)) (mfEntries m)))"
    using Spans_fit [OF assms(1) n(2)] n(1) unfolding a_def b_def by blast
  then have "concat (map (read_span cs) (Spans (NewPlan m) n)) = take (b - a) (drop a (concat cs))"
    using spans_from_file [OF sized i(1) b i(2,3) small] by simp
  moreover have "take (length (payload m cs j)) (drop a (concat cs)) = payload m cs j"
    unfolding payload_def a_def by (metis append_eq_conv_conj append_take_drop_id)
  moreover have "ChunkLength (NewPlan m) n = int (length (payload m cs j))"
    using ChunkLength_fit [OF assms(1)] n NumChunks_iff [OF assms(1), of j] by simp
  ultimately show ?thesis
    using n by (simp add: b_def)
qed

text \<open>A span lies inside its file.\<close>

lemma spans_from_bounds:
  assumes "sp \<in> set (spans_from start end1 i xs)" and "start < end1"
    and "\<And>st f. (st, f) \<in> set xs \<Longrightarrow> 0 \<le> st \<and> 0 \<le> mSize f \<and> st + mSize f < 2 ^ 63 \<and> (mSize f = 0 \<or> start < st + mSize f)"
  shows "\<exists>j < length xs. spFileIndex sp = i + j \<and> 0 \<le> spFileOffset sp \<and> 0 < spLength sp \<and>
    spFileOffset sp + spLength sp \<le> mSize (snd (xs ! j))"
  using assms
proof (induction xs arbitrary: i)
  case (Cons x xs)
  obtain st f where x: "x = (st, f)" by (cases x)
  have bounds: "0 \<le> st" "0 \<le> mSize f" "st + mSize f < 2 ^ 63" "mSize f = 0 \<or> start < st + mSize f"
    using Cons.prems(3) [of st f] x by simp_all
  have later: ?case if "sp \<in> set (spans_from start end1 (Suc i) xs)"
  proof -
    have "\<exists>j < length xs. spFileIndex sp = Suc i + j \<and> 0 \<le> spFileOffset sp \<and> 0 < spLength sp \<and>
        spFileOffset sp + spLength sp \<le> mSize (snd (xs ! j))"
      using that Cons.prems(2) Cons.prems(3) by (intro Cons.IH) (auto intro: list.set_intros(2))
    then obtain j where "j < length xs" "spFileIndex sp = Suc i + j" "0 \<le> spFileOffset sp" "0 < spLength sp"
        "spFileOffset sp + spLength sp \<le> mSize (snd (xs ! j))" by blast
    then show ?thesis by (intro exI [of _ "Suc j"]) simp
  qed
  show ?case
  proof (cases "st < end1 \<and> mSize f \<noteq> 0 \<and>
      sp = \<lparr>spFileIndex = i, spPath = mPath f, spFileOffset = max start st - st,
            spLength = min end1 (st + mSize f) - st - (max start st - st)\<rparr>")
    case True
    then show ?thesis
      using x bounds Cons.prems(2) by (intro exI [of _ 0]) (auto simp: max_def min_def)
  next
    case False
    then have "sp \<in> set (spans_from start end1 (Suc i) xs)"
      using Cons.prems(1) x bounds by (auto simp: Let_def split: if_splits)
    then show ?thesis by (rule later)
  qed
qed simp

lemma read_span_length:
  assumes "fits m cs" and "int j < NumChunks (NewPlan m)" and "sp \<in> set (Spans (NewPlan m) (int j))"
  shows "int (length (read_span cs sp)) = spLength sp"
proof -
  define a where "a = j * nat (mfChunkSize m)"
  define b where "b = a + length (payload m cs j)"
  define xs where "xs = zip (map int (offsets 0 cs)) (mfEntries m)"
  have sized: "sized (mfEntries m) cs" and small: "int (length (concat cs)) < 2 ^ 63"
    using assms(1) by (auto simp: fits_def)
  obtain i where i: "i < length cs" "a < length (concat (take (Suc i) cs))" "a < b"
    and spans: "Spans (NewPlan m) (int j) = spans_from (int a) (int b) i (drop i xs)"
    using Spans_fit [OF assms(1,2)] unfolding a_def b_def xs_def by blast
  have len: "length xs = length cs" using sized_length [OF sized] by (simp add: xs_def)
  have xs: "xs ! k = (int (length (concat (take k cs))), mfEntries m ! k) \<and> mSize (mfEntries m ! k) = int (length (cs ! k))"
    if "k < length cs" for k
    using that sized_length [OF sized] sized_nth [OF sized that] by (simp add: xs_def nth_offsets)
  have "0 \<le> st \<and> 0 \<le> mSize f \<and> st + mSize f < 2 ^ 63 \<and> (mSize f = 0 \<or> int a < st + mSize f)"
    if mem: "(st, f) \<in> set (drop i xs)" for st f
  proof -
    obtain d where d: "i + d < length cs" "xs ! (i + d) = (st, f)"
      using mem len by (auto simp: in_set_conv_nth) (metis add.commute less_diff_conv)
    have "length (concat (take (Suc (i + d)) cs)) \<le> length (concat cs)" "length (concat (take (Suc i) cs)) \<le> length (concat (take (Suc (i + d)) cs))"
      using mono_take_concat [of "Suc (i + d)" "length cs" cs] mono_take_concat [of "Suc i" "Suc (i + d)" cs] d(1) by simp_all
    then show ?thesis
      using xs [OF d(1)] d(2) nth_take_concat [OF d(1)] i(2) small by auto
  qed
  then obtain d where d: "d < length (drop i xs)" "spFileIndex sp = i + d" "0 \<le> spFileOffset sp" "0 < spLength sp"
    "spFileOffset sp + spLength sp \<le> mSize (snd (drop i xs ! d))"
    using spans_from_bounds [of sp "int a" "int b" i "drop i xs"] assms(3) spans i(3) by auto
  then have "mSize (snd (drop i xs ! d)) = int (length (cs ! (i + d)))"
    using xs [of "i + d"] len by simp
  then show ?thesis
    using d by (simp add: read_span_def)
qed

definition demo_contents :: "string list" where
  "demo_contents = [[], ''sixbyt'', ''end'']"

lemma demo_fits: "fits demo_manifest demo_contents"
  by code_simp

end
