(* ===== verification/Datamover_Ingest.thy ===== *)
theory Datamover_Ingest
  imports Datamover_Plan "HOL-Library.Word"
begin

unbundle bit_operations_syntax

text \<open>
  The receiving side of a transfer: the chunk bitmap of \<^verbatim>\<open>src/datamover/internal/wire/wire.go\<close>, the
  crash-safe resume state of \<^verbatim>\<open>src/datamover/internal/ingest/state.go\<close>, the API of
  \<^verbatim>\<open>src/datamover/internal/ingest/server.go\<close> and the object-store committer of
  \<^verbatim>\<open>src/datamover/internal/ingest/commit_s3.go\<close>.

  The state directory is the record \<open>disk\<close>. \<open>dkChunks\<close> is what a read of the staged chunk files
  returns now, \<open>dkSynced\<close> what is certain to survive a crash; \<open>dkBitmap\<close> is the bitmap file now,
  \<open>dkCrash\<close> the bitmaps a crash can leave in its place. Every I/O error is an argument. The handlers
  run one after the other; SHA-256 is the parameter \<open>H\<close> and JSON decoding the parameter \<open>unmarshal\<close>.
\<close>

subsection \<open>The bitmap\<close>

type_synonym bitmap = "8 word list"

definition NewBitmap :: "nat \<Rightarrow> bitmap" where
  "NewBitmap n = replicate ((n + 7) div 8) 0"

definition Bitmap_Get :: "bitmap \<Rightarrow> nat \<Rightarrow> bool" where
  "Bitmap_Get b n =
     (let i = n div 8 in if length b \<le> i then False else (b ! i) AND (push_bit (n mod 8) 1) \<noteq> 0)"

text \<open>A write past the end panics, which is \<open>None\<close>.\<close>

definition Bitmap_Set :: "bitmap \<Rightarrow> nat \<Rightarrow> bitmap option" where
  "Bitmap_Set b n =
     (let i = n div 8
      in if i < length b then Some (b[i := (b ! i) OR (push_bit (n mod 8) 1)]) else None)"

definition Bitmap_Clear :: "bitmap \<Rightarrow> nat \<Rightarrow> bitmap option" where
  "Bitmap_Clear b n =
     (let i = n div 8
      in if i < length b then Some (b[i := (b ! i) AND NOT (push_bit (n mod 8) 1)]) else None)"

definition Bitmap_Count :: "bitmap \<Rightarrow> nat \<Rightarrow> nat" where
  "Bitmap_Count b tot = fold (\<lambda>n c. if Bitmap_Get b n then Suc c else c) [0..<tot] 0"

subsection \<open>The state directory\<close>

record disk =
  dkManifest :: "string option"
  dkID :: "string option"
  dkBitmap :: "bitmap option"
  dkCrash :: "bitmap list"
  dkChunks :: "(nat, string) gomap"
  dkSynced :: "(nat, string) gomap"

definition empty_dir :: disk where
  "empty_dir = \<lparr>dkManifest = None, dkID = None, dkBitmap = None, dkCrash = [], dkChunks = [], dkSynced = []\<rparr>"

record State =
  stTransferID :: string
  stRaw :: string
  stManifest :: manifest
  stPlan :: plan
  stBitmap :: bitmap

datatype decode_error = ErrUnmarshal | ErrInvalid manifest_error

definition Decode :: "(string \<Rightarrow> manifest option) \<Rightarrow> string \<Rightarrow> decode_error + manifest" where
  "Decode unmarshal raw =
     (case unmarshal raw of
        None \<Rightarrow> Inl ErrUnmarshal
      | Some m \<Rightarrow> (case Validate m of Some err \<Rightarrow> Inl (ErrInvalid err) | None \<Rightarrow> Inr m))"

datatype state_error =
    ErrStoredManifest decode_error | ErrNoID | ErrNoBitmap | ErrBitmapSize
  | ErrClear | ErrMkdirState | ErrStoreManifest | ErrStoreID | ErrPersist

definition LoadState :: "(string \<Rightarrow> manifest option) \<Rightarrow> disk \<Rightarrow> state_error + State option" where
  "LoadState unmarshal dk =
     (case dkManifest dk of
        None \<Rightarrow> Inr None
      | Some raw \<Rightarrow>
          (case Decode unmarshal raw of
             Inl err \<Rightarrow> Inl (ErrStoredManifest err)
           | Inr m \<Rightarrow>
               (case dkID dk of
                  None \<Rightarrow> Inl ErrNoID
                | Some tid \<Rightarrow>
                    (case dkBitmap dk of
                       None \<Rightarrow> Inl ErrNoBitmap
                     | Some b \<Rightarrow>
                         if length b \<noteq> length (NewBitmap (nat (NumChunks (NewPlan m)))) then Inl ErrBitmapSize
                         else Inr (Some \<lparr>stTransferID = tid, stRaw = raw, stManifest = m, stPlan = NewPlan m,
                                         stBitmap = b\<rparr>)))))"

text \<open>Where \<open>persistBitmap\<close> fails: ahead of the rename's effect, or in the directory sync after it.\<close>

datatype persist_fault = BeforeRename | DirSync

definition persistBitmap :: "persist_fault option \<Rightarrow> bitmap \<Rightarrow> disk \<Rightarrow> disk \<times> bool" where
  "persistBitmap fault b dk =
     (case fault of
        None \<Rightarrow> (dk\<lparr>dkBitmap := Some b, dkCrash := [b]\<rparr>, True)
      | Some BeforeRename \<Rightarrow> (dk, False)
      | Some DirSync \<Rightarrow> (dk\<lparr>dkBitmap := Some b, dkCrash := b # dkCrash dk\<rparr>, False))"

text \<open>Where \<open>InitState\<close> fails; a failed clearing leaves some directory behind.\<close>

datatype init_fault = InitClear disk | InitMkdir | InitManifest | InitID | InitPersist persist_fault

definition InitState ::
  "init_fault option \<Rightarrow> disk \<Rightarrow> string \<Rightarrow> string \<Rightarrow> manifest \<Rightarrow> disk \<times> (state_error + State)" where
  "InitState fault dk transferID raw m =
     (case fault of
        Some (InitClear left) \<Rightarrow> (left, Inl ErrClear)
      | Some InitMkdir \<Rightarrow> (empty_dir, Inl ErrMkdirState)
      | Some InitManifest \<Rightarrow> (empty_dir, Inl ErrStoreManifest)
      | Some InitID \<Rightarrow> (empty_dir\<lparr>dkManifest := Some raw\<rparr>, Inl ErrStoreID)
      | Some (InitPersist f) \<Rightarrow>
          (fst (persistBitmap (Some f) (NewBitmap (nat (NumChunks (NewPlan m))))
                 (empty_dir\<lparr>dkManifest := Some raw, dkID := Some transferID\<rparr>)), Inl ErrPersist)
      | None \<Rightarrow>
          let st = \<lparr>stTransferID = transferID, stRaw = raw, stManifest = m, stPlan = NewPlan m,
                    stBitmap = NewBitmap (nat (NumChunks (NewPlan m)))\<rparr>
          in (fst (persistBitmap None (stBitmap st) (empty_dir\<lparr>dkManifest := Some raw, dkID := Some transferID\<rparr>)),
              Inr st))"

subsection \<open>Assembling an entry\<close>

datatype assemble_error = ErrNoChunk int | ErrShortChunk int

partial_function (option) assemble_loop ::
  "State \<Rightarrow> disk \<Rightarrow> int \<Rightarrow> int \<Rightarrow> int \<Rightarrow> string \<Rightarrow> (assemble_error + string) option" where
  "assemble_loop st dk start sz written out =
     (if written < sz then
        let pos = start + written;
            n = trunc_div pos (mfChunkSize (stManifest st));
            inOff = pos - n * mfChunkSize (stManifest st);
            len = min (sz - written) (ChunkLength (stPlan st) n - inOff)
        in case get (dkChunks dk) (nat n) of
             None \<Rightarrow> Some (Inl (ErrNoChunk n))
           | Some data \<Rightarrow>
               let piece = take (nat len) (drop (nat inOff) data)
               in if int (length piece) \<noteq> len then Some (Inl (ErrShortChunk n))
                  else assemble_loop st dk start sz (written + len) (out @ piece)
      else Some (Inr out))"

declare assemble_loop.simps [code]

definition AssembleEntry :: "State \<Rightarrow> disk \<Rightarrow> nat \<Rightarrow> (assemble_error + string) option" where
  "AssembleEntry st dk i =
     (let e = mfEntries (stManifest st) ! i
      in if mSize e = 0 then Some (Inr [])
         else assemble_loop st dk (EntryOffset (stPlan st) i) (mSize e) 0 [])"

definition ChunkDone :: "State \<Rightarrow> nat \<Rightarrow> bool" where
  "ChunkDone st n = Bitmap_Get (stBitmap st) n"

datatype mark_result = Marked | MarkFailed | MarkPanic

definition MarkChunk :: "persist_fault option \<Rightarrow> State \<Rightarrow> disk \<Rightarrow> nat \<Rightarrow> State \<times> disk \<times> mark_result" where
  "MarkChunk fault st dk n =
     (case Bitmap_Set (stBitmap st) n of
        None \<Rightarrow> (st, dk, MarkPanic)
      | Some b \<Rightarrow>
          (case persistBitmap fault b dk of
             (dk1, True) \<Rightarrow> (st\<lparr>stBitmap := b\<rparr>, dk1, Marked)
           | (dk1, False) \<Rightarrow>
               (case Bitmap_Clear b n of
                  None \<Rightarrow> (st\<lparr>stBitmap := b\<rparr>, dk1, MarkPanic)
                | Some b1 \<Rightarrow> (st\<lparr>stBitmap := b1\<rparr>, dk1, MarkFailed))))"

definition AllChunksDone :: "State \<Rightarrow> bool" where
  "AllChunksDone st \<longleftrightarrow>
     int (Bitmap_Count (stBitmap st) (nat (NumChunks (stPlan st)))) = NumChunks (stPlan st)"

subsection \<open>Receiving a chunk\<close>

text \<open>
  A body is not a zstd stream at all, or decodes to some bytes and then ends, or fails to read on.
\<close>

datatype body = NotZstd | Stream string bool

datatype recv_fault =
    RecvOpen | RecvWrite nat | RecvSync | RecvClose | RecvSyncDir | RecvMark persist_fault

datatype recv_result = Received | PayloadError | InternalError

definition receiveChunk ::
  "digest \<Rightarrow> recv_fault option \<Rightarrow> State \<Rightarrow> disk \<Rightarrow> nat \<Rightarrow> string \<Rightarrow> body \<Rightarrow> State \<times> disk \<times> recv_result" where
  "receiveChunk H fault st dk n wantSum b =
     (case b of
        NotZstd \<Rightarrow> (st, dk, PayloadError)
      | Stream data broken \<Rightarrow>
          if fault = Some RecvOpen then (st, dk, InternalError)
          else
            let want = ChunkLength (stPlan st) (int n);
                dk1 = dk\<lparr>dkChunks := put n [] (dkChunks dk), dkSynced := del n (dkSynced dk)\<rparr>;
                payload = take (nat (want + 1)) data
            in case fault of
                 Some (RecvWrite k) \<Rightarrow> (st, dk1\<lparr>dkChunks := put n (take k payload) (dkChunks dk1)\<rparr>, InternalError)
               | _ \<Rightarrow>
                   let dk2 = dk1\<lparr>dkChunks := put n payload (dkChunks dk1)\<rparr>
                   in if broken \<and> int (length data) \<le> want then (st, dk2, PayloadError)
                      else if int (length payload) \<noteq> want then (st, dk2, PayloadError)
                      else if H payload \<noteq> wantSum then (st, dk2, PayloadError)
                      else if fault = Some RecvSync \<or> fault = Some RecvClose \<or> fault = Some RecvSyncDir
                      then (st, dk2, InternalError)
                      else
                        let dk3 = dk2\<lparr>dkSynced := put n payload (dkSynced dk2)\<rparr>
                        in case MarkChunk (case fault of Some (RecvMark f) \<Rightarrow> Some f | _ \<Rightarrow> None) st dk3 n of
                             (st1, dk4, Marked) \<Rightarrow> (st1, dk4, Received)
                           | (st1, dk4, _) \<Rightarrow> (st1, dk4, InternalError))"

subsection \<open>The server\<close>

record FileResult =
  frPath :: string
  frSHA256 :: string
  frMatch :: bool
  frError :: bool \<comment> \<open>whether an error text is set\<close>

record Report =
  rpFiles :: "FileResult list"
  rpDeleted :: "string list"

datatype phase = PhaseWaiting | PhaseReceiving | PhaseFinalizing | PhaseCompleted | PhaseFailed

record Server =
  svToken :: string
  svSt :: "State option"
  svPhase :: phase
  svReport :: "Report option"
  svDisk :: disk

datatype server_error = ErrEmptyToken | ErrLoad state_error

definition NewServer :: "(string \<Rightarrow> manifest option) \<Rightarrow> string \<Rightarrow> disk \<Rightarrow> server_error + Server" where
  "NewServer unmarshal token dk =
     (if token = [] then Inl ErrEmptyToken
      else case LoadState unmarshal dk of
             Inl err \<Rightarrow> Inl (ErrLoad err)
           | Inr st \<Rightarrow>
               Inr \<lparr>svToken = token, svSt = st,
                    svPhase = (if st = None then PhaseWaiting else PhaseReceiving),
                    svReport = None, svDisk = dk\<rparr>)"

definition TokenEqual :: "digest \<Rightarrow> string \<Rightarrow> string \<Rightarrow> bool" where
  "TokenEqual H a b \<longleftrightarrow> H a = H b"

definition requireAuth :: "digest \<Rightarrow> Server \<Rightarrow> string \<Rightarrow> bool" where
  "requireAuth H s header \<longleftrightarrow>
     HasPrefix header ''Bearer '' \<and> TokenEqual H (drop (length ''Bearer '') header) (svToken s)"

text \<open>\<open>None\<close> is the 409 answer.\<close>

definition server_state :: "Server \<Rightarrow> string \<Rightarrow> State option" where
  "server_state s tid =
     (case svSt s of None \<Rightarrow> None | Some st \<Rightarrow> if tid \<noteq> stTransferID st then None else Some st)"

text \<open>\<open>raw\<close> is the decompressed body, \<open>None\<close> when it does not decompress within the cap.\<close>

definition handleManifest ::
  "digest \<Rightarrow> (string \<Rightarrow> manifest option) \<Rightarrow> init_fault option \<Rightarrow> Server \<Rightarrow> string \<Rightarrow> string option \<Rightarrow> Server \<times> nat" where
  "handleManifest H unmarshal fault s tid raw0 =
     (case raw0 of
        None \<Rightarrow> (s, 400)
      | Some raw \<Rightarrow>
          (case Decode unmarshal raw of
             Inl err \<Rightarrow> (s, 400)
           | Inr m \<Rightarrow>
               if (case svSt s of Some st \<Rightarrow> stTransferID st = tid \<and> H (stRaw st) = H raw | None \<Rightarrow> False)
               then (s, 204)
               else
                 (case InitState fault (svDisk s) tid raw m of
                    (dk, Inl err) \<Rightarrow> (s\<lparr>svDisk := dk\<rparr>, 500)
                  | (dk, Inr st) \<Rightarrow>
                      (s\<lparr>svSt := Some st, svPhase := PhaseReceiving, svReport := None, svDisk := dk\<rparr>, 204))))"

definition handleState :: "digest \<Rightarrow> Server \<Rightarrow> string \<Rightarrow> (string \<times> int \<times> bitmap) option" where
  "handleState H s tid =
     (case server_state s tid of
        None \<Rightarrow> None
      | Some st \<Rightarrow> Some (H (stRaw st), NumChunks (stPlan st), stBitmap st))"

text \<open>\<open>num\<close> is the chunk number of the path, \<open>None\<close> when it does not parse.\<close>

definition handleChunk ::
  "digest \<Rightarrow> recv_fault option \<Rightarrow> Server \<Rightarrow> string \<Rightarrow> int option \<Rightarrow> string \<Rightarrow> body \<Rightarrow> Server \<times> nat" where
  "handleChunk H fault s tid num header b =
     (case server_state s tid of
        None \<Rightarrow> (s, 409)
      | Some st \<Rightarrow>
          if (case num of None \<Rightarrow> True | Some n \<Rightarrow> n < 0 \<or> NumChunks (stPlan st) \<le> n) then (s, 400)
          else
            let n = nat (the num)
            in if ChunkDone st n then (s, 200)
               else
                 let wantSum = ToLower header
                 in if length wantSum \<noteq> 64 then (s, 400)
                    else
                      (case receiveChunk H fault st (svDisk s) n wantSum b of
                         (st1, dk, res) \<Rightarrow>
                           (s\<lparr>svSt := Some st1, svDisk := dk\<rparr>,
                            case res of Received \<Rightarrow> 204 | PayloadError \<Rightarrow> 422 | InternalError \<Rightarrow> 500)))"

definition failedCount :: "Report \<Rightarrow> nat" where
  "failedCount r = length (filter (\<lambda>f. \<not> frMatch f \<or> frError f) (rpFiles r))"

definition reportClean :: "Report \<Rightarrow> bool" where
  "reportClean r \<longleftrightarrow> failedCount r = 0"

text \<open>\<open>commit\<close> is the committer; \<open>destroyed\<close> the directory that remains when its removal fails.\<close>

definition handleFinalize ::
  "(State \<Rightarrow> disk \<Rightarrow> Report option) \<Rightarrow> disk option \<Rightarrow> Server \<Rightarrow> string \<Rightarrow> Server \<times> nat \<times> Report option" where
  "handleFinalize commit destroyed s tid =
     (case svSt s of
        None \<Rightarrow>
          if svPhase s = PhaseCompleted \<and> svReport s \<noteq> None then (s, 200, svReport s) else (s, 409, None)
      | Some st \<Rightarrow>
          if tid \<noteq> stTransferID st then (s, 409, None)
          else if \<not> AllChunksDone st then (s, 409, None)
          else
            (case commit st (svDisk s) of
               None \<Rightarrow> (s\<lparr>svPhase := PhaseFailed\<rparr>, 500, None)
             | Some report \<Rightarrow>
                 if reportClean report
                 then (s\<lparr>svReport := Some report, svSt := None, svPhase := PhaseCompleted,
                         svDisk := (case destroyed of None \<Rightarrow> empty_dir | Some dk \<Rightarrow> dk)\<rparr>, 200, Some report)
                 else (s\<lparr>svReport := Some report, svPhase := PhaseFailed\<rparr>, 200, Some report)))"

definition handleAbort :: "disk option \<Rightarrow> Server \<Rightarrow> Server \<times> nat" where
  "handleAbort destroyed s =
     (case (svSt s, destroyed) of
        (Some st, Some dk) \<Rightarrow> (s\<lparr>svDisk := dk\<rparr>, 500)
      | (Some st, None) \<Rightarrow>
          (s\<lparr>svSt := None, svPhase := PhaseWaiting, svReport := None, svDisk := empty_dir\<rparr>, 204)
      | (None, _) \<Rightarrow> (s\<lparr>svPhase := PhaseWaiting, svReport := None\<rparr>, 204))"

record Progress =
  pgBytesDone :: int
  pgTotalBytes :: int
  pgChunksDone :: nat
  pgTotalChunks :: int
  pgPhase :: phase

definition handleProgress :: "Server \<Rightarrow> Progress" where
  "handleProgress s =
     (case svSt s of
        None \<Rightarrow> \<lparr>pgBytesDone = 0, pgTotalBytes = 0, pgChunksDone = 0, pgTotalChunks = 0, pgPhase = svPhase s\<rparr>
      | Some st \<Rightarrow>
          let done = filter (Bitmap_Get (stBitmap st)) [0..<nat (NumChunks (stPlan st))]
          in \<lparr>pgBytesDone = fold (\<lambda>n b. b + ChunkLength (stPlan st) (int n)) done 0,
              pgTotalBytes = plan_TotalBytes (stPlan st), pgChunksDone = length done,
              pgTotalChunks = NumChunks (stPlan st), pgPhase = svPhase s\<rparr>)"

subsection \<open>The object-store committer\<close>

text \<open>
  The bucket is a map from keys to contents; \<open>s3_env\<close> says which of the calls succeed: making the
  bucket, the context of the request at each entry, writing and reading back the scratch file of an
  entry, uploading and removing a key, listing.
\<close>

record s3_env =
  seBucket :: bool
  seCtx :: "nat \<Rightarrow> bool"
  seScratch :: "nat \<Rightarrow> bool"
  sePut :: "string \<Rightarrow> bool"
  seList :: bool
  seRemove :: "string \<Rightarrow> bool"

type_synonym bucket = "(string, string) gomap"

definition commit_entry ::
  "digest \<Rightarrow> s3_env \<Rightarrow> State \<Rightarrow> disk \<Rightarrow> nat \<Rightarrow> bucket \<Rightarrow> bucket \<times> FileResult" where
  "commit_entry H env st dk i bucket =
     (let e = mfEntries (stManifest st) ! i;
          res = \<lparr>frPath = mPath e, frSHA256 = [], frMatch = False, frError = False\<rparr>
      in if mType e \<noteq> TypeFile then (bucket, res\<lparr>frMatch := True\<rparr>)
         else if \<not> seScratch env i then (bucket, res\<lparr>frError := True\<rparr>)
         else
           (case AssembleEntry st dk i of
              Some (Inr data) \<Rightarrow>
                if H data \<noteq> mSHA256 e then (bucket, res\<lparr>frSHA256 := H data, frError := True\<rparr>)
                else if sePut env (mPath e)
                then (put (mPath e) data bucket, res\<lparr>frSHA256 := H data, frMatch := True\<rparr>)
                else (bucket, res\<lparr>frSHA256 := H data, frMatch := True, frError := True\<rparr>)
            | _ \<Rightarrow> (bucket, res\<lparr>frError := True\<rparr>)))"

text \<open>\<open>None\<close> in the second component is the early return on a cancelled request.\<close>

fun commit_entries ::
  "digest \<Rightarrow> s3_env \<Rightarrow> State \<Rightarrow> disk \<Rightarrow> nat list \<Rightarrow> bucket \<Rightarrow> FileResult list \<Rightarrow> bucket \<times> FileResult list option" where
  "commit_entries H env st dk [] bucket files = (bucket, Some files)"
| "commit_entries H env st dk (i # is) bucket files =
     (if \<not> seCtx env i then (bucket, None)
      else case commit_entry H env st dk i bucket of
             (bucket1, res) \<Rightarrow> commit_entries H env st dk is bucket1 (files @ [res]))"

fun remove_keys :: "s3_env \<Rightarrow> string list \<Rightarrow> string list \<Rightarrow> bucket \<Rightarrow> string list \<Rightarrow> bucket \<times> string list option" where
  "remove_keys env keep [] bucket deleted = (bucket, Some deleted)"
| "remove_keys env keep (k # ks) bucket deleted =
     (if k \<in> set keep then remove_keys env keep ks bucket deleted
      else if seRemove env k then remove_keys env keep ks (del k bucket) (deleted @ [k])
      else (bucket, None))"

definition ObjectCommit :: "digest \<Rightarrow> s3_env \<Rightarrow> State \<Rightarrow> disk \<Rightarrow> bucket \<Rightarrow> bucket \<times> Report option" where
  "ObjectCommit H env st dk bucket =
     (if \<not> seBucket env then (bucket, None)
      else
        case commit_entries H env st dk [0..<length (mfEntries (stManifest st))] bucket [] of
          (bucket1, None) \<Rightarrow> (bucket1, None)
        | (bucket1, Some files) \<Rightarrow>
            if \<not> seList env then (bucket1, None)
            else
              let keep = map mPath (filter (\<lambda>e. mType e = TypeFile) (mfEntries (stManifest st)))
              in case remove_keys env keep (keys bucket1) bucket1 [] of
                   (bucket2, None) \<Rightarrow> (bucket2, None)
                 | (bucket2, Some deleted) \<Rightarrow> (bucket2, Some \<lparr>rpFiles = files, rpDeleted = deleted\<rparr>))"

end
