(* ===== verification/Datamover_Export.thy ===== *)
theory Datamover_Export
  imports Datamover_Ingest "HOL-Library.List_Lexorder" "HOL-Library.Char_ord"
begin

text \<open>
  The sending side of a transfer: the client of \<^verbatim>\<open>src/datamover/internal/export/client.go\<close> and the
  manifest of a bucket from \<^verbatim>\<open>src/datamover/internal/export/s3.go\<close>.

  The target is a state of any type behind the four calls of the record \<open>link\<close>; a call answers
  \<open>None\<close> when no response gets back. What a ranged read of the source returns is an argument for
  every read the client makes, since the source may change under it. The workers that upload chunks
  are steps of a pool, so every interleaving of them is a list of moves. Progress lines, delays and
  the texts of errors are left out.
\<close>

subsection \<open>The client and what it talks to\<close>

record Client =
  clTransferID :: string
  clToken :: string
  clManifest :: manifest
  clConcurrency :: int
  clMaxAttempts :: int
  clBackoff :: duration

definition client_defaults :: "Client \<Rightarrow> Client" where
  "client_defaults c =
     c\<lparr>clConcurrency := (if clConcurrency c \<le> 0 then 4 else clConcurrency c),
       clMaxAttempts := (if clMaxAttempts c \<le> 0 then 3 else clMaxAttempts c),
       clBackoff := (if clBackoff c \<le> 0 then second else clBackoff c)\<rparr>"

datatype answer_body = NoBody | StateBody string int bitmap | ReportBody Report | Garbled

type_synonym answer = "(nat \<times> answer_body) option"

record 'w link =
  lkManifest :: "string \<Rightarrow> 'w \<Rightarrow> answer \<times> 'w"
  lkState :: "'w \<Rightarrow> answer \<times> 'w"
  lkChunk :: "nat \<Rightarrow> nat \<Rightarrow> string \<Rightarrow> body \<Rightarrow> 'w \<Rightarrow> answer \<times> 'w"
  lkFinalize :: "'w \<Rightarrow> answer \<times> 'w"

datatype call_error = Transport | Canceled | StatusError nat | Undecoded | WrongDigest string

definition checkStatus :: "nat \<Rightarrow> call_error option" where
  "checkStatus status = (if 200 \<le> status \<and> status < 300 then None else Some (StatusError status))"

definition call_result :: "answer \<Rightarrow> call_error option" where
  "call_result a = (case a of None \<Rightarrow> Some Transport | Some (status, b) \<Rightarrow> checkStatus status)"

definition postManifest :: "'w link \<Rightarrow> string \<Rightarrow> 'w \<Rightarrow> call_error option \<times> 'w" where
  "postManifest lk raw w = (case lkManifest lk raw w of (a, w1) \<Rightarrow> (call_result a, w1))"

definition getState :: "digest \<Rightarrow> 'w link \<Rightarrow> string \<Rightarrow> 'w \<Rightarrow> (call_error + bitmap) \<times> 'w" where
  "getState H lk raw w =
     (case lkState lk w of (a, w1) \<Rightarrow>
        ((case call_result a of
            Some err \<Rightarrow> Inl err
          | None \<Rightarrow>
              (case the a of
                 (_, StateBody d _ b) \<Rightarrow> if d \<noteq> H raw then Inl (WrongDigest d) else Inr b
               | _ \<Rightarrow> Inl Undecoded)), w1))"

definition finalize :: "'w link \<Rightarrow> 'w \<Rightarrow> (call_error + Report) \<times> 'w" where
  "finalize lk w =
     (case lkFinalize lk w of (a, w1) \<Rightarrow>
        ((case call_result a of
            Some err \<Rightarrow> Inl err
          | None \<Rightarrow> (case the a of (_, ReportBody r) \<Rightarrow> Inr r | _ \<Rightarrow> Inl Undecoded)), w1))"

subsection \<open>Reading the source\<close>

text \<open>A ranged read fails to open, or yields some bytes and then ends, with an error or without.\<close>

datatype reading = OpenFails | Reads string bool

text \<open>\<open>sourceHash n\<close> is read for the digest of chunk \<open>n\<close>, \<open>sourcePut n k\<close> for its \<open>k\<close>-th upload.\<close>

record source =
  sourceHash :: "nat \<Rightarrow> span \<Rightarrow> reading"
  sourcePut :: "nat \<Rightarrow> nat \<Rightarrow> span \<Rightarrow> reading"

datatype read_error = ErrOpen string | ErrRead string | ErrShortRead string

fun read_spans :: "(span \<Rightarrow> reading) \<Rightarrow> span list \<Rightarrow> string \<Rightarrow> read_error + string" where
  "read_spans rd [] acc = Inr acc"
| "read_spans rd (sp # sps) acc =
     (case rd sp of
        OpenFails \<Rightarrow> Inl (ErrOpen (spPath sp))
      | Reads data broken \<Rightarrow>
          if broken then Inl (ErrRead (spPath sp))
          else if int (length data) \<noteq> spLength sp then Inl (ErrShortRead (spPath sp))
          else read_spans rd sps (acc @ data))"

definition hashSpans :: "digest \<Rightarrow> (span \<Rightarrow> reading) \<Rightarrow> span list \<Rightarrow> read_error + string" where
  "hashSpans H rd spans = map_sum id H (read_spans rd spans [])"

text \<open>The body of an upload: a failed read ends the stream in the middle.\<close>

fun stream_spans :: "(span \<Rightarrow> reading) \<Rightarrow> span list \<Rightarrow> string \<Rightarrow> body" where
  "stream_spans rd [] acc = Stream acc False"
| "stream_spans rd (sp # sps) acc =
     (case rd sp of
        OpenFails \<Rightarrow> Stream acc True
      | Reads data broken \<Rightarrow>
          if broken then Stream (acc @ data) True
          else if int (length data) \<noteq> spLength sp then Stream (acc @ data) True
          else stream_spans rd sps (acc @ data))"

definition putChunk :: "'w link \<Rightarrow> (span \<Rightarrow> reading) \<Rightarrow> nat \<Rightarrow> nat \<Rightarrow> span list \<Rightarrow> string \<Rightarrow> 'w \<Rightarrow> call_error option \<times> 'w" where
  "putChunk lk rd n k spans hsum w =
     (case lkChunk lk n k hsum (stream_spans rd spans []) w of (a, w1) \<Rightarrow> (call_result a, w1))"

subsection \<open>Uploading the chunks\<close>

definition retryable :: "call_error \<Rightarrow> bool" where
  "retryable err =
     (case err of StatusError st \<Rightarrow> 500 \<le> st \<or> st = 422 | Canceled \<Rightarrow> False | _ \<Rightarrow> True)"

datatype upload_error =
    ErrHashing nat read_error | ErrUploading nat call_error | ErrAttempts nat call_error | ErrContext

text \<open>
  A worker waits for a chunk, has been handed one, is about to make its \<open>k\<close>-th upload (with the digest),
  or has returned.
\<close>

datatype worker = Free | Taken nat | Trying nat nat string | Gone

record pool =
  plQueue :: "nat list"
  plWorkers :: "worker list"
  plErr :: "upload_error option"
  plCtx :: bool \<comment> \<open>whether the context is done\<close>

definition set_worker :: "nat \<Rightarrow> worker \<Rightarrow> pool \<Rightarrow> pool" where
  "set_worker i x p = p\<lparr>plWorkers := (plWorkers p)[i := x]\<rparr>"

text \<open>The first error is kept and cancels the context; the worker returns.\<close>

definition pool_fail :: "nat \<Rightarrow> upload_error \<Rightarrow> pool \<Rightarrow> pool" where
  "pool_fail i err p =
     (let p1 = set_worker i Gone p
      in if plErr p1 = None then p1\<lparr>plErr := Some err, plCtx := True\<rparr> else p1)"

text \<open>The end of the \<open>k\<close>-th attempt at chunk \<open>n\<close>.\<close>

definition attempt_done :: "nat \<Rightarrow> nat \<Rightarrow> nat \<Rightarrow> nat \<Rightarrow> string \<Rightarrow> call_error option \<Rightarrow> pool \<Rightarrow> pool" where
  "attempt_done maxAttempts i n k hsum res p =
     (case res of
        None \<Rightarrow> set_worker i Free p
      | Some err \<Rightarrow>
          if \<not> retryable err then pool_fail i (ErrUploading n err) p
          else if k < maxAttempts then set_worker i (Trying n (Suc k) hsum) p
          else pool_fail i (ErrAttempts n err) p)"

text \<open>
  One step of the pool: the feeder hands the next chunk to worker \<open>i\<close>, the feeder stops, worker \<open>i\<close>
  hashes its chunk or makes an upload, worker \<open>i\<close> gives up its wait between two attempts, or the
  caller's context ends. \<open>None\<close> is a step that cannot be taken.
\<close>

datatype move = Feed nat | StopFeeding | Work nat | GiveUp nat | EndContext

definition pool_move ::
  "digest \<Rightarrow> source \<Rightarrow> 'w link \<Rightarrow> plan \<Rightarrow> nat \<Rightarrow> move \<Rightarrow> pool \<times> 'w \<Rightarrow> (pool \<times> 'w) option" where
  "pool_move H src lk plan maxAttempts mv pw =
     (case pw of (p, w) \<Rightarrow>
       (case mv of
          Feed i \<Rightarrow>
            (case plQueue p of
               [] \<Rightarrow> None
             | n # ns \<Rightarrow>
                 if i < length (plWorkers p) \<and> plWorkers p ! i = Free
                 then Some (set_worker i (Taken n) (p\<lparr>plQueue := (if plCtx p then [] else ns)\<rparr>), w)
                 else None)
        | StopFeeding \<Rightarrow> if plCtx p \<and> plQueue p \<noteq> [] then Some (p\<lparr>plQueue := []\<rparr>, w) else None
        | Work i \<Rightarrow>
            if length (plWorkers p) \<le> i then None
            else
              (case plWorkers p ! i of
                 Taken n \<Rightarrow>
                   (case hashSpans H (sourceHash src n) (Spans plan (int n)) of
                      Inl err \<Rightarrow> Some (pool_fail i (ErrHashing n err) p, w)
                    | Inr hsum \<Rightarrow> Some (set_worker i (Trying n 1 hsum) p, w))
               | Trying n k hsum \<Rightarrow>
                   (case putChunk lk (sourcePut src n k) n k (Spans plan (int n)) hsum w of
                      (res, w1) \<Rightarrow>
                        Some (attempt_done maxAttempts i n k hsum (if plCtx p then Some Canceled else res) p, w1))
               | _ \<Rightarrow> None)
        | GiveUp i \<Rightarrow>
            if length (plWorkers p) \<le> i then None
            else
              (case plWorkers p ! i of
                 Trying n k hsum \<Rightarrow> if 1 < k \<and> plCtx p then Some (pool_fail i ErrContext p, w) else None
               | _ \<Rightarrow> None)
        | EndContext \<Rightarrow> if plCtx p then None else Some (p\<lparr>plCtx := True\<rparr>, w)))"

fun pool_moves ::
  "digest \<Rightarrow> source \<Rightarrow> 'w link \<Rightarrow> plan \<Rightarrow> nat \<Rightarrow> move list \<Rightarrow> pool \<times> 'w \<Rightarrow> (pool \<times> 'w) option" where
  "pool_moves H src lk plan maxAttempts [] pw = Some pw"
| "pool_moves H src lk plan maxAttempts (mv # mvs) pw =
     (case pool_move H src lk plan maxAttempts mv pw of
        None \<Rightarrow> None
      | Some pw1 \<Rightarrow> pool_moves H src lk plan maxAttempts mvs pw1)"

text \<open>The queue is closed and every worker has returned, or would on its next look at the queue.\<close>

definition pool_finished :: "pool \<Rightarrow> bool" where
  "pool_finished p \<longleftrightarrow> plQueue p = [] \<and> list_all (\<lambda>x. x = Free \<or> x = Gone) (plWorkers p)"

definition missing_chunks :: "plan \<Rightarrow> bitmap \<Rightarrow> nat list" where
  "missing_chunks plan done = filter (\<lambda>n. \<not> Bitmap_Get done n) [0..<nat (NumChunks plan)]"

definition start_pool :: "nat \<Rightarrow> nat list \<Rightarrow> pool" where
  "start_pool concurrency missing =
     \<lparr>plQueue = missing, plWorkers = replicate (min concurrency (length missing)) Free, plErr = None, plCtx = False\<rparr>"

definition pool_result :: "pool \<Rightarrow> upload_error option" where
  "pool_result p = (case plErr p of Some err \<Rightarrow> Some err | None \<Rightarrow> if plCtx p then Some ErrContext else None)"

text \<open>The outer option is \<open>None\<close> when the moves do not run the pool to its end.\<close>

definition uploadChunks ::
  "digest \<Rightarrow> source \<Rightarrow> 'w link \<Rightarrow> Client \<Rightarrow> plan \<Rightarrow> bitmap \<Rightarrow> move list \<Rightarrow> 'w \<Rightarrow> (upload_error option \<times> 'w) option" where
  "uploadChunks H src lk c plan done mvs w =
     (let missing = missing_chunks plan done
      in if missing = [] then Some (None, w)
         else
           (case pool_moves H src lk plan (nat (clMaxAttempts c)) mvs (start_pool (nat (clConcurrency c)) missing, w) of
              None \<Rightarrow> None
            | Some (p, w1) \<Rightarrow> if pool_finished p then Some (pool_result p, w1) else None))"

subsection \<open>Checking the report\<close>

datatype problem = MissingFrom string | HashMismatch string string | ApplyError string | Covers nat nat

definition entry_problem :: "(string, FileResult) gomap \<Rightarrow> mentry \<Rightarrow> problem list" where
  "entry_problem results e =
     (case get results (mPath e) of
        None \<Rightarrow> [MissingFrom (mPath e)]
      | Some r \<Rightarrow>
          if \<not> frMatch r \<or> frSHA256 r \<noteq> mSHA256 e then [HashMismatch (mPath e) (frSHA256 r)]
          else if frError r then [ApplyError (mPath e)]
          else [])"

definition verifyReport :: "manifest \<Rightarrow> Report \<Rightarrow> problem list" where
  "verifyReport m report =
     (let results = fold (\<lambda>r. put (frPath r) r) (rpFiles report) []
      in concat (map (entry_problem results) (mfEntries m)) @
         (if length (rpFiles report) \<noteq> length (mfEntries m)
          then [Covers (length (rpFiles report)) (length (mfEntries m))] else []))"

subsection \<open>The transfer\<close>

datatype transfer_error =
    ErrManifest manifest_error | ErrEncode | ErrSending call_error | ErrFetching call_error
  | ErrUpload upload_error | ErrFinalizing call_error | ErrVerify "problem list"

definition Run ::
  "digest \<Rightarrow> (manifest \<Rightarrow> string option) \<Rightarrow> source \<Rightarrow> 'w link \<Rightarrow> Client \<Rightarrow> move list \<Rightarrow> 'w \<Rightarrow>
     ((transfer_error + unit) \<times> 'w) option" where
  "Run H encode src lk c0 mvs w =
     (let c = client_defaults c0
      in case Validate (clManifest c) of
           Some err \<Rightarrow> Some (Inl (ErrManifest err), w)
         | None \<Rightarrow>
             (case encode (clManifest c) of
                None \<Rightarrow> Some (Inl ErrEncode, w)
              | Some raw \<Rightarrow>
                  (case postManifest lk raw w of
                     (Some err, w1) \<Rightarrow> Some (Inl (ErrSending err), w1)
                   | (None, w1) \<Rightarrow>
                       (case getState H lk raw w1 of
                          (Inl err, w2) \<Rightarrow> Some (Inl (ErrFetching err), w2)
                        | (Inr done, w2) \<Rightarrow>
                            (case uploadChunks H src lk c (NewPlan (clManifest c)) done mvs w2 of
                               None \<Rightarrow> None
                             | Some (Some err, w3) \<Rightarrow> Some (Inl (ErrUpload err), w3)
                             | Some (None, w3) \<Rightarrow>
                                 (case finalize lk w3 of
                                    (Inl err, w4) \<Rightarrow> Some (Inl (ErrFinalizing err), w4)
                                  | (Inr report, w4) \<Rightarrow>
                                      Some (if verifyReport (clManifest c) report \<noteq> []
                                            then Inl (ErrVerify (verifyReport (clManifest c) report)) else Inr (),
                                            w4)))))))"

subsection \<open>The manifest of a bucket\<close>

record objectInfo =
  oKey :: string
  oSize :: int
  oMtime :: int

definition s3ObjectMode :: nat where
  "s3ObjectMode = 420"

definition hashObject :: "digest \<Rightarrow> (string \<Rightarrow> int \<Rightarrow> int \<Rightarrow> reading) \<Rightarrow> objectInfo \<Rightarrow> read_error + string" where
  "hashObject H rd ob =
     (if 0 < oSize ob then
        (case rd (oKey ob) 0 (oSize ob) of
           OpenFails \<Rightarrow> Inl (ErrOpen (oKey ob))
         | Reads data broken \<Rightarrow>
             if broken then Inl (ErrRead (oKey ob))
             else if int (length data) \<noteq> oSize ob then Inl (ErrShortRead (oKey ob))
             else Inr (H data))
      else Inr (H []))"

fun object_entries :: "digest \<Rightarrow> (string \<Rightarrow> int \<Rightarrow> int \<Rightarrow> reading) \<Rightarrow> objectInfo list \<Rightarrow> read_error + mentry list" where
  "object_entries H rd [] = Inr []"
| "object_entries H rd (ob # obs) =
     (case hashObject H rd ob of
        Inl err \<Rightarrow> Inl err
      | Inr h \<Rightarrow>
          (case object_entries H rd obs of
             Inl err \<Rightarrow> Inl err
           | Inr es \<Rightarrow>
               Inr (\<lparr>mPath = oKey ob, mType = TypeFile, mSize = oSize ob, mMode = s3ObjectMode, mUID = 0, mGID = 0,
                     mMtime = oMtime ob, mSHA256 = h, mLinkTarget = []\<rparr> # es)))"

text \<open>\<open>listing\<close> is \<open>None\<close> when the bucket cannot be listed. Keys are distinct, so the order of the sort is determined.\<close>

definition buildObjectManifest ::
  "digest \<Rightarrow> (string \<Rightarrow> int \<Rightarrow> int \<Rightarrow> reading) \<Rightarrow> objectInfo list option \<Rightarrow> int \<Rightarrow> (read_error option + manifest)" where
  "buildObjectManifest H rd listing chunkSize =
     (case listing of
        None \<Rightarrow> Inl None
      | Some objects \<Rightarrow>
          (case object_entries H rd (sort_key oKey objects) of
             Inl err \<Rightarrow> Inl (Some err)
           | Inr es \<Rightarrow> Inr \<lparr>mfChunkSize = chunkSize, mfEntries = es\<rparr>))"

end
