(* ===== verification/Datamover_Upload.thy ===== *)
theory Datamover_Upload
  imports Datamover_Export
begin

text \<open>
  The upload pool of the exporter: its runs are bounded and never stuck, and against a target that
  keeps what it has marked and answers every upload with success or a retryable error, a finished
  pool has every chunk marked.
\<close>

subsection \<open>The pool ends\<close>

fun worker_load :: "nat \<Rightarrow> worker \<Rightarrow> nat" where
  "worker_load A (Taken n) = A + 2"
| "worker_load A (Trying n k s) = Suc (A - k)"
| "worker_load A _ = 0"

definition pool_load :: "nat \<Rightarrow> pool \<Rightarrow> nat" where
  "pool_load A p =
     length (plQueue p) * (A + 3) + sum_list (map (worker_load A) (plWorkers p)) + (if plCtx p then 0 else 1)"

text \<open>A worker leaves only with the context done, and so does an error.\<close>

definition pool_wf :: "pool \<Rightarrow> bool" where
  "pool_wf p \<longleftrightarrow> (Gone \<in> set (plWorkers p) \<longrightarrow> plCtx p) \<and> (plErr p \<noteq> None \<longrightarrow> plCtx p) \<and> plWorkers p \<noteq> []"

lemma sum_list_update_less:
  "i < length ws \<Longrightarrow> (f x :: nat) < f (ws ! i) \<Longrightarrow> sum_list (map f (ws[i := x])) < sum_list (map f ws)"
  by (induction ws arbitrary: i) (auto split: nat.splits)

lemma sum_list_update_add:
  "i < length ws \<Longrightarrow> f (ws ! i) = (0 :: nat) \<Longrightarrow> sum_list (map f (ws[i := x])) = f x + sum_list (map f ws)"
  by (induction ws arbitrary: i) (auto split: nat.splits)

lemma set_worker_simps [simp]:
  "plQueue (set_worker i x p) = plQueue p" "plErr (set_worker i x p) = plErr p" "plCtx (set_worker i x p) = plCtx p"
  "plWorkers (set_worker i x p) = (plWorkers p)[i := x]"
  by (simp_all add: set_worker_def)

lemma pool_fail_simps [simp]:
  "plQueue (pool_fail i e p) = plQueue p" "plWorkers (pool_fail i e p) = (plWorkers p)[i := Gone]"
  "plErr (pool_fail i e p) \<noteq> None" "plCtx (pool_fail i e p) \<longleftrightarrow> plCtx p \<or> plErr p = None"
  by (auto simp: pool_fail_def Let_def)

lemma load_worker:
  "i < length (plWorkers p) \<Longrightarrow> worker_load A x < worker_load A (plWorkers p ! i) \<Longrightarrow>
     pool_load A (set_worker i x p) < pool_load A p"
  using sum_list_update_less [of i "plWorkers p" "worker_load A" x] by (simp add: pool_load_def)

lemma load_fail:
  "i < length (plWorkers p) \<Longrightarrow> 0 < worker_load A (plWorkers p ! i) \<Longrightarrow> pool_load A (pool_fail i e p) < pool_load A p"
  using sum_list_update_less [of i "plWorkers p" "worker_load A" Gone] by (auto simp: pool_load_def)

lemma wf_worker: "pool_wf p \<Longrightarrow> x \<noteq> Gone \<Longrightarrow> pool_wf (set_worker i x p)"
  by (auto simp: pool_wf_def dest: subsetD [OF set_update_subset_insert])

lemma wf_fail: "pool_wf p \<Longrightarrow> pool_wf (pool_fail i e p)"
  by (auto simp: pool_wf_def)

lemma attempt_done_load:
  assumes "i < length (plWorkers p)" and "plWorkers p ! i = Trying n k s" and "pool_wf p"
  shows "pool_load A (attempt_done A i n k s res p) < pool_load A p \<and> pool_wf (attempt_done A i n k s res p)"
  using assms load_worker [of i p A] load_fail [of i p A]
  by (auto simp: attempt_done_def wf_worker wf_fail split: option.splits)

lemma pool_move_load:
  assumes "pool_move H src lk plan A mv (p, w) = Some (p1, w1)" and "pool_wf p"
  shows "pool_load A p1 < pool_load A p \<and> pool_wf p1"
proof (cases mv)
  case (Feed i)
  then obtain n ns where q: "plQueue p = n # ns" and i: "i < length (plWorkers p)" "plWorkers p ! i = Free"
    and p1: "p1 = set_worker i (Taken n) (p\<lparr>plQueue := (if plCtx p then [] else ns)\<rparr>)"
    using assms(1) by (auto simp: pool_move_def split: list.splits if_splits)
  have "sum_list (map (worker_load A) ((plWorkers p)[i := Taken n])) = A + 2 + sum_list (map (worker_load A) (plWorkers p))"
    using sum_list_update_add [OF i(1), of "worker_load A" "Taken n"] i(2) by simp
  moreover have "pool_wf (p\<lparr>plQueue := (if plCtx p then [] else ns)\<rparr>)"
    using assms(2) by (simp add: pool_wf_def)
  ultimately show ?thesis
    using q p1 by (simp add: wf_worker) (simp add: pool_load_def)
next
  case (Work i)
  show ?thesis
  proof (cases "plWorkers p ! i")
    case (Taken n)
    then show ?thesis
      using assms Work load_worker [of i p A] load_fail [of i p A]
      by (auto simp: pool_move_def wf_worker wf_fail split: if_splits sum.splits)
  next
    case (Trying n k s)
    then show ?thesis
      using assms Work attempt_done_load [of i p n k s A]
      by (auto simp: pool_move_def split: if_splits prod.splits)
  qed (use assms Work in \<open>auto simp: pool_move_def split: if_splits\<close>)
next
  case (GiveUp i)
  then obtain n k s where "i < length (plWorkers p)" "plWorkers p ! i = Trying n k s" "p1 = pool_fail i ErrContext p"
    using assms(1) by (auto simp: pool_move_def split: if_splits worker.splits)
  then show ?thesis
    using load_fail [of i p A] assms(2) by (simp add: wf_fail)
qed (use assms in \<open>auto simp: pool_move_def pool_load_def pool_wf_def split: if_splits\<close>)

lemma pool_moves_load:
  "pool_moves H src lk plan A mvs (p, w) = Some (p1, w1) \<Longrightarrow> pool_wf p \<Longrightarrow>
     length mvs + pool_load A p1 \<le> pool_load A p \<and> pool_wf p1"
proof (induction mvs arbitrary: p w)
  case (Cons mv mvs)
  obtain p2 w2 where step: "pool_move H src lk plan A mv (p, w) = Some (p2, w2)"
    using Cons.prems(1) by (auto split: option.splits)
  then show ?case
    using pool_move_load [OF step Cons.prems(2)] Cons.IH [of p2 w2] Cons.prems(1) by simp
qed simp

lemma pool_not_stuck:
  assumes "pool_wf p" and "\<not> pool_finished p"
  shows "\<exists>mv. mv \<noteq> EndContext \<and> pool_move H src lk plan A mv (p, w) \<noteq> None"
proof (cases "\<exists>i < length (plWorkers p). plWorkers p ! i \<noteq> Free \<and> plWorkers p ! i \<noteq> Gone")
  case True
  then obtain i where "i < length (plWorkers p)" "plWorkers p ! i \<noteq> Free" "plWorkers p ! i \<noteq> Gone" by blast
  then have "pool_move H src lk plan A (Work i) (p, w) \<noteq> None"
    by (cases "plWorkers p ! i") (auto simp: pool_move_def split: sum.splits prod.splits)
  then show ?thesis by blast
next
  case idle: False
  then obtain n ns where q: "plQueue p = n # ns"
    using assms(2) by (auto simp: pool_finished_def list_all_length neq_Nil_conv)
  show ?thesis
  proof (cases "Free \<in> set (plWorkers p)")
    case True
    then obtain i where "i < length (plWorkers p)" "plWorkers p ! i = Free"
      by (auto simp: in_set_conv_nth)
    then have "pool_move H src lk plan A (Feed i) (p, w) \<noteq> None"
      using q by (simp add: pool_move_def)
    then show ?thesis by blast
  next
    case False
    then have "Gone \<in> set (plWorkers p)"
      using idle assms(1) by (cases "plWorkers p") (auto simp: pool_wf_def nth_Cons split: nat.splits)
    then have "pool_move H src lk plan A StopFeeding (p, w) \<noteq> None"
      using q assms(1) by (simp add: pool_move_def pool_wf_def)
    then show ?thesis by blast
  qed
qed

lemma pool_moves_append:
  "pool_moves H src lk plan A (xs @ ys) pw =
     (case pool_moves H src lk plan A xs pw of None \<Rightarrow> None | Some pw1 \<Rightarrow> pool_moves H src lk plan A ys pw1)"
  by (induction xs arbitrary: pw) (auto split: option.splits)

lemma pool_can_finish:
  assumes "pool_wf p"
  shows "\<exists>mvs p1 w1. EndContext \<notin> set mvs \<and> pool_moves H src lk plan A mvs (p, w) = Some (p1, w1) \<and> pool_finished p1"
  using assms
proof (induction "pool_load A p" arbitrary: p w rule: less_induct)
  case less
  show ?case
  proof (cases "pool_finished p")
    case True
    then have "EndContext \<notin> set [] \<and> pool_moves H src lk plan A [] (p, w) = Some (p, w) \<and> pool_finished p" by simp
    then show ?thesis by blast
  next
    case False
    then obtain mv p2 w2 where mv: "mv \<noteq> EndContext" "pool_move H src lk plan A mv (p, w) = Some (p2, w2)"
      using pool_not_stuck [OF less.prems, of H src lk plan A w] by fastforce
    then obtain mvs p1 w1 where "EndContext \<notin> set mvs" "pool_moves H src lk plan A mvs (p2, w2) = Some (p1, w1)" "pool_finished p1"
      using less.hyps [of p2 w2] pool_move_load [OF mv(2) less.prems] by blast
    then have "EndContext \<notin> set (mv # mvs) \<and> pool_moves H src lk plan A (mv # mvs) (p, w) = Some (p1, w1) \<and> pool_finished p1"
      using mv by simp
    then show ?thesis by blast
  qed
qed

lemma start_pool_wf: "0 < K \<Longrightarrow> ns \<noteq> [] \<Longrightarrow> pool_wf (start_pool K ns)"
  by (auto simp: start_pool_def pool_wf_def)

lemma start_pool_load: "pool_load A (start_pool K ns) = length ns * (A + 3) + 1"
  by (simp add: start_pool_def pool_load_def sum_list_replicate)

lemma defaults_positive: "0 < nat (clConcurrency (client_defaults c)) \<and> 0 < nat (clMaxAttempts (client_defaults c))"
  by (simp add: client_defaults_def)

text \<open>
  C37. Uploading ends, whatever the source yields, the target answers and the order the workers run in: no
  run of the pool has more than \<open>MaxAttempts + 3\<close> steps for every missing chunk, and one, and a pool
  that has not finished can always take another step without the caller's context ending. So there
  is no deadlock between the feeder and workers that have returned, and a run that cannot go on is
  a finished one.
\<close>

theorem upload_pool_settles:
  assumes "A = nat (clMaxAttempts (client_defaults c))" and "K = nat (clConcurrency (client_defaults c))" and "missing \<noteq> []"
    and "pool_moves H src lk plan A mvs (start_pool K missing, w) = Some (p, w1)"
  shows "length mvs \<le> length missing * (A + 3) + 1 \<and>
    (\<not> pool_finished p \<longrightarrow> (\<exists>mv. mv \<noteq> EndContext \<and> pool_move H src lk plan A mv (p, w1) \<noteq> None))"
proof -
  have wf: "pool_wf (start_pool K missing)"
    using defaults_positive assms(2,3) by (intro start_pool_wf) simp_all
  have "length mvs + pool_load A p \<le> length missing * (A + 3) + 1" "pool_wf p"
    using pool_moves_load [OF assms(4) wf] by (simp_all add: start_pool_load)
  then show ?thesis
    using pool_not_stuck [of p H src lk plan A w1] by auto
qed

text \<open>A target that is never there: one worker, one chunk, three attempts.\<close>

definition dead_link :: "unit link" where
  "dead_link = \<lparr>lkManifest = (\<lambda>_ w. (None, w)), lkState = (\<lambda>w. (None, w)), lkChunk = (\<lambda>_ _ _ _ w. (None, w)),
     lkFinalize = (\<lambda>w. (None, w))\<rparr>"

definition empty_source :: source where
  "empty_source = \<lparr>sourceHash = (\<lambda>_ _. Reads [] False), sourcePut = (\<lambda>_ _ _. Reads [] False)\<rparr>"

definition demo_client :: Client where
  "demo_client = \<lparr>clTransferID = ''t1'', clToken = ''k'', clManifest = \<lparr>mfChunkSize = 4, mfEntries = []\<rparr>,
     clConcurrency = 1, clMaxAttempts = 0, clBackoff = 0\<rparr>"

definition dead_run :: "(pool \<times> unit) option" where
  "dead_run = pool_moves id empty_source dead_link (NewPlan (clManifest demo_client)) 3 [Feed 0, Work 0, Work 0, Work 0, Work 0] (start_pool 1 [0], ())"

theorem upload_pool_settles_witness:
  "case dead_run of None \<Rightarrow> False
   | Some (p, _) \<Rightarrow> plErr p = Some (ErrAttempts 0 Transport) \<and> pool_finished p \<and> 5 \<le> length [0 :: nat] * (3 + 3) + 1"
proof -
  have "case dead_run of None \<Rightarrow> False | Some (p, _) \<Rightarrow> plErr p = Some (ErrAttempts 0 Transport) \<and> pool_finished p"
    by code_simp
  then obtain p w1 where p: "dead_run = Some (p, w1)" "plErr p = Some (ErrAttempts 0 Transport)" "pool_finished p"
    by (auto split: option.splits)
  have "3 = nat (clMaxAttempts (client_defaults demo_client))" "1 = nat (clConcurrency (client_defaults demo_client))"
    by code_simp+
  from upload_pool_settles [OF this _ p(1) [unfolded dead_run_def]]
  have "length [Feed 0, Work 0, Work 0, Work 0, Work 0] \<le> length [0 :: nat] * (3 + 3) + 1" by simp
  then have "5 \<le> length [0 :: nat] * (3 + 3) + 1" by simp
  then show ?thesis unfolding p(1) option.case prod.case using p(2,3) by blast
qed

subsection \<open>What a finished pool has achieved\<close>

text \<open>
  The target as the pool sees it: \<open>ok\<close> is an invariant of its states, \<open>done w n\<close> says that it has chunk \<open>n\<close>,
  \<open>wanted\<close> are the chunks the plan knows, and one of the first \<open>A\<close> uploads of each gets through.
\<close>

fun worker_chunk :: "worker \<Rightarrow> nat option" where
  "worker_chunk (Taken n) = Some n"
| "worker_chunk (Trying n k s) = Some n"
| "worker_chunk _ = None"

locale upload_target =
  fixes H :: digest and src :: source and lk :: "'w link" and plan :: plan and A :: nat
    and ok :: "'w \<Rightarrow> bool" and have_chunk :: "'w \<Rightarrow> nat \<Rightarrow> bool" and wanted :: "nat \<Rightarrow> bool" and digests :: "nat \<Rightarrow> string"
  assumes hashes: "wanted n \<Longrightarrow> hashSpans H (sourceHash src n) (Spans plan (int n)) = Inr (digests n)"
    and put_ok: "wanted n \<Longrightarrow> ok w \<Longrightarrow> putChunk lk (sourcePut src n k) n k (Spans plan (int n)) (digests n) w = (res, w1) \<Longrightarrow>
      ok w1 \<and> (\<forall>j. have_chunk w j \<longrightarrow> have_chunk w1 j) \<and> (case res of None \<Rightarrow> have_chunk w1 n | Some err \<Rightarrow> retryable err)"
    and put_lands: "wanted n \<Longrightarrow> \<exists>k. 1 \<le> k \<and> k \<le> A \<and>
      (\<forall>w. ok w \<longrightarrow> fst (putChunk lk (sourcePut src n k) n k (Spans plan (int n)) (digests n) w) = None)"
begin

definition lands :: "nat \<Rightarrow> nat \<Rightarrow> bool" where
  "lands n k \<longleftrightarrow> (\<forall>w. ok w \<longrightarrow> fst (putChunk lk (sourcePut src n k) n k (Spans plan (int n)) (digests n) w) = None)"

definition worker_ok :: "worker \<Rightarrow> bool" where
  "worker_ok x =
     (case x of
        Free \<Rightarrow> True
      | Taken n \<Rightarrow> wanted n
      | Trying n k s \<Rightarrow> wanted n \<and> s = digests n \<and> (\<exists>j. k \<le> j \<and> j \<le> A \<and> lands n j)
      | Gone \<Rightarrow> False)"

definition pool_inv :: "nat list \<Rightarrow> pool \<Rightarrow> 'w \<Rightarrow> bool" where
  "pool_inv missing p w \<longleftrightarrow>
     ok w \<and> \<not> plCtx p \<and> plErr p = None \<and> list_all wanted (plQueue p) \<and> list_all worker_ok (plWorkers p) \<and>
     (\<forall>n \<in> set missing. have_chunk w n \<or> n \<in> set (plQueue p) \<or> Some n \<in> worker_chunk ` set (plWorkers p))"

lemma inv_worker:
  assumes "pool_inv missing p w" and "i < length (plWorkers p)" and "worker_ok x"
    and "ok w1" and "\<And>j. have_chunk w j \<Longrightarrow> have_chunk w1 j"
    and "\<And>n. worker_chunk (plWorkers p ! i) = Some n \<Longrightarrow> worker_chunk x = Some n \<or> have_chunk w1 n"
  shows "pool_inv missing (set_worker i x p) w1"
proof -
  have "Some n \<in> worker_chunk ` set ((plWorkers p)[i := x]) \<or> have_chunk w1 n"
    if old: "Some n \<in> worker_chunk ` set (plWorkers p)" for n
  proof -
    obtain j where j: "j < length (plWorkers p)" "worker_chunk (plWorkers p ! j) = Some n"
      using old by (metis (no_types, lifting) image_iff in_set_conv_nth)
    show ?thesis
    proof (cases "j = i")
      case True
      then show ?thesis
        using assms(2) assms(6) [of n] j(2) by (metis image_eqI set_update_memI)
    next
      case False
      then have "(plWorkers p)[i := x] ! j = plWorkers p ! j" "j < length ((plWorkers p)[i := x])" using j(1) by simp_all
      then show ?thesis using j(2) by (metis image_eqI nth_mem)
    qed
  qed
  moreover have "list_all worker_ok ((plWorkers p)[i := x])"
    using assms(1,3) by (auto simp: pool_inv_def list_all_iff dest!: subsetD [OF set_update_subset_insert])
  ultimately show ?thesis
    using assms(1,4,5) unfolding pool_inv_def by simp blast
qed

lemma pool_move_inv:
  assumes inv: "pool_inv missing p w" and eq: "pool_move H src lk plan A mv (p, w) = Some (p1, w1)" and "mv \<noteq> EndContext"
  shows "pool_inv missing p1 w1"
proof -
  have ok: "ok w" and ctx: "\<not> plCtx p" and workers: "\<And>i. i < length (plWorkers p) \<Longrightarrow> worker_ok (plWorkers p ! i)"
    using inv by (auto simp: pool_inv_def list_all_length)
  show ?thesis
  proof (cases mv)
    case (Feed i)
    then obtain n ns where q: "plQueue p = n # ns" and i: "i < length (plWorkers p)" "plWorkers p ! i = Free"
      and p1: "p1 = set_worker i (Taken n) (p\<lparr>plQueue := ns\<rparr>)" "w1 = w"
      using eq ctx by (auto simp: pool_move_def split: list.splits if_splits)
    have "Taken n \<in> set ((plWorkers p)[i := Taken n])"
      using i(1) by (simp add: set_update_memI)
    then have mem: "Some n \<in> worker_chunk ` set ((plWorkers p)[i := Taken n])"
      by (metis image_eqI worker_chunk.simps(1))
    have "pool_inv missing (set_worker i (Taken n) p) w"
      using inv i ok q by (intro inv_worker) (auto simp: pool_inv_def worker_ok_def)
    then show ?thesis
      using q p1 mem unfolding pool_inv_def by auto
  next
    case (Work i)
    then have i: "i < length (plWorkers p)" using eq by (auto simp: pool_move_def split: if_splits)
    show ?thesis
    proof (cases "plWorkers p ! i")
      case (Taken n)
      then have n: "wanted n" using workers [OF i] by (simp add: worker_ok_def)
      then have p1: "p1 = set_worker i (Trying n 1 (digests n)) p" "w1 = w"
        using eq Work i Taken by (simp_all add: pool_move_def hashes)
      have "worker_ok (Trying n 1 (digests n))"
        using put_lands [OF n] n by (auto simp: worker_ok_def lands_def)
      then show ?thesis
        unfolding p1 using inv i ok Taken by (intro inv_worker) simp_all
    next
      case (Trying n k s)
      then have n: "wanted n" "s = digests n" and land: "\<exists>j. k \<le> j \<and> j \<le> A \<and> lands n j"
        using workers [OF i] by (simp_all add: worker_ok_def)
      obtain res where put: "putChunk lk (sourcePut src n k) n k (Spans plan (int n)) (digests n) w = (res, w1)"
        and p1: "p1 = attempt_done A i n k s res p"
        using eq Work i Trying ctx n(2) by (auto simp: pool_move_def split: prod.splits)
      note after = put_ok [OF n(1) ok put]
      show ?thesis
      proof (cases res)
        case None
        then have p1: "p1 = set_worker i Free p" using p1 by (simp add: attempt_done_def)
        show ?thesis
          unfolding p1 using after None Trying by (intro inv_worker [OF inv i]) (simp_all add: worker_ok_def)
      next
        case (Some err)
        have "\<not> lands n k" using put ok Some by (force simp: lands_def)
        then obtain j where "Suc k \<le> j" "j \<le> A" "lands n j"
          using land by (metis Suc_leI le_neq_implies_less)
        then have "worker_ok (Trying n (Suc k) s)" and "k < A"
          using n by (auto simp: worker_ok_def)
        moreover have "retryable err" using after Some by simp
        ultimately have p1: "p1 = set_worker i (Trying n (Suc k) s) p"
          using p1 Some by (simp add: attempt_done_def)
        show ?thesis
          unfolding p1 using \<open>worker_ok (Trying n (Suc k) s)\<close> after Trying by (intro inv_worker [OF inv i]) simp_all
      qed
    qed (use eq Work i in \<open>simp_all add: pool_move_def\<close>)
  qed (use eq ctx assms(3) in \<open>auto simp: pool_move_def split: if_splits worker.splits\<close>)
qed

lemma pool_moves_inv:
  "pool_inv missing p w \<Longrightarrow> pool_moves H src lk plan A mvs (p, w) = Some (p1, w1) \<Longrightarrow> EndContext \<notin> set mvs \<Longrightarrow>
     pool_inv missing p1 w1"
proof (induction mvs arbitrary: p w)
  case (Cons mv mvs)
  obtain p2 w2 where step: "pool_move H src lk plan A mv (p, w) = Some (p2, w2)"
    using Cons.prems(2) by (auto split: option.splits)
  then show ?case
    using pool_move_inv [OF Cons.prems(1) step] Cons.IH [of p2 w2] Cons.prems(2,3) by auto
qed simp

lemma pool_moves_upload:
  assumes "pool_moves H src lk plan A mvs (start_pool K missing, w) = Some (p, w1)" and "EndContext \<notin> set mvs"
    and "ok w" and "list_all wanted missing" and "\<forall>n \<in> set chunks. have_chunk w n \<or> n \<in> set missing" and "pool_finished p"
  shows "pool_result p = None \<and> ok w1 \<and> (\<forall>n \<in> set chunks. have_chunk w1 n)"
proof -
  have "pool_inv chunks (start_pool K missing) w"
    using assms(3-5) by (auto simp: pool_inv_def start_pool_def worker_ok_def list_all_iff)
  then have inv: "pool_inv chunks p w1"
    using pool_moves_inv assms(1,2) by blast
  moreover have "Some n \<notin> worker_chunk ` set (plWorkers p)" for n
    using assms(6) by (auto simp: pool_finished_def list_all_iff)
  ultimately show ?thesis
    using assms(6) by (auto simp: pool_inv_def pool_finished_def pool_result_def)
qed

end

end
