(* ===== verification/Datamover_Properties.thy ===== *)
theory Datamover_Properties
  imports Datamover_Ingest
begin

unbundle bit_operations_syntax

text \<open>
  What the receiving side of a transfer guarantees: the bitmap is a set of chunk numbers, an entry
  is assembled to its contents, a chunk that a restarted server would skip is durable, and a clean
  finalize leaves the bucket with exactly the manifest's files.
\<close>

subsection \<open>The bitmap as a set\<close>

text \<open>The interface the resume state uses the bitmap through.\<close>

locale chunk_marks =
  fixes marked :: "'b \<Rightarrow> nat \<Rightarrow> bool"
    and mark :: "'b \<Rightarrow> nat \<Rightarrow> 'b option"
    and unmark :: "'b \<Rightarrow> nat \<Rightarrow> 'b option"
    and room :: "'b \<Rightarrow> nat"
  assumes mark_law: "n < room b \<Longrightarrow> \<exists>b'. mark b n = Some b' \<and> room b' = room b \<and> marked b' = (marked b)(n := True)"
    and unmark_law: "n < room b \<Longrightarrow> \<exists>b'. unmark b n = Some b' \<and> room b' = room b \<and> marked b' = (marked b)(n := False)"
    and marked_room: "marked b n \<Longrightarrow> n < room b"
begin

lemma mark_D: "n < room b \<Longrightarrow> mark b n = Some b' \<Longrightarrow> room b' = room b \<and> marked b' = (marked b)(n := True)"
  using mark_law by fastforce

lemma unmark_D: "n < room b \<Longrightarrow> unmark b n = Some b' \<Longrightarrow> room b' = room b \<and> marked b' = (marked b)(n := False)"
  using unmark_law by fastforce

lemma mark_unmark:
  assumes "n < room b" and "\<not> marked b n"
  shows "\<exists>b1 b2. mark b n = Some b1 \<and> unmark b1 n = Some b2 \<and> marked b2 = marked b \<and> room b2 = room b"
proof -
  obtain b1 where b1: "mark b n = Some b1" "room b1 = room b" "marked b1 = (marked b)(n := True)"
    using mark_law [OF assms(1)] by blast
  obtain b2 where "unmark b1 n = Some b2" "room b2 = room b" "marked b2 = (marked b1)(n := False)"
    using unmark_law [of n b1] b1 assms(1) by metis
  then show ?thesis
    using b1 assms(2) by (auto simp: fun_upd_idem)
qed

end

lemma Bitmap_Get_bit: "Bitmap_Get b n \<longleftrightarrow> n div 8 < length b \<and> bit (b ! (n div 8)) (n mod 8)"
  unfolding Bitmap_Get_def Let_def bit_iff_and_push_bit_not_eq_0 by auto

lemma same_slot: "(m :: nat) div 8 = n div 8 \<Longrightarrow> m mod 8 = n mod 8 \<longleftrightarrow> m = n"
  by (metis div_mult_mod_eq)

lemma bit_set8: "k < 8 \<Longrightarrow> bit ((x :: 8 word) OR push_bit k 1) j \<longleftrightarrow> bit x j \<or> j = k"
  by (auto simp: bit_simps)

lemma bit_clear8: "k < 8 \<Longrightarrow> bit ((x :: 8 word) AND NOT (push_bit k 1)) j \<longleftrightarrow> bit x j \<and> j \<noteq> k"
  by (auto simp: bit_simps dest: bit_imp_le_length)

interpretation bitmap: chunk_marks Bitmap_Get Bitmap_Set Bitmap_Clear "\<lambda>b. 8 * length b"
proof unfold_locales
  fix b :: bitmap and n
  show "n < 8 * length b" if "Bitmap_Get b n"
    using that by (simp add: Bitmap_Get_bit div_less_iff_less_mult mult.commute)
  assume "n < 8 * length b"
  then have i: "n div 8 < length b"
    by (simp add: div_less_iff_less_mult mult.commute)
  have set: "Bitmap_Get (b[n div 8 := b ! (n div 8) OR push_bit (n mod 8) 1]) m = (m = n \<or> Bitmap_Get b m)" for m
    using i same_slot [of m n] bit_set8 [of "n mod 8" "b ! (n div 8)" "m mod 8"]
    by (cases "m div 8 = n div 8") (auto simp: Bitmap_Get_bit)
  have clear: "Bitmap_Get (b[n div 8 := b ! (n div 8) AND NOT (push_bit (n mod 8) 1)]) m = (m \<noteq> n \<and> Bitmap_Get b m)" for m
    using i same_slot [of m n] bit_clear8 [of "n mod 8" "b ! (n div 8)" "m mod 8"]
    by (cases "m div 8 = n div 8") (auto simp: Bitmap_Get_bit)
  show "\<exists>b'. Bitmap_Set b n = Some b' \<and> 8 * length b' = 8 * length b \<and> Bitmap_Get b' = (Bitmap_Get b)(n := True)"
    using i set by (simp add: Bitmap_Set_def Let_def fun_eq_iff)
  show "\<exists>b'. Bitmap_Clear b n = Some b' \<and> 8 * length b' = 8 * length b \<and> Bitmap_Get b' = (Bitmap_Get b)(n := False)"
    using i clear by (simp add: Bitmap_Clear_def Let_def fun_eq_iff)
qed

lemma Bitmap_ext:
  assumes "length b = length c" and "Bitmap_Get b = Bitmap_Get c"
  shows "b = c"
proof (rule nth_equalityI [OF assms(1)])
  fix i
  assume i: "i < length b"
  show "b ! i = c ! i"
  proof (rule bit_eqI)
    fix j
    assume "possible_bit TYPE(8 word) j"
    then have "j < 8" by (simp add: possible_bit_word)
    then have "(8 * i + j) div 8 = i" "(8 * i + j) mod 8 = j" by simp_all
    then show "bit (b ! i) j = bit (c ! i) j"
      using fun_cong [OF assms(2), of "8 * i + j"] i assms(1) by (simp add: Bitmap_Get_bit)
  qed
qed

lemma Bitmap_Count_filter: "Bitmap_Count b tot = length (filter (Bitmap_Get b) [0..<tot])"
proof -
  have "fold (\<lambda>n c. if Bitmap_Get b n then Suc c else c) ns c = c + length (filter (Bitmap_Get b) ns)" for ns c
    by (induction ns arbitrary: c) auto
  then show ?thesis by (simp add: Bitmap_Count_def)
qed

lemma NewBitmap_room: "n \<le> 8 * length (NewBitmap n)"
  by (simp add: NewBitmap_def)

lemma NewBitmap_empty [simp]: "\<not> Bitmap_Get (NewBitmap n) m"
  by (auto simp: Bitmap_Get_bit NewBitmap_def)

subsection \<open>Assembly gives back the contents\<close>

definition staged :: "manifest \<Rightarrow> string list \<Rightarrow> disk \<Rightarrow> bool" where
  "staged m cs dk \<longleftrightarrow>
     (\<forall>j. int j < NumChunks (NewPlan m) \<longrightarrow> get (dkChunks dk) j = Some (payload m cs j))"

text \<open>One round of the loop copies the rest of the chunk or the rest of the entry.\<close>

lemma assemble_round:
  assumes fit: "fits m cs" and st: "stManifest st = m" "stPlan st = NewPlan m" and dk: "staged m cs dk"
    and w: "w < sz" "start + sz \<le> length (concat cs)"
  defines "k \<equiv> nat (mfChunkSize m)"
  defines "p \<equiv> start + w"
  defines "l \<equiv> min (sz - w) (length (payload m cs (p div k)) - p mod k)"
  shows "0 < l \<and> l \<le> sz - w \<and>
    assemble_loop st dk (int start) (int sz) (int w) out =
      assemble_loop st dk (int start) (int sz) (int (w + l)) (out @ take l (drop p (concat cs)))"
proof -
  have k: "0 < k" "mfChunkSize m = int k"
    using fit by (simp_all add: fits_def k_def)
  define j where "j = p div k"
  have p: "p = j * k + p mod k" "p < length (concat cs)"
    using w by (simp_all add: j_def p_def)
  have jk: "j * k < length (concat cs)"
    using p by linarith
  have len: "length (payload m cs j) = min k (length (concat cs) - j * k)"
    by (simp add: length_payload k_def)
  have inside: "p mod k < length (payload m cs j)"
    using p mod_less_divisor [OF k(1), of p] unfolding len by linarith
  then have l: "0 < l" "l \<le> sz - w" "l \<le> length (payload m cs j) - p mod k"
    using w by (auto simp: l_def j_def)
  have chunk: "get (dkChunks dk) j = Some (payload m cs j)"
    using dk NumChunks_iff [OF fit, of j] jk by (simp add: staged_def k_def)
  have piece: "take l (drop (p mod k) (payload m cs j)) = take l (drop p (concat cs))"
  proof -
    have "drop (p mod k) (payload m cs j) = take (k - p mod k) (drop p (concat cs))"
      using p(1) by (simp add: payload_def k_def [symmetric] drop_take add.commute)
    moreover have "l \<le> k - p mod k"
      using l(3) len by simp
    ultimately show ?thesis by simp
  qed
  have full: "length (take l (drop (p mod k) (payload m cs j))) = l"
    using l(3) by simp
  have "trunc_div (int start + int w) (mfChunkSize m) = int j"
    using k by (simp add: j_def p_def zdiv_int)
  moreover have "int start + int w - int j * mfChunkSize m = int (p mod k)"
    using p(1) k(2) by (simp add: p_def) (metis add_diff_cancel_left' of_nat_add of_nat_mult)
  moreover have "ChunkLength (stPlan st) (int j) = int (length (payload m cs j))"
    using ChunkLength_fit [OF fit] jk st by (simp add: k_def)
  moreover have "min (int sz - int w) (int (length (payload m cs j)) - int (p mod k)) = int l"
    using w(1) inside unfolding l_def j_def [symmetric] by linarith
  ultimately have "assemble_loop st dk (int start) (int sz) (int w) out =
      assemble_loop st dk (int start) (int sz) (int w + int l) (out @ take l (drop p (concat cs)))"
    using w(1) chunk full piece st(1) by (subst assemble_loop.simps) (simp add: Let_def)
  then show ?thesis
    using l(1,2) by simp
qed

lemma assemble_loop_complete:
  assumes "fits m cs" and "stManifest st = m" and "stPlan st = NewPlan m" and "staged m cs dk"
    and "w \<le> sz" and "start + sz \<le> length (concat cs)"
  shows "assemble_loop st dk (int start) (int sz) (int w) out =
    Some (Inr (out @ take (sz - w) (drop (start + w) (concat cs))))"
  using assms(5)
proof (induction "sz - w" arbitrary: w out rule: less_induct)
  case less
  show ?case
  proof (cases "w < sz")
    case False
    then show ?thesis by (subst assemble_loop.simps) simp
  next
    case True
    define l where "l = min (sz - w) (length (payload m cs ((start + w) div nat (mfChunkSize m))) - (start + w) mod nat (mfChunkSize m))"
    have round: "0 < l" "l \<le> sz - w" "assemble_loop st dk (int start) (int sz) (int w) out =
        assemble_loop st dk (int start) (int sz) (int (w + l)) (out @ take l (drop (start + w) (concat cs)))"
      using assemble_round [OF assms(1-4) True assms(6), of out] by (simp_all add: l_def)
    have "assemble_loop st dk (int start) (int sz) (int (w + l)) (out @ take l (drop (start + w) (concat cs))) =
        Some (Inr ((out @ take l (drop (start + w) (concat cs))) @ take (sz - (w + l)) (drop (start + (w + l)) (concat cs))))"
      using round(1,2) True by (intro less.hyps) auto
    moreover have "take (sz - w) (drop (start + w) (concat cs)) =
        take l (drop (start + w) (concat cs)) @ take (sz - (w + l)) (drop (start + (w + l)) (concat cs))"
    proof -
      have "sz - w = l + (sz - (w + l))"
        using round(2) True by simp
      then show ?thesis
        using take_add [of l "sz - (w + l)" "drop (start + w) (concat cs)"] by (simp add: ac_simps)
    qed
    ultimately show ?thesis
      using round(3) by simp
  qed
qed

text \<open>
  The receiving side gives back what the exporter read: when every chunk of the plan is staged
  with its payload, assembling any entry terminates and yields exactly that entry's contents. With
  \<open>spans_hold_the_chunk\<close> this is the round trip of a transfer.
\<close>

lemma AssembleEntry_contents:
  assumes "fits m cs" and "stManifest st = m" and "stPlan st = NewPlan m" and "staged m cs dk"
    and "i < length (mfEntries m)"
  shows "AssembleEntry st dk i = Some (Inr (cs ! i))"
proof -
  have sized: "sized (mfEntries m) cs" and i: "i < length cs"
    using assms sized_length by (auto simp: fits_def)
  have size: "mSize (mfEntries m ! i) = int (length (cs ! i))"
    using sized i by (rule sized_nth)
  have bound: "length (concat (take i cs)) + length (cs ! i) \<le> length (concat cs)"
    using nth_take_concat [OF i] mono_take_concat [of "Suc i" "length cs" cs] i by simp
  have "take (length (cs ! i)) (drop (length (concat (take i cs))) (concat cs)) = cs ! i"
    using i by (simp add: drop_concat Cons_nth_drop_Suc [symmetric])
  then show ?thesis
    using assemble_loop_complete [OF assms(1-4) _ bound, of 0 "[]"] size assms(2,3) i
    by (simp add: AssembleEntry_def Let_def EntryOffset_def NewPlan_fit [OF assms(1)] nth_offsets)
qed

subsection \<open>Progress\<close>

lemma concat_payloads:
  "concat (map (payload m cs) [0..<j]) = take (j * nat (mfChunkSize m)) (concat cs)"
proof (induction j)
  case (Suc j)
  show ?case
    using Suc by (simp add: payload_def) (metis add.commute take_add)
qed simp

lemma AllChunksDone_iff:
  "0 \<le> NumChunks (stPlan st) \<Longrightarrow>
     AllChunksDone st \<longleftrightarrow> (\<forall>n. int n < NumChunks (stPlan st) \<longrightarrow> ChunkDone st n)"
proof -
  assume pos: "0 \<le> NumChunks (stPlan st)"
  define c where "c = nat (NumChunks (stPlan st))"
  have c: "NumChunks (stPlan st) = int c" using pos by (simp add: c_def)
  have "AllChunksDone st \<longleftrightarrow> length (filter (ChunkDone st) [0..<c]) = length [0..<c]"
    by (simp add: AllChunksDone_def Bitmap_Count_filter ChunkDone_def [abs_def] c)
  also have "\<dots> \<longleftrightarrow> (\<forall>n < c. ChunkDone st n)"
    by (metis (no_types, lifting) atLeast0LessThan atLeastLessThan_upt filter_True length_filter_less lessThan_iff order_less_irrefl)
  finally show ?thesis
    by (simp add: c)
qed

lemma int_sum_list: "int (sum_list (map f ns)) = sum_list (map (\<lambda>n. int (f n)) ns)"
  by (induction ns) auto

lemma sum_chunk_lengths: "fold (\<lambda>n b. b + f n) ns (b0 :: int) = b0 + sum_list (map f ns)"
  by (induction ns arbitrary: b0) auto

text \<open>
  The progress report is exact: while a transfer is under way it counts the bytes of exactly the
  chunks marked done, never more than the total; finalize is possible if and only if every chunk is
  done, and then all bytes are.
\<close>

lemma progress_is_exact:
  assumes "fits m cs" and "svSt s = Some st" and "stPlan st = NewPlan m"
  shows "pgBytesDone (handleProgress s) =
      int (length (concat (map (payload m cs) (filter (ChunkDone st) [0..<nat (NumChunks (NewPlan m))])))) \<and>
    pgTotalBytes (handleProgress s) = int (length (concat cs)) \<and>
    pgBytesDone (handleProgress s) \<le> pgTotalBytes (handleProgress s) \<and>
    (AllChunksDone st \<longrightarrow> pgBytesDone (handleProgress s) = pgTotalBytes (handleProgress s))"
proof -
  define c where "c = nat (NumChunks (NewPlan m))"
  have c: "NumChunks (NewPlan m) = int c"
    using NumChunks_fit [OF assms(1)] by (simp add: c_def)
  let ?done = "filter (ChunkDone st) [0..<c]"
  let ?len = "\<lambda>j. length (payload m cs j)"
  have lens: "ChunkLength (NewPlan m) (int j) = int (?len j)" if "j < c" for j
    using ChunkLength_fit [OF assms(1)] NumChunks_iff [OF assms(1), of j] that c by simp
  have "pgBytesDone (handleProgress s) = sum_list (map (\<lambda>j. ChunkLength (NewPlan m) (int j)) ?done)"
    using assms c by (simp add: handleProgress_def Let_def sum_chunk_lengths ChunkDone_def [abs_def])
  also have "\<dots> = sum_list (map (\<lambda>j. int (?len j)) ?done)"
    using lens by (intro arg_cong [of _ _ sum_list] map_cong) auto
  finally have bytes: "pgBytesDone (handleProgress s) = int (sum_list (map ?len ?done))"
    by (simp add: int_sum_list)
  have "c * nat (mfChunkSize m) \<ge> length (concat cs)"
    using NumChunks_iff [OF assms(1), of c] c by simp
  then have all: "sum_list (map ?len [0..<c]) = length (concat cs)"
    using arg_cong [OF concat_payloads [of m cs c], of length] by (simp add: length_concat comp_def)
  have le: "sum_list (map ?len (filter P ns)) \<le> sum_list (map ?len ns)" for P ns
    by (induction ns) auto
  have "pgTotalBytes (handleProgress s) = int (length (concat cs))"
    using assms by (simp add: handleProgress_def Let_def plan_TotalBytes_def NewPlan_fit)
  moreover have "?done = [0..<c]" if "AllChunksDone st"
    using that AllChunksDone_iff [of st] assms(3) c by (simp add: filter_id_conv)
  moreover have "int (length (concat (map (payload m cs) ?done))) = pgBytesDone (handleProgress s)"
    using bytes by (simp add: length_concat comp_def)
  ultimately show ?thesis
    using bytes le [of "ChunkDone st" "[0..<c]"] all by (auto simp: c_def)
qed

subsection \<open>A restart skips only durable chunks\<close>

text \<open>A chunk that is safe: on stable storage, readable, of the planned length.\<close>

definition safe_chunk :: "State \<Rightarrow> disk \<Rightarrow> nat \<Rightarrow> bool" where
  "safe_chunk st dk n \<longleftrightarrow>
     (\<exists>data. get (dkSynced dk) n = Some data \<and> get (dkChunks dk) n = Some data \<and>
        int (length data) = ChunkLength (stPlan st) (int n))"

definition marks_safe :: "State \<Rightarrow> disk \<Rightarrow> bitmap \<Rightarrow> bool" where
  "marks_safe st dk b \<longleftrightarrow>
     length b = length (NewBitmap (nat (NumChunks (stPlan st)))) \<and>
     (\<forall>n. Bitmap_Get b n \<longrightarrow> int n < NumChunks (stPlan st) \<and> safe_chunk st dk n)"

definition resume_inv :: "(string \<Rightarrow> manifest option) \<Rightarrow> State \<Rightarrow> disk \<Rightarrow> bool" where
  "resume_inv unmarshal st dk \<longleftrightarrow>
     Decode unmarshal (stRaw st) = Inr (stManifest st) \<and> stPlan st = NewPlan (stManifest st) \<and>
     dkManifest dk = Some (stRaw st) \<and> dkID dk = Some (stTransferID st) \<and>
     dkCrash dk = [stBitmap st] \<and> marks_safe st dk (stBitmap st)"

definition ingest_inv :: "(string \<Rightarrow> manifest option) \<Rightarrow> Server \<Rightarrow> bool" where
  "ingest_inv unmarshal s \<longleftrightarrow> (\<forall>st. svSt s = Some st \<longrightarrow> resume_inv unmarshal st (svDisk s))"

lemma marks_safe_same:
  assumes "marks_safe st dk b" and "stPlan st' = stPlan st" and "dkChunks dk' = dkChunks dk" and "dkSynced dk' = dkSynced dk"
  shows "marks_safe st' dk' b"
  using assms by (simp add: marks_safe_def safe_chunk_def)

text \<open>Restaging a chunk that the bitmap does not mark leaves the bitmap safe.\<close>

lemma marks_safe_restage:
  assumes "marks_safe st dk b" and "\<not> Bitmap_Get b n"
    and "\<And>j. j \<noteq> n \<Longrightarrow> get (dkChunks dk') j = get (dkChunks dk) j \<and> get (dkSynced dk') j = get (dkSynced dk) j"
  shows "marks_safe st dk' b"
  using assms by (force simp: marks_safe_def safe_chunk_def)

lemma marks_safe_room: "marks_safe st dk b \<Longrightarrow> int n < NumChunks (stPlan st) \<Longrightarrow> n < 8 * length b"
  using NewBitmap_room [of "nat (NumChunks (stPlan st))"] by (simp add: marks_safe_def)

text \<open>
  A crash keeps the manifest and id files, one of the bitmaps \<open>dkCrash\<close> lists and every synced chunk;
  what is left of the other chunk files, \<open>rest\<close>, is arbitrary.
\<close>

definition crash_leaves :: "disk \<Rightarrow> bitmap option \<Rightarrow> (nat, string) gomap \<Rightarrow> bool" where
  "crash_leaves dk b rest \<longleftrightarrow>
     (case b of None \<Rightarrow> dkCrash dk = [] | Some bm \<Rightarrow> bm \<in> set (dkCrash dk)) \<and>
     (\<forall>n \<in> set (keys (dkSynced dk)). get rest n = get (dkSynced dk) n)"

definition after_crash :: "disk \<Rightarrow> bitmap option \<Rightarrow> (nat, string) gomap \<Rightarrow> disk" where
  "after_crash dk b rest =
     dk\<lparr>dkBitmap := b, dkCrash := (case b of None \<Rightarrow> [] | Some bm \<Rightarrow> [bm]), dkChunks := rest\<rparr>"

definition crash_ok :: "(string \<Rightarrow> manifest option) \<Rightarrow> State \<Rightarrow> disk \<Rightarrow> bool" where
  "crash_ok unmarshal st dk \<longleftrightarrow>
     Decode unmarshal (stRaw st) = Inr (stManifest st) \<and> stPlan st = NewPlan (stManifest st) \<and>
     dkManifest dk = Some (stRaw st) \<and> dkID dk = Some (stTransferID st) \<and> dkCrash dk \<noteq> [] \<and>
     (\<forall>b \<in> set (dkCrash dk). marks_safe st dk b \<and> (\<forall>n. ChunkDone st n \<longrightarrow> Bitmap_Get b n))"

lemma resume_inv_crash_ok: "resume_inv unmarshal st dk \<Longrightarrow> crash_ok unmarshal st dk"
  by (simp add: resume_inv_def crash_ok_def ChunkDone_def)

lemma resume_inv_restage:
  assumes "resume_inv unmarshal st dk" and "\<not> ChunkDone st n"
  shows "resume_inv unmarshal st (dk\<lparr>dkChunks := put n x (dkChunks dk), dkSynced := del n (dkSynced dk)\<rparr>)" (is ?gone)
    and "resume_inv unmarshal st (dk\<lparr>dkChunks := put n x (dkChunks dk), dkSynced := put n y (del n (dkSynced dk))\<rparr>)" (is ?again)
proof -
  have old: "marks_safe st dk (stBitmap st)" "\<not> Bitmap_Get (stBitmap st) n"
    using assms by (simp_all add: resume_inv_def ChunkDone_def)
  have "marks_safe st (dk\<lparr>dkChunks := put n x (dkChunks dk), dkSynced := del n (dkSynced dk)\<rparr>) (stBitmap st)"
    by (rule marks_safe_restage [OF old]) (simp add: update_conv')
  then show ?gone
    using assms by (simp add: resume_inv_def)
  have "marks_safe st (dk\<lparr>dkChunks := put n x (dkChunks dk), dkSynced := put n y (del n (dkSynced dk))\<rparr>) (stBitmap st)"
    by (rule marks_safe_restage [OF old]) (simp add: update_conv')
  then show ?again
    using assms by (simp add: resume_inv_def)
qed

text \<open>The outcomes of \<open>MarkChunk\<close> on a chunk of the plan.\<close>

lemma MarkChunk_effect:
  assumes inv: "resume_inv unmarshal st dk" and n: "int n < NumChunks (stPlan st)" "\<not> ChunkDone st n"
  obtains b where "length b = length (stBitmap st)" and "Bitmap_Get b = (Bitmap_Get (stBitmap st))(n := True)"
    and "MarkChunk fault st dk n =
      (case fault of
         None \<Rightarrow> (st\<lparr>stBitmap := b\<rparr>, dk\<lparr>dkBitmap := Some b, dkCrash := [b]\<rparr>, Marked)
       | Some BeforeRename \<Rightarrow> (st, dk, MarkFailed)
       | Some DirSync \<Rightarrow> (st, dk\<lparr>dkBitmap := Some b, dkCrash := [b, stBitmap st]\<rparr>, MarkFailed))"
proof -
  have crash: "dkCrash dk = [stBitmap st]" and "marks_safe st dk (stBitmap st)"
    using inv by (simp_all add: resume_inv_def)
  then have n8: "n < 8 * length (stBitmap st)"
    using marks_safe_room n by blast
  obtain b where b: "Bitmap_Set (stBitmap st) n = Some b" "8 * length b = 8 * length (stBitmap st)"
    "Bitmap_Get b = (Bitmap_Get (stBitmap st))(n := True)"
    using bitmap.mark_law [OF n8] by blast
  obtain c where c: "Bitmap_Clear b n = Some c" "8 * length c = 8 * length b" "Bitmap_Get c = (Bitmap_Get b)(n := False)"
    using bitmap.unmark_law [of n b] b(2) n8 by metis
  have "Bitmap_Get c = Bitmap_Get (stBitmap st)"
    using c(3) b(3) n(2) by (auto simp: ChunkDone_def fun_eq_iff)
  then have "c = stBitmap st"
    using b(2) c(2) by (intro Bitmap_ext) simp_all
  then have undo: "Bitmap_Clear b n = Some (stBitmap st)" using c(1) by simp
  show thesis
    using b(1,2) undo crash
    by (intro that [of b]) (auto simp: b(3) MarkChunk_def persistBitmap_def split: option.split persist_fault.split)
qed

lemma marks_safe_more:
  assumes "marks_safe st dk (stBitmap st)" and "length b = length (stBitmap st)"
    and "Bitmap_Get b = (Bitmap_Get (stBitmap st))(n := True)" and "int n < NumChunks (stPlan st)" and "safe_chunk st dk n"
  shows "marks_safe st dk b"
  using assms by (auto simp: marks_safe_def split: if_splits)

lemma MarkChunk_inv:
  assumes inv: "resume_inv unmarshal st dk" and n: "int n < NumChunks (stPlan st)" "\<not> ChunkDone st n"
    and safe: "safe_chunk st dk n" and eq: "MarkChunk fault st dk n = (st', dk', res)"
  shows "crash_ok unmarshal st dk'" and "fault \<noteq> Some DirSync \<Longrightarrow> resume_inv unmarshal st' dk'"
proof -
  have old: "marks_safe st dk (stBitmap st)" using inv by (simp add: resume_inv_def)
  obtain b where b: "length b = length (stBitmap st)" "Bitmap_Get b = (Bitmap_Get (stBitmap st))(n := True)"
    and m: "MarkChunk fault st dk n =
      (case fault of
         None \<Rightarrow> (st\<lparr>stBitmap := b\<rparr>, dk\<lparr>dkBitmap := Some b, dkCrash := [b]\<rparr>, Marked)
       | Some BeforeRename \<Rightarrow> (st, dk, MarkFailed)
       | Some DirSync \<Rightarrow> (st, dk\<lparr>dkBitmap := Some b, dkCrash := [b, stBitmap st]\<rparr>, MarkFailed))"
    by (rule MarkChunk_effect [OF inv n, where fault = fault])
  have new: "marks_safe st dk b"
    using marks_safe_more [OF old b n(1) safe] .
  have disk: "\<exists>f l. dk' = dk\<lparr>dkBitmap := f, dkCrash := l\<rparr> \<and> l \<noteq> [] \<and> set l \<subseteq> {b, stBitmap st}"
    using eq m inv by (cases dk) (auto simp: resume_inv_def split: option.splits persist_fault.splits)
  have "marks_safe st dk' x \<longleftrightarrow> marks_safe st dk x" for x
    using disk by (auto simp: marks_safe_def safe_chunk_def)
  moreover have "ChunkDone st j \<longrightarrow> Bitmap_Get b j" for j
    by (simp add: b(2) ChunkDone_def)
  moreover have "set (dkCrash dk') \<subseteq> {b, stBitmap st}" "dkCrash dk' \<noteq> []" "dkManifest dk' = dkManifest dk" "dkID dk' = dkID dk"
    using disk by auto
  ultimately show "crash_ok unmarshal st dk'"
    using inv old new unfolding crash_ok_def resume_inv_def ChunkDone_def by auto
  show "resume_inv unmarshal st' dk'" if "fault \<noteq> Some DirSync"
  proof (cases fault)
    case None
    then have "st' = st\<lparr>stBitmap := b\<rparr>" "dk' = dk\<lparr>dkBitmap := Some b, dkCrash := [b]\<rparr>" using m eq by simp_all
    moreover have "marks_safe st' dk' b"
      using new by (rule marks_safe_same) (simp_all add: calculation)
    ultimately show ?thesis
      using inv by (simp add: resume_inv_def)
  next
    case (Some f)
    then show ?thesis
      using inv m eq that by (cases f) simp_all
  qed
qed

text \<open>A chunk request either leaves the chunk unmarked and unsynced, or has it synced and marks it.\<close>

lemma receiveChunk_cases:
  assumes eq: "receiveChunk H fault st dk n wantSum b = (st', dk', res)"
  obtains (rejected) "st' = st" and "dk' = dk"
  | (partial) x where "st' = st" and "dk' = dk\<lparr>dkChunks := put n x (dkChunks dk), dkSynced := del n (dkSynced dk)\<rparr>"
  | (complete) x mf r where "int (length x) = ChunkLength (stPlan st) (int n)"
      and "MarkChunk mf st (dk\<lparr>dkChunks := put n x (dkChunks dk), dkSynced := put n x (del n (dkSynced dk))\<rparr>) n = (st', dk', r)"
      and "mf = Some DirSync \<longleftrightarrow> fault = Some (RecvMark DirSync)"
proof (cases "\<exists>data broken. b = Stream data broken \<and> fault \<noteq> Some RecvOpen")
  case False
  then have "st' = st \<and> dk' = dk"
    using eq by (cases b) (auto simp: receiveChunk_def)
  then show thesis by (simp add: rejected)
next
  case True
  then obtain data broken where b: "b = Stream data broken" and opened: "fault \<noteq> Some RecvOpen" by blast
  define payl where "payl = take (nat (ChunkLength (stPlan st) (int n) + 1)) data"
  show thesis
  proof (cases "\<exists>k. fault = Some (RecvWrite k)")
    case True
    then obtain k where "fault = Some (RecvWrite k)" by blast
    then have "st' = st \<and> dk' = dk\<lparr>dkChunks := put n (take k payl) (dkChunks dk), dkSynced := del n (dkSynced dk)\<rparr>"
      using eq b by (cases dk) (auto simp: receiveChunk_def Let_def payl_def)
    then show thesis using partial by blast
  next
    case nowrite: False
    define accepted where "accepted \<longleftrightarrow> \<not> (broken \<and> int (length data) \<le> ChunkLength (stPlan st) (int n)) \<and>
        int (length payl) = ChunkLength (stPlan st) (int n) \<and> H payl = wantSum \<and>
        fault \<noteq> Some RecvSync \<and> fault \<noteq> Some RecvClose \<and> fault \<noteq> Some RecvSyncDir"
    define mf where "mf = (case fault of Some (RecvMark f) \<Rightarrow> Some f | _ \<Rightarrow> None)"
    show thesis
    proof (cases accepted)
      case False
      then have "st' = st \<and> dk' = dk\<lparr>dkChunks := put n payl (dkChunks dk), dkSynced := del n (dkSynced dk)\<rparr>"
        using eq b opened nowrite
        by (auto simp: receiveChunk_def Let_def payl_def accepted_def split: option.splits recv_fault.splits if_splits)
      then show thesis using partial by blast
    next
      case True
      let ?dk = "dk\<lparr>dkChunks := put n payl (dkChunks dk), dkSynced := put n payl (del n (dkSynced dk))\<rparr>"
      obtain st1 dk1 r1 where m: "MarkChunk mf st ?dk n = (st1, dk1, r1)"
        by (cases "MarkChunk mf st ?dk n")
      have "st' = st1 \<and> dk' = dk1"
        using eq b opened nowrite True m unfolding mf_def accepted_def
        by (auto simp: receiveChunk_def Let_def payl_def split: option.splits recv_fault.splits if_splits mark_result.splits)
      moreover have "mf = Some DirSync \<longleftrightarrow> fault = Some (RecvMark DirSync)"
        by (auto simp: mf_def split: option.splits recv_fault.splits)
      ultimately show thesis
        using complete [of payl mf r1] m True by (simp add: accepted_def)
    qed
  qed
qed

lemma receiveChunk_inv:
  assumes inv: "resume_inv unmarshal st dk" and n: "int n < NumChunks (stPlan st)" "\<not> ChunkDone st n"
    and eq: "receiveChunk H fault st dk n wantSum b = (st', dk', res)"
  shows "crash_ok unmarshal st dk'" and "fault \<noteq> Some (RecvMark DirSync) \<Longrightarrow> resume_inv unmarshal st' dk'"
proof -
  have "crash_ok unmarshal st dk' \<and> (fault \<noteq> Some (RecvMark DirSync) \<longrightarrow> resume_inv unmarshal st' dk')"
    using eq
  proof (cases rule: receiveChunk_cases)
    case rejected
    then show ?thesis using inv resume_inv_crash_ok by blast
  next
    case (partial x)
    then show ?thesis using resume_inv_restage(1) [OF inv n(2)] resume_inv_crash_ok by blast
  next
    case (complete x mf r)
    let ?dk = "dk\<lparr>dkChunks := put n x (dkChunks dk), dkSynced := put n x (del n (dkSynced dk))\<rparr>"
    have "safe_chunk st ?dk n"
      using complete(1) by (simp add: safe_chunk_def update_conv')
    then show ?thesis
      using MarkChunk_inv [OF resume_inv_restage(2) [OF inv n(2)] n _ complete(2)] complete(3) by blast
  qed
  then show "crash_ok unmarshal st dk'" and "fault \<noteq> Some (RecvMark DirSync) \<Longrightarrow> resume_inv unmarshal st' dk'"
    by blast+
qed

subsubsection \<open>The server's runs\<close>

text \<open>
  Everything the server can go through from an empty directory: manifests, chunks, finalizes, aborts
  and crashes followed by a restart. Clearing and initialising the directory succeed, and so does the
  directory sync after a bitmap rename; every other failure of a chunk request is included.
\<close>

inductive ingest_reach :: "digest \<Rightarrow> (string \<Rightarrow> manifest option) \<Rightarrow> (State \<Rightarrow> disk \<Rightarrow> Report option) \<Rightarrow> string \<Rightarrow> Server \<Rightarrow> bool"
  for H unmarshal commit token where
  reach_start: "ingest_reach H unmarshal commit token
      \<lparr>svToken = token, svSt = None, svPhase = PhaseWaiting, svReport = None, svDisk = empty_dir\<rparr>"
| reach_manifest: "ingest_reach H unmarshal commit token s \<Longrightarrow>
      ingest_reach H unmarshal commit token (fst (handleManifest H unmarshal None s tid raw))"
| reach_chunk: "ingest_reach H unmarshal commit token s \<Longrightarrow> fault \<noteq> Some (RecvMark DirSync) \<Longrightarrow>
      ingest_reach H unmarshal commit token (fst (handleChunk H fault s tid num header b))"
| reach_finalize: "ingest_reach H unmarshal commit token s \<Longrightarrow>
      ingest_reach H unmarshal commit token (fst (handleFinalize commit None s tid))"
| reach_abort: "ingest_reach H unmarshal commit token s \<Longrightarrow>
      ingest_reach H unmarshal commit token (fst (handleAbort None s))"
| reach_restart: "ingest_reach H unmarshal commit token s \<Longrightarrow> crash_leaves (svDisk s) bm rest \<Longrightarrow>
      NewServer unmarshal token (after_crash (svDisk s) bm rest) = Inr s' \<Longrightarrow> ingest_reach H unmarshal commit token s'"

definition idle_inv :: "Server \<Rightarrow> bool" where
  "idle_inv s \<longleftrightarrow> (svSt s = None \<longrightarrow> dkManifest (svDisk s) = None)"

lemma handleManifest_inv:
  assumes "ingest_inv unmarshal s" and "idle_inv s"
  shows "ingest_inv unmarshal (fst (handleManifest H unmarshal None s tid raw)) \<and>
    idle_inv (fst (handleManifest H unmarshal None s tid raw))"
proof -
  have fresh: "resume_inv unmarshal st dk" if "Decode unmarshal r = Inr m" "InitState None (svDisk s) tid r m = (dk, Inr st)" for r m dk st
    using that by (auto simp: InitState_def persistBitmap_def Let_def resume_inv_def marks_safe_def)
  show ?thesis
    using assms fresh
    by (auto simp: handleManifest_def ingest_inv_def idle_inv_def split: option.splits sum.splits prod.splits)
      (auto simp: InitState_def Let_def)
qed

lemma handleChunk_cases:
  obtains "fst (handleChunk H fault s tid num header b) = s"
  | st n st1 dk res where "svSt s = Some st" and "int n < NumChunks (stPlan st)" and "\<not> ChunkDone st n"
      and "receiveChunk H fault st (svDisk s) n (ToLower header) b = (st1, dk, res)"
      and "fst (handleChunk H fault s tid num header b) = s\<lparr>svSt := Some st1, svDisk := dk\<rparr>"
proof (cases "fst (handleChunk H fault s tid num header b) = s")
  case False
  then obtain st where st: "server_state s tid = Some st"
    by (auto simp: handleChunk_def split: option.splits)
  then have svSt: "svSt s = Some st"
    by (auto simp: server_state_def split: option.splits if_splits)
  obtain i where i: "num = Some i" "0 \<le> i" "i < NumChunks (stPlan st)"
    using False st by (auto simp: handleChunk_def split: option.splits if_splits)
  obtain st1 dk res where r: "receiveChunk H fault st (svDisk s) (nat i) (ToLower header) b = (st1, dk, res)"
    by (cases "receiveChunk H fault st (svDisk s) (nat i) (ToLower header) b")
  have "\<not> ChunkDone st (nat i)" "fst (handleChunk H fault s tid num header b) = s\<lparr>svSt := Some st1, svDisk := dk\<rparr>"
    using False st i r by (auto simp: handleChunk_def Let_def split: if_splits)
  then show thesis
    using that(2) [OF svSt _ _ r] i by simp
qed (use that in blast)

lemma after_crash_marks:
  assumes "marks_safe st dk b" and "crash_leaves dk (Some b) rest"
  shows "marks_safe st (after_crash dk (Some b) rest) b"
proof -
  have "get rest n = Some data" if "get (dkSynced dk) n = Some data" for n data
    using assms(2) that by (auto simp: crash_leaves_def dest: map_of_SomeD) (metis fst_conv image_eqI map_of_SomeD)
  then show ?thesis
    using assms(1) by (force simp: marks_safe_def safe_chunk_def after_crash_def)
qed

lemma restart_state:
  assumes ok: "crash_ok unmarshal st dk" and leaves: "crash_leaves dk bm rest" and token: "token \<noteq> []"
  obtains b where "bm = Some b" and "b \<in> set (dkCrash dk)"
    and "NewServer unmarshal token (after_crash dk bm rest) =
      Inr \<lparr>svToken = token, svSt = Some (st\<lparr>stBitmap := b\<rparr>), svPhase = PhaseReceiving, svReport = None,
           svDisk = after_crash dk bm rest\<rparr>"
    and "resume_inv unmarshal (st\<lparr>stBitmap := b\<rparr>) (after_crash dk bm rest)"
proof -
  obtain b where b: "bm = Some b" "b \<in> set (dkCrash dk)"
    using ok leaves by (auto simp: crash_ok_def crash_leaves_def split: option.splits)
  then have "marks_safe st (after_crash dk bm rest) b"
    using after_crash_marks ok leaves by (auto simp: crash_ok_def)
  then have marks: "marks_safe (st\<lparr>stBitmap := b\<rparr>) (after_crash dk bm rest) b"
    by (rule marks_safe_same) simp_all
  then have "LoadState unmarshal (after_crash dk bm rest) = Inr (Some (st\<lparr>stBitmap := b\<rparr>))"
    using ok b by (cases st) (simp add: LoadState_def crash_ok_def after_crash_def marks_safe_def)
  then have "NewServer unmarshal token (after_crash dk bm rest) =
      Inr \<lparr>svToken = token, svSt = Some (st\<lparr>stBitmap := b\<rparr>), svPhase = PhaseReceiving, svReport = None,
           svDisk = after_crash dk bm rest\<rparr>"
    using token by (simp add: NewServer_def)
  moreover have "resume_inv unmarshal (st\<lparr>stBitmap := b\<rparr>) (after_crash dk bm rest)"
    using ok b marks by (simp add: resume_inv_def crash_ok_def after_crash_def)
  ultimately show thesis using that b by blast
qed

lemma restart_idle:
  assumes "dkManifest dk = None" and "token \<noteq> []"
  shows "NewServer unmarshal token (after_crash dk bm rest) =
    Inr \<lparr>svToken = token, svSt = None, svPhase = PhaseWaiting, svReport = None, svDisk = after_crash dk bm rest\<rparr>"
  using assms by (simp add: NewServer_def LoadState_def after_crash_def)

lemma reach_inv: "ingest_reach H unmarshal commit token s \<Longrightarrow> ingest_inv unmarshal s \<and> idle_inv s"
proof (induction rule: ingest_reach.induct)
  case reach_start
  then show ?case by (simp add: ingest_inv_def idle_inv_def empty_dir_def)
next
  case (reach_manifest s tid raw)
  then show ?case using handleManifest_inv by blast
next
  case (reach_chunk s fault tid num header b)
  show ?case
  proof (cases rule: handleChunk_cases [of H fault s tid num header b])
    case 1
    then show ?thesis using reach_chunk by simp
  next
    case (2 st n st1 dk res)
    then have "resume_inv unmarshal st1 dk"
      using reach_chunk receiveChunk_inv(2) by (auto simp: ingest_inv_def)
    then show ?thesis
      using 2(5) by (simp add: ingest_inv_def idle_inv_def)
  qed
next
  case (reach_finalize s tid)
  then show ?case
    by (auto simp: handleFinalize_def ingest_inv_def idle_inv_def empty_dir_def split: option.splits)
next
  case (reach_abort s)
  then show ?case
    by (auto simp: handleAbort_def ingest_inv_def idle_inv_def empty_dir_def split: option.splits)
next
  case (reach_restart s bm rest s')
  have token: "token \<noteq> []"
    using reach_restart by (auto simp: NewServer_def)
  show ?case
  proof (cases "svSt s")
    case None
    then have "dkManifest (svDisk s) = None" using reach_restart by (simp add: idle_inv_def)
    then show ?thesis
      using restart_idle [OF _ token] reach_restart by (auto simp: ingest_inv_def idle_inv_def after_crash_def)
  next
    case (Some st)
    then have "crash_ok unmarshal st (svDisk s)"
      using reach_restart resume_inv_crash_ok by (simp add: ingest_inv_def)
    then obtain b where "NewServer unmarshal token (after_crash (svDisk s) bm rest) =
        Inr \<lparr>svToken = token, svSt = Some (st\<lparr>stBitmap := b\<rparr>), svPhase = PhaseReceiving, svReport = None,
             svDisk = after_crash (svDisk s) bm rest\<rparr>"
      and "resume_inv unmarshal (st\<lparr>stBitmap := b\<rparr>) (after_crash (svDisk s) bm rest)"
      using reach_restart.hyps(2) token by (rule restart_state)
    then show ?thesis
      using reach_restart.hyps(3) by (auto simp: ingest_inv_def idle_inv_def)
  qed
qed


definition demo_digest :: digest where
  "demo_digest data = replicate 64 (if data = ''end'' then CHR ''1'' else CHR ''0'')"

definition demo_unmarshal :: "string \<Rightarrow> manifest option" where
  "demo_unmarshal raw = (if raw = ''m'' then Some demo_manifest else None)"

definition demo_send :: "recv_fault option \<Rightarrow> nat \<Rightarrow> Server \<Rightarrow> Server" where
  "demo_send fault n s =
     fst (handleChunk demo_digest fault s ''t1'' (Some (int n)) (replicate 64 (CHR ''0''))
            (Stream (payload demo_manifest demo_contents n) False))"

definition demo_server :: Server where
  "demo_server =
     demo_send None 0 (fst (handleManifest demo_digest demo_unmarshal None
       \<lparr>svToken = ''k'', svSt = None, svPhase = PhaseWaiting, svReport = None, svDisk = empty_dir\<rparr> ''t1'' (Some ''m'')))"

lemma demo_server_reach: "ingest_reach demo_digest demo_unmarshal (\<lambda>_ _. None) ''k'' demo_server"
  unfolding demo_server_def demo_send_def by (intro reach_chunk reach_manifest reach_start) simp


subsection \<open>Where the resume state is wrong\<close>

text \<open>
  A manifest that fails after the directory was cleared leaves the server in a false state: it
  answers with an error, the staged chunks of the transfer it was bound to are gone, and yet it goes
  on reporting all of them as done to that transfer, whose exporter will not send them again.
\<close>

lemma failed_init_keeps_claims:
  assumes "svSt s = Some st" and "Decode unmarshal raw = Inr m" and "tid \<noteq> stTransferID st"
    and "fault \<in> {InitMkdir, InitManifest, InitID}"
  shows "case handleManifest H unmarshal (Some fault) s tid (Some raw) of (s1, code) \<Rightarrow>
    code = 500 \<and> dkChunks (svDisk s1) = [] \<and>
    handleState H s1 (stTransferID st) = Some (H (stRaw st), NumChunks (stPlan st), stBitmap st)"
  using assms
  by (auto simp: handleManifest_def InitState_def handleState_def server_state_def empty_dir_def)

text \<open>
  When the directory sync after the bitmap rename fails, the mark is taken back in memory only.
  The exporter resends chunk 1, which truncates its file; a crash at that moment may leave the renamed
  bitmap, and the restarted server then reports chunk 1 as done although the chunk is lost.
\<close>

lemma failed_sync_leaves_a_stale_mark:
  "case svDisk (demo_send (Some (RecvWrite 0)) 1 (demo_send (Some (RecvMark DirSync)) 1 demo_server)) of
     dk \<Rightarrow> crash_leaves dk (Some [3]) (dkSynced dk) \<and>
       (case NewServer demo_unmarshal ''k'' (after_crash dk (Some [3]) (dkSynced dk)) of
          Inl err \<Rightarrow> False
        | Inr s \<Rightarrow>
            (case svSt s of None \<Rightarrow> False | Some st \<Rightarrow> ChunkDone st 1 \<and> get (dkChunks (svDisk s)) 1 = None))"
  by code_simp

text \<open>
  The handler of a chunk holds no lock, so two uploads of one chunk can be in \<open>receiveChunk\<close> at once: when
  the exporter has given up on an attempt and its retry has been received and marked, the earlier
  handler, which had found the chunk unmarked, may only now open the staged file. It truncates it, and
  its dead connection ends it there: the chunk stays marked and its bytes are gone.
\<close>

lemma late_attempt_truncates_a_marked_chunk:
  "case svSt demo_server of
     None \<Rightarrow> False
   | Some st \<Rightarrow>
       (case receiveChunk demo_digest None st (svDisk demo_server) 1 (replicate 64 (CHR ''0''))
               (Stream (payload demo_manifest demo_contents 1) False) of
          (st1, dk1, r1) \<Rightarrow>
            (case receiveChunk demo_digest None st1 dk1 1 (replicate 64 (CHR ''0'')) (Stream [] True) of
               (st2, dk2, r2) \<Rightarrow> r1 = Received \<and> r2 = PayloadError \<and> ChunkDone st2 1 \<and> get (dkChunks dk2) 1 = Some []))"
  by code_simp

subsection \<open>A clean finalize\<close>

definition good_result :: "FileResult \<Rightarrow> bool" where
  "good_result f \<longleftrightarrow> frMatch f \<and> \<not> frError f"

lemma reportClean_iff: "reportClean r \<longleftrightarrow> list_all good_result (rpFiles r)"
  by (auto simp: reportClean_def failedCount_def good_result_def list_all_iff filter_empty_conv)

abbreviation entry :: "State \<Rightarrow> nat \<Rightarrow> mentry" where
  "entry st i \<equiv> mfEntries (stManifest st) ! i"

definition delivered :: "digest \<Rightarrow> State \<Rightarrow> disk \<Rightarrow> nat \<Rightarrow> bucket \<Rightarrow> bool" where
  "delivered H st dk i bucket \<longleftrightarrow>
     (mType (entry st i) = TypeFile \<longrightarrow>
        (\<exists>data. get bucket (mPath (entry st i)) = Some data \<and>
           AssembleEntry st dk i = Some (Inr data) \<and> H data = mSHA256 (entry st i)))"

lemma commit_entry_good:
  assumes "commit_entry H env st dk i bucket = (bucket1, res)" and "good_result res"
  shows "delivered H st dk i bucket1"
  using assms
  by (auto simp: commit_entry_def delivered_def good_result_def Let_def update_conv'
      split: if_splits option.splits sum.splits)

lemma commit_entry_frame:
  assumes "commit_entry H env st dk i bucket = (bucket1, res)" and "mType (entry st i) \<noteq> TypeFile \<or> k \<noteq> mPath (entry st i)"
  shows "get bucket1 k = get bucket k"
  using assms
  by (auto simp: commit_entry_def Let_def update_conv' split: if_splits option.splits sum.splits)

lemma commit_entries_files:
  "commit_entries H env st dk is bucket files = (bucket', Some files') \<Longrightarrow> \<exists>new. files' = files @ new"
  by (induction "is" arbitrary: bucket files) (fastforce split: if_splits prod.splits)+

lemma commit_entries_frame:
  assumes "commit_entries H env st dk is bucket files = (bucket', Some files')"
    and "\<And>i. i \<in> set is \<Longrightarrow> mType (entry st i) \<noteq> TypeFile \<or> k \<noteq> mPath (entry st i)"
  shows "get bucket' k = get bucket k"
  using assms
proof (induction "is" arbitrary: bucket files)
  case (Cons i "is")
  obtain bucket1 res where step: "commit_entry H env st dk i bucket = (bucket1, res)"
    by (cases "commit_entry H env st dk i bucket")
  have "get bucket' k = get bucket1 k"
    using Cons.prems step by (intro Cons.IH [of bucket1 "files @ [res]"]) (auto split: if_splits)
  then show ?case
    using commit_entry_frame [OF step] Cons.prems(2) by simp
qed simp

lemma commit_entries_good:
  assumes "commit_entries H env st dk is bucket files = (bucket', Some files')" and "list_all good_result files'"
    and "distinct (map (\<lambda>i. mPath (entry st i)) is)" and "i \<in> set is"
  shows "delivered H st dk i bucket'"
  using assms
proof (induction "is" arbitrary: bucket files)
  case (Cons j "is")
  obtain bucket1 res where step: "commit_entry H env st dk j bucket = (bucket1, res)"
    by (cases "commit_entry H env st dk j bucket")
  then have rest: "commit_entries H env st dk is bucket1 (files @ [res]) = (bucket', Some files')"
    using Cons.prems(1) by (simp split: if_splits)
  show ?case
  proof (cases "i \<in> set is")
    case True
    then show ?thesis using Cons.IH [OF rest] Cons.prems by simp
  next
    case False
    then have "i = j" using Cons.prems by simp
    have "good_result res"
      using commit_entries_files [OF rest] Cons.prems(2) by auto
    then have "delivered H st dk i bucket1"
      using commit_entry_good [OF step] \<open>i = j\<close> by simp
    moreover have "get bucket' (mPath (entry st i)) = get bucket1 (mPath (entry st i))"
      using Cons.prems(3) \<open>i = j\<close> by (intro commit_entries_frame [OF rest]) auto
    ultimately show ?thesis by (simp add: delivered_def)
  qed
qed simp

lemma remove_keys_effect:
  assumes "remove_keys env keep ks bucket deleted = (bucket', Some deleted')"
  shows "get bucket' k = (if k \<in> set ks - set keep then None else get bucket k) \<and>
    set deleted' = set deleted \<union> (set ks - set keep)"
  using assms
  by (induction ks arbitrary: bucket deleted) (auto simp: delete_conv' split: if_splits)

lemma in_keys_iff: "k \<in> set (keys m) \<longleftrightarrow> get m k \<noteq> None"
  by (simp add: map_of_eq_None_iff)

text \<open>
  A finalize that reports no failed file has done its work: every file of the manifest is in the
  bucket with contents that were assembled from the staged chunks and whose hash is the manifest's;
  the bucket holds nothing else; and the report lists as deleted exactly the earlier objects that the
  manifest does not have.
\<close>

lemma clean_commit_is_exact:
  assumes "Validate (stManifest st) = None" and "ObjectCommit H env st dk bucket = (bucket', Some r)" and "reportClean r"
  shows "(\<forall>i < length (mfEntries (stManifest st)). delivered H st dk i bucket') \<and>
    (\<forall>k. get bucket' k \<noteq> None \<longleftrightarrow> (\<exists>e \<in> set (mfEntries (stManifest st)). mType e = TypeFile \<and> mPath e = k)) \<and>
    (\<forall>k. k \<in> set (rpDeleted r) \<longleftrightarrow>
       get bucket k \<noteq> None \<and> \<not> (\<exists>e \<in> set (mfEntries (stManifest st)). mType e = TypeFile \<and> mPath e = k))"
proof -
  let ?es = "mfEntries (stManifest st)"
  define idx where "idx = [0..<length ?es]"
  define keep where "keep = map mPath (filter (\<lambda>e. mType e = TypeFile) ?es)"
  obtain bucket1 files deleted where run: "commit_entries H env st dk idx bucket [] = (bucket1, Some files)"
    and rm: "remove_keys env keep (keys bucket1) bucket1 [] = (bucket', Some deleted)"
    and r: "r = \<lparr>rpFiles = files, rpDeleted = deleted\<rparr>"
    using assms(2) by (auto simp: ObjectCommit_def Let_def idx_def keep_def split: if_splits prod.splits option.splits)
  have "map (\<lambda>i. mPath (entry st i)) idx = map mPath ?es"
    by (rule nth_equalityI) (simp_all add: idx_def)
  then have distinct: "distinct (map (\<lambda>i. mPath (entry st i)) idx)"
    using Validate_facts(2) [OF assms(1)] by simp
  have "list_all good_result files"
    using assms(3) r by (simp add: reportClean_iff)
  then have put: "delivered H st dk i bucket1" if "i < length ?es" for i
    using commit_entries_good [OF run _ distinct] that by (simp add: idx_def)
  have keep: "k \<in> set keep \<longleftrightarrow> (\<exists>e \<in> set ?es. mType e = TypeFile \<and> mPath e = k)" for k
    by (auto simp: keep_def)
  have frame: "get bucket1 k = get bucket k" if "k \<notin> set keep" for k
    using that by (intro commit_entries_frame [OF run]) (auto simp: keep idx_def)
  have final: "get bucket' k = (if k \<in> set keep then get bucket1 k else None)" for k
    using remove_keys_effect [OF rm, of k] in_keys_iff [of k bucket1] by (simp del: set_map)
  have "delivered H st dk i bucket'" if "i < length ?es" for i
    using put [OF that] that by (auto simp: delivered_def final keep)
  moreover have "get bucket1 k \<noteq> None" if mem: "k \<in> set keep" for k
  proof -
    obtain e where e: "e \<in> set ?es" "mType e = TypeFile" "mPath e = k"
      using mem unfolding keep by blast
    obtain i where i: "i < length ?es" "entry st i = e"
      using e(1) unfolding in_set_conv_nth by blast
    then have "mType (entry st i) = TypeFile" "mPath (entry st i) = k"
      using e by simp_all
    with i show ?thesis using put [of i] by (auto simp: delivered_def)
  qed
  moreover have "k \<in> set deleted \<longleftrightarrow> get bucket k \<noteq> None \<and> k \<notin> set keep" for k
    using remove_keys_effect [OF rm, of k] frame [of k] in_keys_iff [of k bucket1] by (simp del: set_map) metis
  ultimately show ?thesis
    using final keep r by auto
qed

definition demo_env :: s3_env where
  "demo_env = \<lparr>seBucket = True, seCtx = \<lambda>_. True, seScratch = \<lambda>_. True, sePut = \<lambda>_. True, seList = True, seRemove = \<lambda>_. True\<rparr>"

end
