(* ===== verification/Datamover_Transfer.thy ===== *)
theory Datamover_Transfer
  imports Datamover_Upload Datamover_Properties
begin

text \<open>
  A whole transfer: the exporter of \<open>Datamover_Export\<close> against the server of \<open>Datamover_Ingest\<close> and its
  object-store committer, over a network that may lose a request, lose the answer to it, or change
  the body of an upload, with faults of the target and requests of other clients in between.
\<close>

subsection \<open>The target and the network\<close>

record mover =
  mvServer :: Server
  mvBucket :: bucket

text \<open>
  What can happen to the target. \<open>OpRestart dk\<close> is a start on the directory \<open>dk\<close> that a stop or a crash
  has left; a start that fails leaves nothing to answer, which is a lost request.
\<close>

datatype server_op =
    OpManifest "init_fault option" string string
  | OpChunk "recv_fault option" string "int option" string body
  | OpFinalize s3_env "disk option" string
  | OpAbort "disk option"
  | OpRestart disk

definition maxManifestBytes :: int where
  "maxManifestBytes = 2 ^ 30"

definition finalize_op :: "digest \<Rightarrow> s3_env \<Rightarrow> disk option \<Rightarrow> string \<Rightarrow> mover \<Rightarrow> answer \<times> mover" where
  "finalize_op H env destroyed tid w =
     (let s = mvServer w;
          commit = (\<lambda>st dk. snd (ObjectCommit H env st dk (mvBucket w)));
          bucket = (case svSt s of
                      None \<Rightarrow> mvBucket w
                    | Some st \<Rightarrow>
                        if tid = stTransferID st \<and> AllChunksDone st
                        then fst (ObjectCommit H env st (svDisk s) (mvBucket w)) else mvBucket w)
      in case handleFinalize commit destroyed s tid of
           (s1, status, report) \<Rightarrow>
             (Some (status, case report of None \<Rightarrow> NoBody | Some r \<Rightarrow> ReportBody r), \<lparr>mvServer = s1, mvBucket = bucket\<rparr>))"

fun mover_op :: "digest \<Rightarrow> (string \<Rightarrow> manifest option) \<Rightarrow> server_op \<Rightarrow> mover \<Rightarrow> answer \<times> mover" where
  "mover_op H um (OpManifest fault tid raw) w =
     (case handleManifest H um fault (mvServer w) tid (if maxManifestBytes < int (length raw) then None else Some raw) of
        (s, status) \<Rightarrow> (Some (status, NoBody), w\<lparr>mvServer := s\<rparr>))"
| "mover_op H um (OpChunk fault tid num header b) w =
     (case handleChunk H fault (mvServer w) tid num header b of
        (s, status) \<Rightarrow> (Some (status, NoBody), w\<lparr>mvServer := s\<rparr>))"
| "mover_op H um (OpFinalize env destroyed tid) w = finalize_op H env destroyed tid w"
| "mover_op H um (OpAbort destroyed) w =
     (case handleAbort destroyed (mvServer w) of (s, status) \<Rightarrow> (Some (status, NoBody), w\<lparr>mvServer := s\<rparr>))"
| "mover_op H um (OpRestart dk) w =
     (case NewServer um (svToken (mvServer w)) dk of Inl err \<Rightarrow> (None, w) | Inr s \<Rightarrow> (None, w\<lparr>mvServer := s\<rparr>))"

definition mover_ops :: "digest \<Rightarrow> (string \<Rightarrow> manifest option) \<Rightarrow> server_op list \<Rightarrow> mover \<Rightarrow> mover" where
  "mover_ops H um ops w = fold (\<lambda>x w. snd (mover_op H um x w)) ops w"

definition state_op :: "digest \<Rightarrow> string \<Rightarrow> mover \<Rightarrow> answer \<times> mover" where
  "state_op H tid w =
     (case handleState H (mvServer w) tid of
        None \<Rightarrow> (Some (409, NoBody), w)
      | Some (d, n, b) \<Rightarrow> (Some (200, StateBody d n b), w))"

definition authed :: "digest \<Rightarrow> string \<Rightarrow> (mover \<Rightarrow> answer \<times> mover) \<Rightarrow> mover \<Rightarrow> answer \<times> mover" where
  "authed H token serve w =
     (if requireAuth H (mvServer w) (''Bearer '' @ token) then serve w else (Some (401, NoBody), w))"

text \<open>A call meets what happened at the target before it, and may be lost, or its answer may.\<close>

datatype trip = Lost | NoReply | Through

record trip_call =
  caBefore :: "server_op list"
  caTrip :: trip

definition deliver ::
  "digest \<Rightarrow> (string \<Rightarrow> manifest option) \<Rightarrow> trip_call \<Rightarrow> (mover \<Rightarrow> answer \<times> mover) \<Rightarrow> mover \<Rightarrow> answer \<times> mover" where
  "deliver H um ca serve w =
     (let w1 = mover_ops H um (caBefore ca) w
      in case caTrip ca of
           Lost \<Rightarrow> (None, w1)
         | NoReply \<Rightarrow> (None, snd (serve w1))
         | Through \<Rightarrow> serve w1)"

record network =
  nwManifest :: "trip_call \<times> init_fault option"
  nwState :: trip_call
  nwChunk :: "nat \<Rightarrow> nat \<Rightarrow> trip_call \<times> (body \<Rightarrow> body) \<times> recv_fault option"
  nwFinalize :: "trip_call \<times> s3_env \<times> disk option"

definition mover_link :: "digest \<Rightarrow> (string \<Rightarrow> manifest option) \<Rightarrow> network \<Rightarrow> string \<Rightarrow> string \<Rightarrow> mover link" where
  "mover_link H um nw tid token =
     \<lparr>lkManifest = (\<lambda>raw. deliver H um (fst (nwManifest nw)) (authed H token (mover_op H um (OpManifest (snd (nwManifest nw)) tid raw)))),
      lkState = deliver H um (nwState nw) (authed H token (state_op H tid)),
      lkChunk = (\<lambda>n k h b. case nwChunk nw n k of
                   (ca, change, fault) \<Rightarrow>
                     deliver H um ca (authed H token (mover_op H um (OpChunk fault tid (Some (int n)) h (change b))))),
      lkFinalize = (case nwFinalize nw of
                      (ca, env, destroyed) \<Rightarrow> deliver H um ca (authed H token (mover_op H um (OpFinalize env destroyed tid))))\<rparr>"

text \<open>A transfer of the client \<open>c\<close>.\<close>

definition transfer ::
  "digest \<Rightarrow> (manifest \<Rightarrow> string option) \<Rightarrow> (string \<Rightarrow> manifest option) \<Rightarrow> source \<Rightarrow> network \<Rightarrow> Client \<Rightarrow> move list \<Rightarrow> mover \<Rightarrow>
     ((transfer_error + unit) \<times> mover) option" where
  "transfer H encode um src nw c mvs w = Run H encode src (mover_link H um nw (clTransferID c) (clToken c)) c mvs w"

subsection \<open>A verified transfer is on the target\<close>

definition result_holds :: "digest \<Rightarrow> bucket \<Rightarrow> FileResult \<Rightarrow> bool" where
  "result_holds H bucket f \<longleftrightarrow>
     (good_result f \<and> frSHA256 f \<noteq> [] \<longrightarrow> (\<exists>data. get bucket (frPath f) = Some data \<and> H data = frSHA256 f))"

definition mover_inv :: "digest \<Rightarrow> mover \<Rightarrow> bool" where
  "mover_inv H w \<longleftrightarrow>
     (\<forall>st. svSt (mvServer w) = Some st \<longrightarrow> Validate (stManifest st) = None) \<and>
     (svPhase (mvServer w) = PhaseCompleted \<longrightarrow>
        (\<forall>r. svReport (mvServer w) = Some r \<longrightarrow> list_all (result_holds H (mvBucket w)) (rpFiles r)))"

lemma commit_entry_holds:
  assumes "commit_entry H env st dk i bucket = (bucket1, res)"
  shows "result_holds H bucket1 res \<and> frPath res = mPath (entry st i)"
  using assms
  by (auto simp: commit_entry_def result_holds_def good_result_def Let_def update_conv'
      split: if_splits option.splits sum.splits)

lemma commit_entries_hold:
  assumes "commit_entries H env st dk is bucket files = (bucket', Some files')"
    and "distinct (map (\<lambda>i. mPath (entry st i)) is)" and "list_all (result_holds H bucket) files"
    and "set (map frPath files) \<inter> set (map (\<lambda>i. mPath (entry st i)) is) = {}"
  shows "list_all (result_holds H bucket') files' \<and>
    set (map frPath files') = set (map frPath files) \<union> set (map (\<lambda>i. mPath (entry st i)) is)"
  using assms
proof (induction "is" arbitrary: bucket files)
  case (Cons i "is")
  obtain bucket1 res where step: "commit_entry H env st dk i bucket = (bucket1, res)"
    by (cases "commit_entry H env st dk i bucket")
  then have rest: "commit_entries H env st dk is bucket1 (files @ [res]) = (bucket', Some files')"
    using Cons.prems(1) by (simp split: if_splits)
  have res: "result_holds H bucket1 res" "frPath res = mPath (entry st i)"
    using commit_entry_holds [OF step] by simp_all
  have "result_holds H bucket1 f" if "f \<in> set files" for f
  proof -
    have "frPath f \<noteq> mPath (entry st i)" "result_holds H bucket f"
      using that Cons.prems(3,4) by (auto simp: list_all_iff) (metis image_eqI)
    then show ?thesis
      using commit_entry_frame [OF step, of "frPath f"] by (simp add: result_holds_def)
  qed
  then show ?case
    using Cons.IH [OF rest] Cons.prems(2,4) res by (auto simp: list_all_iff)
qed simp

lemma remove_keys_keep:
  "remove_keys env keep ks bucket deleted = (bucket', Some deleted') \<Longrightarrow> k \<in> set keep \<Longrightarrow> get bucket' k = get bucket k"
  using remove_keys_effect by fastforce

lemma commit_entry_type:
  "commit_entry H env st dk i bucket = (bucket1, res) \<Longrightarrow> good_result res \<Longrightarrow> frSHA256 res \<noteq> [] \<Longrightarrow> mType (entry st i) = TypeFile"
  by (auto simp: commit_entry_def good_result_def Let_def split: if_splits)

lemma commit_entries_type:
  "commit_entries H env st dk is bucket files = (bucket', Some files') \<Longrightarrow> f \<in> set files' - set files \<Longrightarrow>
     good_result f \<Longrightarrow> frSHA256 f \<noteq> [] \<Longrightarrow> \<exists>i \<in> set is. mType (entry st i) = TypeFile \<and> mPath (entry st i) = frPath f"
proof (induction "is" arbitrary: bucket files)
  case (Cons i "is")
  obtain bucket1 res where step: "commit_entry H env st dk i bucket = (bucket1, res)"
    by (cases "commit_entry H env st dk i bucket")
  then have rest: "commit_entries H env st dk is bucket1 (files @ [res]) = (bucket', Some files')"
    using Cons.prems(1) by (simp split: if_splits)
  show ?case
  proof (cases "f = res")
    case True
    then show ?thesis
      using commit_entry_type [OF step] commit_entry_holds [OF step] Cons.prems(3,4) by auto
  next
    case False
    then show ?thesis using Cons.IH [OF rest] Cons.prems(2-4) by auto
  qed
qed simp

lemma commit_report_holds:
  assumes "Validate (stManifest st) = None" and "ObjectCommit H env st dk bucket = (bucket', Some r)"
  shows "list_all (result_holds H bucket') (rpFiles r)"
proof -
  let ?es = "mfEntries (stManifest st)"
  define idx where "idx = [0..<length ?es]"
  define keep where "keep = map mPath (filter (\<lambda>e. mType e = TypeFile) ?es)"
  obtain bucket1 files deleted where run: "commit_entries H env st dk idx bucket [] = (bucket1, Some files)"
    and rm: "remove_keys env keep (keys bucket1) bucket1 [] = (bucket', Some deleted)"
    and r: "r = \<lparr>rpFiles = files, rpDeleted = deleted\<rparr>"
    using assms(2) by (auto simp: ObjectCommit_def Let_def idx_def keep_def split: if_splits prod.splits option.splits)
  have "map (\<lambda>i. mPath (entry st i)) idx = map mPath ?es"
    by (rule nth_equalityI) (simp_all add: idx_def)
  then have "distinct (map (\<lambda>i. mPath (entry st i)) idx)"
    using Validate_facts(2) [OF assms(1)] by simp
  then have holds: "list_all (result_holds H bucket1) files"
    using commit_entries_hold [OF run] by simp
  have "result_holds H bucket' f" if f: "f \<in> set files" for f
  proof (cases "good_result f \<and> frSHA256 f \<noteq> []")
    case True
    then obtain i where i: "i \<in> set idx" "mType (entry st i) = TypeFile" "mPath (entry st i) = frPath f"
      using commit_entries_type [OF run, of f] f by auto
    then have "frPath f \<in> set keep"
      by (force simp: keep_def idx_def)
    then have "get bucket' (frPath f) = get bucket1 (frPath f)" by (rule remove_keys_keep [OF rm])
    then show ?thesis using holds f by (auto simp: list_all_iff result_holds_def)
  next
    case False
    then show ?thesis unfolding result_holds_def by blast
  qed
  then show ?thesis using r by (simp add: list_all_iff)
qed

lemma MarkChunk_manifest: "MarkChunk fault st dk n = (st1, dk1, res) \<Longrightarrow> stManifest st1 = stManifest st"
  by (auto simp: MarkChunk_def split: option.splits prod.splits bool.splits)

lemma receiveChunk_manifest: "receiveChunk H fault st dk n h b = (st1, dk1, res) \<Longrightarrow> stManifest st1 = stManifest st"
  by (erule receiveChunk_cases) (auto dest: MarkChunk_manifest)

lemma Decode_valid: "Decode um raw = Inr m \<Longrightarrow> Validate m = None"
  by (auto simp: Decode_def split: option.splits)

lemma handleManifest_valid:
  assumes "handleManifest H um fault s tid raw = (s1, status)" and "\<forall>st. svSt s = Some st \<longrightarrow> Validate (stManifest st) = None"
  shows "(\<forall>st. svSt s1 = Some st \<longrightarrow> Validate (stManifest st) = None) \<and>
    (svPhase s1 = PhaseCompleted \<longrightarrow> svPhase s = PhaseCompleted \<and> svReport s1 = svReport s)"
  using assms
  by (auto simp: handleManifest_def InitState_def Let_def
      split: option.splits sum.splits if_splits prod.splits init_fault.splits) (auto dest: Decode_valid)

lemma LoadState_valid: "LoadState um dk = Inr (Some st) \<Longrightarrow> Validate (stManifest st) = None"
  by (auto simp: LoadState_def dest: Decode_valid split: option.splits sum.splits if_splits)

lemma finalize_op_inv:
  assumes "mover_inv H w" and "finalize_op H env destroyed tid w = (a, w1)"
  shows "mover_inv H w1 \<and> (\<forall>status r. a = Some (status, ReportBody r) \<longrightarrow> list_all (result_holds H (mvBucket w1)) (rpFiles r))"
proof (cases "svSt (mvServer w)")
  case None
  then show ?thesis
    using assms by (auto simp: finalize_op_def handleFinalize_def mover_inv_def Let_def split: if_splits option.splits)
next
  case (Some st)
  then have valid: "Validate (stManifest st) = None" using assms(1) by (simp add: mover_inv_def)
  show ?thesis
  proof (cases "tid = stTransferID st \<and> AllChunksDone st")
    case False
    then show ?thesis
      using assms Some by (cases w) (auto simp: finalize_op_def handleFinalize_def Let_def split: if_splits)
  next
    case True
    obtain bucket rep where commit: "ObjectCommit H env st (svDisk (mvServer w)) (mvBucket w) = (bucket, rep)"
      by (cases "ObjectCommit H env st (svDisk (mvServer w)) (mvBucket w)")
    show ?thesis
    proof (cases rep)
      case None
      then show ?thesis
        using assms Some True commit valid by (auto simp: finalize_op_def handleFinalize_def mover_inv_def Let_def)
    next
      case (Some r)
      then have "list_all (result_holds H bucket) (rpFiles r)"
        using commit_report_holds [OF valid] commit by simp
      then show ?thesis
        using assms \<open>svSt (mvServer w) = Some st\<close> True commit Some valid
        by (auto simp: finalize_op_def handleFinalize_def mover_inv_def Let_def split: if_splits)
    qed
  qed
qed

lemma mover_op_inv: "mover_inv H w \<Longrightarrow> mover_inv H (snd (mover_op H um x w))"
proof (cases x)
  case (OpManifest fault tid raw)
  then show ?thesis if "mover_inv H w"
    using that handleManifest_valid [of H um fault "mvServer w" tid] by (auto simp: mover_inv_def split: prod.splits)
next
  case (OpChunk fault tid num header b)
  then show ?thesis if inv: "mover_inv H w"
    using inv by (cases rule: handleChunk_cases [of H fault "mvServer w" tid num header b])
      (auto simp: mover_inv_def case_prod_beta dest!: receiveChunk_manifest)
next
  case (OpFinalize env destroyed tid)
  then show ?thesis if "mover_inv H w"
    using finalize_op_inv [OF that] by (cases "finalize_op H env destroyed tid w") simp
next
  case (OpAbort destroyed)
  then show ?thesis if "mover_inv H w"
    using that by (auto simp: mover_inv_def handleAbort_def split: option.splits)
next
  case (OpRestart dk)
  then show ?thesis if "mover_inv H w"
    using that
    by (auto simp: mover_inv_def NewServer_def dest: LoadState_valid split: sum.splits option.splits if_splits)
qed

lemma mover_ops_inv: "mover_inv H w \<Longrightarrow> mover_inv H (mover_ops H um ops w)"
  unfolding mover_ops_def by (induction ops arbitrary: w) (simp_all add: mover_op_inv)

lemma deliver_inv:
  assumes "mover_inv H w" and "\<And>w. mover_inv H w \<Longrightarrow> mover_inv H (snd (serve w))"
  shows "mover_inv H (snd (deliver H um ca serve w))"
  using assms mover_ops_inv by (auto simp: deliver_def Let_def split: trip.splits)

lemma authed_inv: "mover_inv H w \<Longrightarrow> (mover_inv H w \<Longrightarrow> mover_inv H (snd (serve w))) \<Longrightarrow> mover_inv H (snd (authed H token serve w))"
  by (simp add: authed_def)

lemma state_op_same: "snd (state_op H tid w) = w"
  by (simp add: state_op_def split: option.splits)

lemma link_inv:
  assumes "mover_inv H w"
  shows "mover_inv H (snd (lkManifest (mover_link H um nw tid token) raw w))"
    and "mover_inv H (snd (lkState (mover_link H um nw tid token) w))"
    and "mover_inv H (snd (lkChunk (mover_link H um nw tid token) n k h b w))"
  using assms
  by (auto simp: mover_link_def state_op_same case_prod_beta intro!: deliver_inv authed_inv mover_op_inv)

text \<open>What holds of the target is kept by every step of the pool.\<close>

lemma pool_move_target:
  assumes "\<And>n k h b w. I w \<Longrightarrow> I (snd (lkChunk lk n k h b w))"
    and "pool_move H src lk plan A mv (p, w) = Some (p1, w1)" and "I w"
  shows "I w1"
proof (cases mv)
  case (Work i)
  show ?thesis
  proof (cases "plWorkers p ! i")
    case (Trying n k s)
    then show ?thesis
      using assms(2,3) Work assms(1) [of w n k s "stream_spans (sourcePut src n k) (Spans plan (int n)) []"]
      by (auto simp: pool_move_def putChunk_def split: if_splits prod.splits)
  qed (use assms(2,3) Work in \<open>auto simp: pool_move_def split: if_splits sum.splits\<close>)
qed (use assms(2,3) in \<open>auto simp: pool_move_def split: if_splits list.splits worker.splits\<close>)

lemma pool_moves_target:
  assumes "\<And>n k h b w. I w \<Longrightarrow> I (snd (lkChunk lk n k h b w))"
  shows "pool_moves H src lk plan A mvs (p, w) = Some (p1, w1) \<Longrightarrow> I w \<Longrightarrow> I w1"
proof (induction mvs arbitrary: p w)
  case (Cons mv mvs)
  obtain p2 w2 where step: "pool_move H src lk plan A mv (p, w) = Some (p2, w2)"
    using Cons.prems(1) by (auto split: option.splits)
  then show ?case
    using pool_move_target [OF assms step Cons.prems(2)] Cons.IH [of p2 w2] Cons.prems(1) by simp
qed simp

lemma uploadChunks_target:
  assumes "\<And>n k h b w. I w \<Longrightarrow> I (snd (lkChunk lk n k h b w))"
    and "uploadChunks H src lk c plan b mvs w = Some (res, w1)" and "I w"
  shows "I w1"
  using assms(2,3) pool_moves_target [of I lk, OF assms(1)]
  by (auto simp: uploadChunks_def Let_def split: if_splits option.splits prod.splits)

text \<open>The steps of a transfer that succeeds.\<close>

lemma Run_success:
  assumes "Run H encode src lk c0 mvs w = Some (Inr (), w4)"
  obtains raw w1 w2 w3 b report where "Validate (clManifest c0) = None" and "encode (clManifest c0) = Some raw"
    and "postManifest lk raw w = (None, w1)" and "getState H lk raw w1 = (Inr b, w2)"
    and "uploadChunks H src lk (client_defaults c0) (NewPlan (clManifest c0)) b mvs w2 = Some (None, w3)"
    and "finalize lk w3 = (Inr report, w4)" and "verifyReport (clManifest c0) report = []"
  using assms
  by (auto simp: Run_def Let_def client_defaults_def split: option.splits prod.splits sum.splits if_splits)

lemma snd_postManifest: "snd (postManifest lk raw w) = snd (lkManifest lk raw w)"
  by (simp add: postManifest_def split: prod.split)

lemma snd_getState: "snd (getState H lk raw w) = snd (lkState lk w)"
  by (simp add: getState_def split: prod.split)

lemma get_fold_paths:
  "get (fold (\<lambda>r. put (frPath r) r) fs m) p = Some f \<Longrightarrow> f \<in> set fs \<and> frPath f = p \<or> get m p = Some f"
proof (induction fs arbitrary: m)
  case (Cons r fs)
  then have "f \<in> set fs \<and> frPath f = p \<or> get (put (frPath r) r m) p = Some f" by simp
  then show ?case by (auto simp: update_conv' split: if_splits)
qed simp

lemma verifyReport_result:
  assumes "verifyReport m report = []" and "e \<in> set (mfEntries m)"
  obtains f where "f \<in> set (rpFiles report)" and "frPath f = mPath e" and "good_result f" and "frSHA256 f = mSHA256 e"
proof -
  let ?results = "fold (\<lambda>r. put (frPath r) r) (rpFiles report) []"
  have "entry_problem ?results e = []"
    using assms by (simp add: verifyReport_def Let_def)
  then obtain f where f: "get ?results (mPath e) = Some f" "good_result f" "frSHA256 f = mSHA256 e"
    by (auto simp: entry_problem_def good_result_def split: option.splits if_splits)
  then show thesis
    using get_fold_paths [OF f(1)] that by auto
qed

lemma finalize_report:
  assumes "finalize (mover_link H um nw tid token) w = (Inr report, w1)" and "mover_inv H w"
  shows "list_all (result_holds H (mvBucket w1)) (rpFiles report)"
proof -
  obtain ca env destroyed where nw: "nwFinalize nw = (ca, env, destroyed)" by (cases "nwFinalize nw")
  let ?serve = "authed H token (mover_op H um (OpFinalize env destroyed tid))"
  obtain a w2 where d: "deliver H um ca ?serve w = (a, w2)" by (cases "deliver H um ca ?serve w")
  then have lk: "lkFinalize (mover_link H um nw tid token) w = (a, w2)" by (simp add: mover_link_def nw)
  have w2: "w2 = w1" using assms(1) unfolding finalize_def lk by simp
  have res: "(case call_result a of Some err \<Rightarrow> Inl err
      | None \<Rightarrow> (case the a of (_, ReportBody r) \<Rightarrow> Inr r | _ \<Rightarrow> Inl Undecoded)) = Inr report"
    using assms(1) unfolding finalize_def lk by simp
  then obtain status where a: "a = Some (status, ReportBody report)"
    by (cases a) (auto simp: call_result_def split: option.splits prod.splits answer_body.splits)
  define w0 where "w0 = mover_ops H um (caBefore ca) w"
  have inv: "mover_inv H w0" using mover_ops_inv [OF assms(2)] by (simp add: w0_def)
  have "?serve w0 = (a, w1)"
    using d a w2 by (auto simp: deliver_def Let_def w0_def split: trip.splits)
  then have "finalize_op H env destroyed tid w0 = (a, w1)"
    using a by (auto simp: authed_def split: if_splits)
  then show ?thesis
    using finalize_op_inv [OF inv] a by blast
qed

text \<open>
  C35. A transfer that reports success has delivered. The target may have any history of manifests, uploads,
  finalizes, aborts and restarts from damaged directories, other clients may use it between any two
  calls of the exporter, the network may lose calls and answers and change uploads, the source may
  change between its reads, and the workers may run in any order: if the exporter ends with success,
  every file of its manifest is an object of the target's bucket whose contents have the digest of
  the manifest. This holds even when the report it was shown is the replay of an earlier finalize.
\<close>

theorem verified_transfer_is_on_target:
  assumes "svSt (mvServer w0) = None" and "svReport (mvServer w0) = None" and "w = mover_ops H um history w0"
    and "transfer H encode um src nw c mvs w = Some (Inr (), w1)"
    and "e \<in> set (mfEntries (clManifest c))" and "mType e = TypeFile"
  shows "\<exists>data. get (mvBucket w1) (mPath e) = Some data \<and> H data = mSHA256 e"
proof -
  let ?lk = "mover_link H um nw (clTransferID c) (clToken c)"
  have "mover_inv H w0" using assms(1,2) by (simp add: mover_inv_def)
  then have inv: "mover_inv H w" using mover_ops_inv assms(3) by simp
  obtain raw wa wb wc b report where valid: "Validate (clManifest c) = None"
    and post: "postManifest ?lk raw w = (None, wa)" and state: "getState H ?lk raw wa = (Inr b, wb)"
    and up: "uploadChunks H src ?lk (client_defaults c) (NewPlan (clManifest c)) b mvs wb = Some (None, wc)"
    and fin: "finalize ?lk wc = (Inr report, w1)" and good: "verifyReport (clManifest c) report = []"
    by (rule Run_success [OF assms(4) [unfolded transfer_def]])
  have "mover_inv H wa"
    using link_inv(1) [OF inv, of um nw "clTransferID c" "clToken c" raw] snd_postManifest [of ?lk raw w] post by simp
  then have "mover_inv H wb"
    using link_inv(2) [of H wa um nw "clTransferID c" "clToken c"] snd_getState [of H ?lk raw wa] state by simp
  have "mover_inv H (snd (lkChunk ?lk n k h b w))" if "mover_inv H w" for n k h b w
    using that by (rule link_inv(3))
  then have "mover_inv H wc"
    by (rule uploadChunks_target [of "mover_inv H" ?lk, OF _ up \<open>mover_inv H wb\<close>])
  then have report: "list_all (result_holds H (mvBucket w1)) (rpFiles report)"
    by (rule finalize_report [OF fin])
  obtain f where f: "f \<in> set (rpFiles report)" "frPath f = mPath e" "good_result f" "frSHA256 f = mSHA256 e"
    by (rule verifyReport_result [OF good assms(5)])
  have "validateEntry e = None"
    using Validate_facts(1) [OF valid] assms(5) by (simp add: list_all_iff)
  then have "frSHA256 f \<noteq> []"
    using assms(6) unfolding f(4) validateEntry_def by (cases "mSHA256 e") (auto split: option.splits if_splits)
  moreover have "result_holds H (mvBucket w1) f"
    using report f(1) by (simp add: list_all_iff)
  ultimately show ?thesis
    using f(3) unfolding result_holds_def f(2,4) by blast
qed

subsection \<open>A transfer completes\<close>

text \<open>
  The target while it is bound to the transfer: every chunk it has marked is staged with its bytes.
\<close>

definition holding :: "manifest \<Rightarrow> string list \<Rightarrow> string \<Rightarrow> string \<Rightarrow> string \<Rightarrow> mover \<Rightarrow> bool" where
  "holding m cs raw tid token w \<longleftrightarrow>
     svToken (mvServer w) = token \<and>
     (\<exists>st. svSt (mvServer w) = Some st \<and> stTransferID st = tid \<and> stRaw st = raw \<and> stManifest st = m \<and> stPlan st = NewPlan m \<and>
        length (stBitmap st) = length (NewBitmap (nat (NumChunks (NewPlan m)))) \<and>
        (\<forall>n. ChunkDone st n \<longrightarrow> int n < NumChunks (NewPlan m) \<and>
           get (dkChunks (svDisk (mvServer w))) n = Some (payload m cs n)))"

definition mover_has :: "mover \<Rightarrow> nat \<Rightarrow> bool" where
  "mover_has w n \<longleftrightarrow> (\<exists>st. svSt (mvServer w) = Some st \<and> ChunkDone st n)"

text \<open>
  What an upload needs: the digest is one the server can compare and that no other bytes of that length
  share, the source is read faithfully for the digest and at one of the first \<open>A\<close> attempts, which the
  network and the target do not disturb; no other client uses the target.
\<close>

definition faithful :: "string list \<Rightarrow> (span \<Rightarrow> reading) \<Rightarrow> span list \<Rightarrow> bool" where
  "faithful cs rd spans \<longleftrightarrow> (\<forall>sp \<in> set spans. rd sp = Reads (read_span cs sp) False)"

definition digest_fits :: "digest \<Rightarrow> manifest \<Rightarrow> string list \<Rightarrow> nat \<Rightarrow> bool" where
  "digest_fits H m cs n \<longleftrightarrow>
     length (H (payload m cs n)) = 64 \<and> ToLower (H (payload m cs n)) = H (payload m cs n) \<and>
     (\<forall>b. length b = length (payload m cs n) \<longrightarrow> H b = H (payload m cs n) \<longrightarrow> b = payload m cs n)"

definition undisturbed :: "manifest \<Rightarrow> string list \<Rightarrow> source \<Rightarrow> network \<Rightarrow> nat \<Rightarrow> nat \<Rightarrow> bool" where
  "undisturbed m cs src nw n k \<longleftrightarrow>
     faithful cs (sourcePut src n k) (Spans (NewPlan m) (int n)) \<and>
     (case nwChunk nw n k of (ca, change, fault) \<Rightarrow> caTrip ca = Through \<and> (\<forall>b. change b = b) \<and> fault = None)"

definition uploadable :: "digest \<Rightarrow> manifest \<Rightarrow> string list \<Rightarrow> source \<Rightarrow> network \<Rightarrow> nat \<Rightarrow> nat \<Rightarrow> bool" where
  "uploadable H m cs src nw A n \<longleftrightarrow>
     fits m cs \<and> int n < NumChunks (NewPlan m) \<and> digest_fits H m cs n \<and>
     faithful cs (sourceHash src n) (Spans (NewPlan m) (int n)) \<and> (\<forall>k. caBefore (fst (nwChunk nw n k)) = []) \<and>
     (\<exists>k. 1 \<le> k \<and> k \<le> A \<and> undisturbed m cs src nw n k)"

lemma read_spans_faithful:
  assumes "faithful cs rd spans" and "\<And>sp. sp \<in> set spans \<Longrightarrow> int (length (read_span cs sp)) = spLength sp"
  shows "read_spans rd spans acc = Inr (acc @ concat (map (read_span cs) spans))"
    and "stream_spans rd spans acc = Stream (acc @ concat (map (read_span cs) spans)) False"
  using assms by (induction spans arbitrary: acc) (auto simp: faithful_def)

lemma plan_reads:
  assumes "fits m cs" and "int n < NumChunks (NewPlan m)" and "faithful cs rd (Spans (NewPlan m) (int n))"
  shows "hashSpans H rd (Spans (NewPlan m) (int n)) = Inr (H (payload m cs n))"
    and "stream_spans rd (Spans (NewPlan m) (int n)) [] = Stream (payload m cs n) False"
  using read_spans_faithful [OF assms(3) read_span_length [OF assms(1,2)], of "[]"] spans_hold_the_chunk [OF assms(1), of "int n"] assms(2)
  by (simp_all add: hashSpans_def)

text \<open>One chunk request at a target that holds the transfer.\<close>

lemma MarkChunk_outcome:
  assumes "MarkChunk fault st dk n = (st1, dk1, res)" and "n < 8 * length (stBitmap st)" and "\<not> ChunkDone st n"
  shows "dkChunks dk1 = dkChunks dk \<and>
    (\<exists>b. st1 = st\<lparr>stBitmap := b\<rparr> \<and> length b = length (stBitmap st) \<and>
      (if res = Marked then Bitmap_Get b = (Bitmap_Get (stBitmap st))(n := True) else Bitmap_Get b = Bitmap_Get (stBitmap st))) \<and>
    (fault = None \<longrightarrow> res = Marked)"
proof -
  obtain b where b: "Bitmap_Set (stBitmap st) n = Some b" "8 * length b = 8 * length (stBitmap st)"
    "Bitmap_Get b = (Bitmap_Get (stBitmap st))(n := True)"
    using bitmap.mark_law [OF assms(2)] by blast
  obtain d where d: "Bitmap_Clear b n = Some d" "8 * length d = 8 * length b" "Bitmap_Get d = (Bitmap_Get b)(n := False)"
    using bitmap.unmark_law [of n b] b(2) assms(2) by metis
  have "Bitmap_Get d = Bitmap_Get (stBitmap st)"
    using d(3) b(3) assms(3) by (auto simp: ChunkDone_def fun_eq_iff)
  then show ?thesis
    using assms(1) b d by (auto simp: MarkChunk_def persistBitmap_def split: option.splits persist_fault.splits)
qed

lemma receiveChunk_outcome:
  assumes "receiveChunk H fault st dk n (H x) b = (st1, dk1, res)"
    and "n < 8 * length (stBitmap st)" and "\<not> ChunkDone st n" and "ChunkLength (stPlan st) (int n) = int (length x)"
    and "\<And>y. length y = length x \<Longrightarrow> H y = H x \<Longrightarrow> y = x"
  shows "(\<forall>j. j \<noteq> n \<longrightarrow> get (dkChunks dk1) j = get (dkChunks dk) j) \<and>
    (\<exists>bm. st1 = st\<lparr>stBitmap := bm\<rparr> \<and> length bm = length (stBitmap st) \<and>
      (if res = Received then Bitmap_Get bm = (Bitmap_Get (stBitmap st))(n := True) \<and> get (dkChunks dk1) n = Some x
       else Bitmap_Get bm = Bitmap_Get (stBitmap st))) \<and>
    (b = Stream x False \<and> fault = None \<longrightarrow> res = Received)"
proof (cases b)
  case NotZstd
  then show ?thesis using assms(1) by (auto simp: receiveChunk_def intro!: exI [of _ "stBitmap st"])
next
  case (Stream data broken)
  define p where "p = take (nat (int (length x) + 1)) data"
  define dk2 where "dk2 = dk\<lparr>dkChunks := put n p (dkChunks dk), dkSynced := del n (dkSynced dk)\<rparr>"
  define accepted where "accepted \<longleftrightarrow> \<not> (broken \<and> length data \<le> length x) \<and> length p = length x \<and> H p = H x \<and>
      fault \<notin> {Some RecvOpen, Some RecvSync, Some RecvClose, Some RecvSyncDir} \<and> (\<forall>k. fault \<noteq> Some (RecvWrite k))"
  show ?thesis
  proof (cases accepted)
    case False
    then have "st1 = st \<and> res \<noteq> Received \<and> (\<forall>j. j \<noteq> n \<longrightarrow> get (dkChunks dk1) j = get (dkChunks dk) j)"
      using assms(1,4) Stream
      by (auto simp: receiveChunk_def Let_def accepted_def p_def update_conv' split: if_splits option.splits recv_fault.splits)
    moreover have "\<not> (b = Stream x False \<and> fault = None)"
      using False Stream by (auto simp: accepted_def p_def)
    ultimately show ?thesis by (auto intro!: exI [of _ "stBitmap st"])
  next
    case True
    then have p: "p = x" using assms(5) by (simp add: accepted_def)
    define mf where "mf = (case fault of Some (RecvMark f) \<Rightarrow> Some f | _ \<Rightarrow> None)"
    obtain st2 dk3 r where mk: "MarkChunk mf st (dk2\<lparr>dkSynced := put n p (dkSynced dk2)\<rparr>) n = (st2, dk3, r)"
      by (cases "MarkChunk mf st (dk2\<lparr>dkSynced := put n p (dkSynced dk2)\<rparr>) n")
    have "st1 = st2 \<and> dk1 = dk3 \<and> (res = Received \<longleftrightarrow> r = Marked)"
      using assms(1,4) Stream True mk unfolding mf_def accepted_def p_def dk2_def
      by (auto simp: receiveChunk_def Let_def split: if_splits option.splits recv_fault.splits mark_result.splits)
    then show ?thesis
      using MarkChunk_outcome [OF mk assms(2,3)] p by (auto simp: dk2_def mf_def update_conv')
  qed
qed

lemma chunk_call:
  assumes ok: "holding m cs raw tid token w" and up: "uploadable H m cs src nw A n"
    and eq: "putChunk (mover_link H um nw tid token) (sourcePut src n k) n k (Spans (NewPlan m) (int n)) (H (payload m cs n)) w = (res, w1)"
  shows "holding m cs raw tid token w1 \<and> (\<forall>j. mover_has w j \<longrightarrow> mover_has w1 j) \<and>
    (case res of None \<Rightarrow> mover_has w1 n | Some err \<Rightarrow> retryable err) \<and> mvBucket w1 = mvBucket w \<and>
    (undisturbed m cs src nw n k \<longrightarrow> res = None)"
proof -
  have fit: "fits m cs" and n: "int n < NumChunks (NewPlan m)" and digest: "digest_fits H m cs n"
    and before: "caBefore (fst (nwChunk nw n k)) = []"
    using up by (auto simp: uploadable_def)
  obtain ca change fault where nw: "nwChunk nw n k = (ca, change, fault)" by (cases "nwChunk nw n k")
  define b where "b = change (stream_spans (sourcePut src n k) (Spans (NewPlan m) (int n)) [])"
  obtain st where st: "svSt (mvServer w) = Some st" "stTransferID st = tid" "stPlan st = NewPlan m"
    "length (stBitmap st) = length (NewBitmap (nat (NumChunks (NewPlan m))))"
    and token: "svToken (mvServer w) = token"
    using ok by (auto simp: holding_def)
  have serve: "authed H token (mover_op H um (OpChunk fault tid (Some (int n)) (H (payload m cs n)) b)) w =
      (case handleChunk H fault (mvServer w) tid (Some (int n)) (H (payload m cs n)) b of
         (s, status) \<Rightarrow> (Some (status, NoBody), w\<lparr>mvServer := s\<rparr>))"
    using token by (simp add: authed_def requireAuth_def HasPrefix_def TokenEqual_def)
  have room: "n < 8 * length (stBitmap st)"
    using NewBitmap_room [of "nat (NumChunks (NewPlan m))"] n st(4) by linarith
  obtain s status where h: "handleChunk H fault (mvServer w) tid (Some (int n)) (H (payload m cs n)) b = (s, status)"
    by (cases "handleChunk H fault (mvServer w) tid (Some (int n)) (H (payload m cs n)) b")
  have effect: "holding m cs raw tid token (w\<lparr>mvServer := s\<rparr>) \<and> (\<forall>j. mover_has w j \<longrightarrow> mover_has (w\<lparr>mvServer := s\<rparr>) j) \<and>
    (if status \<in> {200, 204} then mover_has (w\<lparr>mvServer := s\<rparr>) n else status \<in> {422, 500}) \<and>
    (b = Stream (payload m cs n) False \<and> fault = None \<longrightarrow> status \<in> {200, 204})"
  proof (cases "ChunkDone st n")
    case True
    then have "s = mvServer w \<and> status = 200"
      using h st n by (simp add: handleChunk_def server_state_def split: if_splits)
    then show ?thesis using ok True st by (auto simp: mover_has_def)
  next
    case False
    obtain st1 dk1 r where rc: "receiveChunk H fault st (svDisk (mvServer w)) n (H (payload m cs n)) b = (st1, dk1, r)"
      by (cases "receiveChunk H fault st (svDisk (mvServer w)) n (H (payload m cs n)) b")
    have s: "s = (mvServer w)\<lparr>svSt := Some st1, svDisk := dk1\<rparr>"
        "status = (case r of Received \<Rightarrow> 204 | PayloadError \<Rightarrow> 422 | InternalError \<Rightarrow> 500)"
      using h st n False digest rc by (simp_all add: handleChunk_def server_state_def Let_def digest_fits_def)
    have len: "ChunkLength (stPlan st) (int n) = int (length (payload m cs n))"
      using spans_hold_the_chunk [OF fit, of "int n"] n st(3) by simp
    note out = receiveChunk_outcome [OF rc room False len]
    then have out: "\<forall>j. j \<noteq> n \<longrightarrow> get (dkChunks dk1) j = get (dkChunks (svDisk (mvServer w))) j"
      "\<exists>bm. st1 = st\<lparr>stBitmap := bm\<rparr> \<and> length bm = length (stBitmap st) \<and>
        (if r = Received then Bitmap_Get bm = (Bitmap_Get (stBitmap st))(n := True) \<and> get (dkChunks dk1) n = Some (payload m cs n)
         else Bitmap_Get bm = Bitmap_Get (stBitmap st))"
      "b = Stream (payload m cs n) False \<and> fault = None \<longrightarrow> r = Received"
      using digest by (auto simp: digest_fits_def)
    then obtain bm where bm: "st1 = st\<lparr>stBitmap := bm\<rparr>" "length bm = length (stBitmap st)"
      "if r = Received then Bitmap_Get bm = (Bitmap_Get (stBitmap st))(n := True) \<and> get (dkChunks dk1) n = Some (payload m cs n)
         else Bitmap_Get bm = Bitmap_Get (stBitmap st)" by blast
    show ?thesis
      using ok st False n bm out(1,3) s by (cases r) (auto simp: holding_def mover_has_def ChunkDone_def)
  qed
  have body: "undisturbed m cs src nw n k \<Longrightarrow> b = Stream (payload m cs n) False \<and> fault = None \<and> caTrip ca = Through"
    using plan_reads(2) [OF fit n] nw by (auto simp: undisturbed_def b_def)
  have call: "putChunk (mover_link H um nw tid token) (sourcePut src n k) n k (Spans (NewPlan m) (int n)) (H (payload m cs n)) w =
      (case caTrip ca of
         Lost \<Rightarrow> (Some Transport, w)
       | NoReply \<Rightarrow> (Some Transport, w\<lparr>mvServer := s\<rparr>)
       | Through \<Rightarrow> (checkStatus status, w\<lparr>mvServer := s\<rparr>))"
    using before nw serve h unfolding b_def
    by (simp add: putChunk_def mover_link_def deliver_def mover_ops_def call_result_def split: trip.split)
  have status: "checkStatus status = None \<longleftrightarrow> status \<in> {200, 204}" "checkStatus status = Some err \<Longrightarrow> retryable err" for err
    using effect by (auto simp: checkStatus_def retryable_def split: if_splits)
  show ?thesis
    using eq effect body ok status unfolding call
    by (cases "caTrip ca"; cases "checkStatus status") (auto simp: retryable_def split: if_splits)
qed

interpretation transfers: upload_target H src "mover_link H um nw tid token" "NewPlan m" A
    "holding m cs raw tid token" mover_has "uploadable H m cs src nw A" "\<lambda>n. H (payload m cs n)"
proof unfold_locales
  fix n w k res w1
  assume up: "uploadable H m cs src nw A n"
  show "hashSpans H (sourceHash src n) (Spans (NewPlan m) (int n)) = Inr (H (payload m cs n))"
    using up by (intro plan_reads) (auto simp: uploadable_def)
  show "\<exists>k. 1 \<le> k \<and> k \<le> A \<and> (\<forall>w. holding m cs raw tid token w \<longrightarrow>
      fst (putChunk (mover_link H um nw tid token) (sourcePut src n k) n k (Spans (NewPlan m) (int n)) (H (payload m cs n)) w) = None)"
    using up chunk_call [OF _ up] unfolding uploadable_def by (metis prod.collapse)
  assume "holding m cs raw tid token w"
    and "putChunk (mover_link H um nw tid token) (sourcePut src n k) n k (Spans (NewPlan m) (int n)) (H (payload m cs n)) w = (res, w1)"
  then show "holding m cs raw tid token w1 \<and> (\<forall>j. mover_has w j \<longrightarrow> mover_has w1 j) \<and>
      (case res of None \<Rightarrow> mover_has w1 n | Some err \<Rightarrow> retryable err)"
    using chunk_call [OF _ up] by blast
qed

subsubsection \<open>The finalize\<close>

definition commit_works :: "s3_env \<Rightarrow> bool" where
  "commit_works env \<longleftrightarrow> seBucket env \<and> seList env \<and> (\<forall>i. seCtx env i \<and> seScratch env i) \<and> (\<forall>k. sePut env k \<and> seRemove env k)"

definition good_row :: "State \<Rightarrow> nat \<Rightarrow> FileResult" where
  "good_row st i = \<lparr>frPath = mPath (entry st i), frSHA256 = mSHA256 (entry st i), frMatch = True, frError = False\<rparr>"

lemma commit_entries_work:
  assumes "commit_works env"
    and "\<And>i. i \<in> set is \<Longrightarrow> mType (entry st i) = TypeFile \<Longrightarrow> AssembleEntry st dk i = Some (Inr (cs ! i)) \<and> H (cs ! i) = mSHA256 (entry st i)"
    and "\<And>i. i \<in> set is \<Longrightarrow> mType (entry st i) \<noteq> TypeFile \<Longrightarrow> mSHA256 (entry st i) = []"
  shows "\<exists>bucket'. commit_entries H env st dk is bucket files = (bucket', Some (files @ map (good_row st) is))"
  using assms(2,3)
proof (induction "is" arbitrary: bucket files)
  case (Cons i "is")
  have "\<exists>bucket1. commit_entry H env st dk i bucket = (bucket1, good_row st i)"
    using Cons.prems(1,2) [of i] assms(1)
    by (auto simp: commit_entry_def Let_def good_row_def commit_works_def split: option.splits)
  then obtain bucket1 where step: "commit_entry H env st dk i bucket = (bucket1, good_row st i)" by blast
  obtain bucket' where "commit_entries H env st dk is bucket1 (files @ [good_row st i]) =
      (bucket', Some ((files @ [good_row st i]) @ map (good_row st) is))"
    using Cons.IH [of bucket1 "files @ [good_row st i]"] Cons.prems by auto
  then show ?case
    using step assms(1) by (auto simp: commit_works_def)
qed simp

lemma remove_keys_work: "commit_works env \<Longrightarrow> \<exists>b d. remove_keys env keep ks bucket deleted = (b, Some d)"
  by (induction ks arbitrary: bucket deleted) (auto simp: commit_works_def)

lemma get_fold_distinct:
  "distinct (map frPath fs) \<Longrightarrow> f \<in> set fs \<Longrightarrow> get (fold (\<lambda>r. put (frPath r) r) fs m) (frPath f) = Some f"
proof (induction fs arbitrary: m)
  case (Cons r fs)
  show ?case
  proof (cases "f \<in> set fs")
    case True
    then show ?thesis using Cons by simp
  next
    case False
    then have "f = r" "frPath f \<notin> set (map frPath fs)" using Cons.prems by auto
    moreover have "get (fold (\<lambda>r. put (frPath r) r) fs m') p = get m' p" if "p \<notin> set (map frPath fs)" for m' p
      using that by (induction fs arbitrary: m') (auto simp: update_conv')
    ultimately show ?thesis by (simp add: update_conv')
  qed
qed simp

lemma finalize_completes:
  assumes ok: "holding m cs raw tid token w" and all: "\<forall>n. int n < NumChunks (NewPlan m) \<longrightarrow> mover_has w n"
    and valid: "Validate m = None" and fit: "fits m cs"
    and contents: "\<forall>i < length (mfEntries m). mType (mfEntries m ! i) = TypeFile \<longrightarrow> H (cs ! i) = mSHA256 (mfEntries m ! i)"
    and nw: "nwFinalize nw = (ca, env, destroyed)" "caBefore ca = []" "caTrip ca = Through" "commit_works env"
  obtains report w1 where "finalize (mover_link H um nw tid token) w = (Inr report, w1)" and "verifyReport m report = []"
    and "\<forall>i < length (mfEntries m). mType (mfEntries m ! i) = TypeFile \<longrightarrow> get (mvBucket w1) (mPath (mfEntries m ! i)) = Some (cs ! i)"
    and "\<forall>k. get (mvBucket w1) k \<noteq> None \<longleftrightarrow> (\<exists>e \<in> set (mfEntries m). mType e = TypeFile \<and> mPath e = k)"
proof -
  obtain st where st: "svSt (mvServer w) = Some st" "stTransferID st = tid" "stManifest st = m" "stPlan st = NewPlan m"
    and staged_if: "\<And>n. ChunkDone st n \<Longrightarrow> get (dkChunks (svDisk (mvServer w))) n = Some (payload m cs n)"
    and token: "svToken (mvServer w) = token"
    using ok by (auto simp: holding_def)
  define dk where "dk = svDisk (mvServer w)"
  have marked: "ChunkDone st n" if "int n < NumChunks (NewPlan m)" for n
    using all that st(1) by (simp add: mover_has_def)
  then have "staged m cs dk" using staged_if by (simp add: staged_def dk_def)
  then have assembled: "AssembleEntry st dk i = Some (Inr (cs ! i))" if "i < length (mfEntries m)" for i
    using AssembleEntry_contents [OF fit st(3,4)] that by simp
  have "0 \<le> NumChunks (NewPlan m)" using NumChunks_fit [OF fit] by simp
  then have complete: "AllChunksDone st"
    using AllChunksDone_iff [of st] st(4) marked by simp
  define idx where "idx = [0..<length (mfEntries m)]"
  have entries: "validateEntry (mfEntries m ! i) = None" if "i < length (mfEntries m)" for i
    using that Validate_facts(1) [OF valid] by (simp add: list_all_length)
  have nofile: "mSHA256 (mfEntries m ! i) = []" if "i < length (mfEntries m)" "mType (mfEntries m ! i) \<noteq> TypeFile" for i
    using entries [OF that(1)] that(2) by (auto simp: validateEntry_def split: option.splits if_splits)
  obtain bucket1 where run: "commit_entries H env st dk idx (mvBucket w) [] = (bucket1, Some (map (good_row st) idx))"
    using commit_entries_work [OF nw(4), of idx st dk cs H "mvBucket w" "[]"] assembled contents nofile st(3)
    by (auto simp: idx_def)
  obtain bucket2 deleted where "remove_keys env (map mPath (filter (\<lambda>e. mType e = TypeFile) (mfEntries m))) (keys bucket1) bucket1 [] = (bucket2, Some deleted)"
    using remove_keys_work [OF nw(4)] by blast
  then have commit: "ObjectCommit H env st dk (mvBucket w) = (bucket2, Some \<lparr>rpFiles = map (good_row st) idx, rpDeleted = deleted\<rparr>)"
    using run nw(4) st(3) by (simp add: ObjectCommit_def commit_works_def idx_def)
  define report where "report = \<lparr>rpFiles = map (good_row st) idx, rpDeleted = deleted\<rparr>"
  have clean: "reportClean report"
    by (auto simp: reportClean_iff report_def good_row_def good_result_def list_all_iff)
  define s1 where "s1 = (mvServer w)\<lparr>svReport := Some report, svSt := None, svPhase := PhaseCompleted,
      svDisk := (case destroyed of None \<Rightarrow> empty_dir | Some dk \<Rightarrow> dk)\<rparr>"
  have "authed H token (mover_op H um (OpFinalize env destroyed tid)) w =
      (Some (200, ReportBody report), \<lparr>mvServer = s1, mvBucket = bucket2\<rparr>)"
    using st complete commit clean token
    by (simp add: authed_def requireAuth_def HasPrefix_def TokenEqual_def finalize_op_def handleFinalize_def Let_def
        dk_def report_def s1_def)
  then have fin: "finalize (mover_link H um nw tid token) w = (Inr report, \<lparr>mvServer = s1, mvBucket = bucket2\<rparr>)"
    using nw by (simp add: finalize_def mover_link_def deliver_def mover_ops_def call_result_def checkStatus_def)
  have paths: "map frPath (rpFiles report) = map mPath (mfEntries m)"
    by (rule nth_equalityI) (simp_all add: report_def idx_def good_row_def st(3))
  have "entry_problem (fold (\<lambda>r. put (frPath r) r) (rpFiles report) []) e = []" if e: "e \<in> set (mfEntries m)" for e
  proof -
    obtain i where i: "i < length (mfEntries m)" "e = mfEntries m ! i" using e by (auto simp: in_set_conv_nth)
    then have "good_row st i \<in> set (rpFiles report)" by (simp add: report_def idx_def)
    then have "get (fold (\<lambda>r. put (frPath r) r) (rpFiles report) []) (frPath (good_row st i)) = Some (good_row st i)"
      using Validate_facts(2) [OF valid] by (intro get_fold_distinct) (simp_all add: paths)
    then show ?thesis using i(2) st(3) by (simp add: entry_problem_def good_row_def)
  qed
  then have "verifyReport m report = []"
    using arg_cong [OF paths, of length] by (simp add: verifyReport_def Let_def)
  moreover have exact: "(\<forall>i < length (mfEntries m). delivered H st dk i bucket2) \<and>
      (\<forall>k. get bucket2 k \<noteq> None \<longleftrightarrow> (\<exists>e \<in> set (mfEntries m). mType e = TypeFile \<and> mPath e = k))"
    using clean_commit_is_exact [of st H env dk "mvBucket w" bucket2 report] valid commit clean st(3) by (simp add: report_def)
  moreover have "get bucket2 (mPath (mfEntries m ! i)) = Some (cs ! i)"
    if "i < length (mfEntries m)" "mType (mfEntries m ! i) = TypeFile" for i
    using exact that assembled st(3) by (auto simp: delivered_def)
  ultimately show thesis using that fin by auto
qed

subsubsection \<open>The whole transfer\<close>

definition clear_path :: "network \<Rightarrow> bool" where
  "clear_path nw \<longleftrightarrow>
     (case nwManifest nw of (ca, fault) \<Rightarrow> caBefore ca = [] \<and> caTrip ca = Through \<and> fault = None) \<and>
     caBefore (nwState nw) = [] \<and> caTrip (nwState nw) = Through \<and>
     (case nwFinalize nw of (ca, env, _) \<Rightarrow> caBefore ca = [] \<and> caTrip ca = Through \<and> commit_works env)"

lemma handleManifest_accepts:
  assumes "Validate m = None" and "um raw = Some m"
  shows "\<exists>s. handleManifest H um None s0 tid (Some raw) = (s, 204) \<and>
    (s = s0 \<and> (\<exists>st. svSt s0 = Some st \<and> stTransferID st = tid \<and> H (stRaw st) = H raw) \<or>
     svToken s = svToken s0 \<and> svSt s = Some \<lparr>stTransferID = tid, stRaw = raw, stManifest = m, stPlan = NewPlan m,
       stBitmap = NewBitmap (nat (NumChunks (NewPlan m)))\<rparr>)"
proof (cases "\<exists>st. svSt s0 = Some st \<and> stTransferID st = tid \<and> H (stRaw st) = H raw")
  case True
  then show ?thesis using assms by (auto simp: handleManifest_def Decode_def)
next
  case False
  then have "\<not> (case svSt s0 of Some st \<Rightarrow> stTransferID st = tid \<and> H (stRaw st) = H raw | None \<Rightarrow> False)"
    by (auto split: option.splits)
  then show ?thesis using assms by (simp add: handleManifest_def Decode_def InitState_def Let_def)
qed

lemma manifest_completes:
  assumes "Validate m = None" and "um raw = Some m" and "int (length raw) \<le> maxManifestBytes" and "svToken (mvServer w) = token"
    and "\<forall>st. svSt (mvServer w) = Some st \<and> stTransferID st = tid \<and> H (stRaw st) = H raw \<longrightarrow> holding m cs raw tid token w"
    and "clear_path nw"
  obtains w1 where "postManifest (mover_link H um nw tid token) raw w = (None, w1)" and "holding m cs raw tid token w1"
proof -
  obtain ca where nw: "nwManifest nw = (ca, None)" "caBefore ca = []" "caTrip ca = Through"
    using assms(6) by (cases "nwManifest nw") (auto simp: clear_path_def)
  obtain s where s: "handleManifest H um None (mvServer w) tid (Some raw) = (s, 204)"
    and cases: "s = mvServer w \<and> (\<exists>st. svSt (mvServer w) = Some st \<and> stTransferID st = tid \<and> H (stRaw st) = H raw) \<or>
      svToken s = svToken (mvServer w) \<and> svSt s = Some \<lparr>stTransferID = tid, stRaw = raw, stManifest = m, stPlan = NewPlan m,
        stBitmap = NewBitmap (nat (NumChunks (NewPlan m)))\<rparr>"
    using handleManifest_accepts [of m um raw H "mvServer w" tid, OF assms(1,2)] by blast
  have "holding m cs raw tid token (w\<lparr>mvServer := s\<rparr>)"
    using cases
  proof
    assume "s = mvServer w \<and> (\<exists>st. svSt (mvServer w) = Some st \<and> stTransferID st = tid \<and> H (stRaw st) = H raw)"
    moreover from this have "holding m cs raw tid token w" using assms(5) by blast
    ultimately show ?thesis by simp
  next
    assume "svToken s = svToken (mvServer w) \<and> svSt s = Some \<lparr>stTransferID = tid, stRaw = raw, stManifest = m, stPlan = NewPlan m,
        stBitmap = NewBitmap (nat (NumChunks (NewPlan m)))\<rparr>"
    then show ?thesis using assms(4) by (simp add: holding_def ChunkDone_def)
  qed
  moreover have "postManifest (mover_link H um nw tid token) raw w = (None, w\<lparr>mvServer := s\<rparr>)"
    using nw s assms(3,4)
    by (simp add: postManifest_def mover_link_def deliver_def mover_ops_def authed_def requireAuth_def HasPrefix_def
        TokenEqual_def call_result_def checkStatus_def)
  ultimately show thesis using that by blast
qed

lemma state_completes:
  assumes "holding m cs raw tid token w" and "clear_path nw"
  obtains st where "svSt (mvServer w) = Some st" and "getState H (mover_link H um nw tid token) raw w = (Inr (stBitmap st), w)"
proof -
  obtain st where "svSt (mvServer w) = Some st" "stTransferID st = tid" "stRaw st = raw" "svToken (mvServer w) = token"
    using assms(1) by (auto simp: holding_def)
  moreover then have "getState H (mover_link H um nw tid token) raw w = (Inr (stBitmap st), w)"
    using assms(2)
    by (simp add: getState_def mover_link_def deliver_def mover_ops_def clear_path_def authed_def requireAuth_def HasPrefix_def
        TokenEqual_def state_op_def handleState_def server_state_def call_result_def checkStatus_def)
  ultimately show thesis using that by blast
qed

lemma upload_completes:
  assumes "holding m cs raw tid token w" and "svSt (mvServer w) = Some st"
    and chunks: "\<And>n. int n < NumChunks (NewPlan m) \<Longrightarrow> uploadable H m cs src nw (nat (clMaxAttempts (client_defaults c))) n"
  shows "(\<exists>mvs. EndContext \<notin> set mvs \<and>
      uploadChunks H src (mover_link H um nw tid token) (client_defaults c) (NewPlan m) (stBitmap st) mvs w \<noteq> None)"
    and "uploadChunks H src (mover_link H um nw tid token) (client_defaults c) (NewPlan m) (stBitmap st) mvs w = Some (res, w1) \<Longrightarrow>
      EndContext \<notin> set mvs \<Longrightarrow>
      res = None \<and> holding m cs raw tid token w1 \<and> (\<forall>n. int n < NumChunks (NewPlan m) \<longrightarrow> mover_has w1 n)"
proof -
  let ?lk = "mover_link H um nw tid token" and ?A = "nat (clMaxAttempts (client_defaults c))" and ?K = "nat (clConcurrency (client_defaults c))"
  define missing where "missing = missing_chunks (NewPlan m) (stBitmap st)"
  have up: "uploadChunks H src ?lk (client_defaults c) (NewPlan m) (stBitmap st) mvs w =
      (if missing = [] then Some (None, w)
       else case pool_moves H src ?lk (NewPlan m) ?A mvs (start_pool ?K missing, w) of
              None \<Rightarrow> None
            | Some (p, w1) \<Rightarrow> if pool_finished p then Some (pool_result p, w1) else None)" for mvs
    by (simp add: uploadChunks_def missing_def Let_def)
  have "set missing \<subseteq> {n. int n < NumChunks (NewPlan m)}" by (auto simp: missing_def missing_chunks_def)
  then have wanted: "list_all (uploadable H m cs src nw ?A) missing"
    using chunks by (auto simp: list_all_iff)
  have known: "mover_has w n \<or> n \<in> set missing" if "int n < NumChunks (NewPlan m)" for n
    using that assms(2) by (auto simp: missing_def missing_chunks_def mover_has_def ChunkDone_def)
  show "\<exists>mvs. EndContext \<notin> set mvs \<and>
      uploadChunks H src ?lk (client_defaults c) (NewPlan m) (stBitmap st) mvs w \<noteq> None"
  proof (cases "missing = []")
    case True
    then show ?thesis by (intro exI [of _ "[]"]) (simp add: up)
  next
    case False
    then have "pool_wf (start_pool ?K missing)" using defaults_positive by (intro start_pool_wf) simp_all
    then obtain mvs p w1 where "EndContext \<notin> set mvs"
      "pool_moves H src ?lk (NewPlan m) ?A mvs (start_pool ?K missing, w) = Some (p, w1)" "pool_finished p"
      using pool_can_finish [of "start_pool ?K missing" H src ?lk "NewPlan m" ?A w] by blast
    then show ?thesis by (intro exI [of _ mvs]) (simp add: up)
  qed
  show "res = None \<and> holding m cs raw tid token w1 \<and> (\<forall>n. int n < NumChunks (NewPlan m) \<longrightarrow> mover_has w1 n)"
    if run: "uploadChunks H src ?lk (client_defaults c) (NewPlan m) (stBitmap st) mvs w = Some (res, w1)" and "EndContext \<notin> set mvs"
  proof (cases "missing = []")
    case True
    then show ?thesis using run known assms(1) by (simp add: up)
  next
    case False
    then obtain p where p: "pool_moves H src ?lk (NewPlan m) ?A mvs (start_pool ?K missing, w) = Some (p, w1)"
      "pool_finished p" "res = pool_result p"
      using run by (auto simp: up split: option.splits prod.splits if_splits)
    have "\<forall>n \<in> set [0..<nat (NumChunks (NewPlan m))]. mover_has w n \<or> n \<in> set missing"
      using known by auto
    from transfers.pool_moves_upload [OF p(1) that(2) assms(1) wanted this p(2)]
    show ?thesis using p(3) by auto
  qed
qed

text \<open>
  C36. A transfer completes. Let the source yield the contents the manifest describes, let nobody else use the
  target, and let one of the first attempts at every chunk get through undisturbed; before it any attempt
  may be lost, truncated, corrupted, fail at the target at any stage or lose its answer. The target is
  new, or bound to another transfer, or holds a part of this one from an earlier run. Then some order of
  the workers ends, and whichever does, the exporter reports success and the bucket holds exactly the
  files of the manifest, with exactly their contents.
\<close>

theorem undisturbed_transfer_completes:
  assumes "Validate (clManifest c) = None" and "fits (clManifest c) cs"
    and "encode (clManifest c) = Some raw" and "um raw = Some (clManifest c)" and "int (length raw) \<le> maxManifestBytes"
    and "\<And>i. i < length (mfEntries (clManifest c)) \<Longrightarrow> mType (mfEntries (clManifest c) ! i) = TypeFile \<Longrightarrow>
           H (cs ! i) = mSHA256 (mfEntries (clManifest c) ! i)"
    and "svToken (mvServer w) = clToken c"
    and "\<And>st. svSt (mvServer w) = Some st \<Longrightarrow> stTransferID st = clTransferID c \<Longrightarrow> H (stRaw st) = H raw \<Longrightarrow>
           holding (clManifest c) cs raw (clTransferID c) (clToken c) w"
    and "clear_path nw"
    and "\<And>n. int n < NumChunks (NewPlan (clManifest c)) \<Longrightarrow>
           uploadable H (clManifest c) cs src nw (nat (clMaxAttempts (client_defaults c))) n"
  shows "(\<exists>mvs. EndContext \<notin> set mvs \<and> transfer H encode um src nw c mvs w \<noteq> None) \<and>
    (\<forall>mvs res w1. EndContext \<notin> set mvs \<and> transfer H encode um src nw c mvs w = Some (res, w1) \<longrightarrow>
       res = Inr () \<and>
       (\<forall>i < length (mfEntries (clManifest c)). mType (mfEntries (clManifest c) ! i) = TypeFile \<longrightarrow>
          get (mvBucket w1) (mPath (mfEntries (clManifest c) ! i)) = Some (cs ! i)) \<and>
       (\<forall>k. get (mvBucket w1) k \<noteq> None \<longleftrightarrow> (\<exists>e \<in> set (mfEntries (clManifest c)). mType e = TypeFile \<and> mPath e = k)))"
proof -
  define m where "m = clManifest c"
  define tid where "tid = clTransferID c"
  define token where "token = clToken c"
  let ?lk = "mover_link H um nw tid token"
  note a = assms [folded m_def tid_def token_def]
  have resume: "\<forall>st. svSt (mvServer w) = Some st \<and> stTransferID st = tid \<and> H (stRaw st) = H raw \<longrightarrow> holding m cs raw tid token w"
    using a(8) by blast
  obtain w1 where post: "postManifest ?lk raw w = (None, w1)" and hold: "holding m cs raw tid token w1"
    by (rule manifest_completes [of m um raw w token tid H cs nw, OF a(1,4,5,7) resume a(9)])
  obtain st where st: "svSt (mvServer w1) = Some st" and state: "getState H ?lk raw w1 = (Inr (stBitmap st), w1)"
    by (rule state_completes [OF hold a(9)])
  have fields: "clManifest (client_defaults c) = m" by (simp add: client_defaults_def m_def)
  have run: "transfer H encode um src nw c mvs w =
      (case uploadChunks H src ?lk (client_defaults c) (NewPlan m) (stBitmap st) mvs w1 of
         None \<Rightarrow> None
       | Some (Some err, w3) \<Rightarrow> Some (Inl (ErrUpload err), w3)
       | Some (None, w3) \<Rightarrow>
           (case finalize ?lk w3 of
              (Inl err, w4) \<Rightarrow> Some (Inl (ErrFinalizing err), w4)
            | (Inr report, w4) \<Rightarrow> Some (if verifyReport m report \<noteq> [] then Inl (ErrVerify (verifyReport m report)) else Inr (), w4)))" for mvs
    using a(1,3) post state
    unfolding transfer_def Run_def Let_def fields tid_def [symmetric] token_def [symmetric] by simp
  have contents: "\<forall>i < length (mfEntries m). mType (mfEntries m ! i) = TypeFile \<longrightarrow> H (cs ! i) = mSHA256 (mfEntries m ! i)"
    using a(6) by blast
  obtain ca env destroyed where nw: "nwFinalize nw = (ca, env, destroyed)" "caBefore ca = []" "caTrip ca = Through" "commit_works env"
    using a(9) by (cases "nwFinalize nw") (auto simp: clear_path_def)
  have finish: "uploadChunks H src ?lk (client_defaults c) (NewPlan m) (stBitmap st) mvs w1 = Some (res, w3) \<Longrightarrow>
      EndContext \<notin> set mvs \<Longrightarrow>
      res = None \<and> (\<exists>report w4. finalize ?lk w3 = (Inr report, w4) \<and> verifyReport m report = [] \<and>
        (\<forall>i < length (mfEntries m). mType (mfEntries m ! i) = TypeFile \<longrightarrow> get (mvBucket w4) (mPath (mfEntries m ! i)) = Some (cs ! i)) \<and>
        (\<forall>k. get (mvBucket w4) k \<noteq> None \<longleftrightarrow> (\<exists>e \<in> set (mfEntries m). mType e = TypeFile \<and> mPath e = k)))" for mvs res w3
  proof -
    assume "uploadChunks H src ?lk (client_defaults c) (NewPlan m) (stBitmap st) mvs w1 = Some (res, w3)" "EndContext \<notin> set mvs"
    then have up: "res = None" "holding m cs raw tid token w3" "\<forall>n. int n < NumChunks (NewPlan m) \<longrightarrow> mover_has w3 n"
      using upload_completes(2) [OF hold st a(10)] by blast+
    obtain report w4 where "finalize ?lk w3 = (Inr report, w4)" "verifyReport m report = []"
      "\<forall>i < length (mfEntries m). mType (mfEntries m ! i) = TypeFile \<longrightarrow> get (mvBucket w4) (mPath (mfEntries m ! i)) = Some (cs ! i)"
      "\<forall>k. get (mvBucket w4) k \<noteq> None \<longleftrightarrow> (\<exists>e \<in> set (mfEntries m). mType e = TypeFile \<and> mPath e = k)"
      by (rule finalize_completes [OF up(2,3) a(1,2) contents nw])
    then show ?thesis using up(1) by blast
  qed
  obtain mvs where mvs: "EndContext \<notin> set mvs"
    "uploadChunks H src ?lk (client_defaults c) (NewPlan m) (stBitmap st) mvs w1 \<noteq> None"
    using upload_completes(1) [OF hold st a(10)] by blast
  then have some: "transfer H encode um src nw c mvs w \<noteq> None"
    using finish [of mvs] by (auto simp: run split: option.splits prod.splits sum.splits)
  moreover have "res = Inr () \<and>
       (\<forall>i < length (mfEntries m). mType (mfEntries m ! i) = TypeFile \<longrightarrow> get (mvBucket w4) (mPath (mfEntries m ! i)) = Some (cs ! i)) \<and>
       (\<forall>k. get (mvBucket w4) k \<noteq> None \<longleftrightarrow> (\<exists>e \<in> set (mfEntries m). mType e = TypeFile \<and> mPath e = k))"
    if ctx: "EndContext \<notin> set mvs" and t: "transfer H encode um src nw c mvs w = Some (res, w4)" for mvs res w4
  proof -
    obtain r w3 where u: "uploadChunks H src ?lk (client_defaults c) (NewPlan m) (stBitmap st) mvs w1 = Some (r, w3)"
      using t by (auto simp: run split: option.splits)
    from finish [OF u ctx] show ?thesis
      using t u by (auto simp: run)
  qed
  ultimately show ?thesis
    using mvs(1) unfolding m_def [symmetric] by blast
qed

text \<open>
  A transfer of three entries and three chunks by two workers, as an example: the answer to the first upload
  of chunk 0 is lost, and the first upload of chunk 1 is cut short. The digest is the text padded to 64 characters.
\<close>

definition padded :: digest where
  "padded x = take 64 (x @ replicate 64 (CHR ''.''))"

definition small_manifest :: manifest where
  "small_manifest = \<lparr>mfChunkSize = 4, mfEntries =
     [\<lparr>mPath = ''a'', mType = ''dir'', mSize = 0, mMode = 493, mUID = 0, mGID = 0, mMtime = 0, mSHA256 = [], mLinkTarget = []\<rparr>,
      \<lparr>mPath = ''a/x'', mType = ''file'', mSize = 6, mMode = 420, mUID = 0, mGID = 0, mMtime = 0,
        mSHA256 = padded ''sixbyt'', mLinkTarget = []\<rparr>,
      \<lparr>mPath = ''b'', mType = ''file'', mSize = 3, mMode = 420, mUID = 0, mGID = 0, mMtime = 0,
        mSHA256 = padded ''end'', mLinkTarget = []\<rparr>]\<rparr>"

definition small_client :: Client where
  "small_client = \<lparr>clTransferID = ''t1'', clToken = ''k'', clManifest = small_manifest,
     clConcurrency = 2, clMaxAttempts = 0, clBackoff = 0\<rparr>"

definition small_source :: source where
  "small_source = \<lparr>sourceHash = (\<lambda>_ sp. Reads (read_span demo_contents sp) False),
     sourcePut = (\<lambda>_ _ sp. Reads (read_span demo_contents sp) False)\<rparr>"

definition small_network :: network where
  "small_network =
     (let ca = \<lparr>caBefore = [], caTrip = Through\<rparr>
      in \<lparr>nwManifest = (ca, None), nwState = ca,
          nwChunk = (\<lambda>n k. if k \<noteq> 1 \<or> n = 2 then (ca, \<lambda>b. b, None)
                      else if n = 0 then (ca\<lparr>caTrip := NoReply\<rparr>, \<lambda>b. b, None)
                      else (ca, \<lambda>_. Stream ''y'' True, None)),
          nwFinalize = (ca, demo_env, None)\<rparr>)"

definition fresh_mover :: mover where
  "fresh_mover = \<lparr>mvServer = \<lparr>svToken = ''k'', svSt = None, svPhase = PhaseWaiting, svReport = None, svDisk = empty_dir\<rparr>,
     mvBucket = [(''old'', ''x'')]\<rparr>"

definition small_encode :: "manifest \<Rightarrow> string option" where
  "small_encode m = Some ''m''"

definition small_unmarshal :: "string \<Rightarrow> manifest option" where
  "small_unmarshal raw = (if raw = ''m'' then Some small_manifest else None)"

definition small_moves :: "move list" where
  "small_moves = [Feed 0, Feed 1, Work 1, Work 0, Work 0, Work 1, Work 1, Feed 1, Work 0, Work 1, Work 1]"

lemma small_run:
  "map_option (\<lambda>(res, w). (res, mvBucket w)) (transfer padded small_encode small_unmarshal small_source small_network small_client small_moves fresh_mover) =
     Some (Inr (), [(''a/x'', ''sixbyt''), (''b'', ''end'')])"
  by code_simp

theorem verified_transfer_is_on_target_witness:
  "\<exists>w1 data. transfer padded small_encode small_unmarshal small_source small_network small_client small_moves fresh_mover = Some (Inr (), w1) \<and>
     get (mvBucket w1) ''b'' = Some data \<and> padded data = padded ''end''"
proof -
  let ?e = "mfEntries small_manifest ! 2"
  obtain w1 where run: "transfer padded small_encode small_unmarshal small_source small_network small_client small_moves fresh_mover = Some (Inr (), w1)"
    using small_run by auto
  have "?e \<in> set (mfEntries (clManifest small_client))" "mType ?e = TypeFile" "mPath ?e = ''b''" "mSHA256 ?e = padded ''end''"
    by (simp_all add: small_manifest_def small_client_def TypeFile_def)
  moreover have "fresh_mover = mover_ops padded small_unmarshal [] fresh_mover" by (simp add: mover_ops_def)
  ultimately show ?thesis
    using verified_transfer_is_on_target [of fresh_mover fresh_mover padded small_unmarshal "[]" small_encode small_source small_network
        small_client small_moves w1 ?e] run by (auto simp: fresh_mover_def)
qed

lemma padded_short: "length a = length b \<Longrightarrow> length b \<le> 64 \<Longrightarrow> padded a = padded b \<Longrightarrow> a = b"
  unfolding padded_def by (metis append_eq_append_conv take_append take_all_iff)

lemma small_fits: "fits small_manifest demo_contents"
  by code_simp

lemma small_uploadable:
  assumes "int n < NumChunks (NewPlan small_manifest)"
  shows "uploadable padded small_manifest demo_contents small_source small_network 3 n"
proof -
  have num: "NumChunks (NewPlan small_manifest) = 3" by code_simp
  then have n: "n = 0 \<or> n = 1 \<or> n = 2" using assms by auto
  have len: "length (payload small_manifest demo_contents n) \<le> 64" by (simp add: length_payload small_manifest_def)
  have "ToLower (padded (payload small_manifest demo_contents n)) = padded (payload small_manifest demo_contents n)"
    using n by (elim disjE) (simp_all only:, code_simp+)
  then have "digest_fits padded small_manifest demo_contents n"
    using padded_short len by (auto simp: digest_fits_def) (simp add: padded_def)
  moreover have "undisturbed small_manifest demo_contents small_source small_network n 2"
    by (simp add: undisturbed_def faithful_def small_source_def small_network_def Let_def)
  ultimately show ?thesis
    using small_fits assms n
    by (auto simp: uploadable_def faithful_def small_source_def small_network_def Let_def intro!: exI [of _ "2 :: nat"])
qed

theorem undisturbed_transfer_completes_witness:
  "\<exists>mvs w1. transfer padded small_encode small_unmarshal small_source small_network small_client mvs fresh_mover = Some (Inr (), w1) \<and>
     get (mvBucket w1) ''a/x'' = Some ''sixbyt'' \<and> get (mvBucket w1) ''old'' = None"
proof -
  have c: "clManifest small_client = small_manifest" "clToken small_client = ''k''" "nat (clMaxAttempts (client_defaults small_client)) = 3"
    by (simp_all add: small_client_def client_defaults_def)
  have valid: "Validate small_manifest = None" by code_simp
  have files: "padded (demo_contents ! i) = mSHA256 (mfEntries small_manifest ! i)"
    if "i < length (mfEntries small_manifest)" "mType (mfEntries small_manifest ! i) = TypeFile" for i
    using that by (auto simp: small_manifest_def demo_contents_def TypeFile_def less_Suc_eq numeral_3_eq_3)
  have clear: "clear_path small_network"
    by (simp add: clear_path_def small_network_def Let_def commit_works_def demo_env_def)
  have raw: "small_encode small_manifest = Some ''m''" "small_unmarshal ''m'' = Some small_manifest" "int (length ''m'') \<le> maxManifestBytes"
    by (simp_all add: small_encode_def small_unmarshal_def maxManifestBytes_def)
  have free: "svToken (mvServer fresh_mover) = ''k''" "svSt (mvServer fresh_mover) = None" by (simp_all add: fresh_mover_def)
  note run = undisturbed_transfer_completes [of small_client demo_contents small_encode "''m''" small_unmarshal padded fresh_mover small_network
      small_source, unfolded c, OF valid small_fits raw files free(1) _ clear small_uploadable]
  obtain mvs res w1 where "EndContext \<notin> set mvs"
    and t: "transfer padded small_encode small_unmarshal small_source small_network small_client mvs fresh_mover = Some (res, w1)"
    using run free(2) by fastforce
  then have "res = Inr ()" and got: "\<forall>i < length (mfEntries small_manifest). mType (mfEntries small_manifest ! i) = TypeFile \<longrightarrow>
        get (mvBucket w1) (mPath (mfEntries small_manifest ! i)) = Some (demo_contents ! i)"
    and only: "\<forall>k. get (mvBucket w1) k \<noteq> None \<longleftrightarrow> (\<exists>e \<in> set (mfEntries small_manifest). mType e = TypeFile \<and> mPath e = k)"
    using run free(2) by fastforce+
  moreover have "get (mvBucket w1) ''a/x'' = Some ''sixbyt''"
    using spec [OF got, of 1] by (simp add: small_manifest_def demo_contents_def TypeFile_def)
  moreover have "get (mvBucket w1) ''old'' = None"
    using spec [OF only, of "''old''"] by (simp add: small_manifest_def TypeFile_def)
  ultimately show ?thesis using t by blast
qed

end
