(* ===== verification/Filesystem.thy ===== *)
theory Filesystem
  imports Datamover_Plan "HOL-Library.List_Lexorder" "HOL-Library.Char_ord"
begin

text \<open>
  A Unix file system as the finalize step of the data mover sees it through Go's \<open>os\<close> package: a map from
  absolute paths (lists of names) to directories, files and symbolic links, the resolution of a
  path with its links, and the calls the code makes. Every call may fail: the state carries a
  schedule of faults, read at a counter of the calls made so far, and a failed call may have had its
  effect. Permission checks, hard links and
  the effect of a call on the times of the directory around it are left out.
\<close>

subsection \<open>Nodes and paths\<close>

type_synonym path = "string list"

record attrs =
  atMode :: nat
  atUID :: int
  atGID :: int
  atMtime :: int

datatype node = Dir attrs | File attrs string | Link attrs string

type_synonym fs = "(path, node) gomap"

definition is_dir :: "node option \<Rightarrow> bool" where
  "is_dir x = (case x of Some (Dir a) \<Rightarrow> True | _ \<Rightarrow> False)"

definition is_link :: "node option \<Rightarrow> bool" where
  "is_link x = (case x of Some (Link a t) \<Rightarrow> True | _ \<Rightarrow> False)"

fun set_attrs :: "(attrs \<Rightarrow> attrs) \<Rightarrow> node \<Rightarrow> node" where
  "set_attrs f (Dir a) = Dir (f a)"
| "set_attrs f (File a c) = File (f a) c"
| "set_attrs f (Link a t) = Link (f a) t"

datatype errno = EIO | EREMOTEIO | ENOENT | EEXIST | ENOTDIR | EISDIR | ENOTEMPTY | ELOOP | EOTHER

text \<open>
  \<open>namei\<close> walks the names \<open>ss\<close> from the real directory \<open>cur\<close>, following at most \<open>n\<close> links, and the last one only
  when \<open>follow\<close> is set. It returns the real path of the object, which need not exist.
\<close>

function namei :: "fs \<Rightarrow> nat \<Rightarrow> path \<Rightarrow> path \<Rightarrow> bool \<Rightarrow> errno + path" where
  "namei fs n cur [] follow = Inr cur"
| "namei fs n cur (s # ss) follow =
     (case get fs cur of
        None \<Rightarrow> Inl ENOENT
      | Some (Dir a) \<Rightarrow>
          if s = [] \<or> s = ''.'' then namei fs n cur ss follow
          else if s = ''..'' then namei fs n (butlast cur) ss follow
          else
            (case get fs (cur @ [s]) of
               Some (Link a t) \<Rightarrow>
                 if ss = [] \<and> \<not> follow then Inr (cur @ [s])
                 else
                   (case n of
                      0 \<Rightarrow> Inl ELOOP
                    | Suc k \<Rightarrow>
                        namei fs k (if HasPrefix t ''/'' then [] else cur) (split_at (CHR ''/'') t @ ss) follow)
             | _ \<Rightarrow> namei fs n (cur @ [s]) ss follow)
      | Some _ \<Rightarrow> Inl ENOTDIR)"
  by pat_completeness auto
termination by (relation "measures [\<lambda>(fs, n, cur, ss, follow). n, \<lambda>(fs, n, cur, ss, follow). length ss]") auto

definition max_links :: nat where
  "max_links = 40"

definition lookup_path :: "fs \<Rightarrow> path \<Rightarrow> bool \<Rightarrow> errno + path" where
  "lookup_path fs p follow = namei fs max_links [] p follow"

subsection \<open>Calls\<close>

record os =
  osFs :: fs
  osTick :: nat
  osFault :: "nat \<Rightarrow> (errno \<times> bool) option" \<comment> \<open>the error, and whether the call took effect\<close>
  osCtx :: "nat \<Rightarrow> bool" \<comment> \<open>whether the context is done at this call\<close>
  osSuper :: bool \<comment> \<open>whether the process runs as root\<close>

type_synonym 'a call = "fs \<Rightarrow> (errno + 'a) \<times> fs"

definition syscall :: "'a call \<Rightarrow> os \<Rightarrow> (errno + 'a) \<times> os" where
  "syscall f w =
     (let w1 = w\<lparr>osTick := Suc (osTick w)\<rparr>;
          (r, fs1) = f (osFs w)
      in case osFault w (osTick w) of
           Some (e, effect) \<Rightarrow> (Inl e, if effect then w1\<lparr>osFs := fs1\<rparr> else w1)
         | None \<Rightarrow> (r, w1\<lparr>osFs := fs1\<rparr>))"

definition context_done :: "os \<Rightarrow> bool \<times> os" where
  "context_done w = (osCtx w (osTick w), w\<lparr>osTick := Suc (osTick w)\<rparr>)"

definition children :: "fs \<Rightarrow> path \<Rightarrow> string list" where
  "children fs p = sort (map last (filter (\<lambda>q. q \<noteq> [] \<and> butlast q = p) (keys fs)))"

definition in_tree :: "path \<Rightarrow> path \<Rightarrow> bool" where
  "in_tree p q \<longleftrightarrow> take (length p) q = p"

definition Lstat :: "path \<Rightarrow> node call" where
  "Lstat p fs =
     (case lookup_path fs p False of
        Inl e \<Rightarrow> (Inl e, fs)
      | Inr q \<Rightarrow> (case get fs q of None \<Rightarrow> (Inl ENOENT, fs) | Some x \<Rightarrow> (Inr x, fs)))"

definition Mkdir :: "path \<Rightarrow> nat \<Rightarrow> unit call" where
  "Mkdir p mode fs =
     (case lookup_path fs p False of
        Inl e \<Rightarrow> (Inl e, fs)
      | Inr q \<Rightarrow>
          (case get fs q of
             Some _ \<Rightarrow> (Inl EEXIST, fs)
           | None \<Rightarrow> (Inr (), put q (Dir \<lparr>atMode = mode, atUID = 0, atGID = 0, atMtime = 0\<rparr>) fs)))"

text \<open>\<open>os.Remove\<close>: \<open>unlink\<close>, and \<open>rmdir\<close> for a directory.\<close>

definition Remove :: "path \<Rightarrow> unit call" where
  "Remove p fs =
     (case lookup_path fs p False of
        Inl e \<Rightarrow> (Inl e, fs)
      | Inr q \<Rightarrow>
          (case get fs q of
             None \<Rightarrow> (Inl ENOENT, fs)
           | Some (Dir a) \<Rightarrow> if children fs q = [] then (Inr (), del q fs) else (Inl ENOTEMPTY, fs)
           | Some _ \<Rightarrow> (Inr (), del q fs)))"

definition RemoveAll :: "path \<Rightarrow> unit call" where
  "RemoveAll p fs =
     (case lookup_path fs p False of
        Inl ENOENT \<Rightarrow> (Inr (), fs)
      | Inl e \<Rightarrow> (Inl e, fs)
      | Inr q \<Rightarrow> (Inr (), filter (\<lambda>(k, x). \<not> in_tree q k) fs))"

definition change_attrs :: "bool \<Rightarrow> (attrs \<Rightarrow> attrs) \<Rightarrow> path \<Rightarrow> unit call" where
  "change_attrs follow f p fs =
     (case lookup_path fs p follow of
        Inl e \<Rightarrow> (Inl e, fs)
      | Inr q \<Rightarrow> (case get fs q of None \<Rightarrow> (Inl ENOENT, fs) | Some x \<Rightarrow> (Inr (), put q (set_attrs f x) fs)))"

definition Chmod :: "path \<Rightarrow> nat \<Rightarrow> unit call" where
  "Chmod p mode = change_attrs True (\<lambda>a. a\<lparr>atMode := mode\<rparr>) p"

definition Chown :: "path \<Rightarrow> int \<Rightarrow> int \<Rightarrow> unit call" where
  "Chown p uid gid = change_attrs True (\<lambda>a. a\<lparr>atUID := uid, atGID := gid\<rparr>) p"

definition Lchown :: "path \<Rightarrow> int \<Rightarrow> int \<Rightarrow> unit call" where
  "Lchown p uid gid = change_attrs False (\<lambda>a. a\<lparr>atUID := uid, atGID := gid\<rparr>) p"

definition Chtimes :: "path \<Rightarrow> int \<Rightarrow> unit call" where
  "Chtimes p mtime = change_attrs True (\<lambda>a. a\<lparr>atMtime := mtime\<rparr>) p"

text \<open>
  \<open>os.OpenFile\<close> with \<open>O_CREATE\<close>, \<open>O_TRUNC\<close> and \<open>O_WRONLY\<close> answers the real path that the descriptor is on;
  \<open>Write\<close> stores the whole contents through it.
\<close>

definition OpenTrunc :: "path \<Rightarrow> nat \<Rightarrow> path call" where
  "OpenTrunc p mode fs =
     (case lookup_path fs p True of
        Inl e \<Rightarrow> (Inl e, fs)
      | Inr q \<Rightarrow>
          (case get fs q of
             None \<Rightarrow> (Inr q, put q (File \<lparr>atMode = mode, atUID = 0, atGID = 0, atMtime = 0\<rparr> []) fs)
           | Some (File a c) \<Rightarrow> (Inr q, put q (File a []) fs)
           | Some _ \<Rightarrow> (Inl EISDIR, fs)))"

definition Write :: "path \<Rightarrow> string \<Rightarrow> unit call" where
  "Write q data fs =
     (case get fs q of Some (File a c) \<Rightarrow> (Inr (), put q (File a data) fs) | _ \<Rightarrow> (Inl EOTHER, fs))"

definition ReadFile :: "path \<Rightarrow> string call" where
  "ReadFile p fs =
     (case lookup_path fs p True of
        Inl e \<Rightarrow> (Inl e, fs)
      | Inr q \<Rightarrow>
          (case get fs q of
             None \<Rightarrow> (Inl ENOENT, fs)
           | Some (File a c) \<Rightarrow> (Inr c, fs)
           | Some _ \<Rightarrow> (Inl EISDIR, fs)))"

definition Symlink :: "string \<Rightarrow> path \<Rightarrow> unit call" where
  "Symlink target p fs =
     (case lookup_path fs p False of
        Inl e \<Rightarrow> (Inl e, fs)
      | Inr q \<Rightarrow>
          (case get fs q of
             Some _ \<Rightarrow> (Inl EEXIST, fs)
           | None \<Rightarrow> (Inr (), put q (Link \<lparr>atMode = 511, atUID = 0, atGID = 0, atMtime = 0\<rparr> target) fs)))"

text \<open>The code renames files and links only.\<close>

definition Rename :: "path \<Rightarrow> path \<Rightarrow> unit call" where
  "Rename p1 p2 fs =
     (case (lookup_path fs p1 False, lookup_path fs p2 False) of
        (Inr q1, Inr q2) \<Rightarrow>
          (case get fs q1 of
             None \<Rightarrow> (Inl ENOENT, fs)
           | Some (Dir a) \<Rightarrow> (Inl EOTHER, fs)
           | Some x \<Rightarrow>
               if is_dir (get fs q2) then (Inl EISDIR, fs)
               else if q1 = q2 then (Inr (), fs)
               else (Inr (), put q2 x (del q1 fs)))
      | (Inl e, _) \<Rightarrow> (Inl e, fs)
      | (_, Inl e) \<Rightarrow> (Inl e, fs))"

definition ReadDir :: "path \<Rightarrow> string list call" where
  "ReadDir p fs =
     (case lookup_path fs p True of
        Inl e \<Rightarrow> (Inl e, fs)
      | Inr q \<Rightarrow>
          (case get fs q of
             None \<Rightarrow> (Inl ENOENT, fs)
           | Some (Dir a) \<Rightarrow> (Inr (children fs q), fs)
           | Some _ \<Rightarrow> (Inl ENOTDIR, fs)))"

subsection \<open>Where a path leads\<close>

text \<open>Every step of the path, the root directory and the last one included, is a directory.\<close>

definition real_dir :: "fs \<Rightarrow> path \<Rightarrow> bool" where
  "real_dir fs p \<longleftrightarrow> list_all (\<lambda>k. is_dir (get fs (take k p))) [0..<Suc (length p)]"

lemma real_dir_iff: "real_dir fs p \<longleftrightarrow> (\<forall>k \<le> length p. is_dir (get fs (take k p)))"
  by (auto simp: real_dir_def list_all_iff less_Suc_eq_le simp del: upt_Suc)

lemma real_dir_snoc: "real_dir fs (p @ [s]) \<longleftrightarrow> real_dir fs p \<and> is_dir (get fs (p @ [s]))"
  by (auto simp: real_dir_iff le_Suc_eq)

lemma real_dir_self: "real_dir fs p \<Longrightarrow> is_dir (get fs p)"
  by (auto simp: real_dir_iff dest: spec [of _ "length p"])

lemma real_dir_prefix: "real_dir fs (p @ q) \<Longrightarrow> real_dir fs p"
proof (unfold real_dir_iff, intro allI impI)
  fix k assume "\<forall>k \<le> length (p @ q). is_dir (get fs (take k (p @ q)))" and "k \<le> length p"
  then show "is_dir (get fs (take k p))" by (auto dest: spec [of _ k])
qed

lemma dir_not_link: "is_dir x \<Longrightarrow> \<not> is_link x"
  by (auto simp: is_dir_def is_link_def split: option.splits node.splits)

text \<open>No proper prefix of the path is a link: only the last step of the path can leave it.\<close>

definition straight :: "fs \<Rightarrow> path \<Rightarrow> bool" where
  "straight fs p \<longleftrightarrow> (\<forall>k < length p. \<not> is_link (get fs (take k p)))"

lemma straight_below: "real_dir fs p \<Longrightarrow> straight fs (p @ [s])"
  by (auto simp: straight_def real_dir_iff less_Suc_eq_le dest: dir_not_link)

lemma straight_real_dir: "real_dir fs p \<Longrightarrow> straight fs p"
  using dir_not_link by (fastforce simp: straight_def real_dir_iff)

lemma namei_straight:
  assumes "safe_segs ss" and "\<And>k. k < length ss \<Longrightarrow> 0 < k \<Longrightarrow> \<not> is_link (get fs (cur @ take k ss))"
    and "follow \<Longrightarrow> ss \<noteq> [] \<Longrightarrow> \<not> is_link (get fs (cur @ ss))" and "namei fs n cur ss follow = Inr q"
  shows "q = cur @ ss"
  using assms
proof (induction ss arbitrary: cur)
  case (Cons s ss)
  have s: "s \<noteq> []" "s \<noteq> ''.''" "s \<noteq> ''..''" "safe_segs ss" using Cons.prems(1) by (simp_all add: safe_segs_def)
  obtain a where dir: "get fs cur = Some (Dir a)"
    using Cons.prems(4) by (auto split: option.splits node.splits)
  have link: "is_link (get fs (cur @ [s])) \<Longrightarrow> ss = [] \<and> \<not> follow"
    using Cons.prems(2) [of 1] Cons.prems(3) by (cases ss) auto
  show ?case
  proof (cases "is_link (get fs (cur @ [s]))")
    case True
    then obtain b t where "get fs (cur @ [s]) = Some (Link b t)" by (auto simp: is_link_def split: option.splits node.splits)
    then show ?thesis using Cons.prems(4) link [OF True] dir s by simp
  next
    case False
    have "namei fs n (cur @ [s]) ss follow = Inr q"
    proof (cases "get fs (cur @ [s])")
      case (Some x)
      then show ?thesis using Cons.prems(4) False dir s by (cases x) (simp_all add: is_link_def)
    qed (use Cons.prems(4) dir s in simp)
    moreover have "\<not> is_link (get fs ((cur @ [s]) @ take k ss))" if "k < length ss" "0 < k" for k
      using Cons.prems(2) [of "Suc k"] that by simp
    moreover have "\<not> is_link (get fs ((cur @ [s]) @ ss))" if "follow" "ss \<noteq> []" for k
      using Cons.prems(3) that by simp
    ultimately show ?thesis using Cons.IH [of "cur @ [s]"] s(4) by simp
  qed
qed simp

lemma lookup_straight:
  "safe_segs p \<Longrightarrow> straight fs p \<Longrightarrow> (follow \<Longrightarrow> \<not> is_link (get fs p)) \<Longrightarrow> lookup_path fs p follow = Inr q \<Longrightarrow> q = p"
  unfolding lookup_path_def using namei_straight [of p fs "[]" follow max_links q] by (simp add: straight_def)

subsection \<open>What a call changes\<close>

text \<open>
  Only the nodes at the paths of \<open>T\<close> change, a link appears only at a path of \<open>L\<close>, and new nodes have
  plain names.
\<close>

definition changes :: "path set \<Rightarrow> path set \<Rightarrow> fs \<Rightarrow> fs \<Rightarrow> bool" where
  "changes T L fs fs1 \<longleftrightarrow>
     (\<forall>q. q \<notin> T \<longrightarrow> get fs1 q = get fs q) \<and> (\<forall>q. is_link (get fs1 q) \<longrightarrow> is_link (get fs q) \<or> q \<in> L) \<and>
     (\<forall>q. get fs1 q \<noteq> None \<longrightarrow> get fs q \<noteq> None \<or> safe_segs q)"

lemma changes_refl [simp]: "changes T L fs fs"
  by (simp add: changes_def)

lemma changes_trans: "changes T L fs fs1 \<Longrightarrow> changes T L fs1 fs2 \<Longrightarrow> changes T L fs fs2"
  unfolding changes_def by metis

lemma changes_mono: "changes T L fs fs1 \<Longrightarrow> T \<subseteq> T1 \<Longrightarrow> L \<subseteq> L1 \<Longrightarrow> changes T1 L1 fs fs1"
  by (auto simp: changes_def)

lemma changes_get: "changes T L fs fs1 \<Longrightarrow> q \<notin> T \<Longrightarrow> get fs1 q = get fs q"
  by (simp add: changes_def)

lemma changes_link: "changes T L fs fs1 \<Longrightarrow> is_link (get fs1 q) \<Longrightarrow> q \<notin> L \<Longrightarrow> is_link (get fs q)"
  by (auto simp: changes_def)

lemma changes_put: "p \<in> T \<Longrightarrow> get fs p \<noteq> None \<or> safe_segs p \<Longrightarrow> is_link (Some x) \<longrightarrow> is_link (get fs p) \<or> p \<in> L \<Longrightarrow> changes T L fs (put p x fs)"
  by (auto simp: changes_def update_conv')

lemma changes_del: "p \<in> T \<Longrightarrow> changes T L fs (del p fs)"
  by (auto simp: changes_def delete_conv' is_link_def)

lemma get_filter_keys: "get (filter (\<lambda>(k, x). P k) fs) q = (if P q then get fs q else None)"
  by (induction fs) auto

lemma changes_filter: "(\<And>q. \<not> P q \<Longrightarrow> q \<in> T) \<Longrightarrow> changes T L fs (filter (\<lambda>(k, x). P k) fs)"
  by (auto simp: changes_def get_filter_keys is_link_def)

lemma real_dir_changes:
  "real_dir fs p \<Longrightarrow> changes T L fs fs1 \<Longrightarrow> (\<And>k. k \<le> length p \<Longrightarrow> take k p \<notin> T) \<Longrightarrow> real_dir fs1 p"
  by (auto simp: real_dir_iff changes_def)

text \<open>A call on a path whose directory is real acts on that path.\<close>

definition at_path :: "fs \<Rightarrow> path \<Rightarrow> bool" where
  "at_path fs p \<longleftrightarrow> p \<noteq> [] \<and> safe_segs p \<and> real_dir fs (butlast p)"

lemma at_path_lookup:
  assumes "at_path fs p" and "lookup_path fs p follow = Inr q" and "follow \<longrightarrow> \<not> is_link (get fs p)"
  shows "q = p"
proof (rule lookup_straight [OF _ _ _ assms(2)])
  show "straight fs p"
    using assms(1) straight_below [of fs "butlast p" "last p"] by (simp add: at_path_def)
qed (use assms in \<open>auto simp: at_path_def\<close>)

lemma set_attrs_kind [simp]:
  "is_link (Some (set_attrs f x)) = is_link (Some x)" "is_dir (Some (set_attrs f x)) = is_dir (Some x)"
  by (cases x; simp add: is_link_def is_dir_def)+

lemma at_path_cases:
  assumes "at_path fs p" and "follow \<longrightarrow> \<not> is_link (get fs p)"
  obtains e where "lookup_path fs p follow = Inl e" | "lookup_path fs p follow = Inr p"
  using at_path_lookup [OF assms(1) _ assms(2)] by (cases "lookup_path fs p follow") auto

lemma at_path_safe: "at_path fs p \<Longrightarrow> safe_segs p"
  by (simp add: at_path_def)

lemma link_kinds [simp]:
  "is_link (Some (Link a t))" "\<not> is_link (Some (File a c))" "\<not> is_link (Some (Dir a))" "\<not> is_link None"
  "is_dir (Some (Dir a))" "\<not> is_dir (Some (File a c))" "\<not> is_dir (Some (Link a t))" "\<not> is_dir None"
  by (simp_all add: is_link_def is_dir_def)

lemma Lstat_at:
  assumes "at_path fs p"
  shows "snd (Lstat p fs) = fs" and "fst (Lstat p fs) = Inr x \<Longrightarrow> get fs p = Some x"
  by (rule at_path_cases [OF assms, of False]; auto simp: Lstat_def split: option.splits)+

lemma Mkdir_at:
  assumes "at_path fs p"
  shows "changes ({p} \<inter> {q. get fs q = None}) L fs (snd (Mkdir p m fs))"
    and "fst (Mkdir p m fs) = Inr x \<Longrightarrow> is_dir (get (snd (Mkdir p m fs)) p)"
  by (rule at_path_cases [OF assms, of False];
      auto simp: Mkdir_def at_path_safe [OF assms] update_conv' intro!: changes_put split: option.splits)+

lemma Remove_at:
  assumes "at_path fs p"
  shows "changes {p} L fs (snd (Remove p fs))"
    and "fst (Remove p fs) = Inr x \<Longrightarrow> get (snd (Remove p fs)) p = None"
proof -
  have "snd (Remove p fs) = fs \<and> fst (Remove p fs) \<noteq> Inr x \<or> snd (Remove p fs) = del p fs"
    by (rule at_path_cases [OF assms, of False])
      (simp_all add: Remove_def split: option.split node.split)
  then show "changes {p} L fs (snd (Remove p fs))"
    and "fst (Remove p fs) = Inr x \<Longrightarrow> get (snd (Remove p fs)) p = None"
    by (auto simp: changes_del delete_conv')
qed

lemma in_tree_append [simp]: "in_tree p (p @ q)"
  by (simp add: in_tree_def)

lemma RemoveAll_at:
  assumes "at_path fs p"
  shows "changes {q. in_tree p q} L fs (snd (RemoveAll p fs))"
  by (rule at_path_cases [OF assms, of False];
      auto simp: RemoveAll_def intro!: changes_filter split: errno.splits)

lemma change_attrs_at:
  assumes "at_path fs p" and "follow \<longrightarrow> \<not> is_link (get fs p)"
  shows "changes {p} L fs (snd (change_attrs follow f p fs))"
    and "fst (change_attrs follow f p fs) = Inr u \<Longrightarrow>
      \<exists>x. get fs p = Some x \<and> get (snd (change_attrs follow f p fs)) p = Some (set_attrs f x)"
  by (rule at_path_cases [OF assms];
      auto simp: change_attrs_def at_path_safe [OF assms(1)] update_conv' intro!: changes_put split: option.splits)+

lemma OpenTrunc_at:
  assumes "at_path fs p" and "\<not> is_link (get fs p)"
  shows "changes {p} L fs (snd (OpenTrunc p m fs))"
    and "fst (OpenTrunc p m fs) = Inr q \<Longrightarrow> q = p"
  by (rule at_path_cases [OF assms(1), of True];
      use assms(2) in \<open>auto simp: OpenTrunc_def at_path_safe [OF assms(1)] intro!: changes_put split: option.splits node.splits\<close>)+

lemma Write_at:
  "changes {q} L fs (snd (Write q c fs))"
  "fst (Write q c fs) = Inr u \<Longrightarrow> \<exists>a. get (snd (Write q c fs)) q = Some (File a c)"
  by (auto simp: Write_def update_conv' intro!: changes_put split: option.splits node.splits)

lemma ReadFile_at:
  assumes "at_path fs p" and "\<not> is_link (get fs p)"
  shows "snd (ReadFile p fs) = fs" and "fst (ReadFile p fs) = Inr c \<Longrightarrow> \<exists>a. get fs p = Some (File a c)"
  by (rule at_path_cases [OF assms(1), of True];
      use assms(2) in \<open>auto simp: ReadFile_def split: option.splits node.splits\<close>)+

lemma Symlink_at:
  assumes "at_path fs p"
  shows "changes {p} {p} fs (snd (Symlink t p fs))"
    and "fst (Symlink t p fs) = Inr u \<Longrightarrow> \<exists>a. get (snd (Symlink t p fs)) p = Some (Link a t)"
  by (rule at_path_cases [OF assms, of False];
      auto simp: Symlink_def at_path_safe [OF assms] update_conv' intro!: changes_put split: option.splits)+

lemma Rename_at:
  assumes "at_path fs p1" and "at_path fs p2"
  shows "changes {p1, p2} ({p2} \<inter> {q. is_link (get fs p1)}) fs (snd (Rename p1 p2 fs))"
    and "fst (Rename p1 p2 fs) = Inr u \<Longrightarrow> p1 \<noteq> p2 \<Longrightarrow> get (snd (Rename p1 p2 fs)) p2 = get fs p1"
  by (rule at_path_cases [OF assms(1), of False]; rule at_path_cases [OF assms(2), of False];
      auto simp: Rename_def at_path_safe [OF assms(2)] update_conv' delete_conv' changes_def is_link_def split: option.splits node.splits)+

lemma ReadDir_at:
  assumes "at_path fs p" and "\<not> is_link (get fs p)"
  shows "snd (ReadDir p fs) = fs" and "fst (ReadDir p fs) = Inr ns \<Longrightarrow> ns = children fs p"
  by (rule at_path_cases [OF assms(1), of True];
      use assms(2) in \<open>auto simp: ReadDir_def split: option.splits node.splits\<close>)+

lemma set_children: "set (children fs p) = {s. get fs (p @ [s]) \<noteq> None}"
proof -
  have "s \<in> last ` {q \<in> set (keys fs). q \<noteq> [] \<and> butlast q = p} \<longleftrightarrow> p @ [s] \<in> set (keys fs)" for s
    by (force simp: image_iff intro: append_butlast_last_id [symmetric])
  then show ?thesis
    by (auto simp: children_def map_of_eq_None_iff)
qed

text \<open>Removing a directory takes nothing reachable with it.\<close>

definition reachable :: "fs \<Rightarrow> path \<Rightarrow> bool" where
  "reachable fs p \<longleftrightarrow> real_dir fs (butlast p) \<and> get fs p \<noteq> None"

end
