(* ===== verification/Datamover_Commit.thy ===== *)
theory Datamover_Commit
  imports Filesystem Datamover_Ingest
begin

text \<open>
  The committer of \<^verbatim>\<open>src/datamover/internal/ingest/commit_fs.go\<close>, which finalizes a transfer onto a
  local file system: retries of transient I/O errors, directories without links on the way, files
  assembled beside their place and renamed into it, links, the full-sync deletion pass and the times
  of the directories. The root and the state directory are lists of names; an entry's path is split
  at its slashes. A path below the root is joined by appending, since \<open>Validate\<close> admits no empty,
  dotted or climbing segment. The staged chunks are the record \<open>disk\<close> of the resume state; the time
  of a directory around a changed entry and the pauses between two attempts are left out.
\<close>

subsection \<open>Transient errors\<close>

text \<open>An error number in an \<open>os.PathError\<close>, or a text made of one with \<open>%v\<close>, which no longer holds it.\<close>

datatype ioerr = Errno errno | Flat

type_synonym 'a io = "os \<Rightarrow> (ioerr + 'a) \<times> os"

definition isTransientIO :: "ioerr \<Rightarrow> bool" where
  "isTransientIO err = (case err of Errno e \<Rightarrow> e = EIO \<or> e = EREMOTEIO | Flat \<Rightarrow> False)"

definition ioRetryAttempts :: nat where
  "ioRetryAttempts = 5"

fun retry_from :: "nat \<Rightarrow> 'a io \<Rightarrow> 'a io" where
  "retry_from 0 fn w = (Inl Flat, w)"
| "retry_from (Suc n) fn w =
     (case fn w of
        (Inr x, w1) \<Rightarrow> (Inr x, w1)
      | (Inl err, w1) \<Rightarrow> if \<not> isTransientIO err \<or> n = 0 then (Inl err, w1) else retry_from n fn w1)"

definition retryIO :: "'a io \<Rightarrow> 'a io" where
  "retryIO fn w = retry_from ioRetryAttempts fn w"

definition os_call :: "'a call \<Rightarrow> 'a io" where
  "os_call f w = (case syscall f w of (Inl e, w1) \<Rightarrow> (Inl (Errno e), w1) | (Inr x, w1) \<Rightarrow> (Inr x, w1))"

definition lstatRetry :: "path \<Rightarrow> node io" where
  "lstatRetry p w = retryIO (os_call (Lstat p)) w"

definition readDirRetry :: "path \<Rightarrow> string list io" where
  "readDirRetry p w = retryIO (os_call (ReadDir p)) w"

definition mkdirRetry :: "path \<Rightarrow> unit io" where
  "mkdirRetry p w = retryIO (os_call (Mkdir p 493)) w"

text \<open>The rest of a function after a call whose error it returns.\<close>

definition andThen :: "'a io \<Rightarrow> ('a \<Rightarrow> 'b io) \<Rightarrow> 'b io" where
  "andThen f g w = (case f w of (Inl err, w1) \<Rightarrow> (Inl Flat, w1) | (Inr x, w1) \<Rightarrow> g x w1)"

definition io_return :: "'a \<Rightarrow> 'a io" where
  "io_return x w = (Inr x, w)"

subsection \<open>Directories\<close>

fun ensure_segs :: "path \<Rightarrow> string list \<Rightarrow> unit io" where
  "ensure_segs current [] w = (Inr (), w)"
| "ensure_segs current (seg # segs) w =
     (let p = current @ [seg]
      in case lstatRetry p w of
           (Inl err, w1) \<Rightarrow>
             if err = Errno ENOENT then andThen (mkdirRetry p) (\<lambda>_. ensure_segs p segs) w1
             else (Inl Flat, w1)
         | (Inr info, w1) \<Rightarrow>
             if is_dir (Some info) then ensure_segs p segs w1
             else andThen (retryIO (os_call (Remove p))) (\<lambda>_. andThen (mkdirRetry p) (\<lambda>_. ensure_segs p segs)) w1)"

definition ensureRealDir :: "path \<Rightarrow> string \<Rightarrow> unit io" where
  "ensureRealDir root relDir w =
     (if relDir = ''.'' \<or> relDir = [] then (Inr (), w) else ensure_segs root (split_at (CHR ''/'') relDir) w)"

definition parentDir :: "string \<Rightarrow> string" where
  "parentDir p = (case LastIndex p ''/'' of Some i \<Rightarrow> take i p | None \<Rightarrow> [])"

definition final_path :: "path \<Rightarrow> mentry \<Rightarrow> path" where
  "final_path root e = root @ split_at (CHR ''/'') (mPath e)"

text \<open>The path string with a suffix: the suffix goes to its last name.\<close>

definition with_suffix :: "path \<Rightarrow> string \<Rightarrow> path" where
  "with_suffix p suf = butlast p @ [last p @ suf]"

definition chown_if_root :: "unit io \<Rightarrow> unit io" where
  "chown_if_root chown w = (if osSuper w then chown w else (Inr (), w))"

definition commitDir :: "path \<Rightarrow> mentry \<Rightarrow> os \<Rightarrow> FileResult \<times> os" where
  "commitDir root e w =
     (let res = \<lparr>frPath = mPath e, frSHA256 = [], frMatch = True, frError = False\<rparr>;
          final = final_path root e
      in case ensureRealDir root (mPath e) w of
           (Inl err, w1) \<Rightarrow> (res\<lparr>frMatch := False, frError := True\<rparr>, w1)
         | (Inr _, w1) \<Rightarrow>
             (case andThen (retryIO (os_call (Chmod final (mMode e))))
                     (\<lambda>_. chown_if_root (retryIO (os_call (Chown final (mUID e) (mGID e))))) w1 of
                (Inl err, w2) \<Rightarrow> (res\<lparr>frError := True\<rparr>, w2)
              | (Inr _, w2) \<Rightarrow> (res, w2)))"

subsection \<open>Files\<close>

text \<open>
  A failed assembly leaves the file it began to a removal that is tried once. \<open>assembled\<close> is what
  the staged chunks yield for the entry; nothing but a whole file counts.
\<close>

definition assembleTo :: "string option \<Rightarrow> path \<Rightarrow> unit io" where
  "assembleTo assembled part w =
     (case os_call (OpenTrunc part 384) w of
        (Inl err, w1) \<Rightarrow> (Inl Flat, w1)
      | (Inr fd, w1) \<Rightarrow>
          (case (case assembled of
                   Some data \<Rightarrow> os_call (Write fd data) w1
                 | None \<Rightarrow> (Inl Flat, w1)) of
             (Inr _, w2) \<Rightarrow> (Inr (), w2)
           | (Inl err, w2) \<Rightarrow> (Inl Flat, snd (os_call (Remove part) w2))))"

definition hashFile :: "digest \<Rightarrow> path \<Rightarrow> string io" where
  "hashFile H p w =
     (case os_call (ReadFile p) w of (Inl err, w1) \<Rightarrow> (Inl Flat, w1) | (Inr data, w1) \<Rightarrow> (Inr (H data), w1))"

definition replaceIfDir :: "path \<Rightarrow> unit io" where
  "replaceIfDir final w =
     (case lstatRetry final w of
        (Inl err, w1) \<Rightarrow> if err = Errno ENOENT then (Inr (), w1) else (Inl Flat, w1)
      | (Inr info, w1) \<Rightarrow>
          if is_dir (Some info) then andThen (retryIO (os_call (RemoveAll final))) (\<lambda>_. io_return ()) w1
          else (Inr (), w1))"

definition applyAndRename :: "mentry \<Rightarrow> path \<Rightarrow> path \<Rightarrow> unit io" where
  "applyAndRename e part final =
     andThen (retryIO (os_call (Chmod part (mMode e)))) (\<lambda>_.
     andThen (chown_if_root (retryIO (os_call (Chown part (mUID e) (mGID e))))) (\<lambda>_.
     andThen (retryIO (os_call (Chtimes part (mMtime e)))) (\<lambda>_.
     andThen (replaceIfDir final) (\<lambda>_.
     andThen (retryIO (os_call (Rename part final))) io_return))))"

definition assembled_bytes :: "State \<Rightarrow> disk \<Rightarrow> nat \<Rightarrow> string option" where
  "assembled_bytes st dk i = (case AssembleEntry st dk i of Some (Inr data) \<Rightarrow> Some data | _ \<Rightarrow> None)"

definition commitFile :: "digest \<Rightarrow> State \<Rightarrow> disk \<Rightarrow> path \<Rightarrow> nat \<Rightarrow> mentry \<Rightarrow> os \<Rightarrow> FileResult \<times> os" where
  "commitFile H st dk root i e w =
     (let res = \<lparr>frPath = mPath e, frSHA256 = [], frMatch = False, frError = False\<rparr>;
          final = final_path root e;
          part = with_suffix final ''.kipper-part''
      in case ensureRealDir root (parentDir (mPath e)) w of
           (Inl err, w1) \<Rightarrow> (res\<lparr>frError := True\<rparr>, w1)
         | (Inr _, w1) \<Rightarrow>
             (case retryIO (assembleTo (assembled_bytes st dk i) part) w1 of
                (Inl err, w2) \<Rightarrow> (res\<lparr>frError := True\<rparr>, w2)
              | (Inr _, w2) \<Rightarrow>
                  (case retryIO (hashFile H part) w2 of
                     (Inl err, w3) \<Rightarrow> (res\<lparr>frError := True\<rparr>, w3)
                   | (Inr hash, w3) \<Rightarrow>
                       if hash \<noteq> mSHA256 e
                       then (res\<lparr>frSHA256 := hash, frError := True\<rparr>, snd (os_call (Remove part) w3))
                       else
                         (case applyAndRename e part final w3 of
                            (Inl err, w4) \<Rightarrow> (res\<lparr>frSHA256 := hash, frMatch := True, frError := True\<rparr>, w4)
                          | (Inr _, w4) \<Rightarrow> (res\<lparr>frSHA256 := hash, frMatch := True\<rparr>, w4)))))"

subsection \<open>Links\<close>

text \<open>\<open>os.Remove\<close> of the temporary link may find nothing.\<close>

definition clear_link :: "path \<Rightarrow> unit io" where
  "clear_link tmp w =
     (case retryIO (os_call (Remove tmp)) w of
        (Inl err, w1) \<Rightarrow> if err = Errno ENOENT then (Inr (), w1) else (Inl Flat, w1)
      | (Inr _, w1) \<Rightarrow> (Inr (), w1))"

definition commitSymlink :: "path \<Rightarrow> mentry \<Rightarrow> os \<Rightarrow> FileResult \<times> os" where
  "commitSymlink root e w =
     (let res = \<lparr>frPath = mPath e, frSHA256 = [], frMatch = True, frError = False\<rparr>;
          final = final_path root e;
          tmp = with_suffix final ''.kipper-link''
      in case andThen (ensureRealDir root (parentDir (mPath e))) (\<lambda>_.
              andThen (replaceIfDir final) (\<lambda>_.
              andThen (clear_link tmp) (\<lambda>_.
              andThen (retryIO (os_call (Symlink (mLinkTarget e) tmp))) (\<lambda>_.
              andThen (chown_if_root (retryIO (os_call (Lchown tmp (mUID e) (mGID e))))) (\<lambda>_.
              andThen (retryIO (os_call (Rename tmp final))) io_return))))) w of
           (Inl err, w1) \<Rightarrow> (res\<lparr>frMatch := False, frError := True\<rparr>, w1)
         | (Inr _, w1) \<Rightarrow> (res, w1))"

subsection \<open>The deletion pass\<close>

definition path_join :: "string \<Rightarrow> string \<Rightarrow> string" where
  "path_join rel name = (if rel = [] then name else rel @ ''/'' @ name)"

text \<open>How a walk ends; running out of fuel is told apart from an error.\<close>

datatype walk_end = WalkDone | WalkError | WalkFuel

record sweep_lists =
  swDeleted :: "string list"
  swPrune :: "path list"

type_synonym walker = "path \<Rightarrow> string \<Rightarrow> sweep_lists \<Rightarrow> os \<Rightarrow> walk_end \<times> sweep_lists \<times> os"

fun walk_entries :: "walker \<Rightarrow> path \<Rightarrow> string list \<Rightarrow> path \<Rightarrow> string \<Rightarrow> string list \<Rightarrow> sweep_lists \<Rightarrow> os \<Rightarrow> walk_end \<times> sweep_lists \<times> os" where
  "walk_entries walk stateDir keep dir rel [] sw w = (WalkDone, sw, w)"
| "walk_entries walk stateDir keep dir rel (name # names) sw w =
     (case context_done w of
        (True, w1) \<Rightarrow> (WalkError, sw, w1)
      | (False, w1) \<Rightarrow>
          let child = dir @ [name]; childRel = path_join rel name
          in if child = stateDir then walk_entries walk stateDir keep dir rel names sw w1
             else
               (case lstatRetry child w1 of
                  (Inl err, w2) \<Rightarrow> (WalkError, sw, w2)
                | (Inr info, w2) \<Rightarrow>
                    if is_dir (Some info) then
                      (case walk child childRel sw w2 of
                         (WalkDone, sw1, w3) \<Rightarrow>
                           walk_entries walk stateDir keep dir rel names
                             (if childRel \<in> set keep then sw1 else sw1\<lparr>swPrune := swPrune sw1 @ [child]\<rparr>) w3
                       | r \<Rightarrow> r)
                    else if childRel \<in> set keep then walk_entries walk stateDir keep dir rel names sw w2
                    else
                      (case retryIO (os_call (Remove child)) w2 of
                         (Inl err, w3) \<Rightarrow> (WalkError, sw, w3)
                       | (Inr _, w3) \<Rightarrow>
                           walk_entries walk stateDir keep dir rel names
                             (sw\<lparr>swDeleted := swDeleted sw @ [childRel]\<rparr>) w3)))"

primrec walk_dir :: "nat \<Rightarrow> path \<Rightarrow> string list \<Rightarrow> walker" where
  "walk_dir 0 stateDir keep dir rel sw w = (WalkFuel, sw, w)"
| "walk_dir (Suc n) stateDir keep dir rel sw w =
     (case context_done w of
        (True, w1) \<Rightarrow> (WalkError, sw, w1)
      | (False, w1) \<Rightarrow>
          (case readDirRetry dir w1 of
             (Inl err, w2) \<Rightarrow> (WalkError, sw, w2)
           | (Inr names, w2) \<Rightarrow> walk_entries (walk_dir n stateDir keep) stateDir keep dir rel names sw w2))"

fun prune_dirs :: "path list \<Rightarrow> os \<Rightarrow> bool \<times> os" where
  "prune_dirs [] w = (True, w)"
| "prune_dirs (dir # dirs) w =
     (case readDirRetry dir w of
        (Inl err, w1) \<Rightarrow> (False, w1)
      | (Inr names, w1) \<Rightarrow>
          prune_dirs dirs (if names = [] then snd (retryIO (os_call (Remove dir)) w1) else w1))"

text \<open>The length of a path as a string, and the paths with the longest first.\<close>

definition path_length :: "path \<Rightarrow> nat" where
  "path_length p = length (concat p) + length p"

definition longest_first :: "('a \<Rightarrow> nat) \<Rightarrow> 'a list \<Rightarrow> 'a list" where
  "longest_first len xs = rev (sort_key len (rev xs))"

text \<open>Names nest no deeper than the longest path of the file system.\<close>

definition walk_fuel :: "fs \<Rightarrow> nat" where
  "walk_fuel fs = fold max (map length (keys fs)) 0 + 1"

definition deletionPass :: "path \<Rightarrow> path \<Rightarrow> manifest \<Rightarrow> os \<Rightarrow> string list option \<times> os" where
  "deletionPass root stateDir m w =
     (case walk_dir (walk_fuel (osFs w)) stateDir (map mPath (mfEntries m)) root [] \<lparr>swDeleted = [], swPrune = []\<rparr> w of
        (WalkDone, sw, w1) \<Rightarrow>
          (case prune_dirs (longest_first path_length (swPrune sw)) w1 of
             (True, w2) \<Rightarrow> (Some (swDeleted sw), w2)
           | (False, w2) \<Rightarrow> (None, w2))
      | (_, sw, w1) \<Rightarrow> (None, w1))"

subsection \<open>The commit\<close>

type_synonym results = "(string, FileResult) gomap"

definition result_of :: "results \<Rightarrow> string \<Rightarrow> FileResult" where
  "result_of rs p =
     (case get rs p of Some res \<Rightarrow> res | None \<Rightarrow> \<lparr>frPath = [], frSHA256 = [], frMatch = False, frError = False\<rparr>)"

fun apply_times :: "path \<Rightarrow> mentry list \<Rightarrow> results \<Rightarrow> os \<Rightarrow> results \<times> os" where
  "apply_times root [] rs w = (rs, w)"
| "apply_times root (e # es) rs w =
     (case retryIO (os_call (Chtimes (final_path root e) (mMtime e))) w of
        (Inl err, w1) \<Rightarrow> apply_times root es (put (mPath e) ((result_of rs (mPath e))\<lparr>frError := True\<rparr>) rs) w1
      | (Inr _, w1) \<Rightarrow> apply_times root es rs w1)"

definition applyDirTimes :: "path \<Rightarrow> manifest \<Rightarrow> results \<Rightarrow> os \<Rightarrow> results \<times> os" where
  "applyDirTimes root m rs w =
     apply_times root
       (longest_first (\<lambda>e. length (mPath e))
          (filter (\<lambda>e. mType e = TypeDir \<and> frMatch (result_of rs (mPath e))) (mfEntries m))) rs w"

text \<open>\<open>None\<close> for the results is the early return on a cancelled context.\<close>

fun commit_tree ::
  "digest \<Rightarrow> State \<Rightarrow> disk \<Rightarrow> path \<Rightarrow> nat list \<Rightarrow> results \<Rightarrow> os \<Rightarrow> results option \<times> os" where
  "commit_tree H st dk root [] rs w = (Some rs, w)"
| "commit_tree H st dk root (i # is) rs w =
     (case context_done w of
        (True, w1) \<Rightarrow> (None, w1)
      | (False, w1) \<Rightarrow>
          let e = mfEntries (stManifest st) ! i
          in if mType e = TypeDir then
               (case commitDir root e w1 of (res, w2) \<Rightarrow> commit_tree H st dk root is (put (mPath e) res rs) w2)
             else if mType e = TypeFile then
               (case commitFile H st dk root i e w1 of
                  (res, w2) \<Rightarrow> commit_tree H st dk root is (put (mPath e) res rs) w2)
             else commit_tree H st dk root is rs w1)"

fun commit_links :: "path \<Rightarrow> mentry list \<Rightarrow> results \<Rightarrow> os \<Rightarrow> results \<times> os" where
  "commit_links root [] rs w = (rs, w)"
| "commit_links root (e # es) rs w =
     (if mType e = TypeSymlink
      then (case commitSymlink root e w of (res, w1) \<Rightarrow> commit_links root es (put (mPath e) res rs) w1)
      else commit_links root es rs w)"

definition FSCommit :: "digest \<Rightarrow> State \<Rightarrow> disk \<Rightarrow> path \<Rightarrow> path \<Rightarrow> os \<Rightarrow> Report option \<times> os" where
  "FSCommit H st dk root stateDir w =
     (let m = stManifest st
      in case commit_tree H st dk root [0..<length (mfEntries m)] [] w of
           (None, w1) \<Rightarrow> (None, w1)
         | (Some rs, w1) \<Rightarrow>
             (case commit_links root (mfEntries m) rs w1 of
                (rs1, w2) \<Rightarrow>
                  (case deletionPass root stateDir m w2 of
                     (None, w3) \<Rightarrow> (None, w3)
                   | (Some deleted, w3) \<Rightarrow>
                       (case applyDirTimes root m rs1 w3 of
                          (rs2, w4) \<Rightarrow>
                            (Some \<lparr>rpFiles = map (\<lambda>e. result_of rs2 (mPath e)) (mfEntries m), rpDeleted = deleted\<rparr>,
                             w4)))))"

end
