(* ===== verification/Datamover_Commit_Steps.thy ===== *)
theory Datamover_Commit_Steps
  imports Datamover_Commit
begin

text \<open>
  What each step of the file-system committer changes. \<open>sound\<close> is a Hoare-like triple with a frame:
  the paths a step may write, the paths where it may leave a link, and what holds when it succeeds,
  for every schedule of faults. The rules follow the shape of the code: one call, its retries, calls
  in sequence.
\<close>

section \<open>What the calls and their retries keep\<close>

text \<open>
  \<open>sound su I T L m Q\<close>: begun in a file system with \<open>I\<close> by a process that is root or not (\<open>su\<close>), \<open>m\<close>
  changes only the paths of \<open>T\<close>, makes links only at those of \<open>L\<close>, and where it succeeds \<open>Q\<close> holds
  after it.
\<close>

definition sound ::
  "bool \<Rightarrow> (fs \<Rightarrow> bool) \<Rightarrow> path set \<Rightarrow> path set \<Rightarrow> 'a io \<Rightarrow> ('a \<Rightarrow> fs \<Rightarrow> bool) \<Rightarrow> bool" where
  "sound su I T L m Q \<longleftrightarrow>
     (\<forall>w r w1. osSuper w = su \<longrightarrow> I (osFs w) \<longrightarrow> m w = (r, w1) \<longrightarrow>
        osSuper w1 = su \<and> changes T L (osFs w) (osFs w1) \<and> (\<forall>x. r = Inr x \<longrightarrow> Q x (osFs w1)))"

lemma soundI:
  "(\<And>w r w1. osSuper w = su \<Longrightarrow> I (osFs w) \<Longrightarrow> m w = (r, w1) \<Longrightarrow>
      osSuper w1 = su \<and> changes T L (osFs w) (osFs w1) \<and> (\<forall>x. r = Inr x \<longrightarrow> Q x (osFs w1))) \<Longrightarrow>
   sound su I T L m Q"
  unfolding sound_def by blast

lemma soundD:
  assumes "sound su I T L m Q" and "m w = (r, w1)" and "osSuper w = su" and "I (osFs w)"
  shows "osSuper w1 = su" and "changes T L (osFs w) (osFs w1)" and "r = Inr x \<Longrightarrow> Q x (osFs w1)"
  using assms(1) [unfolded sound_def, rule_format, OF assms(3,4,2)] by simp_all

lemma sound_mono:
  assumes "sound su I1 T1 L1 m Q1" and "T1 \<subseteq> T" and "L1 \<subseteq> L"
    and "\<And>fs. I fs \<Longrightarrow> I1 fs" and "\<And>x fs. Q1 x fs \<Longrightarrow> Q x fs"
  shows "sound su I T L m Q"
proof (rule soundI)
  fix w r w1 assume w: "osSuper w = su" "I (osFs w)" and run: "m w = (r, w1)"
  note facts = soundD [OF assms(1) run w(1) assms(4) [OF w(2)]]
  show "osSuper w1 = su \<and> changes T L (osFs w) (osFs w1) \<and> (\<forall>x. r = Inr x \<longrightarrow> Q x (osFs w1))"
    using facts(1,3) assms(5) changes_mono [OF facts(2) assms(2,3)] by blast
qed

definition stable :: "(fs \<Rightarrow> bool) \<Rightarrow> path set \<Rightarrow> path set \<Rightarrow> bool" where
  "stable J T L \<longleftrightarrow> (\<forall>fs fs1. J fs \<longrightarrow> changes T L fs fs1 \<longrightarrow> J fs1)"

lemma sound_keep: "sound su I T L m Q \<Longrightarrow> stable J T L \<Longrightarrow> sound su (\<lambda>fs. I fs \<and> J fs) T L m (\<lambda>x fs. Q x fs \<and> J fs)"
proof (rule soundI)
  fix w r w1 assume s: "sound su I T L m Q" and J: "stable J T L"
    and w: "osSuper w = su" "I (osFs w) \<and> J (osFs w)" and run: "m w = (r, w1)"
  note facts = soundD [OF s run w(1) conjunct1 [OF w(2)]]
  have "J (osFs w1)" using J w(2) facts(2) unfolding stable_def by blast
  then show "osSuper w1 = su \<and> changes T L (osFs w) (osFs w1) \<and> (\<forall>x. r = Inr x \<longrightarrow> Q x (osFs w1) \<and> J (osFs w1))"
    using facts by blast
qed

lemma sound_andThen:
  assumes "sound su I T L m Q" and "\<And>x. sound su (Q x) T L (g x) Q1"
  shows "sound su I T L (andThen m g) Q1"
proof (rule soundI)
  fix w r w1 assume w: "osSuper w = su" "I (osFs w)" and run: "andThen m g w = (r, w1)"
  obtain r2 w2 where m: "m w = (r2, w2)" by (cases "m w")
  note first = soundD [OF assms(1) m w]
  show "osSuper w1 = su \<and> changes T L (osFs w) (osFs w1) \<and> (\<forall>x. r = Inr x \<longrightarrow> Q1 x (osFs w1))"
  proof (cases r2)
    case (Inl e)
    then show ?thesis using run m first by (auto simp: andThen_def)
  next
    case (Inr x)
    then have "g x w2 = (r, w1)" using run m by (simp add: andThen_def)
    note second = soundD [OF assms(2) this first(1) first(3) [OF Inr]]
    show ?thesis using second changes_trans [OF first(2) second(2)] by blast
  qed
qed

lemma sound_return: "sound su (Q x) T L (io_return x) Q"
  by (auto simp: sound_def io_return_def)

lemma sound_nothing: "sound su I T L (\<lambda>w. (Inr x, w)) (\<lambda>_. I)"
  by (auto simp: sound_def)

lemma sound_retry:
  assumes "sound su I T L m Q" and "stable I T L"
  shows "sound su I T L (retryIO m) Q"
proof -
  have "sound su I T L (retry_from n m) Q" for n
  proof (induction n)
    case (Suc n)
    show ?case
    proof (rule soundI)
      fix w r w1 assume w: "osSuper w = su" "I (osFs w)" and run: "retry_from (Suc n) m w = (r, w1)"
      obtain r2 w2 where m: "m w = (r2, w2)" by (cases "m w")
      note first = soundD [OF assms(1) m w]
      have I: "I (osFs w2)" using first(2) w(2) assms(2) by (auto simp: stable_def)
      show "osSuper w1 = su \<and> changes T L (osFs w) (osFs w1) \<and> (\<forall>x. r = Inr x \<longrightarrow> Q x (osFs w1))"
      proof (cases "retry_from n m w2 = (r, w1)")
        case True
        note second = soundD [OF Suc.IH True first(1) I]
        show ?thesis using second changes_trans [OF first(2) second(2)] by blast
      next
        case False
        then have "(r, w1) = (r2, w2)" using run m by (auto split: sum.splits if_splits)
        then show ?thesis using first by blast
      qed
    qed
  qed (simp add: sound_def)
  then show ?thesis by (simp add: retryIO_def sound_def)
qed

text \<open>One call, with a fault or without.\<close>

lemma os_call_effect:
  assumes "os_call f w = (r, w1)"
  shows "osSuper w1 = osSuper w" and "osFs w1 = osFs w \<or> osFs w1 = snd (f (osFs w))"
    and "r = Inr x \<Longrightarrow> fst (f (osFs w)) = Inr x \<and> osFs w1 = snd (f (osFs w))"
  using assms by (auto simp: os_call_def syscall_def Let_def split: prod.splits option.splits sum.splits if_splits)

lemma sound_os_call:
  assumes "\<And>fs. I fs \<Longrightarrow> changes T L fs (snd (f fs))" and "\<And>fs x. I fs \<Longrightarrow> fst (f fs) = Inr x \<Longrightarrow> Q x (snd (f fs))"
  shows "sound su I T L (os_call f) Q"
proof (rule soundI)
  fix w r w1 assume w: "osSuper w = su" "I (osFs w)" and run: "os_call f w = (r, w1)"
  show "osSuper w1 = su \<and> changes T L (osFs w) (osFs w1) \<and> (\<forall>x. r = Inr x \<longrightarrow> Q x (osFs w1))"
    using os_call_effect [OF run] w assms(1) [OF w(2)] assms(2) [OF w(2)] by (metis changes_refl)
qed

lemma retry_call_inv:
  assumes inv: "\<And>fs. I fs \<Longrightarrow> I (snd (f fs))" and run: "retryIO (os_call f) w = (r, w1)" and start: "I (osFs w)"
  shows "osSuper w1 = osSuper w" and "I (osFs w1)"
    and "r = Inr x \<Longrightarrow> \<exists>fs. I fs \<and> fst (f fs) = Inr x \<and> osFs w1 = snd (f fs)"
proof -
  let ?ok = "\<lambda>r fs1. \<forall>x. r = Inr x \<longrightarrow> (\<exists>fs. I fs \<and> fst (f fs) = Inr x \<and> fs1 = snd (f fs))"
  have one: "osSuper w1 = osSuper w \<and> I (osFs w1) \<and> ?ok r (osFs w1)"
    if m: "os_call f w = (r, w1)" and I: "I (osFs w)" for w r w1
    using os_call_effect [OF m] I inv [OF I] by metis
  have "osSuper w1 = osSuper w \<and> I (osFs w1) \<and> ?ok r (osFs w1)"
    if "retry_from n (os_call f) w = (r, w1)" "I (osFs w)" for n w
    using that
  proof (induction n arbitrary: w)
    case (Suc n)
    obtain r2 w2 where m: "os_call f w = (r2, w2)" by (cases "os_call f w")
    note first = one [OF m Suc.prems(2)]
    show ?case
    proof (cases "retry_from n (os_call f) w2 = (r, w1)")
      case True
      then show ?thesis using Suc.IH [OF True] first by auto
    next
      case False
      then have "(r, w1) = (r2, w2)" using Suc.prems(1) m by (auto split: sum.splits if_splits)
      then show ?thesis using first by blast
    qed
  qed auto
  from this [OF run [unfolded retryIO_def] start]
  show "osSuper w1 = osSuper w" and "I (osFs w1)"
    and "r = Inr x \<Longrightarrow> \<exists>fs. I fs \<and> fst (f fs) = Inr x \<and> osFs w1 = snd (f fs)"
    by blast+
qed

lemma sound_call:
  assumes "\<And>fs. I fs \<Longrightarrow> changes T L fs (snd (f fs)) \<and> I (snd (f fs))"
    and "\<And>fs x. I fs \<Longrightarrow> fst (f fs) = Inr x \<Longrightarrow> Q x (snd (f fs))"
  shows "sound su I T L (retryIO (os_call f)) Q"
proof (rule soundI)
  fix w r w1 assume w: "osSuper w = su" "I (osFs w)" and run: "retryIO (os_call f) w = (r, w1)"
  let ?C = "\<lambda>fs. changes T L (osFs w) fs \<and> I fs"
  have inv: "?C (snd (f fs))" if "?C fs" for fs
    using that assms(1) [of fs] changes_trans [of T L "osFs w" fs] by blast
  have start: "?C (osFs w)" using w by simp
  note facts = retry_call_inv [of ?C, OF inv run start]
  show "osSuper w1 = su \<and> changes T L (osFs w) (osFs w1) \<and> (\<forall>x. r = Inr x \<longrightarrow> Q x (osFs w1))"
    using facts(1,2) facts(3) assms(2) w(1) by metis
qed

subsection \<open>Calls that only read\<close>

lemma retry_reads:
  assumes "\<And>fs. snd (f fs) = fs" and "retryIO (os_call f) w = (r, w1)"
  shows "osFs w1 = osFs w" and "osSuper w1 = osSuper w" and "r = Inr x \<Longrightarrow> fst (f (osFs w)) = Inr x"
proof -
  have "osFs w1 = osFs w \<and> osSuper w1 = osSuper w \<and> (r = Inr x \<longrightarrow> fst (f (osFs w)) = Inr x)"
    if "retry_from n (os_call f) w = (r, w1)" for n w
    using that
  proof (induction n arbitrary: w)
    case (Suc n)
    obtain r2 w2 where m: "os_call f w = (r2, w2)" by (cases "os_call f w")
    have same: "osFs w2 = osFs w" "osSuper w2 = osSuper w"
      using os_call_effect [OF m] assms(1) by auto
    show ?case
    proof (cases "retry_from n (os_call f) w2 = (r, w1)")
      case True
      then show ?thesis using Suc.IH [OF True] same by simp
    next
      case False
      then have "(r, w1) = (r2, w2)" using Suc.prems m by (auto split: sum.splits if_splits)
      then show ?thesis using same os_call_effect(3) [OF m] by blast
    qed
  qed auto
  from this [OF assms(2) [unfolded retryIO_def]]
  show "osFs w1 = osFs w" and "osSuper w1 = osSuper w" and "r = Inr x \<Longrightarrow> fst (f (osFs w)) = Inr x"
    by blast+
qed

lemma reads [simp]: "snd (Lstat p fs) = fs" "snd (ReadDir p fs) = fs" "snd (ReadFile p fs) = fs"
  by (simp_all add: Lstat_def ReadDir_def ReadFile_def split: sum.splits option.splits node.splits)

text \<open>Looking at a path and going on with what is there, or with the error.\<close>

lemma sound_lstat:
  assumes at: "\<And>fs. I fs \<Longrightarrow> at_path fs p"
    and found: "\<And>x. sound su (\<lambda>fs. I fs \<and> get fs p = Some x) T L (g x) Q"
    and failed: "\<And>e. sound su I T L (h e) Q"
  shows "sound su I T L (\<lambda>w. case lstatRetry p w of (Inl e, w1) \<Rightarrow> h e w1 | (Inr x, w1) \<Rightarrow> g x w1) Q"
proof (rule soundI)
  fix w r w1 assume w: "osSuper w = su" "I (osFs w)"
    and run: "(case lstatRetry p w of (Inl e, w1) \<Rightarrow> h e w1 | (Inr x, w1) \<Rightarrow> g x w1) = (r, w1)"
  obtain r2 w2 where m: "lstatRetry p w = (r2, w2)" by (cases "lstatRetry p w")
  note same = retry_reads [OF reads(1) m [unfolded lstatRetry_def]]
  show "osSuper w1 = su \<and> changes T L (osFs w) (osFs w1) \<and> (\<forall>x. r = Inr x \<longrightarrow> Q x (osFs w1))"
  proof (cases r2)
    case (Inl e)
    then have "h e w2 = (r, w1)" using run m by simp
    then show ?thesis using soundD [OF failed] same(1,2) w by metis
  next
    case (Inr x)
    then have "g x w2 = (r, w1)" using run m by simp
    moreover have "get (osFs w2) p = Some x"
      using Lstat_at(2) [OF at [OF w(2)]] same(1) same(3) [OF Inr] by simp
    ultimately show ?thesis using soundD [OF found] same(1,2) w by metis
  qed
qed

lemma sound_fail: "sound su I T L (\<lambda>w. (Inl e, w)) Q"
  by (auto simp: sound_def)

lemma sound_if: "(b \<Longrightarrow> sound su I T L m Q) \<Longrightarrow> (\<not> b \<Longrightarrow> sound su I T L n Q) \<Longrightarrow> sound su I T L (\<lambda>w. if b then m w else n w) Q"
  by (cases b) simp_all

subsection \<open>Real directories\<close>

definition on_way :: "path \<Rightarrow> string list \<Rightarrow> fs \<Rightarrow> path set" where
  "on_way current segs fs = {q. \<exists>k. 0 < k \<and> k \<le> length segs \<and> q = current @ take k segs \<and> \<not> is_dir (get fs q)}"

lemma on_way_Cons:
  "on_way current (s # ss) fs =
     (if is_dir (get fs (current @ [s])) then {} else {current @ [s]}) \<union> on_way (current @ [s]) ss fs"
  (is "?l = ?r")
proof (rule set_eqI)
  fix q
  have "q \<in> ?l \<longleftrightarrow> (\<exists>k \<le> length ss. q = current @ s # take k ss \<and> \<not> is_dir (get fs q))"
    unfolding on_way_def by (force simp: less_Suc_eq_0_disj Suc_le_eq gr0_conv_Suc)
  also have "\<dots> \<longleftrightarrow> (q = current @ [s] \<and> \<not> is_dir (get fs q)) \<or>
      (\<exists>k. 0 < k \<and> k \<le> length ss \<and> q = current @ s # take k ss \<and> \<not> is_dir (get fs q))"
    using le0 neq0_conv by (metis take0)
  also have "\<dots> \<longleftrightarrow> q \<in> ?r"
    by (auto simp: on_way_def)
  finally show "q \<in> ?l \<longleftrightarrow> q \<in> ?r" .
qed

lemma on_way_mono: "(\<And>q. is_dir (get fs q) \<Longrightarrow> is_dir (get fs1 q)) \<Longrightarrow> on_way current segs fs1 \<subseteq> on_way current segs fs"
  by (auto simp: on_way_def)

lemma at_path_snoc: "real_dir fs p \<Longrightarrow> safe_segs (p @ [s]) \<Longrightarrow> at_path fs (p @ [s])"
  by (simp add: at_path_def)

lemma on_way_put_dir: "on_way current segs (put p (Dir a) fs) \<subseteq> on_way current segs fs"
  by (rule on_way_mono) (auto simp: update_conv')

text \<open>The state in which a directory \<open>p @ [s]\<close> is about to be made on the way to \<open>p @ s # ss\<close>.\<close>

definition before_dir :: "path \<Rightarrow> string \<Rightarrow> string list \<Rightarrow> path set \<Rightarrow> fs \<Rightarrow> bool" where
  "before_dir p s ss T fs \<longleftrightarrow> real_dir fs p \<and> on_way p (s # ss) fs \<subseteq> T"

lemma before_dir_put:
  assumes "before_dir p s ss T fs"
  shows "before_dir p s ss T (put (p @ [s]) (Dir a) fs)"
proof -
  have "real_dir (put (p @ [s]) (Dir a) fs) p"
    using assms by (auto simp: before_dir_def real_dir_iff update_conv')
  then show ?thesis
    using assms on_way_put_dir [of p "s # ss" "p @ [s]" a fs] by (auto simp: before_dir_def)
qed

lemma before_dir_del:
  assumes "before_dir p s ss T fs" and "\<not> is_dir (get fs (p @ [s]))"
  shows "before_dir p s ss T (del (p @ [s]) fs) \<and> \<not> is_dir (get (del (p @ [s]) fs) (p @ [s]))"
proof -
  have "real_dir (del (p @ [s]) fs) p"
    using assms by (auto simp: before_dir_def real_dir_iff delete_conv')
  moreover have "on_way p (s # ss) (del (p @ [s]) fs) \<subseteq> on_way p (s # ss) fs"
    using assms(2) by (intro on_way_mono) (auto simp: delete_conv')
  ultimately show ?thesis
    using assms by (auto simp: before_dir_def delete_conv')
qed

lemma before_dir_next: "before_dir p s ss T fs \<Longrightarrow> is_dir (get fs (p @ [s])) \<Longrightarrow>
    real_dir fs (p @ [s]) \<and> on_way (p @ [s]) ss fs \<subseteq> T"
  by (auto simp: before_dir_def real_dir_snoc on_way_Cons)

lemma sound_mkdir:
  assumes "safe_segs (p @ [s])"
  shows "sound su (before_dir p s ss T) T {} (mkdirRetry (p @ [s]))
    (\<lambda>_ fs. real_dir fs (p @ [s]) \<and> on_way (p @ [s]) ss fs \<subseteq> T)"
proof -
  have "sound su (before_dir p s ss T) T {} (retryIO (os_call (Mkdir (p @ [s]) 493)))
    (\<lambda>_ fs. real_dir fs (p @ [s]) \<and> on_way (p @ [s]) ss fs \<subseteq> T)"
  proof (rule sound_call)
    fix fs assume B: "before_dir p s ss T fs"
    then have at: "at_path fs (p @ [s])" using assms by (simp add: before_dir_def at_path_snoc)
    let ?fs1 = "snd (Mkdir (p @ [s]) 493 fs)"
    have cases: "?fs1 = fs \<or> get fs (p @ [s]) = None \<and> (\<exists>a. ?fs1 = put (p @ [s]) (Dir a) fs)"
      by (rule at_path_cases [OF at, of False]) (auto simp: Mkdir_def split: option.splits)
    have "{p @ [s]} \<inter> {q. get fs q = None} \<subseteq> T"
      using B by (auto simp: before_dir_def on_way_Cons split: if_splits)
    then have "changes T {} fs ?fs1"
      by (rule changes_mono [OF Mkdir_at(1) [OF at]]) simp
    moreover have B1: "before_dir p s ss T ?fs1"
      using cases B before_dir_put by metis
    ultimately show "changes T {} fs ?fs1 \<and> before_dir p s ss T ?fs1" by simp
    show "real_dir ?fs1 (p @ [s]) \<and> on_way (p @ [s]) ss ?fs1 \<subseteq> T" if "fst (Mkdir (p @ [s]) 493 fs) = Inr x" for x
      using before_dir_next [OF B1 Mkdir_at(2) [OF at that]] .
  qed
  moreover have "mkdirRetry (p @ [s]) = retryIO (os_call (Mkdir (p @ [s]) 493))"
    by (rule ext) (simp add: mkdirRetry_def)
  ultimately show ?thesis by simp
qed

lemma sound_ensure_segs:
  "safe_segs (p @ segs) \<Longrightarrow>
     sound su (\<lambda>fs. real_dir fs p \<and> on_way p segs fs \<subseteq> T) T {} (ensure_segs p segs) (\<lambda>_ fs. real_dir fs (p @ segs))"
proof (induction segs arbitrary: p)
  case (Cons s ss)
  let ?p = "p @ [s]" and ?B = "before_dir p s ss T"
  have safe: "safe_segs ?p" "safe_segs (?p @ ss)" using Cons.prems by (simp_all add: safe_segs_def)
  note IH = Cons.IH [OF safe(2)]
  have make: "sound su ?B T {} (andThen (mkdirRetry ?p) (\<lambda>_. ensure_segs ?p ss)) (\<lambda>_ fs. real_dir fs (?p @ ss))"
    by (rule sound_andThen [OF sound_mkdir [OF safe(1)]]) (use IH in simp)
  have clear: "sound su (\<lambda>fs. ?B fs \<and> \<not> is_dir (get fs ?p)) T {} (retryIO (os_call (Remove ?p))) (\<lambda>_. ?B)"
  proof (rule sound_call)
    fix fs assume B: "?B fs \<and> \<not> is_dir (get fs ?p)"
    then have at: "at_path fs ?p" using safe(1) by (simp add: before_dir_def at_path_snoc)
    have cases: "snd (Remove ?p fs) = fs \<or> snd (Remove ?p fs) = del ?p fs"
      by (rule at_path_cases [OF at, of False]) (simp_all add: Remove_def split: option.split node.split)
    moreover have "?p \<in> T" using B by (auto simp: before_dir_def on_way_Cons)
    then have "changes T {} fs (del ?p fs)" by (rule changes_del)
    ultimately show "changes T {} fs (snd (Remove ?p fs)) \<and> ?B (snd (Remove ?p fs)) \<and> \<not> is_dir (get (snd (Remove ?p fs)) ?p)"
      using B before_dir_del by fastforce
    then show "?B (snd (Remove ?p fs))" by simp
  qed
  let ?absent = "\<lambda>err w. if err = Errno ENOENT then andThen (mkdirRetry ?p) (\<lambda>_. ensure_segs ?p ss) w else (Inl Flat, w)"
  let ?present = "\<lambda>info w. if is_dir (Some info) then ensure_segs ?p ss w
        else andThen (retryIO (os_call (Remove ?p))) (\<lambda>_. andThen (mkdirRetry ?p) (\<lambda>_. ensure_segs ?p ss)) w"
  have "sound su ?B T {} (\<lambda>w. case lstatRetry ?p w of (Inl err, w1) \<Rightarrow> ?absent err w1 | (Inr info, w1) \<Rightarrow> ?present info w1)
    (\<lambda>_ fs. real_dir fs (?p @ ss))"
  proof (rule sound_lstat)
    show "at_path fs ?p" if "?B fs" for fs using that safe(1) by (simp add: before_dir_def at_path_snoc)
    show "sound su (\<lambda>fs. ?B fs \<and> get fs ?p = Some info) T {} (?present info) (\<lambda>_ fs. real_dir fs (?p @ ss))" for info
    proof (rule sound_if)
      assume "is_dir (Some info)"
      then show "sound su (\<lambda>fs. ?B fs \<and> get fs ?p = Some info) T {} (ensure_segs ?p ss) (\<lambda>_ fs. real_dir fs (?p @ ss))"
        by (intro sound_mono [OF IH]) (auto dest: before_dir_next)
    next
      assume "\<not> is_dir (Some info)"
      then show "sound su (\<lambda>fs. ?B fs \<and> get fs ?p = Some info) T {}
          (andThen (retryIO (os_call (Remove ?p))) (\<lambda>_. andThen (mkdirRetry ?p) (\<lambda>_. ensure_segs ?p ss)))
          (\<lambda>_ fs. real_dir fs (?p @ ss))"
        by (intro sound_mono [OF sound_andThen [OF clear make]]) auto
    qed
  qed (intro sound_if sound_fail make)
  moreover have "ensure_segs p (s # ss) =
      (\<lambda>w. case lstatRetry ?p w of (Inl err, w1) \<Rightarrow> ?absent err w1 | (Inr info, w1) \<Rightarrow> ?present info w1)"
    by (rule ext) (simp add: Let_def)
  moreover have "?B = (\<lambda>fs. real_dir fs p \<and> on_way p (s # ss) fs \<subseteq> T)"
    by (rule ext) (simp add: before_dir_def)
  ultimately show ?case by simp
qed (simp add: sound_def)

subsection \<open>Calls beside a place in a real directory\<close>

abbreviation tree :: "path \<Rightarrow> path set" where
  "tree p \<equiv> {q. in_tree p q}"

lemma in_tree_self [simp]: "in_tree p p"
  by (simp add: in_tree_def)

lemma in_tree_iff: "in_tree p q \<longleftrightarrow> (\<exists>r. q = p @ r)"
  by (metis append_take_drop_id in_tree_def in_tree_append)

lemma in_tree_trans: "in_tree p q \<Longrightarrow> in_tree q r \<Longrightarrow> in_tree p r"
  by (auto simp: in_tree_iff)

lemma in_tree_take: "in_tree p q \<Longrightarrow> length p \<le> k \<Longrightarrow> in_tree p (take k q)"
  by (auto simp: in_tree_def min_def)

text \<open>No node of \<open>T\<close> is on the path: writes to \<open>T\<close> leave a real directory real.\<close>

definition clear_of :: "path \<Rightarrow> path set \<Rightarrow> bool" where
  "clear_of p T \<longleftrightarrow> (\<forall>k \<le> length p. take k p \<notin> T)"

lemma clear_of_iff: "clear_of p T \<longleftrightarrow> (\<forall>q. in_tree q p \<longrightarrow> q \<notin> T)"
proof
  assume "clear_of p T"
  moreover have "length q \<le> length p \<and> take (length q) p = q" if "in_tree q p" for q
    using that by (auto simp: in_tree_iff)
  ultimately show "\<forall>q. in_tree q p \<longrightarrow> q \<notin> T"
    by (metis clear_of_def)
next
  assume a: "\<forall>q. in_tree q p \<longrightarrow> q \<notin> T"
  have "in_tree (take k p) p" if "k \<le> length p" for k using that by (simp add: in_tree_def)
  then show "clear_of p T" using a by (simp add: clear_of_def)
qed

lemma stable_real_dir: "clear_of p T \<Longrightarrow> stable (\<lambda>fs. real_dir fs p) T L"
  by (auto simp: stable_def clear_of_def intro: real_dir_changes)

lemma stable_get: "q \<notin> T \<Longrightarrow> stable (\<lambda>fs. P (get fs q)) T L"
  by (auto simp: stable_def changes_def)

lemma stable_no_link: "q \<notin> L \<Longrightarrow> stable (\<lambda>fs. \<not> is_link (get fs q)) T L"
  by (auto simp: stable_def changes_def)

lemma stable_conj: "stable J T L \<Longrightarrow> stable K T L \<Longrightarrow> stable (\<lambda>fs. J fs \<and> K fs) T L"
  unfolding stable_def by blast

lemma real_dir_put: "real_dir fs p \<Longrightarrow> clear_of p {q} \<Longrightarrow> real_dir (put q x fs) p"
  by (auto simp: real_dir_iff clear_of_def update_conv')

text \<open>Changes of attributes: what holds of the node before and after.\<close>

lemma sound_attrs:
  assumes at: "\<And>fs. I fs \<Longrightarrow> at_path fs p \<and> (follow \<longrightarrow> \<not> is_link (get fs p))" and T: "p \<in> T"
    and keep: "\<And>fs x. I fs \<Longrightarrow> get fs p = Some x \<Longrightarrow> I (put p (set_attrs f x) fs)"
    and post: "\<And>fs x. I fs \<Longrightarrow> get fs p = Some x \<Longrightarrow> Q () (put p (set_attrs f x) fs)"
  shows "sound su I T {} (retryIO (os_call (change_attrs follow f p))) Q"
proof (rule sound_call)
  fix fs assume I: "I fs"
  have cases: "snd (change_attrs follow f p fs) = fs \<and> fst (change_attrs follow f p fs) \<noteq> Inr u \<or>
      (\<exists>x. get fs p = Some x \<and> snd (change_attrs follow f p fs) = put p (set_attrs f x) fs)" for u
    by (rule at_path_cases [of fs p follow]) (use at [OF I] in \<open>auto simp: change_attrs_def split: option.splits\<close>)
  have "changes T {} fs (snd (change_attrs follow f p fs))"
    by (rule changes_mono [OF change_attrs_at(1)]) (use at [OF I] T in auto)
  then show "changes T {} fs (snd (change_attrs follow f p fs)) \<and> I (snd (change_attrs follow f p fs))"
    using cases [of "()"] I keep by auto
  show "Q u (snd (change_attrs follow f p fs))" if "fst (change_attrs follow f p fs) = Inr u" for u
    using cases [of "()"] that I post by auto
qed

lemma sound_chown_if_root:
  assumes "su \<Longrightarrow> sound su I T L m Q" and "\<And>fs. \<not> su \<Longrightarrow> I fs \<Longrightarrow> Q () fs"
  shows "sound su I T L (chown_if_root m) Q"
proof (rule soundI)
  fix w r w1 assume w: "osSuper w = su" "I (osFs w)" and run: "chown_if_root m w = (r, w1)"
  show "osSuper w1 = su \<and> changes T L (osFs w) (osFs w1) \<and> (\<forall>x. r = Inr x \<longrightarrow> Q x (osFs w1))"
  proof (cases su)
    case True
    then have "m w = (r, w1)" using run w(1) by (simp add: chown_if_root_def)
    then show ?thesis using soundD [OF assms(1) [OF True]] w by metis
  next
    case False
    then have "r = Inr ()" "w1 = w" using run w(1) by (auto simp: chown_if_root_def)
    then show ?thesis using assms(2) [OF False] w by simp
  qed
qed

lemma sound_replaceIfDir:
  assumes at: "\<And>fs. J fs \<Longrightarrow> at_path fs p" and T: "tree p \<subseteq> T" and J: "stable J T {}"
  shows "sound su J T {} (replaceIfDir p) (\<lambda>_. J)"
proof -
  have clear: "sound su J T {} (retryIO (os_call (RemoveAll p))) (\<lambda>_. J)"
  proof (rule sound_call)
    fix fs assume "J fs"
    then show "changes T {} fs (snd (RemoveAll p fs)) \<and> J (snd (RemoveAll p fs))"
      using changes_mono [OF RemoveAll_at(1) [OF at] T, of fs "{}" "{}"] J by (auto simp: stable_def)
    then show "J (snd (RemoveAll p fs))" by simp
  qed
  let ?absent = "\<lambda>err w. if err = Errno ENOENT then (Inr (), w) else (Inl Flat, w)"
  let ?present = "\<lambda>info w. if is_dir (Some info) then andThen (retryIO (os_call (RemoveAll p))) (\<lambda>_. io_return ()) w
      else (Inr (), w)"
  have "sound su J T {} (\<lambda>w. case lstatRetry p w of (Inl err, w1) \<Rightarrow> ?absent err w1 | (Inr info, w1) \<Rightarrow> ?present info w1) (\<lambda>_. J)"
  proof (rule sound_lstat)
    have "sound su J T {} (?present info) (\<lambda>_. J)" for info
      by (intro sound_if sound_andThen [OF clear] sound_return sound_nothing)
    then show "sound su (\<lambda>fs. J fs \<and> get fs p = Some info) T {} (?present info) (\<lambda>_. J)" for info
      by (rule sound_mono) auto
    show "sound su J T {} (?absent err) (\<lambda>_. J)" for err
      by (intro sound_if sound_nothing sound_fail)
  qed (rule at)
  moreover have "replaceIfDir p = (\<lambda>w. case lstatRetry p w of (Inl err, w1) \<Rightarrow> ?absent err w1 | (Inr info, w1) \<Rightarrow> ?present info w1)"
    by (rule ext) (simp add: replaceIfDir_def)
  ultimately show ?thesis by simp
qed

subsection \<open>The directory of an entry\<close>

abbreviation segs_of :: "mentry \<Rightarrow> string list" where
  "segs_of e \<equiv> split_at (CHR ''/'') (mPath e)"

lemma parentDir_last: "CHR ''/'' \<notin> set b \<Longrightarrow> parentDir (a @ CHR ''/'' # b) = a"
proof -
  assume b: "CHR ''/'' \<notin> set b"
  have "LastIndex (a @ CHR ''/'' # b) ''/'' = Some (length a)"
  proof (rule LastIndex_eqI)
    fix j assume j: "length a < j" "j \<le> length (a @ CHR ''/'' # b)"
    then have "drop j (a @ CHR ''/'' # b) = drop (j - Suc (length a)) b"
      by (simp add: Suc_diff_Suc drop_Cons')
    then show "\<not> HasPrefix (drop j (a @ CHR ''/'' # b)) ''/''"
      using b by (metis HasPrefix_iff append_Cons in_set_dropD list.set_intros(1))
  qed (simp_all add: HasPrefix_def)
  then show ?thesis by (simp add: parentDir_def)
qed

lemma parentDir_none: "CHR ''/'' \<notin> set p \<Longrightarrow> parentDir p = []"
  by (simp add: parentDir_def LastIndex_None Contains_char)

lemma ensureRealDir_safe:
  "safe_segs (split_at (CHR ''/'') p) \<Longrightarrow> ensureRealDir root p = ensure_segs root (split_at (CHR ''/'') p)"
  by (rule ext) (auto simp: ensureRealDir_def safe_segs_def)

lemma ensure_parent:
  assumes "safe_segs (split_at (CHR ''/'') p)"
  shows "ensureRealDir root (parentDir p) = ensure_segs root (butlast (split_at (CHR ''/'') p))"
proof (cases "CHR ''/'' \<in> set p")
  case True
  then obtain a b where p: "p = a @ CHR ''/'' # b" "CHR ''/'' \<notin> set b" by (meson split_list_last)
  then have "split_at (CHR ''/'') p = split_at (CHR ''/'') a @ [b]"
    by (simp add: split_at_append_sep split_at_clean)
  then show ?thesis using assms p by (simp add: parentDir_last ensureRealDir_safe)
next
  case False
  then show ?thesis by (auto simp: parentDir_none split_at_clean ensureRealDir_def)
qed

text \<open>An entry whose path the manifest's validation admits, below a clean root.\<close>

definition good_place :: "path \<Rightarrow> mentry \<Rightarrow> bool" where
  "good_place root e \<longleftrightarrow> safe_segs root \<and> safe_segs (segs_of e)"

definition part_path :: "path \<Rightarrow> mentry \<Rightarrow> path" where
  "part_path root e = with_suffix (final_path root e) ''.kipper-part''"

definition link_path :: "path \<Rightarrow> mentry \<Rightarrow> path" where
  "link_path root e = with_suffix (final_path root e) ''.kipper-link''"

definition dir_path :: "path \<Rightarrow> mentry \<Rightarrow> path" where
  "dir_path root e = root @ butlast (segs_of e)"

lemma final_path_snoc: "final_path root e = dir_path root e @ [last (segs_of e)]"
  by (simp add: final_path_def dir_path_def)

lemma part_path_snoc: "part_path root e = dir_path root e @ [last (segs_of e) @ ''.kipper-part'']"
  and link_path_snoc: "link_path root e = dir_path root e @ [last (segs_of e) @ ''.kipper-link'']"
  by (simp_all add: part_path_def link_path_def with_suffix_def final_path_snoc)

lemma safe_butlast: "safe_segs (split_at c p) \<Longrightarrow> safe_segs (butlast (split_at c p)) \<and> safe_segs [last (split_at c p)]"
  by (metis append_butlast_last_id safe_segs_append split_at_nonempty)

lemma good_paths:
  assumes "good_place root e" and "real_dir fs (dir_path root e)"
  shows "at_path fs (final_path root e)" and "at_path fs (part_path root e)" and "at_path fs (link_path root e)"
proof -
  have "safe_segs (segs_of e)" "safe_segs (butlast (segs_of e))" "safe_segs [last (segs_of e)]" "safe_segs root"
    using assms(1) safe_butlast by (simp_all add: good_place_def)
  then have "safe_segs (dir_path root e @ [last (segs_of e)])"
    "safe_segs (dir_path root e @ [last (segs_of e) @ ''.kipper-part''])"
    "safe_segs (dir_path root e @ [last (segs_of e) @ ''.kipper-link''])"
    by (auto simp: dir_path_def safe_segs_def append_eq_Cons_conv)
  then show "at_path fs (final_path root e)" and "at_path fs (part_path root e)" and "at_path fs (link_path root e)"
    using at_path_snoc [OF assms(2)] by (simp_all add: final_path_snoc part_path_snoc link_path_snoc)
qed

lemma place_distinct:
  "\<not> in_tree (final_path root e) (part_path root e)" "\<not> in_tree (final_path root e) (link_path root e)"
  "clear_of (dir_path root e) (tree (final_path root e) \<union> {part_path root e, link_path root e})"
  by (auto simp: clear_of_iff in_tree_iff final_path_snoc part_path_snoc link_path_snoc)

text \<open>What an entry puts in its place.\<close>

definition placed_file :: "digest \<Rightarrow> bool \<Rightarrow> mentry \<Rightarrow> node option \<Rightarrow> bool" where
  "placed_file H su e x =
     (case x of
        Some (File a c) \<Rightarrow>
          H c = mSHA256 e \<and> atMode a = mMode e \<and> atMtime a = mMtime e \<and>
          (su \<longrightarrow> atUID a = mUID e \<and> atGID a = mGID e)
      | _ \<Rightarrow> False)"

definition placed_link :: "bool \<Rightarrow> mentry \<Rightarrow> node option \<Rightarrow> bool" where
  "placed_link su e x =
     (case x of
        Some (Link a t) \<Rightarrow> t = mLinkTarget e \<and> (su \<longrightarrow> atUID a = mUID e \<and> atGID a = mGID e)
      | _ \<Rightarrow> False)"

definition placed_dir :: "bool \<Rightarrow> mentry \<Rightarrow> node option \<Rightarrow> bool" where
  "placed_dir su e x =
     (case x of
        Some (Dir a) \<Rightarrow> atMode a = mMode e \<and> (su \<longrightarrow> atUID a = mUID e \<and> atGID a = mGID e)
      | _ \<Rightarrow> False)"

subsection \<open>One entry\<close>

definition dir_ready :: "path \<Rightarrow> mentry \<Rightarrow> path set \<Rightarrow> fs \<Rightarrow> bool" where
  "dir_ready root e T fs \<longleftrightarrow> real_dir fs root \<and> on_way root (butlast (segs_of e)) fs \<subseteq> T"

lemma sound_ensure_parent:
  assumes "good_place root e"
  shows "sound su (dir_ready root e T) T {} (ensureRealDir root (parentDir (mPath e))) (\<lambda>_ fs. real_dir fs (dir_path root e))"
proof -
  have "safe_segs (root @ butlast (segs_of e))"
    using assms safe_butlast by (simp add: good_place_def)
  from sound_ensure_segs [OF this, of su T] show ?thesis
    using assms by (simp add: ensure_parent good_place_def dir_path_def dir_ready_def [abs_def])
qed

text \<open>Assembling and reading back.\<close>

definition part_open :: "path \<Rightarrow> mentry \<Rightarrow> fs \<Rightarrow> bool" where
  "part_open root e fs \<longleftrightarrow> real_dir fs (dir_path root e) \<and> \<not> is_link (get fs (part_path root e))"

lemma part_open_stable: "T \<subseteq> {part_path root e} \<Longrightarrow> stable (part_open root e) T {}"
  using place_distinct(3) [of root e] unfolding part_open_def [abs_def]
  by (intro stable_conj stable_real_dir stable_no_link) (auto simp: clear_of_def)

lemma part_open_at:
  assumes "good_place root e" and "part_open root e fs"
  shows "at_path fs (part_path root e)" and "\<not> is_link (get fs (part_path root e))"
  using assms good_paths(2) by (auto simp: part_open_def)

lemma sound_assemble:
  assumes "good_place root e"
  shows "sound su (part_open root e) {part_path root e} {} (assembleTo a (part_path root e)) (\<lambda>_. part_open root e)"
proof (rule soundI)
  let ?p = "part_path root e" and ?O = "part_open root e"
  have stay: "?O (osFs w2)" if "?O (osFs w)" "changes {?p} {} (osFs w) (osFs w2)" for w w2
    using part_open_stable [of "{?p}" root e] that by (auto simp: stable_def)
  have create: "sound su ?O {?p} {} (os_call (OpenTrunc ?p 384)) (\<lambda>q fs. q = ?p)"
    by (rule sound_os_call) (use part_open_at [OF assms] OpenTrunc_at in blast)+
  have wr_step: "sound su ?O {?p} {} (os_call (Write ?p data)) (\<lambda>_ _. True)" for data
    by (rule sound_os_call) (use Write_at in blast)+
  have rm_step: "sound su ?O {?p} {} (os_call (Remove ?p)) (\<lambda>_ _. True)"
    by (rule sound_os_call) (use part_open_at(1) [OF assms] Remove_at(1) in blast)+
  fix w r w1 assume w: "osSuper w = su" "?O (osFs w)" and run: "assembleTo a ?p w = (r, w1)"
  obtain r2 w2 where m: "os_call (OpenTrunc ?p 384) w = (r2, w2)" by (cases "os_call (OpenTrunc ?p 384) w")
  note first = soundD [OF create m w] and open2 = stay [OF w(2) soundD(2) [OF create m w]]
  have "osSuper w1 = su \<and> changes {?p} {} (osFs w) (osFs w1)"
  proof (cases r2)
    case (Inl e)
    then show ?thesis using run m first by (simp add: assembleTo_def)
  next
    case (Inr fd)
    then have fd: "fd = ?p" using first(3) by blast
    obtain r3 w3 where m3: "(case a of Some data \<Rightarrow> os_call (Write fd data) w2 | None \<Rightarrow> (Inl Flat, w2)) = (r3, w3)"
      by (cases "case a of Some data \<Rightarrow> os_call (Write fd data) w2 | None \<Rightarrow> (Inl Flat, w2)")
    have third: "osSuper w3 = su" "changes {?p} {} (osFs w2) (osFs w3)"
      using m3 soundD(1,2) [OF wr_step _ first(1) open2] first(1) fd by (auto split: option.splits)
    obtain r4 w4 where m4: "os_call (Remove ?p) w3 = (r4, w4)" by (cases "os_call (Remove ?p) w3")
    note fourth = soundD(1,2) [OF rm_step m4 third(1) stay [OF open2 third(2)]]
    have "w1 = w3 \<or> w1 = w4"
      using run m m3 m4 Inr by (auto simp: assembleTo_def split: sum.splits)
    then show ?thesis
      using third fourth changes_trans [OF first(2) third(2)] changes_trans [OF _ fourth(2)] by metis
  qed
  then show "osSuper w1 = su \<and> changes {?p} {} (osFs w) (osFs w1) \<and> (\<forall>x. r = Inr x \<longrightarrow> ?O (osFs w1))"
    using stay [OF w(2)] by blast
qed

definition part_hashed :: "digest \<Rightarrow> path \<Rightarrow> mentry \<Rightarrow> string \<Rightarrow> fs \<Rightarrow> bool" where
  "part_hashed H root e h fs \<longleftrightarrow>
     part_open root e fs \<and> (\<exists>a c. get fs (part_path root e) = Some (File a c) \<and> H c = h)"

lemma sound_hash:
  assumes "good_place root e"
  shows "sound su (part_open root e) {} {} (retryIO (hashFile H (part_path root e))) (part_hashed H root e)"
proof (rule sound_retry)
  let ?p = "part_path root e"
  have read: "sound su (part_open root e) {} {} (os_call (ReadFile ?p))
      (\<lambda>c fs. part_open root e fs \<and> (\<exists>a. get fs ?p = Some (File a c)))"
    by (rule sound_os_call) (use part_open_at [OF assms] ReadFile_at(2) in auto)
  show "sound su (part_open root e) {} {} (hashFile H ?p) (part_hashed H root e)"
  proof (rule soundI)
    fix w r w1 assume w: "osSuper w = su" "part_open root e (osFs w)" and run: "hashFile H ?p w = (r, w1)"
    obtain r2 w2 where m: "os_call (ReadFile ?p) w = (r2, w2)" by (cases "os_call (ReadFile ?p) w")
    note facts = soundD [OF read m w]
    show "osSuper w1 = su \<and> changes {} {} (osFs w) (osFs w1) \<and> (\<forall>x. r = Inr x \<longrightarrow> part_hashed H root e x (osFs w1))"
    proof (cases r2)
      case (Inl e)
      then show ?thesis using run m facts by (auto simp: hashFile_def)
    next
      case (Inr c)
      then have "r = Inr (H c)" "w1 = w2" using run m by (simp_all add: hashFile_def)
      then show ?thesis using facts(1,2) facts(3) [OF Inr] by (auto simp: part_hashed_def)
    qed
  qed
qed (rule part_open_stable, simp)

text \<open>Attributes of the node beside the place, and the rename into it.\<close>

lemma clear_of_sub: "clear_of p T \<Longrightarrow> S \<subseteq> T \<Longrightarrow> clear_of p S"
  by (auto simp: clear_of_def)

lemma sound_side_attrs:
  assumes "at_path_side = (\<lambda>fs. real_dir fs d \<and> P (get fs p))"
    and "\<And>fs. real_dir fs d \<Longrightarrow> at_path fs p" and "clear_of d {p}" and "p \<in> T"
    and "\<And>x. P x \<Longrightarrow> follow \<longrightarrow> \<not> is_link x"
    and "\<And>x. P (Some x) \<Longrightarrow> P (Some (set_attrs f x)) \<and> P1 (Some (set_attrs f x))"
  shows "sound su at_path_side T {} (retryIO (os_call (change_attrs follow f p))) (\<lambda>_ fs. real_dir fs d \<and> P1 (get fs p))"
  unfolding assms(1)
proof (rule sound_attrs [OF _ assms(4)])
  fix fs assume I: "real_dir fs d \<and> P (get fs p)"
  then show "at_path fs p \<and> (follow \<longrightarrow> \<not> is_link (get fs p))" using assms(2,5) by blast
  fix x assume x: "get fs p = Some x"
  then show "real_dir (put p (set_attrs f x) fs) d \<and> P (get (put p (set_attrs f x) fs) p)"
    and "real_dir (put p (set_attrs f x) fs) d \<and> P1 (get (put p (set_attrs f x) fs) p)"
    using I assms(6) real_dir_put [OF _ assms(3)] by (auto simp: update_conv')
qed

lemma Rename_done: "at_path fs p \<Longrightarrow> fst (Rename p q fs) = Inr u \<Longrightarrow> get fs p \<noteq> None"
  by (rule at_path_cases [of fs p False]) (auto simp: Rename_def split: sum.splits option.splits)

lemma Rename_source:
  assumes "at_path fs p" and "at_path fs q" and "p \<noteq> q"
  shows "get (snd (Rename p q fs)) p = get fs p \<or> get (snd (Rename p q fs)) p = None"
  by (rule at_path_cases [OF assms(1), of False]; rule at_path_cases [OF assms(2), of False];
      use assms(3) in \<open>auto simp: Rename_def update_conv' delete_conv' split: option.splits node.splits\<close>)

lemma sound_rename:
  assumes at: "\<And>fs. real_dir fs d \<Longrightarrow> at_path fs p \<and> at_path fs q" and "p \<noteq> q" and "clear_of d {p, q}"
    and "{p, q} \<subseteq> T" and links: "\<And>x. P x \<Longrightarrow> is_link x \<Longrightarrow> q \<in> L"
  shows "sound su (\<lambda>fs. real_dir fs d \<and> P (get fs p)) T L (retryIO (os_call (Rename p q))) (\<lambda>_ fs. real_dir fs d \<and> P (get fs q))"
proof -
  let ?I = "\<lambda>fs. real_dir fs d \<and> (get fs p = None \<or> P (get fs p))"
  have "sound su ?I T L (retryIO (os_call (Rename p q))) (\<lambda>_ fs. real_dir fs d \<and> P (get fs q))"
  proof (rule sound_call)
    fix fs assume I: "?I fs"
    have at1: "at_path fs p" "at_path fs q" using at I by blast+
    let ?fs1 = "snd (Rename p q fs)"
    have ch: "changes {p, q} ({q} \<inter> {x. is_link (get fs p)}) fs ?fs1" by (rule Rename_at(1) [OF at1])
    have d: "real_dir ?fs1 d"
      using real_dir_changes [OF _ ch] I assms(3) by (auto simp: clear_of_def)
    have "get ?fs1 p = None \<or> P (get ?fs1 p)"
      using I Rename_source [OF at1 assms(2)] by auto
    moreover have "{q} \<inter> {x. is_link (get fs p)} \<subseteq> L" using I links by auto
    ultimately show "changes T L fs ?fs1 \<and> ?I ?fs1"
      using changes_mono [OF ch assms(4)] d by blast
    show "real_dir ?fs1 d \<and> P (get ?fs1 q)" if "fst (Rename p q fs) = Inr u" for u
      using d I Rename_at(2) [OF at1 that assms(2)] Rename_done [OF at1(1) that] by auto
  qed
  then show ?thesis by (rule sound_mono) auto
qed

definition file_node :: "digest \<Rightarrow> mentry \<Rightarrow> (attrs \<Rightarrow> bool) \<Rightarrow> node option \<Rightarrow> bool" where
  "file_node H e P x = (case x of Some (File a c) \<Rightarrow> H c = mSHA256 e \<and> P a | _ \<Rightarrow> False)"

lemma file_node_attrs:
  "(\<And>a. P a \<Longrightarrow> P (f a) \<and> P1 (f a)) \<Longrightarrow> file_node H e P (Some x) \<Longrightarrow>
     file_node H e P (Some (set_attrs f x)) \<and> file_node H e P1 (Some (set_attrs f x))"
  by (cases x) (auto simp: file_node_def)

lemma file_node_link: "file_node H e P x \<Longrightarrow> \<not> is_link x"
  by (auto simp: file_node_def is_link_def split: option.splits node.splits)

abbreviation beside :: "path \<Rightarrow> mentry \<Rightarrow> path \<Rightarrow> (node option \<Rightarrow> bool) \<Rightarrow> fs \<Rightarrow> bool" where
  "beside root e p P \<equiv> (\<lambda>fs. real_dir fs (dir_path root e) \<and> P (get fs p))"

definition owned :: "bool \<Rightarrow> mentry \<Rightarrow> attrs \<Rightarrow> bool" where
  "owned su e a \<longleftrightarrow> (su \<longrightarrow> atUID a = mUID e \<and> atGID a = mGID e)"

lemma sound_applyAndRename:
  assumes "good_place root e"
  shows "sound su (beside root e (part_path root e) (file_node H e (\<lambda>_. True)))
    (tree (final_path root e) \<union> {part_path root e}) {}
    (applyAndRename e (part_path root e) (final_path root e))
    (\<lambda>_. beside root e (final_path root e)
        (file_node H e (\<lambda>a. atMode a = mMode e \<and> owned su e a \<and> atMtime a = mMtime e)))"
proof -
  let ?part = "part_path root e" and ?final = "final_path root e" and ?d = "dir_path root e"
  let ?T = "tree ?final \<union> {?part}" and ?B = "\<lambda>P. beside root e ?part (file_node H e P)"
    and ?Q = "beside root e ?final (file_node H e (\<lambda>a. atMode a = mMode e \<and> owned su e a \<and> atMtime a = mMtime e))"
  have clear: "clear_of ?d ?T" by (rule clear_of_sub [OF place_distinct(3)]) auto
  have at: "at_path fs ?part \<and> at_path fs ?final" if "real_dir fs ?d" for fs using good_paths [OF assms that] by simp
  have attrs: "sound su (?B P) ?T {} (retryIO (os_call (change_attrs True f ?part))) (\<lambda>_. ?B P1)"
    if "\<And>a. P a \<Longrightarrow> P (f a) \<and> P1 (f a)" for P P1 f
  proof (rule sound_side_attrs [OF refl])
    show "file_node H e P (Some x) \<Longrightarrow> file_node H e P (Some (set_attrs f x)) \<and> file_node H e P1 (Some (set_attrs f x))" for x
      by (rule file_node_attrs) (rule that)
    show "file_node H e P x \<Longrightarrow> True \<longrightarrow> \<not> is_link x" for x by (simp add: file_node_link)
  qed (use at clear_of_sub [OF clear] in auto)
  have chmod: "sound su (?B (\<lambda>_. True)) ?T {} (retryIO (os_call (Chmod ?part (mMode e)))) (\<lambda>_. ?B (\<lambda>a. atMode a = mMode e))"
    unfolding Chmod_def by (rule attrs) simp
  have chown: "sound su (?B (\<lambda>a. atMode a = mMode e)) ?T {}
      (chown_if_root (retryIO (os_call (Chown ?part (mUID e) (mGID e))))) (\<lambda>_. ?B (\<lambda>a. atMode a = mMode e \<and> owned su e a))"
  proof (rule sound_chown_if_root)
    show "sound su (?B (\<lambda>a. atMode a = mMode e)) ?T {} (retryIO (os_call (Chown ?part (mUID e) (mGID e))))
      (\<lambda>_. ?B (\<lambda>a. atMode a = mMode e \<and> owned su e a))"
      unfolding Chown_def by (rule attrs) (simp add: owned_def)
  qed (auto simp: file_node_def owned_def split: option.splits node.splits)
  have times: "sound su (?B (\<lambda>a. atMode a = mMode e \<and> owned su e a)) ?T {}
      (retryIO (os_call (Chtimes ?part (mMtime e)))) (\<lambda>_. ?B (\<lambda>a. atMode a = mMode e \<and> owned su e a \<and> atMtime a = mMtime e))"
    unfolding Chtimes_def by (rule attrs) (simp add: owned_def)
  let ?P = "\<lambda>a. atMode a = mMode e \<and> owned su e a \<and> atMtime a = mMtime e"
  have replace: "sound su (?B ?P) ?T {} (replaceIfDir ?final) (\<lambda>_. ?B ?P)"
  proof (rule sound_mono [OF sound_replaceIfDir])
    show "stable (?B ?P) (tree ?final) {}"
      by (intro stable_conj stable_real_dir stable_get) (use clear_of_sub [OF clear] place_distinct(1) in auto)
  qed (use at in auto)
  have ren: "sound su (?B ?P) ?T {} (retryIO (os_call (Rename ?part ?final))) (\<lambda>_. ?Q)"
  proof (rule sound_rename [OF at])
    show "?part \<noteq> ?final" using place_distinct(1) [of root e] by auto
    show "file_node H e ?P x \<Longrightarrow> is_link x \<Longrightarrow> ?final \<in> {}" for x using file_node_link by blast
  qed (use clear_of_sub [OF clear] in auto)
  show ?thesis
    unfolding applyAndRename_def
    by (intro sound_andThen [OF chmod] sound_andThen [OF chown] sound_andThen [OF times] sound_andThen [OF replace]
        sound_andThen [OF ren] sound_return)
qed

text \<open>The outcome of an entry's commit: what it may have changed, and what it has put in place.\<close>

definition way :: "path \<Rightarrow> mentry \<Rightarrow> fs \<Rightarrow> path set" where
  "way root e fs = on_way root (butlast (segs_of e)) fs"

lemma placed_file_node:
  "file_node H e (\<lambda>a. atMode a = mMode e \<and> owned su e a \<and> atMtime a = mMtime e) x \<Longrightarrow> placed_file H su e x"
  by (auto simp: file_node_def placed_file_def owned_def split: option.splits node.splits)

lemma commitFile_steps:
  assumes good: "good_place root e" and root: "real_dir (osFs w) root" and part: "\<not> is_link (get (osFs w) (part_path root e))"
    and run: "commitFile H st dk root i e w = (res, w1)"
  shows "osSuper w1 = osSuper w \<and>
    changes (way root e (osFs w) \<union> (if frMatch res then tree (final_path root e) else {}) \<union> {part_path root e}) {} (osFs w) (osFs w1) \<and>
    (\<not> frMatch res \<longrightarrow> frError res) \<and>
    (frMatch res \<and> \<not> frError res \<longrightarrow>
       real_dir (osFs w1) (dir_path root e) \<and> placed_file H (osSuper w) e (get (osFs w1) (final_path root e)))"
proof -
  let ?part = "part_path root e" and ?final = "final_path root e" and ?d = "dir_path root e"
  let ?W = "way root e (osFs w)" and ?su = "osSuper w"
  have "dir_ready root e ?W (osFs w)" using root by (simp add: dir_ready_def way_def)
  note mkdirs = soundD [OF sound_ensure_parent [OF good] _ refl this]
  obtain r2 w2 where m2: "ensureRealDir root (parentDir (mPath e)) w = (r2, w2)" by fastforce
  note c2 = mkdirs(1,2) [OF m2]
  have mono: "changes T {} fs fs1 \<Longrightarrow> T \<subseteq> ?W \<union> X \<union> {?part} \<Longrightarrow> changes (?W \<union> X \<union> {?part}) {} fs fs1" for T X fs fs1
    by (rule changes_mono) auto
  show ?thesis
  proof (cases r2)
    case (Inl err)
    then show ?thesis using run m2 c2(1) mono [OF c2(2), of "{}"] by (auto simp: commitFile_def Let_def)
  next
    case (Inr u)
    have open2: "part_open root e (osFs w2)"
      using mkdirs(3) [OF m2 Inr] changes_link [OF c2(2)] part by (auto simp: part_open_def)
    obtain r3 w3 where m3: "retryIO (assembleTo (assembled_bytes st dk i) ?part) w2 = (r3, w3)" by fastforce
    note f3 = soundD [OF sound_retry [OF sound_assemble [OF good] part_open_stable [OF subset_refl]] m3 c2(1) open2]
    have c3: "changes (?W \<union> X \<union> {?part}) {} (osFs w) (osFs w3)" for X
      using changes_trans [OF mono [OF c2(2)] mono [OF f3(2)]] by auto
    show ?thesis
    proof (cases r3)
      case (Inl err)
      then show ?thesis using run m2 m3 Inr f3(1) c3 by (auto simp: commitFile_def Let_def part_path_def)
    next
      case r3: (Inr u3)
      obtain r4 w4 where m4: "retryIO (hashFile H ?part) w3 = (r4, w4)" by fastforce
      note f4 = soundD [OF sound_hash [OF good] m4 f3(1) f3(3) [OF r3]]
      have c4: "changes (?W \<union> X \<union> {?part}) {} (osFs w) (osFs w4)" for X
        using changes_trans [OF c3 mono [OF f4(2)]] by auto
      note run4 = run m2 m3 m4 Inr r3
      show ?thesis
      proof (cases r4)
        case (Inl err)
        then show ?thesis using run4 f4(1) c4 by (auto simp: commitFile_def Let_def part_path_def)
      next
        case r4: (Inr h)
        have h: "part_hashed H root e h (osFs w4)" using f4(3) [OF r4] .
        show ?thesis
        proof (cases "h = mSHA256 e")
          case False
          obtain r5 w5 where m5: "os_call (Remove ?part) w4 = (r5, w5)" by fastforce
          have rm_step: "sound ?su (part_open root e) {?part} {} (os_call (Remove ?part)) (\<lambda>_ _. True)"
            by (rule sound_os_call) (use part_open_at(1) [OF good] Remove_at(1) in blast)+
          note f5 = soundD [OF rm_step m5 f4(1) conjunct1 [OF h [unfolded part_hashed_def]]]
          have "changes (?W \<union> X \<union> {?part}) {} (osFs w) (osFs w5)" for X
            using changes_trans [OF c4 mono [OF f5(2)]] by auto
          then show ?thesis using run4 r4 False m5 f5(1) by (auto simp: commitFile_def Let_def part_path_def)
        next
          case True
          obtain r5 w5 where m5: "applyAndRename e ?part ?final w4 = (r5, w5)" by fastforce
          have node: "beside root e ?part (file_node H e (\<lambda>_. True)) (osFs w4)"
            using h True by (auto simp: part_hashed_def part_open_def file_node_def)
          note f5 = soundD [OF sound_applyAndRename [OF good] m5 f4(1) node]
          have "changes (?W \<union> tree ?final \<union> {?part}) {} (osFs w) (osFs w5)"
            using changes_trans [OF c4 mono [OF f5(2)]] by auto
          then show ?thesis
            using run4 r4 True m5 f5(1,3) placed_file_node
            by (auto simp: commitFile_def Let_def part_path_def split: sum.splits)
        qed
      qed
    qed
  qed
qed

text \<open>A link's node, made beside the place and renamed into it.\<close>

definition link_node :: "mentry \<Rightarrow> (attrs \<Rightarrow> bool) \<Rightarrow> node option \<Rightarrow> bool" where
  "link_node e P x = (case x of Some (Link a t) \<Rightarrow> t = mLinkTarget e \<and> P a | _ \<Rightarrow> False)"

lemma placed_link_node: "link_node e (owned su e) x = placed_link su e x"
  by (auto simp: link_node_def placed_link_def owned_def split: option.splits node.splits)

lemma link_node_owner: "link_node e P (Some x) \<Longrightarrow>
    link_node e (owned su e) (Some (set_attrs (\<lambda>a. a\<lparr>atUID := mUID e, atGID := mGID e\<rparr>) x)) \<and>
    link_node e (\<lambda>_. True) (Some (set_attrs (\<lambda>a. a\<lparr>atUID := mUID e, atGID := mGID e\<rparr>) x))"
  by (cases x) (auto simp: link_node_def owned_def)

lemma sound_clear_link:
  assumes at: "\<And>fs. J fs \<Longrightarrow> at_path fs p" and "p \<in> T" and J: "stable J T L"
  shows "sound su J T L (clear_link p) (\<lambda>_. J)"
proof (rule soundI)
  have rm_step: "sound su J T L (retryIO (os_call (Remove p))) (\<lambda>_. J)"
  proof (rule sound_call)
    fix fs assume "J fs"
    then have "changes T L fs (snd (Remove p fs))"
      using changes_mono [OF Remove_at(1) [OF at]] assms(2) by blast
    then show "changes T L fs (snd (Remove p fs)) \<and> J (snd (Remove p fs))" using J \<open>J fs\<close> by (auto simp: stable_def)
    then show "J (snd (Remove p fs))" by simp
  qed
  fix w r w1 assume w: "osSuper w = su" "J (osFs w)" and run: "clear_link p w = (r, w1)"
  obtain r2 w2 where m: "retryIO (os_call (Remove p)) w = (r2, w2)" by fastforce
  note f = soundD [OF rm_step m w]
  have "w1 = w2" using run m by (auto simp: clear_link_def split: sum.splits if_splits)
  moreover have "J (osFs w2)" using f(2) w(2) J by (auto simp: stable_def)
  ultimately show "osSuper w1 = su \<and> changes T L (osFs w) (osFs w1) \<and> (\<forall>x. r = Inr x \<longrightarrow> J (osFs w1))"
    using f by blast
qed

lemma sound_symlink:
  assumes at: "\<And>fs. real_dir fs d \<Longrightarrow> at_path fs p" and "clear_of d {p}" and "p \<in> T" and "p \<in> L"
  shows "sound su (\<lambda>fs. real_dir fs d) T L (retryIO (os_call (Symlink t p)))
    (\<lambda>_ fs. real_dir fs d \<and> (\<exists>a. get fs p = Some (Link a t)))"
proof (rule sound_call)
  fix fs assume d: "real_dir fs d"
  note ch = Symlink_at(1) [OF at [OF d], of t]
  have d1: "real_dir (snd (Symlink t p fs)) d"
    using real_dir_changes [OF d ch] assms(2) by (simp add: clear_of_def)
  then show "changes T L fs (snd (Symlink t p fs)) \<and> real_dir (snd (Symlink t p fs)) d"
    using changes_mono [OF ch] assms(3,4) by blast
  show "real_dir (snd (Symlink t p fs)) d \<and> (\<exists>a. get (snd (Symlink t p fs)) p = Some (Link a t))"
    if "fst (Symlink t p fs) = Inr u" for u
    using d1 Symlink_at(2) [OF at [OF d] that] by simp
qed

definition link_area :: "path \<Rightarrow> mentry \<Rightarrow> path set" where
  "link_area root e = tree (final_path root e) \<union> {link_path root e}"

lemma sound_link_steps:
  assumes "good_place root e"
  shows "sound su (\<lambda>fs. real_dir fs (dir_path root e)) (link_area root e) {final_path root e, link_path root e}
    (andThen (replaceIfDir (final_path root e)) (\<lambda>_.
     andThen (clear_link (link_path root e)) (\<lambda>_.
     andThen (retryIO (os_call (Symlink (mLinkTarget e) (link_path root e)))) (\<lambda>_.
     andThen (chown_if_root (retryIO (os_call (Lchown (link_path root e) (mUID e) (mGID e))))) (\<lambda>_.
     andThen (retryIO (os_call (Rename (link_path root e) (final_path root e)))) io_return)))))
    (\<lambda>_. beside root e (final_path root e) (placed_link su e))"
proof -
  let ?tmp = "link_path root e" and ?final = "final_path root e" and ?d = "dir_path root e"
  let ?T = "link_area root e" and ?L = "{final_path root e, link_path root e}"
  let ?D = "\<lambda>fs. real_dir fs ?d" and ?B = "\<lambda>P. beside root e ?tmp (link_node e P)"
  have clear: "clear_of ?d ?T" by (rule clear_of_sub [OF place_distinct(3)]) (auto simp: link_area_def)
  have at: "at_path fs ?tmp \<and> at_path fs ?final" if "real_dir fs ?d" for fs using good_paths [OF assms that] by simp
  have replace: "sound su ?D ?T ?L (replaceIfDir ?final) (\<lambda>_. ?D)"
    by (rule sound_mono [OF sound_replaceIfDir [OF _ _ stable_real_dir [OF clear]]])
      (use at in \<open>auto simp: link_area_def\<close>)
  have clr: "sound su ?D ?T ?L (clear_link ?tmp) (\<lambda>_. ?D)"
    by (rule sound_clear_link [OF _ _ stable_real_dir [OF clear]]) (use at in \<open>auto simp: link_area_def\<close>)
  have create: "sound su ?D ?T ?L (retryIO (os_call (Symlink (mLinkTarget e) ?tmp))) (\<lambda>_. ?B (\<lambda>_. True))"
    by (rule sound_mono [OF sound_symlink [where d = ?d]])
      (use at clear_of_sub [OF clear] in \<open>auto simp: link_area_def link_node_def\<close>)
  have chown: "sound su (?B (\<lambda>_. True)) ?T ?L (chown_if_root (retryIO (os_call (Lchown ?tmp (mUID e) (mGID e)))))
      (\<lambda>_. ?B (owned su e))"
  proof (rule sound_chown_if_root)
    have "sound su (?B (\<lambda>_. True)) ?T {} (retryIO (os_call (Lchown ?tmp (mUID e) (mGID e)))) (\<lambda>_. ?B (owned su e))"
      unfolding Lchown_def
    proof (rule sound_side_attrs [OF refl])
      show "clear_of ?d {?tmp}" by (rule clear_of_sub [OF clear]) (auto simp: link_area_def)
    qed (use at link_node_owner in \<open>auto simp: link_area_def\<close>)
    then show "sound su (?B (\<lambda>_. True)) ?T ?L (retryIO (os_call (Lchown ?tmp (mUID e) (mGID e)))) (\<lambda>_. ?B (owned su e))"
      by (rule sound_mono) auto
  qed (auto simp: link_node_def owned_def split: option.splits node.splits)
  have ren: "sound su (?B (owned su e)) ?T ?L (retryIO (os_call (Rename ?tmp ?final)))
      (\<lambda>_. beside root e ?final (link_node e (owned su e)))"
  proof (rule sound_rename [OF at])
    show "?tmp \<noteq> ?final" using place_distinct(2) [of root e] by auto
    show "clear_of ?d {?tmp, ?final}" by (rule clear_of_sub [OF clear]) (auto simp: link_area_def)
  qed (auto simp: link_area_def)
  show ?thesis
    unfolding placed_link_node [symmetric]
    by (intro sound_andThen [OF replace] sound_andThen [OF clr] sound_andThen [OF create] sound_andThen [OF chown]
        sound_andThen [OF ren] sound_return)
qed

lemma commitSymlink_steps:
  assumes good: "good_place root e" and root: "real_dir (osFs w) root" and run: "commitSymlink root e w = (res, w1)"
  shows "osSuper w1 = osSuper w \<and>
    changes (way root e (osFs w) \<union> link_area root e) {final_path root e, link_path root e} (osFs w) (osFs w1) \<and>
    (frMatch res \<and> \<not> frError res \<longrightarrow>
       real_dir (osFs w1) (dir_path root e) \<and> placed_link (osSuper w) e (get (osFs w1) (final_path root e)))"
proof -
  let ?W = "way root e (osFs w)" and ?L = "{final_path root e, link_path root e}" and ?su = "osSuper w"
  let ?T = "?W \<union> link_area root e"
  have ready: "dir_ready root e ?W (osFs w)" using root by (simp add: dir_ready_def way_def)
  let ?rest = "\<lambda>_. andThen (replaceIfDir (final_path root e)) (\<lambda>_.
     andThen (clear_link (link_path root e)) (\<lambda>_.
     andThen (retryIO (os_call (Symlink (mLinkTarget e) (link_path root e)))) (\<lambda>_.
     andThen (chown_if_root (retryIO (os_call (Lchown (link_path root e) (mUID e) (mGID e))))) (\<lambda>_.
     andThen (retryIO (os_call (Rename (link_path root e) (final_path root e)))) io_return))))"
  have "sound ?su (dir_ready root e ?W) ?T ?L (andThen (ensureRealDir root (parentDir (mPath e))) ?rest)
      (\<lambda>_. beside root e (final_path root e) (placed_link ?su e))"
    by (rule sound_andThen; rule sound_mono [OF sound_ensure_parent [OF good]] sound_mono [OF sound_link_steps [OF good]]) auto
  note facts = soundD [OF this _ refl ready]
  obtain r2 w2 where m: "andThen (ensureRealDir root (parentDir (mPath e))) ?rest w = (r2, w2)" by fastforce
  then show ?thesis
    using run facts(1,2) [OF m] facts(3) [OF m]
    by (cases r2) (auto simp: commitSymlink_def link_path_def Let_def)
qed

text \<open>A directory.\<close>

definition dir_node :: "(attrs \<Rightarrow> bool) \<Rightarrow> node option \<Rightarrow> bool" where
  "dir_node P x = (case x of Some (Dir a) \<Rightarrow> P a | _ \<Rightarrow> False)"

lemma dir_node_attrs:
  "(\<And>a. P a \<Longrightarrow> P (f a) \<and> P1 (f a)) \<Longrightarrow> dir_node P (Some x) \<Longrightarrow>
     dir_node P (Some (set_attrs f x)) \<and> dir_node P1 (Some (set_attrs f x))"
  by (cases x) (auto simp: dir_node_def)

lemma dir_node_True: "dir_node (\<lambda>_. True) x = is_dir x"
  by (auto simp: dir_node_def is_dir_def split: option.splits node.splits)

lemma placed_dir_node: "dir_node (\<lambda>a. atMode a = mMode e \<and> owned su e a) x = placed_dir su e x"
  by (auto simp: dir_node_def placed_dir_def owned_def split: option.splits node.splits)

definition no_links_to :: "fs \<Rightarrow> path \<Rightarrow> bool" where
  "no_links_to fs p \<longleftrightarrow> list_all (\<lambda>k. \<not> is_link (get fs (take k p))) [0..<Suc (length p)]"

lemma no_links_to_iff: "no_links_to fs p \<longleftrightarrow> (\<forall>q. in_tree q p \<longrightarrow> \<not> is_link (get fs q))"
proof -
  have "no_links_to fs p \<longleftrightarrow> (\<forall>k \<le> length p. \<not> is_link (get fs (take k p)))"
    by (auto simp: no_links_to_def list_all_iff less_Suc_eq_le simp del: upt_Suc)
  also have "\<dots> \<longleftrightarrow> clear_of p {q. is_link (get fs q)}" by (simp add: clear_of_def)
  finally show ?thesis by (simp add: clear_of_iff)
qed

lemma real_dir_no_links: "real_dir fs p \<Longrightarrow> no_links_to fs p"
  by (auto simp: real_dir_iff no_links_to_def list_all_iff less_Suc_eq_le dest: dir_not_link simp del: upt_Suc)

lemma no_links_changes: "no_links_to fs p \<Longrightarrow> changes T L fs fs1 \<Longrightarrow> (\<And>q. in_tree q p \<Longrightarrow> q \<notin> L) \<Longrightarrow> no_links_to fs1 p"
  unfolding no_links_to_iff by (metis changes_link)

definition dir_area :: "path \<Rightarrow> mentry \<Rightarrow> fs \<Rightarrow> path set" where
  "dir_area root e fs = on_way root (segs_of e) fs \<union> {final_path root e}"

lemma commitDir_steps:
  assumes good: "good_place root e" and root: "real_dir (osFs w) root" and run: "commitDir root e w = (res, w1)"
  shows "osSuper w1 = osSuper w \<and>
    changes (dir_area root e (osFs w)) {} (osFs w) (osFs w1) \<and>
    (frMatch res \<longrightarrow> no_links_to (osFs w1) (final_path root e)) \<and>
    (frMatch res \<and> \<not> frError res \<longrightarrow>
       real_dir (osFs w1) (dir_path root e) \<and> placed_dir (osSuper w) e (get (osFs w1) (final_path root e)))"
proof -
  let ?final = "final_path root e" and ?d = "dir_path root e" and ?su = "osSuper w"
  let ?W = "on_way root (segs_of e) (osFs w)"
  let ?B = "\<lambda>P. beside root e ?final (dir_node P)" and ?mode = "\<lambda>a. atMode a = mMode e"
  have safe: "safe_segs (root @ segs_of e)" using good by (simp add: good_place_def)
  have mk: "sound ?su (\<lambda>fs. real_dir fs root \<and> on_way root (segs_of e) fs \<subseteq> ?W) ?W {}
      (ensureRealDir root (mPath e)) (\<lambda>_ fs. real_dir fs ?final)"
    using sound_ensure_segs [OF safe] good by (simp add: ensureRealDir_safe good_place_def final_path_def)
  have at: "at_path fs ?final" if "real_dir fs ?d" for fs using good_paths(1) [OF good that] .
  have clear: "clear_of ?d {?final}" by (rule clear_of_sub [OF place_distinct(3)]) auto
  have attrs: "sound ?su (?B P) {?final} {} (retryIO (os_call (change_attrs True f ?final))) (\<lambda>_. ?B P1)"
    if "\<And>a. P a \<Longrightarrow> P (f a) \<and> P1 (f a)" for P P1 f
  proof (rule sound_side_attrs [OF refl at clear])
    show "dir_node P (Some x) \<Longrightarrow> dir_node P (Some (set_attrs f x)) \<and> dir_node P1 (Some (set_attrs f x))" for x
      by (rule dir_node_attrs) (rule that)
    show "dir_node P x \<Longrightarrow> True \<longrightarrow> \<not> is_link x" for x
      by (auto simp: dir_node_def is_link_def split: option.splits node.splits)
  qed auto
  have chmod: "sound ?su (?B (\<lambda>_. True)) {?final} {} (retryIO (os_call (Chmod ?final (mMode e)))) (\<lambda>_. ?B ?mode)"
    unfolding Chmod_def by (rule attrs) simp
  have chown: "sound ?su (?B ?mode) {?final} {} (chown_if_root (retryIO (os_call (Chown ?final (mUID e) (mGID e)))))
      (\<lambda>_. ?B (\<lambda>a. ?mode a \<and> owned ?su e a))"
  proof (rule sound_chown_if_root)
    show "sound ?su (?B ?mode) {?final} {} (retryIO (os_call (Chown ?final (mUID e) (mGID e)))) (\<lambda>_. ?B (\<lambda>a. ?mode a \<and> owned ?su e a))"
      unfolding Chown_def by (rule attrs) (simp add: owned_def)
  qed (auto simp: dir_node_def owned_def split: option.splits node.splits)
  note meta = sound_andThen [OF chmod chown]
  obtain r2 w2 where m2: "ensureRealDir root (mPath e) w = (r2, w2)" by fastforce
  note f2 = soundD [OF mk m2 refl conjI [OF root subset_refl]]
  show ?thesis
  proof (cases r2)
    case (Inl err)
    have "changes (dir_area root e (osFs w)) {} (osFs w) (osFs w2)"
      by (rule changes_mono [OF f2(2)]) (auto simp: dir_area_def)
    then show ?thesis using run m2 f2(1) Inl by (auto simp: commitDir_def Let_def)
  next
    case (Inr u)
    note real = f2(3) [OF Inr]
    have start: "?B (\<lambda>_. True) (osFs w2)"
      using real real_dir_snoc by (metis dir_node_True final_path_snoc)
    obtain r3 w3 where m3: "andThen (retryIO (os_call (Chmod ?final (mMode e))))
        (\<lambda>_. chown_if_root (retryIO (os_call (Chown ?final (mUID e) (mGID e))))) w2 = (r3, w3)" by fastforce
    note f3 = soundD [OF meta m3 f2(1) start]
    have "changes (dir_area root e (osFs w)) {} (osFs w) (osFs w3)"
      by (rule changes_trans [OF changes_mono [OF f2(2)] changes_mono [OF f3(2)]]) (auto simp: dir_area_def)
    moreover have "no_links_to (osFs w3) ?final"
      using no_links_changes [OF real_dir_no_links [OF real] f3(2)] by simp
    ultimately show ?thesis
      using run m2 m3 Inr f3(1) f3(3) placed_dir_node
      by (auto simp: commitDir_def Let_def split: sum.splits)
  qed
qed

end
