(* ===== verification/Datamover_Commit_Sweep.thy ===== *)
theory Datamover_Commit_Sweep
  imports Datamover_Commit_Steps
begin

text \<open>
  The deletion pass of the file-system committer: the walk removes only what is neither a directory
  nor named by the manifest, whatever faults occur; a walk that ends has removed all of it outside
  the state directory, and it never exhausts its fuel; pruning takes empty directories only.
\<close>

lemma Join_snoc: "ss \<noteq> [] \<Longrightarrow> Join (ss @ [s]) sep = Join ss sep @ sep @ s"
  by (induction ss rule: induct_list012) auto

lemma Join_empty: "safe_segs ss \<Longrightarrow> Join ss sep = [] \<longleftrightarrow> ss = []"
  by (induction ss rule: induct_list012) (auto simp: safe_segs_def)

lemma path_join_Join: "safe_segs d \<Longrightarrow> path_join (Join d ''/'') s = Join (d @ [s]) ''/''"
  by (cases "d = []") (auto simp: path_join_def Join_empty Join_snoc)

lemma all_keys: "list_all P (keys fs) \<longleftrightarrow> (\<forall>q. get fs q \<noteq> None \<longrightarrow> P q)"
  by (auto simp: list_all_iff map_of_eq_None_iff image_iff)

definition safe_fs :: "fs \<Rightarrow> bool" where
  "safe_fs fs \<longleftrightarrow> list_all safe_segs (keys fs)"

lemma safe_fs_get: "safe_fs fs \<Longrightarrow> get fs q = Some x \<Longrightarrow> safe_segs q"
  by (simp add: safe_fs_def all_keys)

text \<open>The paths that a pass may clear, and those it may prune.\<close>

definition stray :: "path \<Rightarrow> string list \<Rightarrow> fs \<Rightarrow> path set" where
  "stray root keep fs = {p. \<exists>q. q \<noteq> [] \<and> p = root @ q \<and> \<not> is_dir (get fs p) \<and> Join q ''/'' \<notin> set keep}"

definition prunable :: "path \<Rightarrow> string list \<Rightarrow> fs \<Rightarrow> path set" where
  "prunable root keep fs = {p. \<exists>q. q \<noteq> [] \<and> p = root @ q \<and> safe_segs p \<and> real_dir fs p \<and> Join q ''/'' \<notin> set keep}"

definition swept :: "path \<Rightarrow> string list \<Rightarrow> fs \<Rightarrow> fs \<Rightarrow> bool" where
  "swept root keep fs fs1 \<longleftrightarrow> (\<forall>q. get fs1 q = get fs q \<or> get fs1 q = None \<and> q \<in> stray root keep fs)"

lemma swept_refl [simp]: "swept root keep fs fs"
  by (simp add: swept_def)

lemma swept_dirs: "swept root keep fs fs1 \<Longrightarrow> is_dir (get fs1 q) = is_dir (get fs q)"
proof -
  assume "swept root keep fs fs1"
  then have "get fs1 q = get fs q \<or> get fs1 q = None \<and> q \<in> stray root keep fs" by (simp add: swept_def)
  then show "is_dir (get fs1 q) = is_dir (get fs q)" by (auto simp: stray_def)
qed

lemma swept_real_dir: "swept root keep fs fs1 \<Longrightarrow> real_dir fs1 p = real_dir fs p"
  by (simp add: real_dir_iff swept_dirs)

lemma swept_stray: "swept root keep fs fs1 \<Longrightarrow> stray root keep fs1 = stray root keep fs"
  by (simp add: stray_def swept_dirs)

lemma swept_prunable: "swept root keep fs fs1 \<Longrightarrow> prunable root keep fs1 = prunable root keep fs"
  by (simp add: prunable_def swept_real_dir)

lemma swept_trans: "swept root keep fs fs1 \<Longrightarrow> swept root keep fs1 fs2 \<Longrightarrow> swept root keep fs fs2"
  using swept_stray [of root keep fs fs1] unfolding swept_def by metis

lemma swept_present: "swept root keep fs fs1 \<Longrightarrow> get fs1 q = Some x \<Longrightarrow> get fs q = Some x"
  unfolding swept_def by (metis option.distinct(1))

lemma swept_safe: "swept root keep fs fs1 \<Longrightarrow> safe_fs fs \<Longrightarrow> safe_fs fs1"
  unfolding safe_fs_def all_keys swept_def by metis

lemma swept_changes: "swept root keep fs fs1 \<Longrightarrow> changes (stray root keep fs) {} fs fs1"
  unfolding swept_def changes_def by (metis link_kinds(4) option.distinct(1))

text \<open>A path that the pass has dealt with.\<close>

definition tidy :: "path \<Rightarrow> path \<Rightarrow> string list \<Rightarrow> fs \<Rightarrow> string list \<Rightarrow> bool" where
  "tidy root stateDir keep fs q \<longleftrightarrow>
     (real_dir fs (root @ butlast q) \<longrightarrow> get fs (root @ q) \<noteq> None \<longrightarrow> \<not> is_dir (get fs (root @ q)) \<longrightarrow>
      \<not> in_tree stateDir (root @ q) \<longrightarrow> Join q ''/'' \<in> set keep)"

lemma tidy_swept: "swept root keep fs fs1 \<Longrightarrow> tidy root stateDir keep fs q \<Longrightarrow> tidy root stateDir keep fs1 q"
  using swept_present [of root keep fs fs1 "root @ q"]
  by (auto simp: tidy_def swept_real_dir swept_dirs)

definition deep :: "nat \<Rightarrow> fs \<Rightarrow> bool" where
  "deep M fs \<longleftrightarrow> list_all (\<lambda>q. length q \<le> M) (keys fs)"

lemma deep_get: "deep M fs \<Longrightarrow> get fs q = Some x \<Longrightarrow> length q \<le> M"
  by (simp add: deep_def all_keys)

lemma swept_deep: "swept root keep fs fs1 \<Longrightarrow> deep M fs \<Longrightarrow> deep M fs1"
  unfolding deep_def all_keys swept_def by metis

text \<open>What a walk begun at \<open>fs\<close> with the lists \<open>sw\<close> has done, for the paths \<open>D\<close> it was to deal with.\<close>

definition walked ::
  "path \<Rightarrow> path \<Rightarrow> string list \<Rightarrow> string list set \<Rightarrow> bool \<Rightarrow> os \<Rightarrow> sweep_lists \<Rightarrow> walk_end \<times> sweep_lists \<times> os \<Rightarrow> bool" where
  "walked root stateDir keep D enough w sw out \<longleftrightarrow>
     (case out of (end1, sw1, w1) \<Rightarrow>
        osSuper w1 = osSuper w \<and> swept root keep (osFs w) (osFs w1) \<and>
        set (swPrune sw1) \<subseteq> set (swPrune sw) \<union> prunable root keep (osFs w) \<and>
        (end1 = WalkDone \<longrightarrow> (\<forall>q \<in> D. tidy root stateDir keep (osFs w1) q)) \<and>
        (enough \<longrightarrow> end1 \<noteq> WalkFuel))"

definition below :: "string list \<Rightarrow> string list set" where
  "below d = {q. \<exists>r. r \<noteq> [] \<and> q = d @ r}"

lemma walked_same: "osSuper w1 = osSuper w \<Longrightarrow> osFs w1 = osFs w \<Longrightarrow> end1 \<noteq> WalkDone \<Longrightarrow> end1 \<noteq> WalkFuel \<Longrightarrow>
    walked root stateDir keep D enough w sw (end1, sw, w1)"
  by (auto simp: walked_def)

lemma walked_then:
  assumes first: "osSuper w1 = osSuper w" "swept root keep (osFs w) (osFs w1)" "\<forall>q \<in> D1. tidy root stateDir keep (osFs w1) q"
      "set (swPrune sw1) \<subseteq> set (swPrune sw) \<union> prunable root keep (osFs w)"
    and second: "walked root stateDir keep D2 enough w1 sw1 out"
  shows "walked root stateDir keep (D1 \<union> D2) enough w sw out"
proof -
  obtain end2 sw2 w2 where out: "out = (end2, sw2, w2)" by (cases out)
  have second1: "osSuper w2 = osSuper w1" "swept root keep (osFs w1) (osFs w2)"
    "set (swPrune sw2) \<subseteq> set (swPrune sw1) \<union> prunable root keep (osFs w1)"
    "end2 = WalkDone \<Longrightarrow> \<forall>q \<in> D2. tidy root stateDir keep (osFs w2) q" "enough \<Longrightarrow> end2 \<noteq> WalkFuel"
    using second by (simp_all add: walked_def out)
  have "\<forall>q \<in> D1. tidy root stateDir keep (osFs w2) q" using first(3) tidy_swept [OF second1(2)] by blast
  moreover have "set (swPrune sw2) \<subseteq> set (swPrune sw) \<union> prunable root keep (osFs w)"
    using second1(3) first(4) swept_prunable [OF first(2)] by auto
  ultimately show ?thesis
    using first(1) second1 swept_trans [OF first(2) second1(2)] by (auto simp: walked_def out)
qed

lemma walked_weaken: "walked root stateDir keep D enough w sw out \<Longrightarrow> D1 \<subseteq> D \<Longrightarrow> (enough1 \<Longrightarrow> enough) \<Longrightarrow>
    walked root stateDir keep D1 enough1 w sw out"
  by (auto simp: walked_def)

lemma Remove_cases:
  assumes "at_path fs p"
  shows "snd (Remove p fs) = fs \<or> snd (Remove p fs) = del p fs"
  by (rule at_path_cases [OF assms, of False]) (simp_all add: Remove_def split: option.split node.split)

lemma stray_removed:
  assumes run: "retryIO (os_call (Remove p)) w = (r, w1)" and p: "p = d @ [s]" "real_dir (osFs w) d" "safe_segs p"
    and stray: "p \<in> stray root keep (osFs w)"
  shows "osSuper w1 = osSuper w" and "swept root keep (osFs w) (osFs w1)" and "r = Inr x \<Longrightarrow> get (osFs w1) p = None"
proof -
  have at: "at_path fs p" if "swept root keep (osFs w) fs" for fs
    using at_path_snoc p swept_real_dir [OF that] by blast
  have inv: "swept root keep (osFs w) (snd (Remove p fs))" if S: "swept root keep (osFs w) fs" for fs
  proof -
    have "swept root keep (osFs w) (del p fs)" using S stray by (auto simp: swept_def delete_conv')
    then show ?thesis using Remove_cases [OF at [OF S]] S by auto
  qed
  note facts = retry_call_inv [of "swept root keep (osFs w)", OF inv run swept_refl]
  show "osSuper w1 = osSuper w" "swept root keep (osFs w) (osFs w1)" using facts(1,2) by blast+
  assume "r = Inr x"
  then obtain fs where "swept root keep (osFs w) fs" "fst (Remove p fs) = Inr x" "osFs w1 = snd (Remove p fs)"
    using facts(3) by blast
  then show "get (osFs w1) p = None" using Remove_at(2) [OF at] by metis
qed

text \<open>Paths through a child: the child itself, and what is below it.\<close>

definition through :: "string list \<Rightarrow> string \<Rightarrow> string list set" where
  "through d s = insert (d @ [s]) (below (d @ [s]))"

lemma through_cases: "q \<in> through d s \<Longrightarrow> q = d @ [s] \<or> (\<exists>r. r \<noteq> [] \<and> q = d @ s # r)"
  by (auto simp: through_def below_def)

lemma tidy_gone: "\<not> is_dir (get fs (root @ d @ [s])) \<Longrightarrow>
    get fs (root @ d @ [s]) = None \<or> Join (d @ [s]) ''/'' \<in> set keep \<Longrightarrow> \<forall>q \<in> through d s. tidy root stateDir keep fs q"
proof (rule ballI)
  fix q assume n: "\<not> is_dir (get fs (root @ d @ [s]))" and gone: "get fs (root @ d @ [s]) = None \<or> Join (d @ [s]) ''/'' \<in> set keep"
    and "q \<in> through d s"
  from through_cases [OF this(3)] show "tidy root stateDir keep fs q"
  proof
    assume "\<exists>r. r \<noteq> [] \<and> q = d @ s # r"
    then obtain r where r: "r \<noteq> []" "q = d @ s # r" by blast
    then have "root @ butlast q = (root @ d @ [s]) @ butlast r" by (simp add: butlast_append)
    then show ?thesis using n real_dir_prefix real_dir_self by (metis tidy_def)
  qed (use gone in \<open>auto simp: tidy_def\<close>)
qed

lemma tidy_state: "in_tree stateDir (root @ d @ [s]) \<Longrightarrow> \<forall>q \<in> through d s. tidy root stateDir keep fs q"
proof (rule ballI)
  fix q assume "in_tree stateDir (root @ d @ [s])" and "q \<in> through d s"
  moreover from this(2) have "in_tree (root @ d @ [s]) (root @ q)"
    by (auto simp: through_def below_def in_tree_iff)
  ultimately show "tidy root stateDir keep fs q" using in_tree_trans by (auto simp: tidy_def)
qed

text \<open>A child that the loop has dealt with and left behind.\<close>

definition child_done ::
  "path \<Rightarrow> path \<Rightarrow> string list \<Rightarrow> string list \<Rightarrow> string \<Rightarrow> os \<Rightarrow> sweep_lists \<Rightarrow> os \<Rightarrow> sweep_lists \<Rightarrow> bool" where
  "child_done root stateDir keep d s w sw w1 sw1 \<longleftrightarrow>
     osSuper w1 = osSuper w \<and> swept root keep (osFs w) (osFs w1) \<and>
     (\<forall>q \<in> through d s. tidy root stateDir keep (osFs w1) q) \<and>
     set (swPrune sw1) \<subseteq> set (swPrune sw) \<union> prunable root keep (osFs w)"

lemma child_unchanged: "osFs w1 = osFs w \<Longrightarrow> osSuper w1 = osSuper w \<Longrightarrow> \<forall>q \<in> through d s. tidy root stateDir keep (osFs w) q \<Longrightarrow>
    child_done root stateDir keep d s w sw w1 sw"
  by (simp add: child_done_def)

lemma child_walked:
  assumes sub: "walked root stateDir keep (below (d @ [s])) enough w sw (WalkDone, sw1, w1)"
    and dir: "real_dir (osFs w) (root @ d @ [s])" and safe: "safe_segs (root @ d @ [s])"
  shows "child_done root stateDir keep d s w sw w1
    (if Join (d @ [s]) ''/'' \<in> set keep then sw1 else sw1\<lparr>swPrune := swPrune sw1 @ [root @ d @ [s]]\<rparr>)"
proof -
  have facts: "osSuper w1 = osSuper w" "swept root keep (osFs w) (osFs w1)"
    "set (swPrune sw1) \<subseteq> set (swPrune sw) \<union> prunable root keep (osFs w)"
    "\<forall>q \<in> below (d @ [s]). tidy root stateDir keep (osFs w1) q"
    using sub by (simp_all add: walked_def)
  have "is_dir (get (osFs w1) (root @ d @ [s]))" using swept_dirs [OF facts(2)] real_dir_self [OF dir] by simp
  then have "\<forall>q \<in> through d s. tidy root stateDir keep (osFs w1) q"
    using facts(4) by (auto simp: through_def tidy_def)
  moreover have "root @ d @ [s] \<in> prunable root keep (osFs w)" if "Join (d @ [s]) ''/'' \<notin> set keep"
    using that dir safe by (auto simp: prunable_def)
  ultimately show ?thesis using facts(1-3) by (auto simp: child_done_def)
qed

lemma child_removed:
  assumes run: "retryIO (os_call (Remove (root @ d @ [s]))) w = (Inr u, w1)" and dir: "real_dir (osFs w) (root @ d)"
    and safe: "safe_segs (root @ d @ [s])" and "root @ d @ [s] \<in> stray root keep (osFs w)"
  shows "child_done root stateDir keep d s w sw w1 (sw\<lparr>swDeleted := x\<rparr>)"
proof -
  note gone = stray_removed [OF run append_assoc [symmetric] dir safe assms(4)]
  have "\<forall>q \<in> through d s. tidy root stateDir keep (osFs w1) q"
    by (rule tidy_gone) (use gone(3) in auto)
  then show ?thesis using gone(1,2) by (simp add: child_done_def)
qed

lemma walk_entries_walked:
  assumes walk: "\<And>d sw w. safe_segs (root @ d) \<Longrightarrow> real_dir (osFs w) (root @ d) \<Longrightarrow> safe_fs (osFs w) \<Longrightarrow> deep M (osFs w) \<Longrightarrow>
      walked root stateDir keep (below d) (M < length (root @ d) + n) w sw (walk (root @ d) (Join d ''/'') sw w)"
    and safe: "safe_segs (root @ d)"
  shows "\<lbrakk>list_all (\<lambda>s. safe_segs [s]) names; real_dir (osFs w) (root @ d); safe_fs (osFs w); deep M (osFs w)\<rbrakk> \<Longrightarrow>
    walked root stateDir keep (\<Union>s \<in> set names. through d s) (M < length (root @ d) + Suc n) w sw
      (walk_entries walk stateDir keep (root @ d) (Join d ''/'') names sw w)"
proof (induction names arbitrary: sw w)
  case (Cons s names)
  let ?child = "root @ d @ [s]" and ?enough = "M < length (root @ d) + Suc n"
    and ?D = "\<Union>s \<in> set names. through d s"
  have safe1: "safe_segs ?child" "safe_segs d" using safe Cons.prems(1) by simp_all
  have rel: "path_join (Join d ''/'') s = Join (d @ [s]) ''/''" by (rule path_join_Join [OF safe1(2)])
  have D: "(\<Union>s \<in> set (s # names). through d s) = through d s \<union> ?D" by simp
  obtain b w1 where ctx: "context_done w = (b, w1)" by fastforce
  then have w1: "osFs w1 = osFs w" "osSuper w1 = osSuper w" by (auto simp: context_done_def)
  have go_on: "walked root stateDir keep (through d s \<union> ?D) ?enough w sw
      (walk_entries walk stateDir keep (root @ d) (Join d ''/'') names sw1 w2)"
    if child: "child_done root stateDir keep d s w sw w2 sw1" for sw1 w2
  proof -
    have S: "swept root keep (osFs w) (osFs w2)" using child by (simp add: child_done_def)
    show ?thesis
      by (rule walked_then [OF _ S _ _ Cons.IH])
        (use Cons.prems child swept_real_dir [OF S] swept_safe [OF S] swept_deep [OF S] in \<open>auto simp: child_done_def\<close>)
  qed
  let ?run = "walk_entries walk stateDir keep (root @ d) (Join d ''/'') (s # names) sw w"
  have stop: "walked root stateDir keep (through d s \<union> ?D) ?enough w sw (WalkError, sw, w2)"
    if "osFs w2 = osFs w" "osSuper w2 = osSuper w" for w2
    by (rule walked_same) (use that in simp_all)
  have "walked root stateDir keep (through d s \<union> ?D) ?enough w sw ?run"
  proof (cases b)
    case True
    then have eq: "?run = (WalkError, sw, w1)" using ctx by simp
    show ?thesis unfolding eq by (rule stop [OF w1])
  next
    case b: False
    show ?thesis
    proof (cases "?child = stateDir")
      case True
      then have eq: "?run = walk_entries walk stateDir keep (root @ d) (Join d ''/'') names sw w1"
        using ctx b by (simp add: Let_def)
      show ?thesis unfolding eq
        by (intro go_on child_unchanged w1 tidy_state) (simp add: True [symmetric])
    next
      case other: False
      obtain r2 w2 where m2: "lstatRetry ?child w1 = (r2, w2)" by fastforce
      note look = retry_reads [OF reads(1) m2 [unfolded lstatRetry_def]]
      have w2: "osFs w2 = osFs w" "osSuper w2 = osSuper w" using look(1,2) w1 by simp_all
      show ?thesis
      proof (cases r2)
        case (Inl err)
        then have eq: "?run = (WalkError, sw, w2)" using ctx b other m2 by (simp add: Let_def)
        show ?thesis unfolding eq by (rule stop [OF w2])
      next
        case r2: (Inr info)
        have real: "real_dir (osFs w1) (root @ d)" using Cons.prems(2) w1 by simp
        then have info: "get (osFs w) ?child = Some info"
          using Lstat_at(2) [OF at_path_snoc [OF real]] look(3) [OF r2] safe1 w1(1) by simp
        note run2 = ctx b other m2 r2 rel
        show ?thesis
        proof (cases "is_dir (Some info)")
          case dir: True
          have real2: "real_dir (osFs w2) ?child"
            using dir info Cons.prems(2) real_dir_snoc [of "osFs w" "root @ d" s] w2 by simp
          obtain end3 sw3 w3 where m3: "walk ?child (Join (d @ [s]) ''/'') sw w2 = (end3, sw3, w3)" by (metis prod_cases3)
          have sub: "walked root stateDir keep (below (d @ [s])) (M < length ?child + n) w2 sw (end3, sw3, w3)"
            using walk [of "d @ [s]" w2 sw] safe1(1) real2 Cons.prems(3,4) w2 m3 by simp
          show ?thesis
          proof (cases "end3 = WalkDone")
            case done1: True
            have eq: "?run = walk_entries walk stateDir keep (root @ d) (Join d ''/'') names
                (if Join (d @ [s]) ''/'' \<in> set keep then sw3 else sw3\<lparr>swPrune := swPrune sw3 @ [?child]\<rparr>) w3"
              using run2 dir m3 done1 by (simp add: Let_def)
            show ?thesis unfolding eq
              using child_walked [OF sub [unfolded done1] real2 safe1(1)] w2 by (intro go_on) (simp add: child_done_def)
          next
            case failed: False
            then have eq: "?run = (end3, sw3, w3)"
              using run2 dir m3 by (simp add: Let_def split: walk_end.split)
            show ?thesis using failed sub w2 unfolding eq by (auto simp: walked_def)
          qed
        next
          case leaf: False
          show ?thesis
          proof (cases "Join (d @ [s]) ''/'' \<in> set keep")
            case True
            then have eq: "?run = walk_entries walk stateDir keep (root @ d) (Join d ''/'') names sw w2"
              using run2 leaf by (simp add: Let_def)
            have "\<forall>q \<in> through d s. tidy root stateDir keep (osFs w2) q"
              by (rule tidy_gone) (use leaf True info w2 in auto)
            then show ?thesis unfolding eq by (intro go_on child_unchanged w2) (simp add: w2)
          next
            case out: False
            obtain r3 w3 where m3: "retryIO (os_call (Remove ?child)) w2 = (r3, w3)" by fastforce
            have str: "?child \<in> stray root keep (osFs w2)" using out leaf info w2 by (auto simp: stray_def)
            have real2: "real_dir (osFs w2) (root @ d)" using Cons.prems(2) w2 by simp
            show ?thesis
            proof (cases r3)
              case (Inl err)
              then have eq: "?run = (WalkError, sw, w3)" using run2 leaf out m3 by (simp add: Let_def)
              show ?thesis unfolding eq
                using stray_removed(1,2) [OF m3 append_assoc [symmetric] real2 safe1(1) str] w2 by (simp add: walked_def)
            next
              case r3: (Inr u)
              have eq: "?run = walk_entries walk stateDir keep (root @ d) (Join d ''/'') names
                  (sw\<lparr>swDeleted := swDeleted sw @ [Join (d @ [s]) ''/'']\<rparr>) w3"
                using run2 leaf out m3 r3 by (simp add: Let_def)
              show ?thesis unfolding eq
                using child_removed [OF m3 [unfolded r3] real2 safe1(1) str] w2 by (intro go_on) (simp add: child_done_def)
            qed
          qed
        qed
      qed
    qed
  qed
  then show ?case unfolding D .
qed (simp add: walked_def)

text \<open>A path without links leads where it says.\<close>

lemma no_links_lookup:
  assumes "safe_segs p" and "no_links_to fs p" and "lookup_path fs p follow = Inr q"
  shows "q = p"
proof (rule lookup_straight [OF assms(1) _ _ assms(3)])
  show "straight fs p" using assms(2) by (auto simp: straight_def no_links_to_def list_all_iff)
  show "\<not> is_link (get fs p)" using assms(2) by (simp add: no_links_to_iff)
qed

lemma ReadDir_real:
  assumes "safe_segs p" and "real_dir fs p" and "fst (ReadDir p fs) = Inr ns"
  shows "ns = children fs p"
proof -
  have "lookup_path fs p True = Inr q \<Longrightarrow> q = p" for q
    by (rule no_links_lookup [OF assms(1) real_dir_no_links [OF assms(2)]])
  then show ?thesis
    using assms(3) by (auto simp: ReadDir_def split: sum.splits option.splits node.splits)
qed

lemma walk_dir_walked:
  "\<lbrakk>safe_segs (root @ d); real_dir (osFs w) (root @ d); safe_fs (osFs w); deep M (osFs w)\<rbrakk> \<Longrightarrow>
    walked root stateDir keep (below d) (M < length (root @ d) + n) w sw
      (walk_dir n stateDir keep (root @ d) (Join d ''/'') sw w)"
proof (induction n arbitrary: d sw w)
  case 0
  then have "length (root @ d) \<le> M"
    using real_dir_self deep_get by (metis is_dir_def option.case(1) option.exhaust)
  then show ?case by (simp add: walked_def)
next
  case (Suc n)
  let ?run = "walk_dir (Suc n) stateDir keep (root @ d) (Join d ''/'') sw w"
  obtain b w1 where ctx: "context_done w = (b, w1)" by fastforce
  then have w1: "osFs w1 = osFs w" "osSuper w1 = osSuper w" by (auto simp: context_done_def)
  obtain r2 w2 where m2: "readDirRetry (root @ d) w1 = (r2, w2)" by fastforce
  note look = retry_reads [OF reads(2) m2 [unfolded readDirRetry_def]]
  have w2: "osFs w2 = osFs w" "osSuper w2 = osSuper w" using look(1,2) w1 by simp_all
  show ?case
  proof (cases "b \<or> (\<exists>err. r2 = Inl err)")
    case True
    then have "?run = (WalkError, sw, w1) \<or> ?run = (WalkError, sw, w2)" using ctx m2 by (cases b) auto
    then show ?thesis using w1 w2 by (auto simp: walked_def)
  next
    case False
    then obtain names where r2: "r2 = Inr names" by (cases r2) auto
    have names: "names = children (osFs w2) (root @ d)"
      using ReadDir_real [OF Suc.prems(1,2)] look(3) [OF r2] w1 w2 by simp
    have eq: "?run = walk_entries (walk_dir n stateDir keep) stateDir keep (root @ d) (Join d ''/'') names sw w2"
      using ctx m2 r2 False by simp
    have safe: "list_all (\<lambda>s. safe_segs [s]) names"
      using safe_fs_get [OF Suc.prems(3)] by (force simp: list_all_iff names set_children w2)
    have "walked root stateDir keep (\<Union>s \<in> set names. through d s) (M < length (root @ d) + Suc n) w2 sw ?run"
      unfolding eq using Suc.IH Suc.prems w2 safe
      by (intro walk_entries_walked) auto
    then have out: "walked root stateDir keep (\<Union>s \<in> set names. through d s) (M < length (root @ d) + Suc n) w sw ?run"
      using w2 by (simp add: walked_def)
    obtain end3 sw3 w3 where r3: "?run = (end3, sw3, w3)" by (metis prod_cases3)
    have "tidy root stateDir keep (osFs w3) q" if D: "end3 = WalkDone" and q: "q \<in> below d" for q
    proof -
      from q obtain s r where sr: "q = d @ s # r" by (auto simp: below_def neq_Nil_conv)
      then have thr: "q \<in> through d s" by (auto simp: through_def below_def)
      show ?thesis
      proof (cases "s \<in> set names")
        case True
        then show ?thesis using out D thr unfolding r3 walked_def by auto
      next
        case False
        then have "get (osFs w) (root @ d @ [s]) = None" by (simp add: names set_children w2)
        moreover have "swept root keep (osFs w) (osFs w3)" using out unfolding r3 walked_def by simp
        ultimately have "get (osFs w3) (root @ d @ [s]) = None" by (metis swept_def)
        then show ?thesis using tidy_gone [of "osFs w3" root d s keep stateDir] thr by auto
      qed
    qed
    then show ?thesis using out unfolding r3 walked_def by auto
  qed
qed

subsection \<open>Pruning\<close>

definition drops :: "path set \<Rightarrow> fs \<Rightarrow> fs \<Rightarrow> bool" where
  "drops S fs fs1 \<longleftrightarrow> (\<forall>q. get fs1 q = get fs q \<or> get fs1 q = None \<and> q \<in> S)"

lemma drops_real_dir: "drops S fs fs1 \<Longrightarrow> real_dir fs1 p \<Longrightarrow> real_dir fs p"
  by (auto simp: real_dir_iff drops_def) (metis link_kinds(8))

lemma drops_tidy:
  assumes "drops S fs fs1" and "tidy root stateDir keep fs q"
  shows "tidy root stateDir keep fs1 q"
proof -
  have "get fs1 (root @ q) = get fs (root @ q) \<or> get fs1 (root @ q) = None" using assms(1) by (auto simp: drops_def)
  then show ?thesis using assms(2) drops_real_dir [OF assms(1)] by (auto simp: tidy_def)
qed

lemma drops_changes: "drops S fs fs1 \<Longrightarrow> changes S {} fs fs1"
  unfolding drops_def changes_def by (metis link_kinds(4) option.distinct(1))

lemma drops_no_links: "drops S fs fs1 \<Longrightarrow> no_links_to fs p \<Longrightarrow> no_links_to fs1 p"
  using no_links_changes drops_changes by blast

text \<open>Removing an empty directory takes nothing reachable with it.\<close>

lemma reachable_del_empty:
  assumes reach: "reachable fs q" and "q \<noteq> p" and empty: "children fs p = []"
  shows "reachable (del p fs) q"
proof -
  have "\<not> in_tree p (butlast q)"
  proof
    assume "in_tree p (butlast q)"
    then obtain r where r: "butlast q = p @ r" by (auto simp: in_tree_iff)
    have "q \<noteq> []" using reach r assms(2) by (cases q) auto
    then have q: "q = p @ r @ [last q]" using r by (metis append_assoc append_butlast_last_id)
    obtain s where "get fs (p @ [s]) \<noteq> None"
    proof (cases r)
      case Nil
      then show ?thesis using that [of "last q"] reach q by (simp add: reachable_def)
    next
      case (Cons s r1)
      have "real_dir fs ((p @ [s]) @ r1)" using reach r Cons by (simp add: reachable_def)
      then have "is_dir (get fs (p @ [s]))" using real_dir_prefix real_dir_self by blast
      then show ?thesis using that [of s] by (cases "get fs (p @ [s])") auto
    qed
    then show False using empty set_children [of fs p] by auto
  qed
  moreover have "real_dir fs (butlast q)" "get fs q \<noteq> None" using reach by (simp_all add: reachable_def)
  moreover have "clear_of (butlast q) {p}" using calculation(1) by (auto simp: clear_of_iff)
  ultimately have "real_dir (del p fs) (butlast q)"
    using real_dir_changes [OF _ changes_del [of p "{p}" "{}" fs], of "butlast q"] by (simp add: clear_of_def)
  then show ?thesis using reach assms(2) by (auto simp: reachable_def delete_conv')
qed

lemma prune_dirs_drops:
  assumes "prune_dirs ps w = (b, w1)" and "\<And>p. p \<in> set ps \<Longrightarrow> p \<in> S \<and> safe_segs p \<and> no_links_to fs0 p \<and> is_dir (get fs0 p)"
    and "drops S fs0 (osFs w)" and "\<And>q. reachable fs0 q \<Longrightarrow> q \<notin> S \<Longrightarrow> reachable (osFs w) q"
  shows "osSuper w1 = osSuper w \<and> drops S fs0 (osFs w1) \<and> (\<forall>q. reachable fs0 q \<longrightarrow> q \<notin> S \<longrightarrow> reachable (osFs w1) q)"
  using assms
proof (induction ps arbitrary: w)
  case (Cons p ps)
  let ?I = "\<lambda>fs. drops S fs0 fs \<and> (\<forall>q. reachable fs0 q \<longrightarrow> q \<notin> S \<longrightarrow> reachable fs q)"
  have p: "p \<in> S" "safe_segs p" "no_links_to fs0 p" "is_dir (get fs0 p)" using Cons.prems(2) by auto
  obtain r2 w2 where m2: "readDirRetry p w = (r2, w2)" by fastforce
  note look = retry_reads [OF reads(2) m2 [unfolded readDirRetry_def]]
  have inv: "?I (snd (Remove p fs))" if I: "?I fs" for fs
  proof -
    have links: "no_links_to fs p" using drops_no_links p(3) I by blast
    have "get fs p = get fs0 p \<or> get fs p = None" using I by (auto simp: drops_def)
    then have dir: "is_dir (get fs p) \<or> get fs p = None" using p(4) by auto
    have "snd (Remove p fs) = fs \<or> snd (Remove p fs) = del p fs \<and> children fs p = []"
    proof (cases "lookup_path fs p False")
      case (Inr q)
      then have "q = p" using no_links_lookup [OF p(2) links] by blast
      then show ?thesis
        using Inr dir by (auto simp: Remove_def is_dir_def split: option.splits node.splits)
    qed (simp add: Remove_def)
    moreover have "drops S fs0 (del p fs)" using I p(1) by (auto simp: drops_def delete_conv')
    moreover have "reachable (del p fs) q" if "children fs p = []" "reachable fs0 q" "q \<notin> S" for q
      using reachable_del_empty [of fs q p] that I p(1) by blast
    ultimately show ?thesis using I by auto
  qed
  obtain r3 w3 where m3: "retryIO (os_call (Remove p)) w2 = (r3, w3)" by fastforce
  have start: "?I (osFs w2)" using Cons.prems(3,4) look(1) by auto
  note gone = retry_call_inv(1,2) [of ?I, OF inv m3 start]
  consider "w1 = w2" "r2 \<noteq> Inr []" "\<exists>err. r2 = Inl err" | "prune_dirs ps w3 = (b, w1)" | "prune_dirs ps w2 = (b, w1)"
    using Cons.prems(1) m2 m3 by (cases r2) (auto split: if_splits)
  then show ?case
  proof cases
    case 1
    then show ?thesis using start look(2) by simp
  next
    case 2
    show ?thesis using Cons.IH [OF 2 Cons.prems(2)] gone look(2) by simp
  next
    case 3
    show ?thesis using Cons.IH [OF 3 Cons.prems(2)] start look(2) by simp
  qed
qed auto

subsection \<open>The whole pass\<close>

lemma fold_max: "n \<le> fold max xs (n::nat) \<and> (\<forall>x \<in> set xs. x \<le> fold max xs n)"
proof (induction xs arbitrary: n)
  case (Cons a xs)
  have "max a n \<le> fold max xs (max a n)" using Cons.IH by blast
  then show ?case using Cons.IH [of "max a n"] by simp
qed simp

lemma deep_walk_fuel: "deep (walk_fuel fs - 1) fs"
  using fold_max [of 0 "map length (keys fs)"] by (simp add: deep_def walk_fuel_def list_all_iff)

lemma set_longest_first [simp]: "set (longest_first len xs) = set xs"
  by (simp add: longest_first_def)

lemma swept_drops: "swept root keep fs fs1 \<longleftrightarrow> drops (stray root keep fs) fs fs1"
  by (simp add: swept_def drops_def)

definition swept_area :: "path \<Rightarrow> string list \<Rightarrow> fs \<Rightarrow> path set" where
  "swept_area root keep fs = stray root keep fs \<union> prunable root keep fs"

lemma reachable_swept: "swept root keep fs fs1 \<Longrightarrow> q \<notin> stray root keep fs \<Longrightarrow> reachable fs q \<Longrightarrow> reachable fs1 q"
  using swept_real_dir by (metis reachable_def swept_def)

lemma deletionPass_steps:
  assumes safe: "safe_segs root" and root: "real_dir (osFs w) root" and fs: "safe_fs (osFs w)"
    and run: "deletionPass root stateDir m w = (out, w1)"
  shows "osSuper w1 = osSuper w \<and>
    drops (swept_area root (map mPath (mfEntries m)) (osFs w)) (osFs w) (osFs w1) \<and>
    (\<forall>q. reachable (osFs w) q \<longrightarrow> q \<notin> swept_area root (map mPath (mfEntries m)) (osFs w) \<longrightarrow> reachable (osFs w1) q) \<and>
    (\<forall>deleted q. out = Some deleted \<longrightarrow> q \<noteq> [] \<longrightarrow> tidy root stateDir (map mPath (mfEntries m)) (osFs w1) q)"
proof -
  let ?keep = "map mPath (mfEntries m)" and ?sw = "\<lparr>swDeleted = [], swPrune = []\<rparr>"
  let ?A = "swept_area root ?keep (osFs w)" and ?S = "stray root ?keep (osFs w)" and ?P = "prunable root ?keep (osFs w)"
  obtain end2 sw2 w2 where m2: "walk_dir (walk_fuel (osFs w)) stateDir ?keep root [] ?sw w = (end2, sw2, w2)"
    by (metis prod_cases3)
  have "walked root stateDir ?keep (below []) (walk_fuel (osFs w) - 1 < length (root @ []) + walk_fuel (osFs w)) w ?sw
      (walk_dir (walk_fuel (osFs w)) stateDir ?keep (root @ []) (Join [] ''/'') ?sw w)"
    by (rule walk_dir_walked) (use safe root fs deep_walk_fuel in simp_all)
  then have walk: "osSuper w2 = osSuper w" "swept root ?keep (osFs w) (osFs w2)" "set (swPrune sw2) \<subseteq> ?P"
    "end2 = WalkDone \<Longrightarrow> \<forall>q \<in> below []. tidy root stateDir ?keep (osFs w2) q"
    by (auto simp: m2 walked_def)
  have drop2: "drops ?A (osFs w) (osFs w2)" using walk(2) by (auto simp: swept_def drops_def swept_area_def)
  have reach2: "reachable (osFs w2) q" if "reachable (osFs w) q" "q \<notin> ?A" for q
    using reachable_swept [OF walk(2)] that by (simp add: swept_area_def)
  show ?thesis
  proof (cases "end2 = WalkDone")
    case False
    then have "out = None" "w1 = w2" using run m2 by (cases end2; simp add: deletionPass_def)+
    then show ?thesis using walk(1) drop2 reach2 by auto
  next
    case True
    let ?ps = "longest_first path_length (swPrune sw2)"
    obtain b w3 where m3: "prune_dirs ?ps w2 = (b, w3)" by fastforce
    have ps: "p \<in> ?P \<and> safe_segs p \<and> no_links_to (osFs w2) p \<and> is_dir (get (osFs w2) p)" if "p \<in> set ?ps" for p
    proof -
      have p: "p \<in> ?P" using that walk(3) by auto
      then have "real_dir (osFs w2) p" "safe_segs p" using swept_real_dir [OF walk(2)] by (auto simp: prunable_def)
      then show ?thesis using p real_dir_no_links real_dir_self by blast
    qed
    note pruned = prune_dirs_drops [OF m3 ps]
    have "drops ?P (osFs w2) (osFs w2)" by (simp add: drops_def)
    from pruned [OF _ this] have pruned: "osSuper w3 = osSuper w2" "drops ?P (osFs w2) (osFs w3)"
      "\<And>q. reachable (osFs w2) q \<Longrightarrow> q \<notin> ?P \<Longrightarrow> reachable (osFs w3) q" by auto
    have w3: "w1 = w3" using run m2 True m3 by (cases b) (simp_all add: deletionPass_def)
    have "drops ?A (osFs w) (osFs w3)"
      using drop2 pruned(2) unfolding drops_def swept_area_def by (metis UnCI)
    moreover have "tidy root stateDir ?keep (osFs w3) q" if "q \<noteq> []" for q
      using drops_tidy [OF pruned(2)] walk(4) [OF True] that by (auto simp: below_def)
    ultimately show ?thesis
      using w3 pruned(1,3) walk(1) reach2 by (auto simp: swept_area_def)
  qed
qed

text \<open>The pass always ends by itself: the fuel is enough.\<close>

lemma walk_has_fuel:
  assumes "safe_segs root" and "real_dir (osFs w) root" and "safe_fs (osFs w)"
  shows "fst (walk_dir (walk_fuel (osFs w)) stateDir keep root [] sw w) \<noteq> WalkFuel"
proof -
  have "walked root stateDir keep (below []) (walk_fuel (osFs w) - 1 < length (root @ []) + walk_fuel (osFs w)) w sw
      (walk_dir (walk_fuel (osFs w)) stateDir keep (root @ []) (Join [] ''/'') sw w)"
    by (rule walk_dir_walked) (use assms deep_walk_fuel in simp_all)
  moreover have "0 < walk_fuel (osFs w)" by (simp add: walk_fuel_def)
  ultimately show ?thesis
    by (cases "walk_dir (walk_fuel (osFs w)) stateDir keep root [] sw w") (auto simp: walked_def)
qed

subsection \<open>Times\<close>

text \<open>Only times change, and only at the paths of \<open>S\<close>.\<close>

definition retimed :: "path set \<Rightarrow> fs \<Rightarrow> fs \<Rightarrow> bool" where
  "retimed S fs fs1 \<longleftrightarrow>
     (\<forall>q. get fs1 q = get fs q \<or>
        q \<in> S \<and> (\<exists>x t. get fs q = Some x \<and> get fs1 q = Some (set_attrs (\<lambda>a. a\<lparr>atMtime := t\<rparr>) x)))"

lemma retimed_kinds: "retimed S fs fs1 \<Longrightarrow> is_dir (get fs1 q) = is_dir (get fs q) \<and> is_link (get fs1 q) = is_link (get fs q)"
  unfolding retimed_def by (metis set_attrs_kind)

lemma retimed_real_dir: "retimed S fs fs1 \<Longrightarrow> real_dir fs1 p = real_dir fs p"
  by (simp add: real_dir_iff retimed_kinds)

lemma retimed_no_links: "retimed S fs fs1 \<Longrightarrow> no_links_to fs1 p = no_links_to fs p"
  by (simp add: no_links_to_iff retimed_kinds)

lemma set_attrs_twice: "set_attrs f (set_attrs g x) = set_attrs (f \<circ> g) x"
  by (cases x) simp_all

lemma retimed_trans_one:
  assumes "retimed S fs fs1" and "p \<in> S" and "get fs1 p = Some y"
  shows "retimed S fs (put p (set_attrs (\<lambda>a. a\<lparr>atMtime := t\<rparr>) y) fs1)"
proof -
  have "get fs p = Some y \<or> (\<exists>x u. get fs p = Some x \<and> y = set_attrs (\<lambda>a. a\<lparr>atMtime := u\<rparr>) x)"
    using assms(1,3) unfolding retimed_def by (metis option.inject)
  then have "\<exists>x. get fs p = Some x \<and> set_attrs (\<lambda>a. a\<lparr>atMtime := t\<rparr>) y = set_attrs (\<lambda>a. a\<lparr>atMtime := t\<rparr>) x"
    by (auto simp: set_attrs_twice comp_def)
  then show ?thesis
    using assms(1,2) by (auto simp: retimed_def update_conv')
qed

lemma apply_times_retimed:
  assumes "apply_times root es rs w = (rs1, w1)"
    and "\<And>e. e \<in> set es \<Longrightarrow> good_place root e \<and> no_links_to fs0 (final_path root e) \<and> final_path root e \<in> S"
    and "retimed S fs0 (osFs w)"
  shows "osSuper w1 = osSuper w \<and> retimed S fs0 (osFs w1) \<and>
    (\<forall>p. \<not> frError (result_of rs1 p) \<longrightarrow> result_of rs1 p = result_of rs p)"
  using assms
proof (induction es arbitrary: rs w)
  case (Cons e es)
  let ?p = "final_path root e"
  have e: "safe_segs ?p" "no_links_to fs0 ?p" "?p \<in> S"
    using Cons.prems(2) [of e] by (simp_all add: good_place_def final_path_def)
  have inv: "retimed S fs0 (snd (Chtimes ?p (mMtime e) fs))" if I: "retimed S fs0 fs" for fs
  proof -
    have "no_links_to fs ?p" using e(2) retimed_no_links [OF I] by simp
    then have "lookup_path fs ?p True = Inr q \<Longrightarrow> q = ?p" for q by (rule no_links_lookup [OF e(1)])
    then have "snd (Chtimes ?p (mMtime e) fs) = fs \<or>
        (\<exists>y. get fs ?p = Some y \<and> snd (Chtimes ?p (mMtime e) fs) = put ?p (set_attrs (\<lambda>a. a\<lparr>atMtime := mMtime e\<rparr>) y) fs)"
      by (auto simp: Chtimes_def change_attrs_def split: sum.splits option.splits)
    then show ?thesis using I retimed_trans_one [OF I e(3)] by auto
  qed
  obtain r2 w2 where m: "retryIO (os_call (Chtimes ?p (mMtime e))) w = (r2, w2)" by fastforce
  note timed = retry_call_inv(1,2) [of "retimed S fs0", OF inv m Cons.prems(3)]
  let ?rs = "case r2 of Inl err \<Rightarrow> put (mPath e) ((result_of rs (mPath e))\<lparr>frError := True\<rparr>) rs | Inr u \<Rightarrow> rs"
  have "apply_times root es ?rs w2 = (rs1, w1)" using Cons.prems(1) m by (cases r2) simp_all
  from Cons.IH [OF this Cons.prems(2) timed(2)]
  have IH: "osSuper w1 = osSuper w2" "retimed S fs0 (osFs w1)"
    "\<And>p. \<not> frError (result_of rs1 p) \<Longrightarrow> result_of rs1 p = result_of ?rs p" by auto
  have "result_of ?rs p = result_of rs p" if "\<not> frError (result_of ?rs p)" for p
    using that by (cases r2) (auto simp: result_of_def update_conv' split: if_splits)
  then show ?case using IH timed(1) by auto
qed auto

end
