(* ===== verification/Calendar.thy ===== *)
theory Calendar
  imports Prelude Go_Strings
begin

text \<open>
  The part of Go's \<open>time\<close> package that the usage quotas rest on: the proleptic Gregorian calendar in
  UTC, \<open>Date\<close> with its normalisation, \<open>Weekday\<close>, and formatting and parsing of dates in the layout
  \<open>2006-01-02\<close>. Days are counted from 1 January of year 1, Go's zero time and a Monday.
\<close>

subsection \<open>Years and months\<close>

definition leap :: "nat \<Rightarrow> bool" where
  "leap y \<longleftrightarrow> y mod 4 = 0 \<and> (y mod 100 \<noteq> 0 \<or> y mod 400 = 0)"

definition ydays :: "nat \<Rightarrow> nat" where
  "ydays y = (if leap y then 366 else 365)"

definition month_lens :: "nat \<Rightarrow> nat list" where
  "month_lens y = [31, if leap y then 29 else 28, 31, 30, 31, 30, 31, 31, 30, 31, 30, 31]"

text \<open>The day number of 1 January; year 0 is a leap year that ends the day before day 0.\<close>

definition year_start :: "nat \<Rightarrow> int" where
  "year_start y = (let k = int y - 1 in 365 * k + k div 4 - k div 100 + k div 400)"

function year_walk :: "nat \<Rightarrow> nat \<Rightarrow> nat \<times> nat" where
  "year_walk y n = (if n < ydays y then (y, n) else year_walk (Suc y) (n - ydays y))"
  by pat_completeness auto

termination year_walk
  by (relation "measure snd") (auto simp: ydays_def)

declare year_walk.simps [simp del]

fun month_walk :: "nat list \<Rightarrow> nat \<Rightarrow> nat \<Rightarrow> nat \<times> nat" where
  "month_walk [] m n = (m, Suc n)"
| "month_walk (l # ls) m n = (if n < l then (m, Suc n) else month_walk ls (Suc m) (n - l))"

definition days_per_400 :: nat where
  "days_per_400 = 146097"

definition civil :: "nat \<Rightarrow> nat \<times> nat \<times> nat" where
  "civil n =
     (case year_walk 1 (n mod days_per_400) of
        (y, r) \<Rightarrow> (case month_walk (month_lens y) 1 r of (m, d) \<Rightarrow> (400 * (n div days_per_400) + y, m, d)))"

lemma civil_code [code]:
  "civil n =
     (case year_walk 1 (nat (int n mod 146097)) of
        (y, r) \<Rightarrow> (case month_walk (month_lens y) 1 r of (m, d) \<Rightarrow> (400 * nat (int n div 146097) + y, m, d)))"
  by (simp add: civil_def days_per_400_def nat_div_distrib nat_mod_distrib)

text \<open>\<open>Date\<close> normalises the month, counted from 1, and any day.\<close>

definition month_start :: "nat \<Rightarrow> nat \<Rightarrow> int" where
  "month_start y m =
     (let y' = y + (m - 1) div 12; m' = (m - 1) mod 12
      in year_start y' + int (sum_list (take m' (month_lens y'))))"

definition time_Date :: "nat \<Rightarrow> nat \<Rightarrow> int \<Rightarrow> int" where
  "time_Date y m d = month_start y m + d - 1"

definition Weekday :: "nat \<Rightarrow> nat" where
  "Weekday n = (n + 1) mod 7"

definition valid_date :: "nat \<Rightarrow> nat \<Rightarrow> nat \<Rightarrow> bool" where
  "valid_date y m d \<longleftrightarrow> 1 \<le> m \<and> m \<le> 12 \<and> 1 \<le> d \<and> d \<le> month_lens y ! (m - 1)"

subsection \<open>Reading a day number\<close>

lemma length_month_lens [simp]: "length (month_lens y) = 12"
  by (simp add: month_lens_def)

lemma sum_month_lens: "sum_list (month_lens y) = ydays y"
  by (simp add: month_lens_def ydays_def)

lemma ydays_pos [simp]: "0 < ydays y"
  by (simp add: ydays_def)

lemma leap_400 [simp]: "leap (400 * q + y) \<longleftrightarrow> leap y"
proof -
  have "(400 * q + y) mod 4 = y mod 4" "(400 * q + y) mod 100 = y mod 100" "(400 * q + y) mod 400 = y mod 400"
    using mod_mult_self4 [of 4 "100 * q" y] mod_mult_self4 [of 100 "4 * q" y] by simp_all
  then show ?thesis by (simp add: leap_def)
qed

lemma period_400 [simp]: "ydays (400 * q + y) = ydays y" "month_lens (400 * q + y) = month_lens y"
  by (simp_all add: ydays_def month_lens_def)

lemma year_start_400: "year_start (400 * q + y) = int (days_per_400 * q) + year_start y"
proof -
  have "(int (400 * q + y) - 1) div 4 = 100 * int q + (int y - 1) div 4"
    "(int (400 * q + y) - 1) div 100 = 4 * int q + (int y - 1) div 100"
    "(int (400 * q + y) - 1) div 400 = int q + (int y - 1) div 400"
    using div_mult_self4 [of 4 "100 * int q" "int y - 1"] div_mult_self4 [of 100 "4 * int q" "int y - 1"]
      div_mult_self4 [of 400 "int q" "int y - 1"] by (simp_all add: algebra_simps)
  then show ?thesis by (simp add: year_start_def Let_def days_per_400_def)
qed

lemma div_next: "0 < k \<Longrightarrow> (int y) div int k = (int y - 1) div int k + (if y mod k = 0 then 1 else 0)"
proof -
  assume k: "0 < k"
  show ?thesis
  proof (cases y)
    case 0
    then show ?thesis using k by (simp add: zdiv_eq_0_iff [symmetric] div_eq_minus1)
  next
    case (Suc x)
    have "int (Suc x div k) = int (x div k) + (if Suc x mod k = 0 then 1 else 0)"
      by (simp add: div_Suc)
    then show ?thesis using Suc by (simp add: zdiv_int)
  qed
qed

lemma leap_days:
  fixes a b c k :: int
  assumes "q \<Longrightarrow> p" and "r \<Longrightarrow> q"
  shows "365 * k + (a + (if p then 1 else 0)) - (b + (if q then 1 else 0)) + (c + (if r then 1 else 0)) =
    365 * (k - 1) + a - b + c + int (if p \<and> (\<not> q \<or> r) then 366 else 365)"
  using assms by (cases p; cases q; cases r) simp_all

lemma year_start_Suc: "year_start (Suc y) = year_start y + int (ydays y)"
proof -
  have d4: "int y div 4 = (int y - 1) div 4 + (if y mod 4 = 0 then 1 else 0)"
    and d100: "int y div 100 = (int y - 1) div 100 + (if y mod 100 = 0 then 1 else 0)"
    and d400: "int y div 400 = (int y - 1) div 400 + (if y mod 400 = 0 then 1 else 0)"
    using div_next [of 4 y] div_next [of 100 y] div_next [of 400 y] by (simp_all only: of_nat_numeral)
  have imp: "y mod 100 = 0 \<Longrightarrow> y mod 4 = 0" "y mod 400 = 0 \<Longrightarrow> y mod 100 = 0"
    using dvd_trans [of 4 100 y] dvd_trans [of 100 400 y] by (simp_all add: dvd_eq_mod_eq_0)
  have now: "year_start y = 365 * (int y - 1) + (int y - 1) div 4 - (int y - 1) div 100 + (int y - 1) div 400"
    by (simp add: year_start_def Let_def)
  have "year_start (Suc y) = 365 * int y + int y div 4 - int y div 100 + int y div 400"
    by (simp add: year_start_def Let_def)
  also have "\<dots> = year_start y + int (ydays y)"
    unfolding now d4 d100 d400 ydays_def leap_def
    using imp by (rule leap_days)
  finally show ?thesis .
qed

lemma year_start_mono: "y \<le> y' \<Longrightarrow> year_start y \<le> year_start y'"
  by (induction y' rule: dec_induct) (auto simp: year_start_Suc)

lemma year_start_1 [simp]: "year_start (Suc 0) = 0"
  by (simp add: year_start_def)

lemma year_walk_spec:
  "year_walk y n = (y', r) \<Longrightarrow> y \<le> y' \<and> r < ydays y' \<and> year_start y' + int r = year_start y + int n"
proof (induction y n rule: year_walk.induct)
  case (1 y n)
  show ?case
  proof (cases "n < ydays y")
    case True
    then show ?thesis using 1(2) by (simp add: year_walk.simps)
  next
    case False
    then show ?thesis
      using 1(1) [OF False] 1(2) by (simp add: year_walk.simps [of y n] year_start_Suc)
  qed
qed

lemma year_unique:
  assumes "year_start y + int r = year_start y' + int r'" and "r < ydays y" and "r' < ydays y'"
  shows "y = y' \<and> r = r'"
proof -
  have "\<not> a < b" if "year_start a + int s = year_start b + int s'" "s < ydays a" for a b s s'
    using that year_start_mono [of "Suc a" b] by (auto simp: year_start_Suc)
  from this [of y r y' r'] this [of y' r' y r] assms show ?thesis by force
qed

lemma month_walk_spec:
  "n < sum_list ls \<Longrightarrow> month_walk ls m n = (m', d) \<Longrightarrow>
     m \<le> m' \<and> m' - m < length ls \<and> 1 \<le> d \<and> d \<le> ls ! (m' - m) \<and> n = sum_list (take (m' - m) ls) + d - 1"
proof (induction ls arbitrary: m n)
  case (Cons l ls)
  show ?case
  proof (cases "n < l")
    case True
    then show ?thesis using Cons.prems by auto
  next
    case False
    then have "Suc m \<le> m' \<and> m' - Suc m < length ls \<and> 1 \<le> d \<and> d \<le> ls ! (m' - Suc m) \<and>
        n - l = sum_list (take (m' - Suc m) ls) + d - 1"
      using Cons.IH [of "n - l" "Suc m"] Cons.prems by auto
    moreover have "m' - m = Suc (m' - Suc m)" using calculation by linarith
    ultimately show ?thesis using False by auto
  qed
qed simp

lemma month_unique:
  fixes ls :: "nat list"
  assumes "sum_list (take i ls) + d = sum_list (take j ls) + e" and "i < length ls" and "j < length ls"
    and "d < ls ! i" and "e < ls ! j"
  shows "i = j \<and> d = e"
proof -
  have mono: "sum_list (take a ls) \<le> sum_list (take b ls)" if "a \<le> b" for a b
    using that by (metis le_add1 le_iff_add sum_list_append take_add)
  have "\<not> a < b" if "sum_list (take a ls) + x = sum_list (take b ls) + y" "a < length ls" "x < ls ! a" for a b x y
    using that mono [of "Suc a" b] by (auto simp: take_Suc_conv_app_nth)
  from this [of i d j e] this [of j e i d] assms show ?thesis by force
qed

lemma month_start_valid:
  "valid_date y m d \<Longrightarrow> month_start y m = year_start y + int (sum_list (take (m - 1) (month_lens y)))"
  by (auto simp: month_start_def valid_date_def Let_def)

lemma civil_spec:
  assumes "civil n = (y, m, d)"
  shows "valid_date y m d \<and> time_Date y m (int d) = int n"
proof -
  let ?q = "n div days_per_400" and ?n = "n mod days_per_400"
  obtain y0 r where yr: "year_walk 1 ?n = (y0, r)" by fastforce
  obtain m0 d0 where md: "month_walk (month_lens y0) 1 r = (m0, d0)" by fastforce
  have eq: "y = 400 * ?q + y0" "m = m0" "d = d0"
    using assms yr md by (simp_all add: civil_def)
  have y: "r < ydays y0" "year_start y0 + int r = int ?n"
    using year_walk_spec [OF yr] by simp_all
  have "1 \<le> m0 \<and> m0 - 1 < 12 \<and> 1 \<le> d0 \<and> d0 \<le> month_lens y0 ! (m0 - 1) \<and>
      r = sum_list (take (m0 - 1) (month_lens y0)) + d0 - 1"
    using month_walk_spec [OF _ md] y(1) by (simp add: sum_month_lens)
  then have v: "valid_date y m d" and r: "int r = int (sum_list (take (m - 1) (month_lens y))) + int d - 1"
    by (auto simp: valid_date_def eq)
  have "time_Date y m (int d) = int (days_per_400 * ?q) + int ?n"
    using r y(2) month_start_valid [OF v] by (simp add: time_Date_def eq(1) year_start_400)
  also have "\<dots> = int n"
    by (metis mult_div_mod_eq of_nat_add)
  finally show ?thesis using v by simp
qed

lemma date_unique:
  assumes "valid_date y m d" and "valid_date y' m' d'" and "time_Date y m (int d) = time_Date y' m' (int d')"
  shows "(y, m, d) = (y', m', d')"
proof -
  define s where "s = (\<lambda>y m d :: nat. sum_list (take (m - 1) (month_lens y)) + (d - 1))"
  have inside: "s y m d < ydays y" if "valid_date y m d" for y m d
  proof -
    have "m - 1 < length (month_lens y)" "d - 1 < month_lens y ! (m - 1)"
      using that by (auto simp: valid_date_def)
    then have "s y m d < sum_list (take (Suc (m - 1)) (month_lens y))"
      by (simp add: s_def take_Suc_conv_app_nth del: length_month_lens)
    also have "\<dots> \<le> sum_list (month_lens y)"
      by (metis append_take_drop_id le_add1 sum_list_append)
    finally show ?thesis by (simp add: sum_month_lens)
  qed
  have at: "time_Date y m (int d) = year_start y + int (s y m d)" if "valid_date y m d" for y m d
    using month_start_valid [OF that] that by (auto simp: time_Date_def s_def valid_date_def of_nat_diff)
  have same: "y = y'" "s y m d = s y' m' d'"
    using year_unique [OF _ inside inside] assms at by simp_all
  have "m - 1 = m' - 1 \<and> d - 1 = d' - 1"
    using same assms(1,2) by (intro month_unique [of _ "month_lens y"]) (auto simp: s_def valid_date_def)
  then show ?thesis
    using same assms(1,2) by (auto simp: valid_date_def)
qed

lemma civil_Date:
  assumes "valid_date y m d" and "time_Date y m (int d) = int n"
  shows "civil n = (y, m, d)"
proof (cases "civil n")
  case (fields y' m' d')
  then show ?thesis
    using date_unique [OF assms(1), of y' m' d'] civil_spec [OF fields] assms(2) by simp
qed

lemma civil_fields: "civil n = (y, m, d) \<Longrightarrow> 1 \<le> m \<and> m \<le> 12 \<and> 1 \<le> d \<and> d \<le> month_lens y ! (m - 1)"
  using civil_spec by (simp add: valid_date_def)

lemma month_lens_pos: "i < 12 \<Longrightarrow> 1 \<le> month_lens y ! i"
proof -
  have "\<forall>l \<in> set (month_lens y). 1 \<le> l" by (simp add: month_lens_def)
  then show "i < 12 \<Longrightarrow> 1 \<le> month_lens y ! i" by (simp add: nth_mem)
qed

lemma month_start_Suc:
  assumes "1 \<le> m" and "m \<le> 12"
  shows "month_start y (Suc m) = month_start y m + int (month_lens y ! (m - 1))"
proof (cases "m = 12")
  case False
  then have "m - 1 < length (month_lens y)" "m < 12" using assms by simp_all
  then show ?thesis
    using take_Suc_conv_app_nth [of "m - 1" "month_lens y"] assms by (simp add: month_start_def Let_def)
next
  case True
  have "sum_list (month_lens y) = sum_list (take 11 (month_lens y)) + month_lens y ! 11"
    by (simp add: month_lens_def)
  then show ?thesis
    using True by (simp add: month_start_def Let_def year_start_Suc flip: sum_month_lens)
qed

text \<open>The first of a month, and of the month after it, are themselves first days of a month.\<close>

lemma month_start_normal:
  assumes "1 \<le> m" and "m \<le> 13"
  shows "\<exists>y' m'. month_start y m = month_start y' m' \<and> valid_date y' m' 1"
proof (cases "m = 13")
  case True
  then have "month_start y m = month_start (Suc y) 1" by (simp add: month_start_def Let_def)
  moreover have "valid_date (Suc y) 1 1"
    using month_lens_pos [of 0 "Suc y"] by (simp add: valid_date_def)
  ultimately show ?thesis by blast
next
  case False
  then have "valid_date y m 1"
    using assms month_lens_pos [of "m - 1" y] by (simp add: valid_date_def)
  then show ?thesis by blast
qed

lemma month_start_nonneg: "1 \<le> y \<Longrightarrow> 0 \<le> month_start y m"
  using year_start_mono [of 1 "y + (m - 1) div 12"] by (simp add: month_start_def Let_def)

lemma civil_year: "civil n = (y, m, d) \<Longrightarrow> 1 \<le> y"
  using year_walk_spec [of 1 "n mod days_per_400"] by (fastforce simp: civil_def split: prod.splits)

subsection \<open>Dates as text\<close>

definition pad :: "nat \<Rightarrow> nat \<Rightarrow> string" where
  "pad w n = replicate (w - length (decimal n)) (CHR ''0'') @ decimal n"

definition date_Format :: "nat \<Rightarrow> string" where
  "date_Format n = (case civil n of (y, m, d) \<Rightarrow> pad 4 y @ ''-'' @ pad 2 m @ ''-'' @ pad 2 d)"

text \<open>The day number of a date, \<open>None\<close> for any parse error.\<close>

definition date_Parse :: "string \<Rightarrow> int option" where
  "date_Parse s =
     (let ys = take 4 s; ms = take 2 (drop 5 s); ds = drop 8 s
      in if length s = 10 \<and> s ! 4 = CHR ''-'' \<and> s ! 7 = CHR ''-'' \<and> list_all is_digit (ys @ ms @ ds) \<and>
            valid_date (decimal_val ys) (decimal_val ms) (decimal_val ds)
         then Some (time_Date (decimal_val ys) (decimal_val ms) (int (decimal_val ds)))
         else None)"

lemma decimal_length: "n < 10 ^ w \<Longrightarrow> 0 < w \<Longrightarrow> length (decimal n) \<le> w"
proof (induction w arbitrary: n)
  case (Suc w)
  show ?case
  proof (cases "n < 10")
    case True
    then show ?thesis by (subst decimal.simps) simp
  next
    case False
    then have "0 < w" using Suc.prems by (cases w) auto
    moreover have "n div 10 < 10 ^ w" using Suc.prems(1) by (simp add: less_mult_imp_div_less mult.commute)
    ultimately show ?thesis using False Suc.IH [of "n div 10"] by (subst decimal.simps) simp
  qed
qed simp

lemma pad_facts:
  assumes "n < 10 ^ w" and "0 < w"
  shows "length (pad w n) = w" "list_all is_digit (pad w n)" "decimal_val (pad w n) = n"
proof -
  show "length (pad w n) = w" using decimal_length [OF assms] by (simp add: pad_def)
  show "list_all is_digit (pad w n)" 
    using decimal_digits [of n] by (auto simp: pad_def list_all_iff is_digit_def)
  have "fold (\<lambda>c n. 10 * n + digit_val c) (replicate k (CHR ''0'')) 0 = 0" for k
    by (induction k) (simp_all add: digit_val_def)
  then show "decimal_val (pad w n) = n"
    using decimal_val_decimal [of n] by (simp add: pad_def decimal_val_def)
qed

lemma month_lens_le: "i < 12 \<Longrightarrow> month_lens y ! i \<le> 31"
proof -
  have "\<forall>l \<in> set (month_lens y). l \<le> 31" by (simp add: month_lens_def)
  then show "i < 12 \<Longrightarrow> month_lens y ! i \<le> 31" by (simp add: nth_mem)
qed

text \<open>Up to the year 9999 a formatted date parses back to its day.\<close>

lemma Parse_Format:
  assumes "civil n = (y, m, d)" and "y < 10000"
  shows "date_Parse (date_Format n) = Some (int n)"
proof -
  have v: "valid_date y m d" and at: "time_Date y m (int d) = int n"
    using civil_spec [OF assms(1)] by simp_all
  have m: "m < 10 ^ 2" and d: "d < 10 ^ 2" and y: "y < 10 ^ 4"
    using v month_lens_le [of "m - 1" y] assms(2) by (simp_all add: valid_date_def) linarith
  obtain Y M D where s: "pad 4 y = Y" "pad 2 m = M" "pad 2 d = D" by blast
  have len: "length Y = 4" "length M = 2" "length D = 2"
    using pad_facts(1) [OF y] pad_facts(1) [OF m] pad_facts(1) [OF d] s by simp_all
  have digits: "list_all is_digit Y" "list_all is_digit M" "list_all is_digit D"
    using pad_facts(2) [OF y] pad_facts(2) [OF m] pad_facts(2) [OF d] s by simp_all
  have vals: "decimal_val Y = y" "decimal_val M = m" "decimal_val D = d"
    using pad_facts(3) [OF y] pad_facts(3) [OF m] pad_facts(3) [OF d] s by simp_all
  have form: "date_Format n = Y @ CHR ''-'' # M @ CHR ''-'' # D"
    using assms(1) s by (simp add: date_Format_def)
  have "take 4 (date_Format n) = Y" "take 2 (drop 5 (date_Format n)) = M" "drop 8 (date_Format n) = D"
    "date_Format n ! 4 = CHR ''-''" "date_Format n ! 7 = CHR ''-''" "length (date_Format n) = 10"
    using len by (simp_all add: form nth_append)
  then show ?thesis
    using digits vals v at by (simp add: date_Parse_def Let_def)
qed

end
