(* ===== verification/Authz.thy ===== *)
theory Authz
  imports Calendar
begin

text \<open>
  The API-key gate of \<^verbatim>\<open>src/authz\<close>: the usage buffer and its flusher (\<open>usage.go\<close>), the freshness
  clock (\<open>freshness.go\<close>), the decision on a request (\<open>authorizer.go\<close>) and its HTTP answers
  (\<open>server.go\<close>), over the custom resources of
  \<^verbatim>\<open>src/console-api/api/v1alpha1/apigateway_types.go\<close>.

  The informer cache is the argument \<open>rd\<close>, the token buckets of \<open>golang.org/x/time/rate\<close> the argument
  \<open>lim\<close> and SHA-256 (as hex text) the argument \<open>H\<close>. What the API server answers to a read or a write
  is an argument too, so that every interference of another replica is covered.
\<close>

subsection \<open>The custom resources\<close>

record ApiKey =
  akDisplayName :: string
  akPlan :: string
  akEnabled :: "bool option"
  akApps :: "string list"
  akPrefix :: string
  akHashSHA256 :: string
  akExpiresAt :: "time option"

definition IsEnabled :: "ApiKey \<Rightarrow> bool" where
  "IsEnabled k \<longleftrightarrow> akEnabled k = None \<or> akEnabled k = Some True"

definition IsExpired :: "ApiKey \<Rightarrow> time \<Rightarrow> bool" where
  "IsExpired k now = (case akExpiresAt k of None \<Rightarrow> False | Some t \<Rightarrow> t < now)"

record PlanQuota =
  pqRequests :: int
  pqPeriod :: string

record UsagePlan =
  upRate :: int
  upBurst :: int
  upQuota :: "PlanQuota option"

record UsageRollup =
  urKeyPrefix :: string
  urDay :: string
  urAllowed :: int
  urDeniedRate :: int
  urDeniedQuota :: int

subsection \<open>The usage buffer\<close>

datatype Counter = CounterAllowed | CounterDeniedRate | CounterDeniedQuota

record usageKey =
  ukNamespace :: string
  ukPrefix :: string
  ukDay :: string

record usageCounts =
  ucAllowed :: int
  ucDeniedRate :: int
  ucDeniedQuota :: int

record UsageBuffer =
  ubCounts :: "(usageKey, usageCounts) gomap"
  ubFloors :: "(usageKey, int) gomap"

definition NewUsageBuffer :: UsageBuffer where
  "NewUsageBuffer = \<lparr>ubCounts = [], ubFloors = []\<rparr>"

definition no_counts :: usageCounts where
  "no_counts = \<lparr>ucAllowed = 0, ucDeniedRate = 0, ucDeniedQuota = 0\<rparr>"

fun bump :: "Counter \<Rightarrow> usageCounts \<Rightarrow> usageCounts" where
  "bump CounterAllowed c = c\<lparr>ucAllowed := ucAllowed c + 1\<rparr>"
| "bump CounterDeniedRate c = c\<lparr>ucDeniedRate := ucDeniedRate c + 1\<rparr>"
| "bump CounterDeniedQuota c = c\<lparr>ucDeniedQuota := ucDeniedQuota c + 1\<rparr>"

definition usage_Add :: "usageKey \<Rightarrow> Counter \<Rightarrow> UsageBuffer \<Rightarrow> UsageBuffer" where
  "usage_Add k counter b =
     (let c = (case get (ubCounts b) k of None \<Rightarrow> no_counts | Some c \<Rightarrow> c)
      in b\<lparr>ubCounts := put k (bump counter c) (ubCounts b)\<rparr>)"

definition day_ns :: duration where
  "day_ns = 24 * hour"

text \<open>Whether the day of a key parses and does not lie before an instant.\<close>

definition on_or_after :: "time \<Rightarrow> string \<Rightarrow> bool" where
  "on_or_after start day = (case date_Parse day of None \<Rightarrow> False | Some n \<Rightarrow> start \<le> n * day_ns)"

definition UnflushedAllowed :: "UsageBuffer \<Rightarrow> string \<Rightarrow> string \<Rightarrow> time \<Rightarrow> int" where
  "UnflushedAllowed b namespace prefix start =
     fold (\<lambda>(k, c) n. if ukNamespace k = namespace \<and> ukPrefix k = prefix \<and> on_or_after start (ukDay k)
                       then n + ucAllowed c else n) (ubCounts b) 0"

definition floorRetention :: duration where
  "floorRetention = 40 * 24 * hour"

definition pruneFloors :: "time \<Rightarrow> UsageBuffer \<Rightarrow> UsageBuffer" where
  "pruneFloors before b = b\<lparr>ubFloors := filter (\<lambda>(k, f). on_or_after before (ukDay k)) (ubFloors b)\<rparr>"

definition setFloor :: "usageKey \<Rightarrow> int \<Rightarrow> UsageBuffer \<Rightarrow> UsageBuffer" where
  "setFloor k n b =
     (if (case get (ubFloors b) k of None \<Rightarrow> 0 | Some f \<Rightarrow> f) < n then b\<lparr>ubFloors := put k n (ubFloors b)\<rparr> else b)"

definition AllowedFloors :: "UsageBuffer \<Rightarrow> string \<Rightarrow> string \<Rightarrow> time \<Rightarrow> (string, int) gomap" where
  "AllowedFloors b namespace prefix start =
     fold (\<lambda>(k, f) out. if ukNamespace k = namespace \<and> ukPrefix k = prefix \<and> on_or_after start (ukDay k)
                       then put (ukDay k) f out else out) (ubFloors b) []"

definition drain :: "UsageBuffer \<Rightarrow> UsageBuffer \<times> (usageKey, usageCounts) gomap" where
  "drain b = (b\<lparr>ubCounts := []\<rparr>, ubCounts b)"

definition add_counts :: "usageCounts \<Rightarrow> usageCounts \<Rightarrow> usageCounts" where
  "add_counts c d = \<lparr>ucAllowed = ucAllowed c + ucAllowed d, ucDeniedRate = ucDeniedRate c + ucDeniedRate d,
     ucDeniedQuota = ucDeniedQuota c + ucDeniedQuota d\<rparr>"

definition restore_one :: "usageKey \<times> usageCounts \<Rightarrow> UsageBuffer \<Rightarrow> UsageBuffer" where
  "restore_one kc b =
     (case kc of (k, c) \<Rightarrow>
        b\<lparr>ubCounts := put k (case get (ubCounts b) k of None \<Rightarrow> c | Some e \<Rightarrow> add_counts e c) (ubCounts b)\<rparr>)"

definition restore :: "(usageKey, usageCounts) gomap \<Rightarrow> UsageBuffer \<Rightarrow> UsageBuffer" where
  "restore counts b = fold restore_one counts b"

subsection \<open>The flusher\<close>

definition dayCompact :: "string \<Rightarrow> string" where
  "dayCompact day = filter (\<lambda>c. c \<noteq> CHR ''-'') day"

definition RollupName :: "string \<Rightarrow> string \<Rightarrow> string" where
  "RollupName prefix day = ''rollup-'' @ prefix @ ''-'' @ dayCompact day"

text \<open>What the API server answers to the read and to the write of one attempt.\<close>

datatype get_answer = GetMissing | GetFailed | Got UsageRollup

datatype write_answer = WriteOk | WriteRaced | WriteFailed

record attempt =
  atGet :: get_answer
  atWrite :: write_answer

definition fresh_rollup :: "usageKey \<Rightarrow> usageCounts \<Rightarrow> UsageRollup" where
  "fresh_rollup k c = \<lparr>urKeyPrefix = ukPrefix k, urDay = ukDay k, urAllowed = ucAllowed c,
     urDeniedRate = ucDeniedRate c, urDeniedQuota = ucDeniedQuota c\<rparr>"

definition add_to_rollup :: "usageCounts \<Rightarrow> UsageRollup \<Rightarrow> UsageRollup" where
  "add_to_rollup c r = r\<lparr>urAllowed := urAllowed r + ucAllowed c, urDeniedRate := urDeniedRate r + ucDeniedRate c,
     urDeniedQuota := urDeniedQuota r + ucDeniedQuota c\<rparr>"

text \<open>The accepted write is returned with the number of its attempt; \<open>None\<close> is an error.\<close>

fun flush_attempts ::
  "nat \<Rightarrow> (nat \<Rightarrow> attempt) \<Rightarrow> nat \<Rightarrow> usageKey \<Rightarrow> usageCounts \<Rightarrow> UsageBuffer \<Rightarrow> UsageBuffer \<times> (nat \<times> UsageRollup) option" where
  "flush_attempts 0 api i k c b = (b, None)"
| "flush_attempts (Suc left) api i k c b =
     (case atGet (api i) of
        GetMissing \<Rightarrow>
          (case atWrite (api i) of
             WriteOk \<Rightarrow> (setFloor k (urAllowed (fresh_rollup k c)) b, Some (i, fresh_rollup k c))
           | WriteRaced \<Rightarrow> flush_attempts left api (Suc i) k c b
           | WriteFailed \<Rightarrow> (b, None))
      | GetFailed \<Rightarrow> (b, None)
      | Got r \<Rightarrow>
          (case atWrite (api i) of
             WriteOk \<Rightarrow> (setFloor k (urAllowed (add_to_rollup c r)) b, Some (i, add_to_rollup c r))
           | WriteRaced \<Rightarrow> flush_attempts left api (Suc i) k c b
           | WriteFailed \<Rightarrow> (b, None)))"

definition flushOne :: "(nat \<Rightarrow> attempt) \<Rightarrow> usageKey \<Rightarrow> usageCounts \<Rightarrow> UsageBuffer \<Rightarrow> UsageBuffer \<times> (nat \<times> UsageRollup) option" where
  "flushOne api k c b = flush_attempts 5 api 0 k c b"

fun flush_all ::
  "(usageKey \<Rightarrow> nat \<Rightarrow> attempt) \<Rightarrow> (usageKey, usageCounts) gomap \<Rightarrow> UsageBuffer \<Rightarrow>
     UsageBuffer \<times> (usageKey, usageCounts) gomap \<times> (usageKey \<times> nat \<times> UsageRollup) list" where
  "flush_all api [] b = (b, [], [])"
| "flush_all api ((k, c) # kcs) b =
     (case flushOne (api k) k c b of
        (b1, None) \<Rightarrow> (case flush_all api kcs b1 of (b2, failed, wrote) \<Rightarrow> (b2, (k, c) # failed, wrote))
      | (b1, Some (i, r)) \<Rightarrow> (case flush_all api kcs b1 of (b2, failed, wrote) \<Rightarrow> (b2, failed, (k, i, r) # wrote)))"

text \<open>
  One flush: \<open>arrivals\<close> are the requests counted while it runs. The result names the rollups the API
  server accepted.
\<close>

definition Flush ::
  "time \<Rightarrow> (usageKey \<Rightarrow> nat \<Rightarrow> attempt) \<Rightarrow> (usageKey \<times> Counter) list \<Rightarrow> UsageBuffer \<Rightarrow>
     UsageBuffer \<times> (usageKey \<times> nat \<times> UsageRollup) list" where
  "Flush now api arrivals b =
     (case drain (pruneFloors (now - floorRetention) b) of
        (b1, counts) \<Rightarrow>
          let b2 = fold (\<lambda>(k, counter). usage_Add k counter) arrivals b1
          in if counts = [] then (b2, [])
             else case flush_all api counts b2 of
                    (b3, failed, wrote) \<Rightarrow> (if failed = [] then b3 else restore failed b3, wrote))"

subsection \<open>The freshness clock\<close>

record Freshness =
  fhStaleBound :: duration
  fhCanaries :: nat
  fhLastFresh :: time

text \<open>
  One probe: the value it stamps, whether each canary's write succeeded, and the rounds of polling, each
  with the clock before it, what the cache shows for each canary under this replica's annotation, and
  the clock after it.
\<close>

record poll_round =
  prStart :: time
  prSeen :: "nat \<Rightarrow> string option"
  prEnd :: time

record probe_run =
  pbValue :: string
  pbWrote :: "nat \<Rightarrow> bool"
  pbPollStart :: time
  pbRounds :: "poll_round list"

definition poll_window :: duration where
  "poll_window = 5 * second"

fun poll_rounds :: "nat \<Rightarrow> string \<Rightarrow> time \<Rightarrow> poll_round list \<Rightarrow> nat list \<Rightarrow> time option" where
  "poll_rounds n value deadline [] observed = None"
| "poll_rounds n value deadline (r # rs) observed =
     (if deadline \<le> prStart r then None
      else
        let now_seen = filter (\<lambda>i. i \<in> set observed \<or> prSeen r i = Some value) [0..<n]
        in if length now_seen = n then Some (prEnd r) else poll_rounds n value deadline rs now_seen)"

definition probe :: "probe_run \<Rightarrow> Freshness \<Rightarrow> Freshness" where
  "probe p f =
     (if list_ex (\<lambda>i. \<not> pbWrote p i) [0..<fhCanaries f] then f
      else case poll_rounds (fhCanaries f) (pbValue p) (pbPollStart p + poll_window) (pbRounds p) [] of
             None \<Rightarrow> f
           | Some t \<Rightarrow> f\<lparr>fhLastFresh := t\<rparr>)"

definition Fresh :: "bool \<Rightarrow> time \<Rightarrow> Freshness \<Rightarrow> bool" where
  "Fresh synced now f \<longleftrightarrow>
     synced \<and> fhLastFresh f \<noteq> zero_time \<and> time_Sub now (fhLastFresh f) < fhStaleBound f"

definition Freshness_Age :: "time \<Rightarrow> Freshness \<Rightarrow> duration option" where
  "Freshness_Age now f = (if fhLastFresh f = zero_time then None else Some (time_Sub now (fhLastFresh f)))"

subsection \<open>The decision\<close>

datatype Decision = DecisionAllow | DecisionDenyKey | DecisionDenyRate | DecisionDenyQuota | DecisionUnavailable

record Result =
  rsDecision :: Decision
  rsRetryAfter :: duration
  rsKeyPrefix :: string
  rsKeyName :: string

definition deny :: "Decision \<Rightarrow> Result" where
  "deny d = \<lparr>rsDecision = d, rsRetryAfter = 0, rsKeyPrefix = [], rsKeyName = []\<rparr>"

text \<open>The cached reads, with \<open>None\<close> for an error, and the operations of a token bucket.\<close>

record reader =
  rdKeys :: "string \<Rightarrow> string \<Rightarrow> ApiKey list option"
  rdPlan :: "string \<Rightarrow> string \<Rightarrow> UsagePlan option"
  rdRollups :: "string \<Rightarrow> string \<Rightarrow> UsageRollup list option"

record 'l limiter =
  lmNew :: "int \<Rightarrow> int \<Rightarrow> 'l"
  lmAllow :: "time \<Rightarrow> 'l \<Rightarrow> 'l \<times> bool"

record 'l rate_bucket =
  bkLimiter :: 'l
  bkRate :: int
  bkBurst :: int

record 'l Authorizer =
  azFreshness :: Freshness
  azUsage :: UsageBuffer
  azBuckets :: "(string, 'l rate_bucket) gomap"

definition keyPrefix :: "string \<Rightarrow> string option" where
  "keyPrefix rawKey =
     (case split_at (CHR ''_'') rawKey of
        kip # p # s # rest \<Rightarrow> if kip \<noteq> ''kip'' \<or> p = [] \<or> Join (s # rest) ''_'' = [] then None else Some p
      | _ \<Rightarrow> None)"

definition hex_char :: "char \<Rightarrow> bool" where
  "hex_char c \<longleftrightarrow> is_digit (lower_char c) \<or> (97 \<le> (of_char (lower_char c) :: nat) \<and> (of_char (lower_char c) :: nat) \<le> 102)"

text \<open>The stored digest may be in either case: \<open>hex.DecodeString\<close> reads both.\<close>

definition hashMatches :: "digest \<Rightarrow> string \<Rightarrow> string \<Rightarrow> bool" where
  "hashMatches H rawKey storedHex \<longleftrightarrow>
     list_all hex_char storedHex \<and> length storedHex = 64 \<and> ToLower storedHex = H rawKey"

definition keyCoversApp :: "ApiKey \<Rightarrow> string \<Rightarrow> bool" where
  "keyCoversApp k app \<longleftrightarrow> akApps k = [] \<or> app \<in> set (akApps k)"

definition takeToken ::
  "'l limiter \<Rightarrow> time \<Rightarrow> string \<Rightarrow> int \<Rightarrow> int \<Rightarrow> 'l Authorizer \<Rightarrow> 'l Authorizer \<times> bool" where
  "takeToken lim now key planRate planBurst a =
     (let fresh = \<lparr>bkLimiter = lmNew lim planRate planBurst, bkRate = planRate, bkBurst = planBurst\<rparr>;
          b = (case get (azBuckets a) key of
                 None \<Rightarrow> fresh
               | Some b \<Rightarrow> if bkRate b \<noteq> planRate \<or> bkBurst b \<noteq> planBurst then fresh else b)
      in case lmAllow lim now (bkLimiter b) of
           (l, ok) \<Rightarrow> (a\<lparr>azBuckets := put key (b\<lparr>bkLimiter := l\<rparr>) (azBuckets a)\<rparr>, ok))"

definition periodStart :: "time \<Rightarrow> string \<Rightarrow> time" where
  "periodStart now period =
     (let n = nat (now div day_ns)
      in case civil n of (y, m, d) \<Rightarrow>
           day_ns * (if period = ''week'' then time_Date y m (int d - int ((Weekday n + 6) mod 7))
                     else if period = ''month'' then time_Date y m 1
                     else time_Date y m (int d)))"

definition periodNext :: "time \<Rightarrow> string \<Rightarrow> time" where
  "periodNext now period =
     (case civil (nat (periodStart now period div day_ns)) of (y, m, d) \<Rightarrow>
        day_ns * (if period = ''week'' then time_Date y m (int d + 7)
                  else if period = ''month'' then time_Date y (Suc m) (int d)
                  else time_Date y m (int d + 1)))"

fun sum_rollups :: "time \<Rightarrow> UsageRollup list \<Rightarrow> (string, int) gomap \<Rightarrow> int \<Rightarrow> int \<times> (string, int) gomap" where
  "sum_rollups start [] floors acc = (acc, floors)"
| "sum_rollups start (r # rs) floors acc =
     (if \<not> on_or_after start (urDay r) then sum_rollups start rs floors acc
      else case get floors (urDay r) of
             None \<Rightarrow> sum_rollups start rs floors (acc + urAllowed r)
           | Some f \<Rightarrow> sum_rollups start rs (del (urDay r) floors) (acc + max f (urAllowed r)))"

definition periodUsage :: "reader \<Rightarrow> UsageBuffer \<Rightarrow> string \<Rightarrow> string \<Rightarrow> string \<Rightarrow> time \<Rightarrow> int option" where
  "periodUsage rd b namespace prefix period now =
     (case rdRollups rd namespace prefix of
        None \<Rightarrow> None
      | Some rollups \<Rightarrow>
          let start = periodStart now period
          in case sum_rollups start rollups (AllowedFloors b namespace prefix start) 0 of
               (acc, floors) \<Rightarrow>
                 Some (fold (\<lambda>(_, f) t. t + f) floors acc + UnflushedAllowed b namespace prefix start))"

text \<open>
  The clock is read three times: at \<open>t0\<close> by the freshness check, at \<open>now\<close> for the expiry, the day and
  the quota window, and at \<open>t1\<close> by the token bucket.
\<close>

definition Authorize ::
  "digest \<Rightarrow> 'l limiter \<Rightarrow> reader \<Rightarrow> bool \<Rightarrow> time \<Rightarrow> time \<Rightarrow> time \<Rightarrow> string \<Rightarrow> string \<Rightarrow> string \<Rightarrow> 'l Authorizer \<Rightarrow> 'l Authorizer \<times> Result" where
  "Authorize H lim rd synced t0 now t1 namespace app rawKey a =
     (if \<not> Fresh synced t0 (azFreshness a) then (a, deny DecisionUnavailable)
      else case keyPrefix rawKey of
        None \<Rightarrow> (a, deny DecisionDenyKey)
      | Some prefix \<Rightarrow>
          (case rdKeys rd namespace prefix of
             Some [key] \<Rightarrow>
               if \<not> hashMatches H rawKey (akHashSHA256 key) then (a, deny DecisionDenyKey)
               else if \<not> IsEnabled key \<or> IsExpired key now \<or> \<not> keyCoversApp key app then (a, deny DecisionDenyKey)
               else
                 (case rdPlan rd namespace (akPlan key) of
                    None \<Rightarrow> (a, deny DecisionDenyKey)
                  | Some plan \<Rightarrow>
                      let uk = \<lparr>ukNamespace = namespace, ukPrefix = prefix, ukDay = date_Format (nat (now div day_ns))\<rparr>;
                          count = (\<lambda>counter a. a\<lparr>azUsage := usage_Add uk counter (azUsage a)\<rparr>);
                          token =
                            (case takeToken lim t1 (namespace @ ''/'' @ prefix) (upRate plan) (upBurst plan) a of
                               (a1, False) \<Rightarrow> (count CounterDeniedRate a1, (deny DecisionDenyRate)\<lparr>rsRetryAfter := second\<rparr>)
                             | (a1, True) \<Rightarrow>
                                 (count CounterAllowed a1,
                                  \<lparr>rsDecision = DecisionAllow, rsRetryAfter = 0, rsKeyPrefix = prefix,
                                   rsKeyName = akDisplayName key\<rparr>))
                      in case upQuota plan of
                           None \<Rightarrow> token
                         | Some q \<Rightarrow>
                             (case periodUsage rd (azUsage a) namespace prefix (pqPeriod q) now of
                                None \<Rightarrow> (a, deny DecisionUnavailable)
                              | Some used \<Rightarrow>
                                  if pqRequests q \<le> used
                                  then (count CounterDeniedQuota a,
                                        (deny DecisionDenyQuota)\<lparr>rsRetryAfter := time_Sub (periodNext now (pqPeriod q)) now\<rparr>)
                                  else token))
           | _ \<Rightarrow> (a, deny DecisionDenyKey)))"

subsection \<open>The HTTP answers\<close>

record denial =
  dnStatus :: nat
  dnCode :: string
  dnRetryAfter :: "int option"

datatype answer = Admit "string option" "string option" | Refuse denial

definition writeDenial :: "nat \<Rightarrow> string \<Rightarrow> duration \<Rightarrow> answer" where
  "writeDenial status code retryAfter =
     Refuse \<lparr>dnStatus = status, dnCode = code,
       dnRetryAfter = (if 0 < retryAfter then Some (trunc_div (retryAfter + second - 1) second) else None)\<rparr>"

definition gateUnavailableRetry :: duration where
  "gateUnavailableRetry = 10 * second"

text \<open>Control characters of the UTF-8 text: below 32, 127, and 128 to 159 in their two-byte coding.\<close>

fun headerSafe :: "string \<Rightarrow> bool" where
  "headerSafe [] = True"
| "headerSafe (c # s) =
     ((of_char c :: nat) \<ge> 32 \<and> (of_char c :: nat) \<noteq> 127 \<and>
      (case s of [] \<Rightarrow> True
       | d # _ \<Rightarrow> \<not> ((of_char c :: nat) = 194 \<and> 128 \<le> (of_char d :: nat) \<and> (of_char d :: nat) \<le> 159)) \<and>
      headerSafe s)"

record gate_request =
  grNamespace :: string
  grApp :: string
  grMethod :: string \<comment> \<open>X-Forwarded-Method\<close>
  grRequestMethod :: string \<comment> \<open>Access-Control-Request-Method\<close>
  grKey :: string \<comment> \<open>X-API-Key\<close>
  grForwardedFor :: "string list" \<comment> \<open>the X-Forwarded-For lines\<close>
  grRemoteAddr :: string

definition handleAuthorize ::
  "digest \<Rightarrow> 'l limiter \<Rightarrow> reader \<Rightarrow> bool \<Rightarrow> time \<Rightarrow> time \<Rightarrow> time \<Rightarrow> gate_request \<Rightarrow> 'l Authorizer \<Rightarrow> 'l Authorizer \<times> answer" where
  "handleAuthorize H lim rd synced t0 now t1 r a =
     (if grNamespace r = [] \<or> grApp r = [] then (a, writeDenial 500 ''misconfigured'' 0)
      else if grMethod r = ''OPTIONS'' \<and> grRequestMethod r \<noteq> [] then (a, Admit None None)
      else case Authorize H lim rd synced t0 now t1 (grNamespace r) (grApp r) (grKey r) a of
        (a1, res) \<Rightarrow>
          (a1,
           case rsDecision res of
             DecisionAllow \<Rightarrow>
               Admit (Some (rsKeyPrefix res))
                 (if rsKeyName res \<noteq> [] \<and> headerSafe (rsKeyName res) then Some (rsKeyName res) else None)
           | DecisionDenyRate \<Rightarrow> writeDenial 429 ''rate_limited'' (rsRetryAfter res)
           | DecisionDenyQuota \<Rightarrow> writeDenial 429 ''quota_exhausted'' (rsRetryAfter res)
           | DecisionUnavailable \<Rightarrow> writeDenial 503 ''gate_unavailable'' gateUnavailableRetry
           | DecisionDenyKey \<Rightarrow> writeDenial 401 ''invalid_key'' 0))"

definition handleReady :: "bool \<Rightarrow> time \<Rightarrow> 'l Authorizer \<Rightarrow> nat" where
  "handleReady synced now a = (if Fresh synced now (azFreshness a) then 200 else 503)"

definition decisionLabel :: "Decision \<Rightarrow> string" where
  "decisionLabel d =
     (case d of DecisionAllow \<Rightarrow> ''allow'' | DecisionDenyKey \<Rightarrow> ''deny_key'' | DecisionDenyRate \<Rightarrow> ''deny_rate''
      | DecisionDenyQuota \<Rightarrow> ''deny_quota'' | DecisionUnavailable \<Rightarrow> ''unavailable'')"

subsection \<open>The forensics line\<close>

definition allowLogSample :: nat where "allowLogSample = 100"
definition maxLoggedPrefix :: nat where "maxLoggedPrefix = 16"
definition maxLoggedForwardedFor :: nat where "maxLoggedForwardedFor = 256"

definition clientIP :: "gate_request \<Rightarrow> string" where
  "clientIP r =
     (let xff = (case grForwardedFor r of [] \<Rightarrow> [] | h # _ \<Rightarrow> h)
      in if xff \<noteq> [] then TrimSpace (takeWhile (\<lambda>c. c \<noteq> CHR '','') xff)
         else case SplitHostPort (grRemoteAddr r) of None \<Rightarrow> grRemoteAddr r | Some (host, _) \<Rightarrow> host)"

definition forwardedChain :: "gate_request \<Rightarrow> string" where
  "forwardedChain r = take maxLoggedForwardedFor (Join (grForwardedFor r) '', '')"

record log_line =
  lgNamespace :: string
  lgApp :: string
  lgPrefix :: string
  lgReason :: string
  lgClientIP :: string
  lgForwardedFor :: "string option"
  lgWarn :: bool

text \<open>The counter of allows is an unsigned 64-bit integer.\<close>

definition logDecision :: "nat \<Rightarrow> gate_request \<Rightarrow> Decision \<Rightarrow> nat \<times> log_line option" where
  "logDecision allowSeen r d =
     (let seen = (if d = DecisionAllow then (allowSeen + 1) mod 2 ^ 64 else allowSeen);
          chain = forwardedChain r
      in if d = DecisionAllow \<and> seen mod allowLogSample \<noteq> 0 then (seen, None)
         else
           (seen, Some \<lparr>lgNamespace = grNamespace r, lgApp = grApp r,
              lgPrefix = (case keyPrefix (grKey r) of
                            None \<Rightarrow> ''invalid''
                          | Some p \<Rightarrow> if maxLoggedPrefix < length p then ''invalid'' else p),
              lgReason = decisionLabel d, lgClientIP = clientIP r,
              lgForwardedFor = (if chain = [] then None else Some chain), lgWarn = (d \<noteq> DecisionAllow)\<rparr>))"

end
