(* ===== verification/Authz_Quota.thy ===== *)
theory Authz_Quota
  imports Authz
begin

text \<open>
  The quota of a usage plan: the calendar windows it is counted over, and that a replica which is not
  in the middle of a flush admits no request beyond it.
\<close>

subsection \<open>Quota windows\<close>

lemma day_ns_pos [simp]: "0 < day_ns"
  by (simp add: day_ns_def duration_defs)

lemma day_ns_nonzero [simp]: "day_ns \<noteq> 0"
  using day_ns_pos by linarith

text \<open>The windows in day numbers.\<close>

definition start_day :: "string \<Rightarrow> nat \<Rightarrow> int" where
  "start_day period n =
     (if period = ''week'' then int n - int (n mod 7)
      else if period = ''month'' then (case civil n of (y, m, d) \<Rightarrow> month_start y m)
      else int n)"

definition next_day :: "string \<Rightarrow> nat \<Rightarrow> int" where
  "next_day period n =
     (if period = ''week'' then int n - int (n mod 7) + 7
      else if period = ''month'' then (case civil n of (y, m, d) \<Rightarrow> month_start y (Suc m))
      else int n + 1)"

lemma month_window:
  assumes "civil n = (y, m, d)"
  shows "month_start y m \<le> int n" "int n < month_start y (Suc m)" "0 \<le> month_start y m"
    "month_start y (Suc m) \<le> month_start y m + 31" "1 \<le> m" "m \<le> 12" "valid_date y m 1"
proof -
  have v: "valid_date y m d" and at: "month_start y m + int d - 1 = int n"
    using civil_spec [OF assms] by (simp_all add: time_Date_def)
  then show m: "1 \<le> m" "m \<le> 12" by (simp_all add: valid_date_def)
  have succ: "month_start y (Suc m) = month_start y m + int (month_lens y ! (m - 1))"
    using month_start_Suc [OF m] .
  show "month_start y m \<le> int n" "int n < month_start y (Suc m)"
    using v at succ by (simp_all add: valid_date_def)
  show "0 \<le> month_start y m"
    using month_start_nonneg [OF civil_year [OF assms]] .
  show "month_start y (Suc m) \<le> month_start y m + 31"
    using succ month_lens_le [of "m - 1" y] m by simp
  show "valid_date y m 1"
    using m month_lens_pos [of "m - 1" y] by (simp add: valid_date_def)
qed

lemma civil_first:
  assumes "valid_date y m 1" and "month_start y m = int k"
  shows "civil k = (y, m, 1)"
  using civil_Date [OF assms(1)] assms(2) by (simp add: time_Date_def)

text \<open>Every day of a month window has the same year and month.\<close>

lemma civil_same_month:
  assumes "valid_date y m 1" and "month_start y m \<le> int k" and "int k < month_start y (Suc m)"
  shows "civil k = (y, m, nat (int k - month_start y m) + 1)"
proof -
  have m: "1 \<le> m" "m \<le> 12" using assms(1) by (simp_all add: valid_date_def)
  have "valid_date y m (nat (int k - month_start y m) + 1)"
    using assms month_start_Suc [OF m, of y] by (auto simp: valid_date_def)
  moreover have "time_Date y m (int (nat (int k - month_start y m) + 1)) = int k"
    using assms(2) by (simp add: time_Date_def)
  ultimately show ?thesis by (rule civil_Date)
qed

lemma week_floor: "int n - int (n mod 7) = 7 * int (n div 7)"
  using div_mult_mod_eq [of n 7] by linarith

lemma window_days:
  shows "0 \<le> start_day p n" "start_day p n \<le> int n" "int n < next_day p n" "next_day p n \<le> start_day p n + 31"
proof -
  obtain y m d where c: "civil n = (y, m, d)" by (cases "civil n")
  note w = month_window [OF c]
  have "int (n mod 7) \<le> int n" "int (n mod 7) < 7" by simp_all
  then show "0 \<le> start_day p n" "start_day p n \<le> int n" "int n < next_day p n" "next_day p n \<le> start_day p n + 31"
    using w c by (simp_all add: start_day_def next_day_def)
qed

lemma same_window:
  assumes "start_day p n \<le> int k" and "int k < next_day p n"
  shows "start_day p k = start_day p n"
proof -
  obtain y m d where c: "civil n = (y, m, d)" by (cases "civil n")
  consider "p = ''week''" | "p = ''month''" | "p \<noteq> ''week''" "p \<noteq> ''month''" by blast
  then show ?thesis
  proof cases
    case 1
    then have "7 * int (n div 7) \<le> int k" "int k < 7 * int (n div 7) + 7"
      using assms by (simp_all add: start_day_def next_day_def week_floor)
    then have "k div 7 = n div 7" by linarith
    then show ?thesis using 1 by (simp add: start_day_def week_floor)
  next
    case 2
    then have "civil k = (y, m, nat (int k - month_start y m) + 1)"
      using assms c by (intro civil_same_month month_window(7) [OF c]) (simp_all add: start_day_def next_day_def)
    then show ?thesis using 2 c by (simp add: start_day_def)
  next
    case 3
    then show ?thesis using assms by (simp add: start_day_def next_day_def)
  qed
qed

lemma next_window: "start_day p (nat (next_day p n)) = next_day p n"
proof -
  obtain y m d where c: "civil n = (y, m, d)" by (cases "civil n")
  consider "p = ''week''" | "p = ''month''" | "p \<noteq> ''week''" "p \<noteq> ''month''" by blast
  then show ?thesis
  proof cases
    case 1
    have "next_day p n = int (7 * (n div 7 + 1))"
      using 1 by (simp add: next_day_def week_floor)
    moreover have "start_day p (7 * (n div 7 + 1)) = int (7 * (n div 7 + 1))"
      using 1 by (simp add: start_day_def)
    ultimately show ?thesis by (simp only: nat_int)
  next
    case 2
    note w = month_window [OF c]
    obtain y' m' where y': "month_start y (Suc m) = month_start y' m'" "valid_date y' m' 1"
      using month_start_normal [of "Suc m" y] w(5,6) by auto
    have "civil (nat (month_start y (Suc m))) = (y', m', 1)"
      using y' w by (intro civil_first) simp_all
    then show ?thesis using 2 c y' by (simp add: start_day_def next_day_def)
  next
    case 3
    then show ?thesis by (simp add: start_day_def next_day_def)
  qed
qed

lemma Monday: "(Weekday n + 6) mod 7 = n mod 7"
proof -
  have "((n + 1) mod 7 + 6) mod 7 = (n + 1 + 6) mod 7" by (rule mod_add_left_eq)
  then show ?thesis by (simp add: Weekday_def)
qed

lemma periodStart_days: "periodStart now p = day_ns * start_day p (nat (now div day_ns))"
proof -
  obtain y m d where c: "civil (nat (now div day_ns)) = (y, m, d)" by (cases "civil (nat (now div day_ns))")
  then have "month_start y m + int d - 1 = int (nat (now div day_ns))"
    using civil_spec [OF c] by (simp add: time_Date_def)
  then show ?thesis
    using c by (simp add: periodStart_def start_day_def Let_def time_Date_def Monday)
qed

lemma periodNext_days: "periodNext now p = day_ns * next_day p (nat (now div day_ns))"
proof -
  define n where "n = nat (now div day_ns)"
  define s where "s = nat (start_day p n)"
  have s: "int s = start_day p n" using window_days [where p = p and n = n] by (simp add: s_def)
  have here: "periodStart now p div day_ns = int s"
    using s by (simp add: periodStart_days n_def)
  obtain y m d where c: "civil n = (y, m, d)" by (cases "civil n")
  obtain y' m' d' where c': "civil s = (y', m', d')" by (cases "civil s")
  have at: "month_start y' m' + int d' - 1 = int s"
    using civil_spec [OF c'] by (simp add: time_Date_def)
  have month: "(y', m', d') = (y, m, 1)" if "p = ''month''"
    using that s c c' civil_first [OF month_window(7) [OF c], of s] by (simp add: start_day_def)
  have "periodNext now p = day_ns * (if p = ''week'' then int s + 7
      else if p = ''month'' then time_Date y' (Suc m') (int d') else int s + 1)"
    using at by (simp add: periodNext_def here c' time_Date_def)
  also have "\<dots> = day_ns * next_day p n"
    using s c month by (simp add: next_day_def start_day_def time_Date_def)
  finally show ?thesis by (simp add: n_def)
qed

text \<open>
  C14. The quota windows are the calendar days, the weeks from Monday and the calendar months: an
  instant lies in its window, every instant of the window has the same start, and where a window ends
  the next begins. A quota denial is honest about it: the window is the one the usage was summed over,
  it is at most 31 days long, and the seconds of \<open>Retry-After\<close> reach the next window and not a second
  more.
\<close>

theorem quota_window_exact:
  assumes "0 \<le> now"
  shows "periodStart now p \<le> now \<and> now < periodNext now p \<and>
    (\<forall>t. periodStart now p \<le> t \<and> t < periodNext now p \<longrightarrow> periodStart t p = periodStart now p) \<and>
    periodStart (periodNext now p) p = periodNext now p \<and>
    periodNext now p \<le> periodStart now p + 31 * day_ns \<and>
    (\<exists>s. writeDenial 429 ''quota_exhausted'' (time_Sub (periodNext now p) now) =
         Refuse \<lparr>dnStatus = 429, dnCode = ''quota_exhausted'', dnRetryAfter = Some s\<rparr> \<and>
       periodNext now p \<le> now + s * second \<and> now + (s - 1) * second < periodNext now p)"
proof -
  define n where "n = nat (now div day_ns)"
  have n: "int n = now div day_ns" using assms by (simp add: n_def pos_imp_zdiv_nonneg_iff)
  note w = window_days [where p = p and n = n]
  have ps: "periodStart now p = day_ns * start_day p n" and pn: "periodNext now p = day_ns * next_day p n"
    by (simp_all add: periodStart_days periodNext_days n_def)
  have low: "day_ns * int n \<le> now" and high: "now < day_ns * (int n + 1)"
  proof -
    have "now = day_ns * int n + now mod day_ns" by (simp add: n)
    moreover have "0 \<le> now mod day_ns" "now mod day_ns < day_ns" by simp_all
    ultimately show "day_ns * int n \<le> now" "now < day_ns * (int n + 1)" unfolding distrib_left by linarith+
  qed
  have le: "day_ns * a \<le> day_ns * b \<longleftrightarrow> a \<le> b" and less: "day_ns * a < day_ns * b \<longleftrightarrow> a < b" for a b :: int
    by simp_all
  have 1: "periodStart now p \<le> now"
    using low w(2) le [of "start_day p n" "int n"] unfolding ps by linarith
  have 2: "now < periodNext now p"
    using high w(3) le [of "int n + 1" "next_day p n"] unfolding pn by linarith
  have 3: "periodStart t p = periodStart now p" if "periodStart now p \<le> t" "t < periodNext now p" for t
  proof -
    have "t = day_ns * (t div day_ns) + t mod day_ns" "0 \<le> t mod day_ns" by simp_all
    then have "day_ns * (t div day_ns) < day_ns * next_day p n"
      using that(2) unfolding pn by linarith
    then have "t div day_ns < next_day p n" by (simp only: less)
    moreover have "start_day p n \<le> t div day_ns"
      using zdiv_mono1 [OF that(1) day_ns_pos] by (simp add: ps)
    ultimately show ?thesis
      using w(1) same_window [of p n "nat (t div day_ns)"] by (simp add: periodStart_days n_def)
  qed
  have 4: "periodStart (periodNext now p) p = periodNext now p"
    using next_window [of p n] by (simp add: periodStart_days pn)
  have 5: "periodNext now p \<le> periodStart now p + 31 * day_ns"
    using w(4) le [of "next_day p n" "start_day p n + 31"] by (simp add: ps pn algebra_simps)
  have sub: "time_Sub (periodNext now p) now = periodNext now p - now"
    using 1 2 5 by (simp add: time_Sub_def max_duration_def min_duration_def day_ns_def duration_defs)
  define dlt where "dlt = periodNext now p - now"
  define s where "s = (dlt + second - 1) div second"
  have "0 < dlt" using 2 by (simp add: dlt_def)
  moreover have "dlt \<le> s * second" "(s - 1) * second < dlt"
    using minus_mod_eq_div_mult [of "dlt + second - 1" second] pos_mod_bound [of second "dlt + second - 1"]
      pos_mod_sign [of second "dlt + second - 1"] by (simp_all add: s_def second_def left_diff_distrib)
  ultimately have 6: "writeDenial 429 ''quota_exhausted'' (time_Sub (periodNext now p) now) =
      Refuse \<lparr>dnStatus = 429, dnCode = ''quota_exhausted'', dnRetryAfter = Some s\<rparr>"
    "periodNext now p \<le> now + s * second" "now + (s - 1) * second < periodNext now p"
    by (simp_all add: sub writeDenial_def s_def dlt_def second_def)
  show ?thesis using 1 2 3 4 5 6 by blast
qed

lemma civil_2026: "civil 739674 = (2026, 2, 28)" "civil 739675 = (2026, 3, 1)"
  by (rule civil_Date; simp add: valid_date_def month_lens_def leap_def time_Date_def month_start_def year_start_def Let_def)+

theorem quota_window_exact_witness:
  "periodStart (739674 * day_ns + 5) ''month'' \<le> 739674 * day_ns + 5 \<and> 739674 * day_ns + 5 < periodNext (739674 * day_ns + 5) ''month'' \<and>
     periodNext (739674 * day_ns + 5) ''month'' = day_ns * 739675"
proof -
  let ?now = "739674 * day_ns + 5"
  have "0 \<le> ?now" by (simp add: day_ns_def duration_defs)
  from quota_window_exact [OF this, of "''month''"]
  have "periodStart ?now ''month'' \<le> ?now" "?now < periodNext ?now ''month''" by blast+
  moreover have "nat (?now div day_ns) = 739674" by (simp add: day_ns_def duration_defs)
  then have "periodNext ?now ''month'' = day_ns * month_start 2026 3"
    using civil_2026(1) by (simp add: periodNext_days next_day_def)
  moreover have "month_start 2026 3 = 739675"
    using civil_spec [OF civil_2026(2)] by (simp add: time_Date_def)
  ultimately show ?thesis by simp
qed

end
