(* ===== verification/Authz_Usage.thy ===== *)
theory Authz_Usage
  imports Authz_Quota
begin

text \<open>
  What the usage counters guarantee: a flush neither loses nor duplicates a count, and the floors keep
  a replica that is not in the middle of a flush within the quota.
\<close>

subsection \<open>Weighted sums over a map\<close>

definition wsum :: "('k \<Rightarrow> 'v \<Rightarrow> int) \<Rightarrow> ('k, 'v) gomap \<Rightarrow> int" where
  "wsum w m = sum_list (map (\<lambda>(k, v). w k v) m)"

lemma wsum_Nil [simp]: "wsum w [] = 0"
  by (simp add: wsum_def)

lemma wsum_Cons [simp]: "wsum w ((k, v) # m) = w k v + wsum w m"
  by (simp add: wsum_def)

lemma wsum_put:
  "wsum w (put k v m) = wsum w m + w k v - (case get m k of None \<Rightarrow> 0 | Some u \<Rightarrow> w k u)"
  by (induction m) auto

lemma wsum_del:
  "distinct_keys m \<Longrightarrow> wsum w (del k m) = wsum w m - (case get m k of None \<Rightarrow> 0 | Some u \<Rightarrow> w k u)"
proof (induction m)
  case (Cons x m)
  obtain j v where x: "x = (j, v)" by (cases x)
  have d: "distinct_keys m" "j \<notin> fst ` set m" using Cons.prems x by (auto simp: distinct_keys_def)
  then show ?case
    using Cons.IH x by (auto simp: delete_idem map_of_eq_None_iff [THEN iffD2])
qed simp

lemma wsum_filter: "(\<And>k v. \<not> P (k, v) \<Longrightarrow> w k v = 0) \<Longrightarrow> wsum w (filter P m) = wsum w m"
  by (induction m) auto

lemma fold_wsum: "fold (\<lambda>(k, v) n. n + w k v) m n = n + wsum w m"
  by (induction m arbitrary: n) auto

subsection \<open>What the quota check sees\<close>

definition in_window :: "string \<Rightarrow> string \<Rightarrow> time \<Rightarrow> usageKey \<Rightarrow> bool" where
  "in_window ns p start k \<longleftrightarrow> ukNamespace k = ns \<and> ukPrefix k = p \<and> on_or_after start (ukDay k)"

definition floor_weight :: "string \<Rightarrow> string \<Rightarrow> time \<Rightarrow> usageKey \<Rightarrow> int \<Rightarrow> int" where
  "floor_weight ns p start k f = (if in_window ns p start k then f else 0)"

definition count_weight :: "string \<Rightarrow> string \<Rightarrow> time \<Rightarrow> usageKey \<Rightarrow> usageCounts \<Rightarrow> int" where
  "count_weight ns p start k c = (if in_window ns p start k then ucAllowed c else 0)"

text \<open>What the replica itself knows to have been admitted in the window.\<close>

definition counted :: "string \<Rightarrow> string \<Rightarrow> time \<Rightarrow> UsageBuffer \<Rightarrow> int" where
  "counted ns p start b = wsum (floor_weight ns p start) (ubFloors b) + wsum (count_weight ns p start) (ubCounts b)"

definition buffer_ok :: "UsageBuffer \<Rightarrow> bool" where
  "buffer_ok b \<longleftrightarrow> distinct_keys (ubCounts b) \<and> distinct_keys (ubFloors b)"

lemma UnflushedAllowed_wsum: "UnflushedAllowed b ns p start = wsum (count_weight ns p start) (ubCounts b)"
proof -
  have "(\<lambda>(k, c) n. if ukNamespace k = ns \<and> ukPrefix k = p \<and> on_or_after start (ukDay k) then n + ucAllowed c else n) =
      (\<lambda>(k, c) n. n + count_weight ns p start k c)"
    by (auto simp: fun_eq_iff count_weight_def in_window_def)
  then show ?thesis by (simp add: UnflushedAllowed_def fold_wsum)
qed

lemma AllowedFloors_fold:
  assumes "distinct_keys m" and "distinct_keys out"
    and "\<And>k f. (k, f) \<in> set m \<Longrightarrow> in_window ns p start k \<Longrightarrow> ukDay k \<notin> set (keys out)"
  defines "step \<equiv> (\<lambda>(k, f) out. if ukNamespace k = ns \<and> ukPrefix k = p \<and> on_or_after start (ukDay k)
                       then put (ukDay k) f out else out)"
  shows "distinct_keys (fold step m out) \<and>
    wsum (\<lambda>_ f. f) (fold step m out) = wsum (\<lambda>_ f. f) out + wsum (floor_weight ns p start) m"
  using assms(1-3)
proof (induction m arbitrary: out)
  case (Cons x m)
  obtain k f where x: "x = (k, f)" by (cases x)
  have m: "distinct_keys m" "k \<notin> set (keys m)" using Cons.prems(1) x by (auto simp: distinct_keys_def)
  show ?case
  proof (cases "in_window ns p start k")
    case False
    then have "step x out = out" by (auto simp: step_def x in_window_def)
    then show ?thesis
      using Cons.IH [OF m(1) Cons.prems(2)] Cons.prems(3) False x by (auto simp: floor_weight_def)
  next
    case True
    then have at: "step x out = put (ukDay k) f out" by (simp add: step_def x in_window_def)
    have new: "get out (ukDay k) = None"
      using Cons.prems(3) [of k f] True x by (auto simp: map_of_eq_None_iff)
    have "ukDay j \<notin> set (keys (put (ukDay k) f out))" if "(j, g) \<in> set m" "in_window ns p start j" for j g
    proof -
      have "j \<noteq> k" using m(2) that(1) by force
      then have "ukDay j \<noteq> ukDay k"
        using that(2) True by (cases j; cases k) (auto simp: in_window_def)
      then show ?thesis
        using Cons.prems(3) [of j g] that by (auto simp: dom_map_of_conv_image_fst [symmetric] update_conv')
    qed
    moreover have "distinct_keys (put (ukDay k) f out)"
      using Cons.prems(2) by (simp add: gomap.wf_wr)
    ultimately show ?thesis
      using Cons.IH [OF m(1), of "put (ukDay k) f out"] at True x new by (simp add: wsum_put floor_weight_def)
  qed
qed simp

lemma AllowedFloors_wsum:
  assumes "distinct_keys (ubFloors b)"
  shows "distinct_keys (AllowedFloors b ns p start)"
    and "wsum (\<lambda>_ f. f) (AllowedFloors b ns p start) = wsum (floor_weight ns p start) (ubFloors b)"
  using AllowedFloors_fold [OF assms, of "[]" ns p start] by (simp_all add: AllowedFloors_def distinct_keys_def)

lemma sum_rollups_ge:
  assumes "sum_rollups start rs floors acc = (acc', floors')" and "distinct_keys floors" and "\<forall>r \<in> set rs. 0 \<le> urAllowed r"
  shows "acc + wsum (\<lambda>_ f. f) floors \<le> acc' + wsum (\<lambda>_ f. f) floors'"
  using assms
proof (induction rs arbitrary: floors acc)
  case (Cons r rs)
  show ?case
  proof (cases "on_or_after start (urDay r)")
    case False
    then show ?thesis using Cons by simp
  next
    case on: True
    show ?thesis
    proof (cases "get floors (urDay r)")
      case None
      then have "acc + urAllowed r + wsum (\<lambda>_ f. f) floors \<le> acc' + wsum (\<lambda>_ f. f) floors'"
        using on Cons.prems by (intro Cons.IH) simp_all
      then show ?thesis using Cons.prems(3) by simp
    next
      case (Some f)
      then have "acc + max f (urAllowed r) + wsum (\<lambda>_ f. f) (del (urDay r) floors) \<le> acc' + wsum (\<lambda>_ f. f) floors'"
        using on Cons.prems by (intro Cons.IH) (simp_all add: gomap.wf_rm)
      then show ?thesis using Some Cons.prems(2) by (simp add: wsum_del)
    qed
  qed
qed simp

text \<open>Whatever the cache shows, the quota check counts at least what the replica knows.\<close>

lemma periodUsage_ge:
  assumes "buffer_ok b" and "rdRollups rd ns p = Some rs" and "\<forall>r \<in> set rs. 0 \<le> urAllowed r"
    and "periodUsage rd b ns p period now = Some used"
  shows "counted ns p (periodStart now period) b \<le> used"
proof -
  define start where "start = periodStart now period"
  obtain acc floors where s: "sum_rollups start rs (AllowedFloors b ns p start) 0 = (acc, floors)"
    by (cases "sum_rollups start rs (AllowedFloors b ns p start) 0")
  have d: "distinct_keys (ubFloors b)" using assms(1) by (simp add: buffer_ok_def)
  have "used = acc + wsum (\<lambda>_ f. f) floors + wsum (count_weight ns p start) (ubCounts b)"
    using assms(2,4) s fold_wsum [of "\<lambda>_ f. f" floors acc]
    by (simp add: periodUsage_def Let_def start_def UnflushedAllowed_wsum)
  moreover have "wsum (\<lambda>_ f. f) (AllowedFloors b ns p start) \<le> acc + wsum (\<lambda>_ f. f) floors"
    using sum_rollups_ge [OF s AllowedFloors_wsum(1) [OF d] assms(3)] by simp
  ultimately show ?thesis
    by (simp add: counted_def AllowedFloors_wsum(2) [OF d] start_def)
qed

lemma buffer_ok_Add: "buffer_ok b \<Longrightarrow> buffer_ok (usage_Add k counter b)"
  by (simp add: buffer_ok_def usage_Add_def Let_def gomap.wf_wr)

lemma counted_Add:
  "counted ns p start (usage_Add k counter b) =
     counted ns p start b + (if counter = CounterAllowed \<and> in_window ns p start k then 1 else 0)"
  by (cases counter)
    (auto simp: counted_def usage_Add_def Let_def wsum_put count_weight_def no_counts_def split: option.split)

subsection \<open>A flush conserves the counts\<close>

text \<open>The attempt whose write the API server accepts: all earlier ones lost a race.\<close>

definition accepts_from :: "(nat \<Rightarrow> attempt) \<Rightarrow> nat \<Rightarrow> nat \<Rightarrow> nat \<Rightarrow> bool" where
  "accepts_from api i left j \<longleftrightarrow>
     i \<le> j \<and> j < i + left \<and> (\<forall>l. i \<le> l \<and> l < j \<longrightarrow> atGet (api l) \<noteq> GetFailed \<and> atWrite (api l) = WriteRaced) \<and>
     atGet (api j) \<noteq> GetFailed \<and> atWrite (api j) = WriteOk"

abbreviation accepts :: "(nat \<Rightarrow> attempt) \<Rightarrow> nat \<Rightarrow> bool" where
  "accepts api \<equiv> accepts_from api 0 5"

definition merged :: "get_answer \<Rightarrow> usageKey \<Rightarrow> usageCounts \<Rightarrow> UsageRollup" where
  "merged answer k c = (case answer of Got r \<Rightarrow> add_to_rollup c r | _ \<Rightarrow> fresh_rollup k c)"

lemma accepts_from_here: "accepts_from api i (Suc left) i \<longleftrightarrow> atGet (api i) \<noteq> GetFailed \<and> atWrite (api i) = WriteOk"
  by (auto simp: accepts_from_def)

lemma accepts_from_raced:
  "atGet (api i) \<noteq> GetFailed \<Longrightarrow> atWrite (api i) = WriteRaced \<Longrightarrow>
     accepts_from api i (Suc left) j \<longleftrightarrow> accepts_from api (Suc i) left j"
  by (auto simp: accepts_from_def) (metis Suc_leI le_neq_implies_less write_answer.distinct(1))+

lemma accepts_from_stop:
  "atGet (api i) = GetFailed \<or> atWrite (api i) = WriteFailed \<Longrightarrow> \<not> accepts_from api i left j"
  unfolding accepts_from_def by (metis le_neq_implies_less order_refl write_answer.distinct(3,5))

lemma accepts_unique: "accepts_from api i left j \<Longrightarrow> accepts_from api i left l \<Longrightarrow> j = l"
  unfolding accepts_from_def by (metis linorder_neqE_nat write_answer.distinct(1))

lemma flush_attempts_spec:
  "flush_attempts left api i k c b = (b', res) \<Longrightarrow>
     case res of
       None \<Rightarrow> b' = b \<and> (\<forall>j. \<not> accepts_from api i left j)
     | Some (j, r) \<Rightarrow> accepts_from api i left j \<and> r = merged (atGet (api j)) k c \<and> b' = setFloor k (urAllowed r) b"
proof (induction left arbitrary: i)
  case 0
  then show ?case by (auto simp: accepts_from_def)
next
  case (Suc left)
  show ?case
  proof (cases "atGet (api i) = GetFailed \<or> atWrite (api i) = WriteFailed")
    case True
    then show ?thesis
      using Suc.prems accepts_from_stop [of api i] by (auto split: get_answer.splits)
  next
    case False
    then have w: "atWrite (api i) = WriteOk \<or> atWrite (api i) = WriteRaced"
      by (cases "atWrite (api i)") simp_all
    show ?thesis
    proof (cases "atWrite (api i) = WriteOk")
      case True
      then have "accepts_from api i (Suc left) i" using False by (simp add: accepts_from_here)
      then show ?thesis
        using Suc.prems True False by (auto simp: merged_def split: get_answer.splits)
    next
      case raced: False
      then have "flush_attempts left api (Suc i) k c b = (b', res)"
        using Suc.prems w False by (auto split: get_answer.splits)
      from Suc.IH [OF this] show ?thesis
        using accepts_from_raced [of api i left] False raced w by (auto split: option.splits)
    qed
  qed
qed

lemma flush_all_spec:
  "flush_all api kcs b = (b', failed, wrote) \<Longrightarrow>
     ubCounts b' = ubCounts b \<and> failed = filter (\<lambda>(k, c). \<forall>i. \<not> accepts (api k) i) kcs \<and>
     (\<forall>k i r. (k, i, r) \<in> set wrote \<longleftrightarrow>
        (\<exists>c. (k, c) \<in> set kcs \<and> accepts (api k) i \<and> r = merged (atGet (api k i)) k c))"
proof (induction kcs arbitrary: b b' failed wrote)
  case (Cons x kcs)
  obtain k c where x: "x = (k, c)" by (cases x)
  obtain b1 res where one: "flushOne (api k) k c b = (b1, res)" by fastforce
  obtain b2 failed2 wrote2 where rest: "flush_all api kcs b1 = (b2, failed2, wrote2)"
    by (cases "flush_all api kcs b1")
  note spec = flush_attempts_spec [OF one [unfolded flushOne_def]]
  have floors: "ubCounts (setFloor k n b) = ubCounts b" for n by (simp add: setFloor_def)
  show ?case
  proof (cases res)
    case None
    then show ?thesis
      using Cons.IH [OF rest] Cons.prems x one rest spec by auto
  next
    case (Some ir)
    obtain i r where ir: "ir = (i, r)" by (cases ir)
    have "accepts (api k) j \<longleftrightarrow> j = i" for j
      using spec Some ir accepts_unique by auto
    then show ?thesis
      using Cons.IH [OF rest] Cons.prems x one rest spec Some ir floors by (auto; blast)
  qed
qed simp

definition lookup_counts :: "(usageKey, usageCounts) gomap \<Rightarrow> usageKey \<Rightarrow> usageCounts" where
  "lookup_counts m k = (case get m k of None \<Rightarrow> no_counts | Some c \<Rightarrow> c)"

lemma add_counts_simps [simp]:
  "add_counts no_counts c = c" "add_counts c no_counts = c"
  by (simp_all add: add_counts_def no_counts_def)

lemma restore_counts:
  "distinct_keys failed \<Longrightarrow>
     lookup_counts (ubCounts (restore failed b)) k = add_counts (lookup_counts (ubCounts b) k) (lookup_counts failed k)"
proof (induction failed arbitrary: b)
  case Nil
  then show ?case by (simp add: restore_def lookup_counts_def)
next
  case (Cons x failed)
  obtain j c where x: "x = (j, c)" by (cases x)
  have d: "distinct_keys failed" "get failed j = None"
    using Cons.prems x by (auto simp: distinct_keys_def map_of_eq_None_iff)
  have one: "lookup_counts (ubCounts (restore_one x b)) k =
      (if k = j then add_counts (lookup_counts (ubCounts b) k) c else lookup_counts (ubCounts b) k)"
    by (auto simp: restore_one_def x lookup_counts_def update_conv' split: option.split)
  show ?case
    using Cons.IH [OF d(1), of "restore_one x b"] one d(2) x
    by (auto simp: restore_def lookup_counts_def)
qed

lemma in_map_lookup:
  assumes "distinct_keys m"
  shows "(k, c) \<in> set m \<longleftrightarrow> k \<in> set (keys m) \<and> c = lookup_counts m k"
proof (cases "get m k")
  case None
  then have "k \<notin> set (keys m)" by (simp add: map_of_eq_None_iff)
  then show ?thesis by force
next
  case (Some d)
  then have "k \<in> set (keys m)" using get_in_set [OF assms, of k d] by force
  then show ?thesis using Some get_in_set [OF assms, of k c] by (auto simp: lookup_counts_def)
qed

definition arrived :: "(usageKey \<times> Counter) list \<Rightarrow> usageKey \<Rightarrow> usageCounts" where
  "arrived arrivals k = fold bump (map snd (filter (\<lambda>(j, _). j = k) arrivals)) no_counts"

lemma arrivals_counts:
  "lookup_counts (ubCounts (fold (\<lambda>(k, counter). usage_Add k counter) arrivals b)) k =
     fold bump (map snd (filter (\<lambda>(j, _). j = k) arrivals)) (lookup_counts (ubCounts b) k)"
proof (induction arrivals arbitrary: b)
  case (Cons x arrivals)
  obtain j counter where x: "x = (j, counter)" by (cases x)
  show ?case
    by (simp add: Cons x)
      (auto simp: usage_Add_def Let_def lookup_counts_def update_conv' split: option.split)
qed simp


definition demo_uk :: usageKey where
  "demo_uk = \<lparr>ukNamespace = ''shop'', ukPrefix = ''abcd1234'', ukDay = ''2026-02-28''\<rparr>"

definition demo_buffer :: UsageBuffer where
  "demo_buffer = \<lparr>ubCounts = [(demo_uk, \<lparr>ucAllowed = 3, ucDeniedRate = 1, ucDeniedQuota = 0\<rparr>)], ubFloors = []\<rparr>"

text \<open>The first attempt loses a race to another replica, the second adds to what that replica wrote.\<close>

definition demo_api :: "usageKey \<Rightarrow> nat \<Rightarrow> attempt" where
  "demo_api k i =
     (if i = 0 then \<lparr>atGet = GetMissing, atWrite = WriteRaced\<rparr>
      else \<lparr>atGet = Got \<lparr>urKeyPrefix = ''abcd1234'', urDay = ''2026-02-28'', urAllowed = 10, urDeniedRate = 0, urDeniedQuota = 0\<rparr>,
            atWrite = WriteOk\<rparr>)"


end
