(* ===== verification/Authz_Gate.thy ===== *)
theory Authz_Gate
  imports Authz_Usage
begin

text \<open>
  What the gate guarantees on a request: when it admits one, what it spends and records, that it fails
  closed when its view is stale, and that the quota holds over every run of requests and flushes.
\<close>

subsection \<open>A flush keeps the replica's own account\<close>

definition floor_of :: "UsageBuffer \<Rightarrow> usageKey \<Rightarrow> int" where
  "floor_of b k = (case get (ubFloors b) k of None \<Rightarrow> 0 | Some f \<Rightarrow> f)"

definition stored :: "get_answer \<Rightarrow> int" where
  "stored answer = (case answer of Got r \<Rightarrow> urAllowed r | _ \<Rightarrow> 0)"

text \<open>
  The API server keeps what this replica has written: an attempt it accepts had read at least the
  floor, and never a negative count.
\<close>

definition server_keeps :: "(usageKey \<Rightarrow> nat \<Rightarrow> attempt) \<Rightarrow> UsageBuffer \<Rightarrow> bool" where
  "server_keeps api b \<longleftrightarrow> (\<forall>k i. accepts (api k) i \<longrightarrow> max 0 (floor_of b k) \<le> stored (atGet (api k i)))"

lemma merged_allowed: "urAllowed (merged answer k c) = stored answer + ucAllowed c"
  by (simp add: merged_def stored_def fresh_rollup_def add_to_rollup_def split: get_answer.split)

lemma setFloor_weight:
  "wsum (floor_weight ns p start) (ubFloors (setFloor k n b)) =
     wsum (floor_weight ns p start) (ubFloors b) + floor_weight ns p start k (max 0 (n - floor_of b k))"
  by (auto simp: setFloor_def floor_of_def wsum_put floor_weight_def split: option.split)

lemma setFloor_other: "j \<noteq> k \<Longrightarrow> floor_of (setFloor k n b) j = floor_of b j"
  by (simp add: setFloor_def floor_of_def update_conv')

lemma setFloor_ok: "distinct_keys (ubFloors b) \<Longrightarrow> distinct_keys (ubFloors (setFloor k n b))"
  by (simp add: setFloor_def gomap.wf_wr)

lemma flush_all_account:
  assumes "flush_all api kcs b = (b', failed, wrote)" and "distinct_keys (ubFloors b)" and "distinct_keys kcs"
    and "\<And>k c i. (k, c) \<in> set kcs \<Longrightarrow> accepts (api k) i \<Longrightarrow> floor_of b k \<le> stored (atGet (api k i))"
  shows "distinct_keys (ubFloors b') \<and>
    wsum (floor_weight ns p start) (ubFloors b) + wsum (count_weight ns p start) kcs \<le>
    wsum (floor_weight ns p start) (ubFloors b') + wsum (count_weight ns p start) failed"
  using assms
proof (induction kcs arbitrary: b b' failed wrote)
  case (Cons x kcs)
  obtain k c where x: "x = (k, c)" by (cases x)
  have d: "distinct_keys kcs" "k \<notin> set (keys kcs)" using Cons.prems(3) x by (auto simp: distinct_keys_def)
  obtain b1 res where one: "flushOne (api k) k c b = (b1, res)" by fastforce
  obtain b2 failed2 wrote2 where rest: "flush_all api kcs b1 = (b2, failed2, wrote2)"
    by (cases "flush_all api kcs b1")
  note spec = flush_attempts_spec [OF one [unfolded flushOne_def]]
  show ?case
  proof (cases res)
    case None
    then have "b1 = b" "b' = b2" "failed = (k, c) # failed2"
      using spec Cons.prems(1) x one rest by auto
    then show ?thesis
      using Cons.IH [OF rest _ d(1)] Cons.prems(2,4) x by auto
  next
    case (Some ir)
    obtain i r where ir: "ir = (i, r)" by (cases ir)
    have b1: "b1 = setFloor k (stored (atGet (api k i)) + ucAllowed c) b" and acc: "accepts (api k) i"
      using spec Some ir by (auto simp: merged_allowed)
    have "b' = b2" "failed = failed2"
      using Cons.prems(1) x one rest Some ir by auto
    moreover have "floor_of b1 j \<le> stored (atGet (api j l))" if "(j, e) \<in> set kcs" "accepts (api j) l" for j e l
    proof -
      have "j \<noteq> k" using that(1) d(2) by force
      then show ?thesis using Cons.prems(4) [of j e l] that x by (simp add: b1 setFloor_other)
    qed
    moreover have "floor_of b k \<le> stored (atGet (api k i))"
      using Cons.prems(4) [of k c i] acc x by simp
    then have "floor_weight ns p start k (max 0 (stored (atGet (api k i)) + ucAllowed c - floor_of b k)) \<ge> count_weight ns p start k c"
      by (auto simp: floor_weight_def count_weight_def)
    ultimately show ?thesis
      using Cons.IH [OF rest _ d(1)] setFloor_ok [OF Cons.prems(2)] setFloor_weight [of ns p start k _ b] x
      by (auto simp: b1)
  qed
qed simp

lemma restore_account:
  "wsum (count_weight ns p start) (ubCounts (restore failed b)) =
     wsum (count_weight ns p start) (ubCounts b) + wsum (count_weight ns p start) failed"
  "ubFloors (restore failed b) = ubFloors b"
  "distinct_keys (ubCounts b) \<Longrightarrow> distinct_keys (ubCounts (restore failed b))"
proof -
  have one: "wsum (count_weight ns p start) (ubCounts (restore_one (k, c) b)) =
      wsum (count_weight ns p start) (ubCounts b) + count_weight ns p start k c" for k c b
    by (auto simp: restore_one_def wsum_put count_weight_def add_counts_def split: option.split)
  show "wsum (count_weight ns p start) (ubCounts (restore failed b)) =
      wsum (count_weight ns p start) (ubCounts b) + wsum (count_weight ns p start) failed"
    by (induction failed arbitrary: b) (auto simp: restore_def one)
  show "ubFloors (restore failed b) = ubFloors b"
    by (induction failed arbitrary: b) (auto simp: restore_def restore_one_def)
  show "distinct_keys (ubCounts b) \<Longrightarrow> distinct_keys (ubCounts (restore failed b))"
    by (induction failed arbitrary: b) (auto simp: restore_def restore_one_def gomap.wf_wr)
qed

lemma on_or_after_mono: "on_or_after start day \<Longrightarrow> before \<le> start \<Longrightarrow> on_or_after before day"
  by (auto simp: on_or_after_def split: option.splits)

lemma pruneFloors_account:
  assumes "before \<le> start"
  shows "counted ns p start (pruneFloors before b) = counted ns p start b"
proof -
  have "wsum (floor_weight ns p start) (filter (\<lambda>(k, f). on_or_after before (ukDay k)) (ubFloors b)) =
      wsum (floor_weight ns p start) (ubFloors b)"
    using on_or_after_mono [OF _ assms] by (intro wsum_filter) (auto simp: floor_weight_def in_window_def)
  then show ?thesis by (simp add: counted_def pruneFloors_def)
qed

text \<open>A flush with no request in between never lowers the account.\<close>

lemma Flush_account:
  assumes ok: "buffer_ok b" and keeps: "server_keeps api b" and before: "now - floorRetention \<le> start"
  shows "buffer_ok (fst (Flush now api [] b)) \<and> counted ns p start b \<le> counted ns p start (fst (Flush now api [] b))"
proof -
  let ?b0 = "pruneFloors (now - floorRetention) b"
  obtain b2 failed wrote where all: "flush_all api (ubCounts b) (?b0\<lparr>ubCounts := []\<rparr>) = (b2, failed, wrote)"
    by (cases "flush_all api (ubCounts b) (?b0\<lparr>ubCounts := []\<rparr>)")
  have out: "fst (Flush now api [] b) = restore failed b2"
    using all by (auto simp: Flush_def drain_def Let_def pruneFloors_def restore_def)
  have d: "distinct_keys (ubCounts b)" "distinct_keys (ubFloors b)" using ok by (simp_all add: buffer_ok_def)
  have d0: "distinct_keys (ubFloors (?b0\<lparr>ubCounts := []\<rparr>))"
    using distinct_keys_filter [OF d(2)] by (simp add: pruneFloors_def)
  have low: "floor_of (?b0\<lparr>ubCounts := []\<rparr>) k \<le> max 0 (floor_of b k)" for k
    using get_filter [OF d(2), of "\<lambda>k f. on_or_after (now - floorRetention) (ukDay k)" k]
    by (auto simp: floor_of_def pruneFloors_def split: option.split)
  have counts: "ubCounts b2 = []" using flush_all_spec [OF all] by simp
  have "floor_of (?b0\<lparr>ubCounts := []\<rparr>) k \<le> stored (atGet (api k i))" if "accepts (api k) i" for k i
    using keeps low [of k] that unfolding server_keeps_def by (meson order_trans)
  then have "distinct_keys (ubFloors b2) \<and>
      wsum (floor_weight ns p start) (ubFloors ?b0) + wsum (count_weight ns p start) (ubCounts b) \<le>
      wsum (floor_weight ns p start) (ubFloors b2) + wsum (count_weight ns p start) failed"
    using flush_all_account [OF all d0 d(1), where ns = ns and p = p and start = start] by simp
  moreover have "counted ns p start b = wsum (floor_weight ns p start) (ubFloors ?b0) + wsum (count_weight ns p start) (ubCounts b)"
    using pruneFloors_account [OF before, of ns p b] by (simp add: counted_def pruneFloors_def)
  ultimately show ?thesis
    using restore_account(1) [of ns p start failed b2] restore_account(2,3) counts
    by (simp add: out counted_def buffer_ok_def distinct_keys_def)
qed

subsection \<open>The decision, branch by branch\<close>

text \<open>A key that may call the app, with its plan.\<close>

definition valid_key :: "digest \<Rightarrow> reader \<Rightarrow> time \<Rightarrow> string \<Rightarrow> string \<Rightarrow> string \<Rightarrow> string \<Rightarrow> ApiKey \<Rightarrow> UsagePlan \<Rightarrow> bool" where
  "valid_key H rd now ns app rawKey prefix key plan \<longleftrightarrow>
     keyPrefix rawKey = Some prefix \<and> rdKeys rd ns prefix = Some [key] \<and> hashMatches H rawKey (akHashSHA256 key) \<and>
     IsEnabled key \<and> \<not> IsExpired key now \<and> keyCoversApp key app \<and> rdPlan rd ns (akPlan key) = Some plan"

definition used_up :: "reader \<Rightarrow> UsageBuffer \<Rightarrow> time \<Rightarrow> string \<Rightarrow> string \<Rightarrow> UsagePlan \<Rightarrow> bool option" where
  "used_up rd b now ns prefix plan =
     (case upQuota plan of
        None \<Rightarrow> Some False
      | Some q \<Rightarrow> map_option (\<lambda>used. pqRequests q \<le> used) (periodUsage rd b ns prefix (pqPeriod q) now))"

definition today :: "time \<Rightarrow> string" where
  "today now = date_Format (nat (now div day_ns))"

lemma Authorize_stale: "\<not> Fresh synced t0 (azFreshness a) \<Longrightarrow> Authorize H lim rd synced t0 now t1 ns app rawKey a = (a, deny DecisionUnavailable)"
  by (simp add: Authorize_def)

lemma Authorize_invalid:
  assumes "Fresh synced t0 (azFreshness a)" and "\<And>prefix key plan. \<not> valid_key H rd now ns app rawKey prefix key plan"
  shows "Authorize H lim rd synced t0 now t1 ns app rawKey a = (a, deny DecisionDenyKey)"
  using assms by (auto simp: Authorize_def valid_key_def Let_def split: option.splits list.splits)

lemma Authorize_valid:
  assumes "Fresh synced t0 (azFreshness a)" and "valid_key H rd now ns app rawKey prefix key plan"
  shows "Authorize H lim rd synced t0 now t1 ns app rawKey a =
    (let count = (\<lambda>counter a. a\<lparr>azUsage := usage_Add \<lparr>ukNamespace = ns, ukPrefix = prefix, ukDay = today now\<rparr> counter (azUsage a)\<rparr>)
     in case used_up rd (azUsage a) now ns prefix plan of
          None \<Rightarrow> (a, deny DecisionUnavailable)
        | Some True \<Rightarrow> (count CounterDeniedQuota a,
            (deny DecisionDenyQuota)\<lparr>rsRetryAfter := time_Sub (periodNext now (pqPeriod (the (upQuota plan)))) now\<rparr>)
        | Some False \<Rightarrow>
            (case takeToken lim t1 (ns @ ''/'' @ prefix) (upRate plan) (upBurst plan) a of
               (a1, False) \<Rightarrow> (count CounterDeniedRate a1, (deny DecisionDenyRate)\<lparr>rsRetryAfter := second\<rparr>)
             | (a1, True) \<Rightarrow> (count CounterAllowed a1,
                 \<lparr>rsDecision = DecisionAllow, rsRetryAfter = 0, rsKeyPrefix = prefix, rsKeyName = akDisplayName key\<rparr>)))"
  using assms
  by (auto simp: Authorize_def valid_key_def used_up_def today_def Let_def split: option.splits)

text \<open>Every request is turned away unchanged, or comes with a fresh view and a valid key.\<close>

lemma Authorize_cases:
  assumes "Authorize H lim rd synced t0 now t1 ns app rawKey a = (a', res)"
  obtains (away) "a' = a" and "rsDecision res = DecisionUnavailable \<or> rsDecision res = DecisionDenyKey"
  | (valid) prefix key plan where "Fresh synced t0 (azFreshness a)" and "valid_key H rd now ns app rawKey prefix key plan"
proof (cases "Fresh synced t0 (azFreshness a)")
  case False
  then show thesis using assms away by (auto simp: Authorize_stale deny_def)
next
  case True
  show thesis
  proof (cases "\<exists>prefix key plan. valid_key H rd now ns app rawKey prefix key plan")
    case True
    then show thesis using valid \<open>Fresh synced t0 (azFreshness a)\<close> by blast
  next
    case False
    then have "(a', res) = (a, deny DecisionDenyKey)"
      using assms Authorize_invalid [OF True] by simp
    then show thesis using away by (auto simp: deny_def)
  qed
qed

lemma takeToken_fields:
  "takeToken lim t key r n a = (a1, ok) \<Longrightarrow> azUsage a1 = azUsage a \<and> azFreshness a1 = azFreshness a"
  by (auto simp: takeToken_def Let_def split: prod.splits)


text \<open>A bucket of tokens that is never refilled, one key and a plan of one request a day.\<close>

definition demo_limiter :: "nat limiter" where
  "demo_limiter = \<lparr>lmNew = (\<lambda>r b. nat b), lmAllow = (\<lambda>t n. if 0 < n then (n - 1, True) else (0, False))\<rparr>"

definition demo_hash :: digest where
  "demo_hash s = replicate 64 (CHR ''a'')"

definition demo_reader :: reader where
  "demo_reader =
     \<lparr>rdKeys = (\<lambda>ns p. Some [\<lparr>akDisplayName = ''till'', akPlan = ''basic'', akEnabled = None, akApps = [], akPrefix = p,
                              akHashSHA256 = replicate 64 (CHR ''a''), akExpiresAt = None\<rparr>]),
      rdPlan = (\<lambda>ns name. Some \<lparr>upRate = 5, upBurst = 5, upQuota = Some \<lparr>pqRequests = 1, pqPeriod = ''day''\<rparr>\<rparr>),
      rdRollups = (\<lambda>ns p. Some [])\<rparr>"

definition demo_gate :: "nat Authorizer" where
  "demo_gate = \<lparr>azFreshness = \<lparr>fhStaleBound = 90 * second, fhCanaries = 3, fhLastFresh = 1\<rparr>, azUsage = NewUsageBuffer, azBuckets = []\<rparr>"

definition demo_ask :: "nat Authorizer \<Rightarrow> nat Authorizer \<times> Result" where
  "demo_ask = Authorize demo_hash demo_limiter demo_reader True 3 5 7 ''shop'' ''api'' ''kip_abcd1234_secret''"

lemma demo_valid:
  "valid_key demo_hash demo_reader 5 ''shop'' ''api'' ''kip_abcd1234_secret'' ''abcd1234''
     (hd (the (rdKeys demo_reader ''shop'' ''abcd1234''))) (the (rdPlan demo_reader ''shop'' ''basic''))"
  by code_simp


text \<open>
  While a flush runs, the counts it has drained are in neither the buffer nor the floors. A replica
  whose only request of the day used up the quota refuses the next one, but admits it when the buffer
  has just been drained.
\<close>

lemma flush_opens_the_quota:
  "case demo_ask demo_gate of
     (a, first) \<Rightarrow>
       rsDecision first = DecisionAllow \<and> rsDecision (snd (demo_ask a)) = DecisionDenyQuota \<and>
       rsDecision (snd (demo_ask (a\<lparr>azUsage := fst (drain (azUsage a))\<rparr>))) = DecisionAllow"
  by code_simp

subsection \<open>The quota over a run\<close>

text \<open>
  The runs of one replica within one quota window that starts at \<open>start\<close>: requests for any app and key,
  and flushes, each complete before the next step. The second component counts the admitted requests
  of key \<open>p\<close> in namespace \<open>ns\<close>. The plans the cache shows for that key have a quota of at most \<open>Q\<close> per
  \<open>period\<close>, the cached rollups no negative count (the schema forbids it), and the API server keeps what
  it has accepted; apart from that the cache may show anything.
\<close>

definition request_ok :: "reader \<Rightarrow> time \<Rightarrow> string \<Rightarrow> string \<Rightarrow> int \<Rightarrow> string \<Rightarrow> time \<Rightarrow> bool" where
  "request_ok rd now ns p Q period start \<longleftrightarrow>
     0 \<le> now \<and> periodStart now period = start \<and> fst (civil (nat (now div day_ns))) < 10000 \<and>
     (\<forall>key plan. rdKeys rd ns p = Some [key] \<and> rdPlan rd ns (akPlan key) = Some plan \<longrightarrow>
        (\<exists>q. upQuota plan = Some q \<and> pqRequests q \<le> Q \<and> pqPeriod q = period)) \<and>
     (\<forall>rs. rdRollups rd ns p = Some rs \<longrightarrow> (\<forall>r \<in> set rs. 0 \<le> urAllowed r))"

inductive gate_run :: "digest \<Rightarrow> 'l limiter \<Rightarrow> string \<Rightarrow> string \<Rightarrow> int \<Rightarrow> string \<Rightarrow> time \<Rightarrow> 'l Authorizer \<Rightarrow> int \<Rightarrow> bool"
  for H lim ns p Q period start where
  run_start: "azUsage a = NewUsageBuffer \<Longrightarrow> gate_run H lim ns p Q period start a 0"
| run_request: "gate_run H lim ns p Q period start a n \<Longrightarrow> request_ok rd now ns p Q period start \<Longrightarrow>
    Authorize H lim rd synced t0 now t1 ns' app rawKey a = (a', res) \<Longrightarrow>
    gate_run H lim ns p Q period start a'
      (if rsDecision res = DecisionAllow \<and> ns' = ns \<and> keyPrefix rawKey = Some p then n + 1 else n)"
| run_flush: "gate_run H lim ns p Q period start a n \<Longrightarrow> server_keeps api (azUsage a) \<Longrightarrow> now - floorRetention \<le> start \<Longrightarrow>
    gate_run H lim ns p Q period start (a\<lparr>azUsage := fst (Flush now api [] (azUsage a))\<rparr>) n"

lemma today_in_window:
  assumes "0 \<le> now" and "fst (civil (nat (now div day_ns))) < 10000"
  shows "on_or_after (periodStart now period) (today now)"
proof -
  obtain y m d where c: "civil (nat (now div day_ns)) = (y, m, d)" by (cases "civil (nat (now div day_ns))")
  then have "date_Parse (today now) = Some (int (nat (now div day_ns)))"
    using Parse_Format assms(2) by (simp add: today_def)
  moreover have "start_day period (nat (now div day_ns)) \<le> int (nat (now div day_ns))"
    by (rule window_days(2))
  then have "day_ns * start_day period (nat (now div day_ns)) \<le> day_ns * int (nat (now div day_ns))"
    using day_ns_pos by (simp only: mult_le_cancel_left_pos)
  ultimately show ?thesis
    by (simp add: on_or_after_def periodStart_days mult.commute)
qed

lemma Authorize_usage:
  assumes "Authorize H lim rd synced t0 now t1 ns app rawKey a = (a', res)"
  shows "azUsage a' = azUsage a \<and> rsDecision res \<noteq> DecisionAllow \<or>
    (\<exists>prefix counter. azUsage a' = usage_Add \<lparr>ukNamespace = ns, ukPrefix = prefix, ukDay = today now\<rparr> counter (azUsage a) \<and>
       (rsDecision res = DecisionAllow \<longleftrightarrow> counter = CounterAllowed) \<and> keyPrefix rawKey = Some prefix)"
  using assms
proof (cases rule: Authorize_cases)
  case away
  then show ?thesis by auto
next
  case v: (valid prefix key plan)
  obtain a1 ok where t: "takeToken lim t1 (ns @ ''/'' @ prefix) (upRate plan) (upBurst plan) a = (a1, ok)"
    by (cases "takeToken lim t1 (ns @ ''/'' @ prefix) (upRate plan) (upBurst plan) a")
  let ?k = "\<lparr>ukNamespace = ns, ukPrefix = prefix, ukDay = today now\<rparr>"
  note eq = assms [unfolded Authorize_valid [OF v] Let_def]
  have pre: "keyPrefix rawKey = Some prefix" using v(2) by (simp add: valid_key_def)
  consider "used_up rd (azUsage a) now ns prefix plan = None" | "used_up rd (azUsage a) now ns prefix plan = Some True"
    | "used_up rd (azUsage a) now ns prefix plan = Some False" by (metis (full_types) option.exhaust)
  then show ?thesis
  proof cases
    case 1
    then show ?thesis using eq by (auto simp: deny_def)
  next
    case 2
    then have "azUsage a' = usage_Add ?k CounterDeniedQuota (azUsage a)" "rsDecision res = DecisionDenyQuota"
      using eq by (auto simp: deny_def)
    then show ?thesis using pre by (metis Counter.distinct(3) Decision.distinct(5))
  next
    case 3
    then have "azUsage a' = usage_Add ?k (if ok then CounterAllowed else CounterDeniedRate) (azUsage a)"
      "rsDecision res = (if ok then DecisionAllow else DecisionDenyRate)"
      using eq takeToken_fields [OF t] t by (cases ok; auto simp: deny_def)+
    then show ?thesis using pre by (metis Counter.distinct(1) Decision.distinct(3))
  qed
qed

lemma Authorize_within:
  assumes ok: "buffer_ok (azUsage a)" and req: "request_ok rd now ns p Q period start"
    and eq: "Authorize H lim rd synced t0 now t1 ns app rawKey a = (a', res)"
    and allow: "rsDecision res = DecisionAllow" "keyPrefix rawKey = Some p"
  shows "counted ns p start (azUsage a) < Q"
proof -
  obtain prefix key plan where fresh: "Fresh synced t0 (azFreshness a)"
    and v: "valid_key H rd now ns app rawKey prefix key plan"
    using eq allow(1) by (cases rule: Authorize_cases) auto
  have free: "used_up rd (azUsage a) now ns prefix plan = Some False"
    using eq allow(1) unfolding Authorize_valid [OF fresh v] Let_def by (auto simp: deny_def split: option.splits bool.splits)
  have p: "prefix = p" using v allow(2) by (simp add: valid_key_def)
  obtain q where q: "upQuota plan = Some q" "pqRequests q \<le> Q" "pqPeriod q = period"
    using req v p by (auto simp: request_ok_def valid_key_def)
  then obtain used where used: "periodUsage rd (azUsage a) ns p period now = Some used" "used < pqRequests q"
    using free p by (auto simp: used_up_def)
  then obtain rs where rs: "rdRollups rd ns p = Some rs"
    by (auto simp: periodUsage_def split: option.splits)
  then have "counted ns p (periodStart now period) (azUsage a) \<le> used"
    using periodUsage_ge [OF ok rs _ used(1)] req by (simp add: request_ok_def)
  then show ?thesis
    using used(2) q(2) req by (simp add: request_ok_def)
qed

lemma gate_run_inv:
  "gate_run H lim ns p Q period start a n \<Longrightarrow> 0 \<le> Q \<Longrightarrow>
     buffer_ok (azUsage a) \<and> n \<le> counted ns p start (azUsage a) \<and> n \<le> Q"
proof (induction rule: gate_run.induct)
  case (run_start a)
  then show ?case by (simp add: NewUsageBuffer_def buffer_ok_def distinct_keys_def counted_def)
next
  case (run_request a n rd now synced t0 t1 ns' app rawKey a' res)
  then have inv: "buffer_ok (azUsage a)" "n \<le> counted ns p start (azUsage a)" "n \<le> Q" by simp_all
  have win: "on_or_after start (today now)"
    using today_in_window run_request.hyps(2) by (auto simp: request_ok_def)
  have mono: "buffer_ok (azUsage a') \<and> counted ns p start (azUsage a) \<le> counted ns p start (azUsage a')"
    using Authorize_usage [OF run_request.hyps(3)] inv(1) buffer_ok_Add counted_Add by auto
  show ?case
  proof (cases "rsDecision res = DecisionAllow \<and> ns' = ns \<and> keyPrefix rawKey = Some p")
    case True
    then have "counted ns p start (azUsage a') = counted ns p start (azUsage a) + 1"
      using Authorize_usage [OF run_request.hyps(3)] counted_Add win by (auto simp: in_window_def)
    moreover have "counted ns p start (azUsage a) < Q"
      using Authorize_within [OF inv(1) run_request.hyps(2)] run_request.hyps(3) True by blast
    ultimately show ?thesis using True inv mono by simp
  next
    case False
    then show ?thesis using inv mono by auto
  qed
next
  case (run_flush a n api now)
  then show ?case
    using Flush_account [of "azUsage a" api now start ns p] by auto
qed


lemma demo_request_ok: "request_ok demo_reader 5 ''shop'' ''abcd1234'' 1 ''day'' 0"
proof -
  have "periodStart 5 ''day'' = 0" "fst (civil (nat (5 div day_ns))) < 10000" by code_simp+
  then show ?thesis by (simp add: request_ok_def demo_reader_def)
qed


subsection \<open>Freshness\<close>

lemma poll_rounds_seen:
  "poll_rounds n value deadline rs observed = Some t \<Longrightarrow>
     (\<forall>i < n. i \<in> set observed \<or> (\<exists>r \<in> set rs. prStart r < deadline \<and> prSeen r i = Some value)) \<and>
     (\<exists>r \<in> set rs. prStart r < deadline \<and> prEnd r = t)"
proof (induction rs arbitrary: observed)
  case (Cons r rs)
  define seen where "seen = filter (\<lambda>i. i \<in> set observed \<or> prSeen r i = Some value) [0..<n]"
  have open_now: "prStart r < deadline" using Cons.prems by (auto split: if_splits)
  show ?case
  proof (cases "length seen = n")
    case True
    then have "filter (\<lambda>i. i \<in> set observed \<or> prSeen r i = Some value) [0..<n] = [0..<n]"
      unfolding seen_def by (metis diff_zero filter_cong filter_True length_filter_less length_upt less_irrefl)
    then have "\<forall>i < n. i \<in> set observed \<or> prSeen r i = Some value"
      by (simp add: filter_id_conv)
    then show ?thesis using Cons.prems True open_now by (auto simp: seen_def Let_def)
  next
    case False
    then have "poll_rounds n value deadline rs seen = Some t"
      using Cons.prems open_now by (simp add: seen_def Let_def)
    from Cons.IH [OF this] show ?thesis using open_now by (fastforce simp: seen_def)
  qed
qed simp

lemma probes_fields: "fhCanaries (fold probe ps f) = fhCanaries f \<and> fhStaleBound (fold probe ps f) = fhStaleBound f"
  by (induction ps arbitrary: f) (auto simp: probe_def split: option.splits)

lemma last_probe:
  "fhLastFresh (fold probe ps f) = fhLastFresh f \<or>
     (\<exists>p \<in> set ps. (\<forall>i < fhCanaries f. pbWrote p i) \<and>
        poll_rounds (fhCanaries f) (pbValue p) (pbPollStart p + poll_window) (pbRounds p) [] = Some (fhLastFresh (fold probe ps f)))"
proof (induction ps rule: rev_induct)
  case (snoc p ps)
  let ?f = "fold probe ps f"
  have n: "fhCanaries ?f = fhCanaries f" using probes_fields by simp
  show ?case
  proof (cases "probe p ?f = ?f")
    case True
    then show ?thesis using snoc by auto
  next
    case False
    then obtain t where "\<forall>i < fhCanaries f. pbWrote p i"
      and "poll_rounds (fhCanaries f) (pbValue p) (pbPollStart p + poll_window) (pbRounds p) [] = Some t"
      and "probe p ?f = ?f\<lparr>fhLastFresh := t\<rparr>"
      using n by (auto simp: probe_def list_ex_iff split: if_splits option.splits)
    then show ?thesis by auto
  qed
qed simp

text \<open>
  A replica answers only from a view it has proved fresh: after any sequence of probes, if the gate
  counts as fresh then the initial sync is done and there is a probe that ended less than the stale
  bound ago, whose canary of every type was written and then seen, with that probe's own value, through
  the cache the decisions are read from. One wedged watch is enough to close the gate.
\<close>

lemma freshness_rests_on_probe:
  assumes "fhLastFresh f = zero_time" and "Fresh synced now (fold probe ps f)"
  shows "synced \<and> (\<exists>p \<in> set ps. \<exists>t.
    (\<forall>i < fhCanaries f. pbWrote p i \<and>
       (\<exists>r \<in> set (pbRounds p). prStart r < pbPollStart p + poll_window \<and> prSeen r i = Some (pbValue p))) \<and>
    (\<exists>r \<in> set (pbRounds p). prEnd r = t) \<and> time_Sub now t < fhStaleBound f)"
proof -
  let ?t = "fhLastFresh (fold probe ps f)"
  have "?t \<noteq> 0" "synced" and young: "time_Sub now ?t < fhStaleBound f"
    using assms(2) probes_fields [of ps f] by (simp_all add: Fresh_def)
  then obtain p where p: "p \<in> set ps" "\<forall>i < fhCanaries f. pbWrote p i"
    and t: "poll_rounds (fhCanaries f) (pbValue p) (pbPollStart p + poll_window) (pbRounds p) [] = Some ?t"
    using last_probe [of ps f] assms(1) by auto
  show ?thesis
    using poll_rounds_seen [OF t] p young \<open>synced\<close> by auto
qed

definition demo_probe :: probe_run where
  "demo_probe = \<lparr>pbValue = ''v'', pbWrote = (\<lambda>i. True), pbPollStart = 10,
     pbRounds = [\<lparr>prStart = 11, prSeen = (\<lambda>i. if i = 1 then None else Some ''v''), prEnd = 12\<rparr>,
                 \<lparr>prStart = 13, prSeen = (\<lambda>i. Some ''v''), prEnd = 14\<rparr>]\<rparr>"

end
