(* ===== verification/Go_Encoding.thy ===== *)
theory Go_Encoding
  imports Go_Strings "HOL-Library.Char_ord" "HOL-Library.List_Lexorder"
begin

text \<open>
  The encodings of Go's standard library that the session components use, on strings read as lists
  of bytes: \<open>hex.EncodeToString\<close>, \<open>base64.StdEncoding\<close>, \<open>strings.Cut\<close> and, from \<open>net/url\<close>,
  \<open>QueryEscape\<close>, \<open>QueryUnescape\<close>, \<open>ParseQuery\<close> and the methods of \<open>Values\<close>, with the round trips
  the components rest on.
\<close>

definition byte :: "char \<Rightarrow> nat" where
  "byte c = of_char c"

lemma byte_less [simp]: "byte c < 256"
  by (simp add: byte_def)

lemma char_of_byte [simp]: "char_of (byte c) = c"
  by (simp add: byte_def)

lemma byte_char_of [simp]: "n < 256 \<Longrightarrow> byte (char_of n) = n"
  by (simp add: byte_def)

subsection \<open>Cut\<close>

definition Cut :: "string \<Rightarrow> char \<Rightarrow> string \<times> string \<times> bool" where
  "Cut s c = (if c \<in> set s then (takeWhile (\<lambda>x. x \<noteq> c) s, tl (dropWhile (\<lambda>x. x \<noteq> c) s), True)
              else (s, [], False))"

lemma Cut_append [simp]: "c \<notin> set s \<Longrightarrow> Cut (s @ c # t) c = (s, t, True)"
proof -
  assume "c \<notin> set s"
  then have "\<And>x. x \<in> set s \<Longrightarrow> x \<noteq> c" by blast
  then show ?thesis
    by (simp add: Cut_def takeWhile_append2 dropWhile_append2)
qed

subsection \<open>Hexadecimal\<close>

definition hex_digits :: string where
  "hex_digits = ''0123456789abcdef''"

definition hex_EncodeToString :: "string \<Rightarrow> string" where
  "hex_EncodeToString b = concat (map (\<lambda>c. [hex_digits ! (byte c div 16), hex_digits ! (byte c mod 16)]) b)"

lemma length_hex [simp]: "length (hex_EncodeToString b) = 2 * length b"
  by (induction b) (simp_all add: hex_EncodeToString_def)

lemma hex_digits_nth: "n < 16 \<Longrightarrow> hex_digits ! n \<in> set hex_digits"
  by (rule nth_mem) (simp add: hex_digits_def)

lemma set_hex: "set (hex_EncodeToString b) \<subseteq> set hex_digits"
proof (induction b)
  case (Cons c b)
  have "byte c div 16 < 16" by (simp add: less_mult_imp_div_less)
  then show ?case
    using Cons by (simp add: hex_EncodeToString_def hex_digits_nth)
qed (simp add: hex_EncodeToString_def)

subsection \<open>Base 64\<close>

definition b64_alphabet :: string where
  "b64_alphabet = ''ABCDEFGHIJKLMNOPQRSTUVWXYZabcdefghijklmnopqrstuvwxyz0123456789+/''"

definition b64_char :: "nat \<Rightarrow> char" where
  "b64_char n = b64_alphabet ! n"

definition b64_val :: "char \<Rightarrow> nat option" where
  "b64_val c = find (\<lambda>i. b64_alphabet ! i = c) [0..<64]"

lemma b64_val_char [simp]: "n < 64 \<Longrightarrow> b64_val (b64_char n) = Some n"
proof -
  have "list_all (\<lambda>n. b64_val (b64_char n) = Some n) [0..<64]"
    by code_simp
  then show "n < 64 \<Longrightarrow> b64_val (b64_char n) = Some n"
    by (simp add: list_all_iff)
qed

lemma b64_char_plain: "n < 64 \<Longrightarrow> b64_char n \<notin> set [CHR ''='', CHR 0x0A, CHR 0x0D]"
proof -
  have "list_all (\<lambda>n. b64_char n \<notin> set [CHR ''='', CHR 0x0A, CHR 0x0D]) [0..<64]"
    by code_simp
  then show "n < 64 \<Longrightarrow> b64_char n \<notin> set [CHR ''='', CHR 0x0A, CHR 0x0D]"
    by (simp add: list_all_iff)
qed

text \<open>The sextets of a group of three bytes, and the bytes of a group of four sextets.\<close>

definition sextets :: "nat \<Rightarrow> nat \<Rightarrow> nat \<Rightarrow> nat \<times> nat \<times> nat \<times> nat" where
  "sextets x y z = (x div 4, x mod 4 * 16 + y div 16, y mod 16 * 4 + z div 64, z mod 64)"

definition octets :: "nat \<Rightarrow> nat \<Rightarrow> nat \<Rightarrow> nat \<Rightarrow> nat \<times> nat \<times> nat" where
  "octets i j k l = (i * 4 + j div 16, j mod 16 * 16 + k div 4, k mod 4 * 64 + l)"

lemma sextets_less:
  assumes "sextets x y z = (i, j, k, l)" and "x < 256" and "y < 256" and "z < 256"
  shows "i < 64" "j < 64" "k < 64" "l < 64"
proof -
  have "x div 4 < 64" "y div 16 < 16" "z div 64 < 4" "x mod 4 < 4" "y mod 16 < 16" "z mod 64 < 64"
    using assms by (simp_all add: less_mult_imp_div_less)
  then have "x div 4 < 64" "x mod 4 * 16 + y div 16 < 64" "y mod 16 * 4 + z div 64 < 64" "z mod 64 < 64"
    by linarith+
  then show "i < 64" "j < 64" "k < 64" "l < 64"
    using assms(1) by (auto simp: sextets_def)
qed

lemma octets_sextets:
  assumes "sextets x y z = (i, j, k, l)" and "x < 256" and "y < 256" and "z < 256"
  shows "octets i j k l = (x, y, z)"
proof -
  have y: "y div 16 div 16 = 0" "y div 16 mod 16 = y div 16" and z: "z div 64 div 4 = 0" "z div 64 mod 4 = z div 64"
    using assms by (simp_all add: less_mult_imp_div_less)
  have "x mod 4 * 16 + y div 16 = y div 16 + x mod 4 * 16" by simp
  then have 1: "(x mod 4 * 16 + y div 16) div 16 = x mod 4" "(x mod 4 * 16 + y div 16) mod 16 = y div 16"
    using y by (simp_all del: mult.commute)
  have "y mod 16 * 4 + z div 64 = z div 64 + y mod 16 * 4" by simp
  then have 2: "(y mod 16 * 4 + z div 64) div 4 = y mod 16" "(y mod 16 * 4 + z div 64) mod 4 = z div 64"
    using z by (simp_all del: mult.commute)
  show ?thesis
    using assms(1) 1 2 by (auto simp: sextets_def octets_def)
qed

fun b64_EncodeToString :: "string \<Rightarrow> string" where
  "b64_EncodeToString [] = []"
| "b64_EncodeToString [x] =
     (case sextets (byte x) 0 0 of (i, j, _, _) \<Rightarrow> [b64_char i, b64_char j, CHR ''='', CHR ''=''])"
| "b64_EncodeToString [x, y] =
     (case sextets (byte x) (byte y) 0 of (i, j, k, _) \<Rightarrow> [b64_char i, b64_char j, b64_char k, CHR ''=''])"
| "b64_EncodeToString (x # y # z # r) =
     (case sextets (byte x) (byte y) (byte z) of
        (i, j, k, l) \<Rightarrow> [b64_char i, b64_char j, b64_char k, b64_char l] @ b64_EncodeToString r)"

text \<open>
  The decoder skips line breaks, reads quadruples of the alphabet and accepts padding in the last
  one only; bits left over before the padding are dropped, as the encoding is not strict.
\<close>

definition b64_last :: "char \<Rightarrow> char \<Rightarrow> char \<Rightarrow> char \<Rightarrow> string option" where
  "b64_last p q r s =
     (case (b64_val p, b64_val q, b64_val r, b64_val s) of
        (Some i, Some j, Some k, Some l) \<Rightarrow> (case octets i j k l of (x, y, z) \<Rightarrow> Some [char_of x, char_of y, char_of z])
      | (Some i, Some j, Some k, None) \<Rightarrow>
          if s = CHR ''='' then (case octets i j k 0 of (x, y, _) \<Rightarrow> Some [char_of x, char_of y]) else None
      | (Some i, Some j, None, None) \<Rightarrow>
          if r = CHR ''='' \<and> s = CHR ''='' then (case octets i j 0 0 of (x, _, _) \<Rightarrow> Some [char_of x]) else None
      | _ \<Rightarrow> None)"

fun b64_quads :: "string \<Rightarrow> string option" where
  "b64_quads [] = Some []"
| "b64_quads (p # q # r # s # t) =
     (if t = [] then b64_last p q r s
      else (case (b64_val p, b64_val q, b64_val r, b64_val s, b64_quads t) of
              (Some i, Some j, Some k, Some l, Some u) \<Rightarrow>
                (case octets i j k l of (x, y, z) \<Rightarrow> Some ([char_of x, char_of y, char_of z] @ u))
            | _ \<Rightarrow> None))"
| "b64_quads _ = None"

definition b64_DecodeString :: "string \<Rightarrow> string option" where
  "b64_DecodeString s = b64_quads (filter (\<lambda>c. c \<noteq> CHR 0x0A \<and> c \<noteq> CHR 0x0D) s)"

lemma b64_plain:
  "n < 64 \<Longrightarrow> b64_char n \<noteq> CHR ''=''" "n < 64 \<Longrightarrow> b64_char n \<noteq> CHR 0x0A" "n < 64 \<Longrightarrow> b64_char n \<noteq> CHR 0x0D"
  using b64_char_plain by auto

lemma b64_val_pad [simp]: "b64_val (CHR ''='') = None"
  by code_simp

lemma sextets_bytes:
  assumes "sextets (byte x) (byte y) (byte z) = (i, j, k, l)"
  shows "i < 64" "j < 64" "k < 64" "l < 64" "octets i j k l = (byte x, byte y, byte z)"
  using sextets_less [OF assms] octets_sextets [OF assms] by simp_all

lemma b64_quads_encode: "b64_quads (b64_EncodeToString b) = Some b"
proof (induction b rule: b64_EncodeToString.induct)
  case (2 x)
  obtain i j k l where s: "sextets (byte x) 0 0 = (i, j, k, l)" by (metis prod_cases4)
  then have "k = 0" "l = 0" by (auto simp: sextets_def)
  then show ?case
    using s sextets_less [OF s] octets_sextets [OF s] by (simp add: b64_last_def)
next
  case (3 x y)
  obtain i j k l where s: "sextets (byte x) (byte y) 0 = (i, j, k, l)" by (metis prod_cases4)
  then have "l = 0" by (auto simp: sextets_def)
  then show ?case
    using s sextets_less [OF s] octets_sextets [OF s] by (simp add: b64_last_def)
next
  case (4 x y z r)
  obtain i j k l where s: "sextets (byte x) (byte y) (byte z) = (i, j, k, l)" by (metis prod_cases4)
  have r: "b64_EncodeToString r = [] \<longleftrightarrow> r = []"
    by (cases r rule: b64_EncodeToString.cases) (auto split: prod.splits)
  show ?case
    using 4 s sextets_bytes [OF s] r by (simp add: b64_last_def)
qed simp

lemma b64_encode_plain:
  "filter (\<lambda>c. c \<noteq> CHR 0x0A \<and> c \<noteq> CHR 0x0D) (b64_EncodeToString b) = b64_EncodeToString b"
proof (induction b rule: b64_EncodeToString.induct)
  case (2 x)
  obtain i j k l where "sextets (byte x) 0 0 = (i, j, k, l)" by (metis prod_cases4)
  then show ?case using sextets_less [of "byte x" 0 0] by (simp add: b64_plain)
next
  case (3 x y)
  obtain i j k l where "sextets (byte x) (byte y) 0 = (i, j, k, l)" by (metis prod_cases4)
  then show ?case using sextets_less [of "byte x" "byte y" 0] by (simp add: b64_plain)
next
  case (4 x y z r)
  obtain i j k l where "sextets (byte x) (byte y) (byte z) = (i, j, k, l)" by (metis prod_cases4)
  then show ?case using 4 sextets_bytes [of x y z] by (simp add: b64_plain)
qed simp

lemma b64_Decode_Encode [simp]: "b64_DecodeString (b64_EncodeToString b) = Some b"
  by (simp add: b64_DecodeString_def b64_encode_plain b64_quads_encode)

subsection \<open>Query strings\<close>

definition upper_hex :: string where
  "upper_hex = ''0123456789ABCDEF''"

definition unreserved :: "char \<Rightarrow> bool" where
  "unreserved c \<longleftrightarrow> c \<in> set ''ABCDEFGHIJKLMNOPQRSTUVWXYZabcdefghijklmnopqrstuvwxyz0123456789-_.~''"

definition escape_char :: "char \<Rightarrow> string" where
  "escape_char c = (if unreserved c then [c] else if c = CHR '' '' then ''+''
     else [CHR ''%'', upper_hex ! (byte c div 16), upper_hex ! (byte c mod 16)])"

definition QueryEscape :: "string \<Rightarrow> string" where
  "QueryEscape s = concat (map escape_char s)"

definition unhex :: "char \<Rightarrow> nat option" where
  "unhex c = (case find (\<lambda>i. hex_digits ! i = c) [0..<16] of
                Some i \<Rightarrow> Some i
              | None \<Rightarrow> find (\<lambda>i. upper_hex ! i = c) [0..<16])"

fun QueryUnescape :: "string \<Rightarrow> string option" where
  "QueryUnescape [] = Some []"
| "QueryUnescape (c # s) =
     (if c = CHR ''%'' then
        (case s of
           a # b # r \<Rightarrow>
             (case (unhex a, unhex b, QueryUnescape r) of
                (Some i, Some j, Some u) \<Rightarrow> Some (char_of (i * 16 + j) # u)
              | _ \<Rightarrow> None)
         | _ \<Rightarrow> None)
      else map_option ((#) (if c = CHR ''+'' then CHR '' '' else c)) (QueryUnescape s))"

type_synonym query_values = "(string, string list) gomap"

definition values_Get :: "query_values \<Rightarrow> string \<Rightarrow> string" where
  "values_Get q name = (case get q name of Some (v # vs) \<Rightarrow> v | _ \<Rightarrow> [])"

definition values_Add :: "string \<times> string \<Rightarrow> query_values \<Rightarrow> query_values" where
  "values_Add kv q = put (fst kv) ((case get q (fst kv) of None \<Rightarrow> [] | Some vs \<Rightarrow> vs) @ [snd kv]) q"

definition values_Del :: "query_values \<Rightarrow> string \<Rightarrow> query_values" where
  "values_Del q name = del name q"

text \<open>One piece of a query; \<open>None\<close> is an error, \<open>Some None\<close> a piece that is skipped.\<close>

definition parse_piece :: "string \<Rightarrow> (string \<times> string) option option" where
  "parse_piece p =
     (if CHR '';'' \<in> set p then None
      else if p = [] then Some None
      else (case Cut p (CHR ''='') of
              (k, v, _) \<Rightarrow>
                (case (QueryUnescape k, QueryUnescape v) of
                   (Some k', Some v') \<Rightarrow> Some (Some (k', v'))
                 | _ \<Rightarrow> None)))"

fun parse_pieces :: "string list \<Rightarrow> query_values \<Rightarrow> query_values option" where
  "parse_pieces [] q = Some q"
| "parse_pieces (p # ps) q =
     (case parse_piece p of
        None \<Rightarrow> None
      | Some None \<Rightarrow> parse_pieces ps q
      | Some (Some kv) \<Rightarrow> parse_pieces ps (values_Add kv q))"

definition ParseQuery :: "string \<Rightarrow> query_values option" where
  "ParseQuery s = parse_pieces (split_at (CHR ''&'') s) []"

definition pair_piece :: "string \<times> string \<Rightarrow> string" where
  "pair_piece kv = QueryEscape (fst kv) @ ''='' @ QueryEscape (snd kv)"

definition values_pairs :: "query_values \<Rightarrow> (string \<times> string) list" where
  "values_pairs q =
     concat (map (\<lambda>k. map (Pair k) (case get q k of None \<Rightarrow> [] | Some vs \<Rightarrow> vs)) (sort (keys q)))"

definition values_Encode :: "query_values \<Rightarrow> string" where
  "values_Encode q = Join (map pair_piece (values_pairs q)) ''&''"

subsubsection \<open>Escaping is undone by unescaping\<close>

lemma unhex_upper: "n < 16 \<Longrightarrow> unhex (upper_hex ! n) = Some n"
proof -
  have "list_all (\<lambda>n. unhex (upper_hex ! n) = Some n) [0..<16]"
    by code_simp
  then show "n < 16 \<Longrightarrow> unhex (upper_hex ! n) = Some n"
    by (simp add: list_all_iff)
qed

lemma QueryUnescape_escape_char: "QueryUnescape (escape_char c @ s) = map_option ((#) c) (QueryUnescape s)"
proof (cases "unreserved c")
  case True
  then have "c \<noteq> CHR ''%''" "c \<noteq> CHR ''+''" by (auto simp: unreserved_def)
  then show ?thesis using True by (simp add: escape_char_def)
next
  case False
  have "byte c div 16 < 16" by (simp add: less_mult_imp_div_less)
  then show ?thesis
    using False by (auto simp: escape_char_def unhex_upper split: option.splits)
qed

lemma QueryUnescape_Escape [simp]: "QueryUnescape (QueryEscape s) = Some s"
  by (induction s) (simp_all add: QueryEscape_def QueryUnescape_escape_char)

lemma escape_char_clean: "set (escape_char c) \<inter> set ''&=;'' = {}"
proof -
  have u: "\<And>n. n < 16 \<Longrightarrow> upper_hex ! n \<notin> set ''&=;''"
  proof -
    fix n :: nat
    have "list_all (\<lambda>n. upper_hex ! n \<notin> set ''&=;'') [0..<16]" by code_simp
    then show "n < 16 \<Longrightarrow> upper_hex ! n \<notin> set ''&=;''" by (simp add: list_all_iff)
  qed
  have "byte c div 16 < 16" by (simp add: less_mult_imp_div_less)
  then show ?thesis
    using u [of "byte c div 16"] u [of "byte c mod 16"] by (auto simp: escape_char_def unreserved_def)
qed

lemma QueryEscape_clean: "c \<in> set ''&=;'' \<Longrightarrow> c \<notin> set (QueryEscape s)"
  using escape_char_clean by (fastforce simp: QueryEscape_def)

lemma pair_piece_clean: "CHR ''&'' \<notin> set (pair_piece kv)" "CHR '';'' \<notin> set (pair_piece kv)"
  by (simp_all add: pair_piece_def QueryEscape_clean)

lemma parse_pair_piece: "parse_piece (pair_piece kv) = Some (Some kv)"
proof -
  have "CHR ''='' \<notin> set (QueryEscape (fst kv))" by (simp add: QueryEscape_clean)
  then have "Cut (pair_piece kv) (CHR ''='') = (QueryEscape (fst kv), QueryEscape (snd kv), True)"
    by (simp add: pair_piece_def)
  moreover have "pair_piece kv \<noteq> []" by (simp add: pair_piece_def)
  ultimately show ?thesis
    using pair_piece_clean(2) [of kv] by (simp add: parse_piece_def)
qed

lemma parse_pair_pieces: "parse_pieces (map pair_piece kvs) q = Some (fold values_Add kvs q)"
  by (induction kvs arbitrary: q) (simp_all add: parse_pair_piece)

lemma ParseQuery_Encode: "ParseQuery (values_Encode q) = Some (fold values_Add (values_pairs q) [])"
proof (cases "values_pairs q = []")
  case True
  then show ?thesis by (simp add: ParseQuery_def values_Encode_def parse_piece_def)
next
  case False
  have "split_at (CHR ''&'') (values_Encode q) = map pair_piece (values_pairs q)"
    unfolding values_Encode_def
    by (rule split_Join) (use False in \<open>auto simp: list_all_iff pair_piece_clean\<close>)
  then show ?thesis
    by (simp add: ParseQuery_def parse_pair_pieces)
qed

lemma values_Add_group:
  "get (fold values_Add (map (Pair k) vs) q) j =
     (if j = k \<and> vs \<noteq> [] then Some ((case get q k of None \<Rightarrow> [] | Some us \<Rightarrow> us) @ vs) else get q j)"
  by (induction vs arbitrary: q) (auto simp: values_Add_def gomap.rd_wr split: option.splits)

lemma values_Add_groups:
  "distinct ks \<Longrightarrow> get (fold values_Add (concat (map (\<lambda>k. map (Pair k) (f k)) ks)) q) j =
     (if j \<in> set ks \<and> f j \<noteq> [] then Some ((case get q j of None \<Rightarrow> [] | Some us \<Rightarrow> us) @ f j) else get q j)"
  by (induction ks arbitrary: q) (auto simp: values_Add_group)

text \<open>Encoding and parsing again keeps what \<open>Get\<close> returns for every name.\<close>

lemma values_roundtrip:
  assumes "distinct_keys q"
  obtains q' where "ParseQuery (values_Encode q) = Some q'" and "\<And>n. values_Get q' n = values_Get q n"
proof
  show "ParseQuery (values_Encode q) = Some (fold values_Add (values_pairs q) [])"
    by (rule ParseQuery_Encode)
  fix n
  have "distinct (sort (keys q))"
    using assms by (simp add: distinct_keys_def)
  then have "get (fold values_Add (values_pairs q) []) n =
      (if n \<in> set (keys q) \<and> (case get q n of None \<Rightarrow> [] | Some vs \<Rightarrow> vs) \<noteq> []
       then Some (case get q n of None \<Rightarrow> [] | Some vs \<Rightarrow> vs) else None)"
    unfolding values_pairs_def by (subst values_Add_groups) simp_all
  moreover have "n \<in> set (keys q) \<longleftrightarrow> get q n \<noteq> None"
    using weak_map_of_SomeI [of n _ q] by (auto simp: map_of_eq_None_iff)
  ultimately show "values_Get (fold values_Add (values_pairs q) []) n = values_Get q n"
    by (cases "get q n") (auto simp: values_Get_def split: list.splits)
qed

lemma parse_pieces_distinct: "parse_pieces ps q = Some q' \<Longrightarrow> distinct_keys q \<Longrightarrow> distinct_keys q'"
  by (induction ps arbitrary: q) (auto simp: values_Add_def gomap.wf_wr split: option.splits)

lemma ParseQuery_distinct: "ParseQuery s = Some q \<Longrightarrow> distinct_keys q"
  unfolding ParseQuery_def by (erule parse_pieces_distinct) (simp add: distinct_keys_def)

lemma values_Get_Del: "values_Get (values_Del q name) n = (if n = name then [] else values_Get q n)"
  by (simp add: values_Get_def values_Del_def gomap.rd_rm)

end
