(* ===== verification/External.thy ===== *)
theory External
  imports Go_Encoding
begin

text \<open>
  What the session components call outside the repository, as parameters of their definitions:

  \<^item> the Secrets of one namespace behind the Kubernetes API: a record of the five calls the code makes,
    over a state of any type (the cluster). A call may fail with any error, and the state it returns
    may hold the writes of other clients. The predicates below name what the code relies on;
  \<^item> the JWT library: \<open>SignedString\<close> and \<open>ParseWithClaims\<close> with the parser options the code sets;
  \<^item> \<open>crypto/rand\<close>: a list of the values it returns, \<open>None\<close> for a failed read.
\<close>

subsection \<open>The Kubernetes API\<close>

text \<open>\<open>Msg\<close> is an error the calling code makes itself; a wrapped error keeps the kind of its cause.\<close>

datatype kerror = NotFound | AlreadyExists | Conflict | Unavailable | Msg string

record secret =
  secName :: string
  secLabels :: "(string, string) gomap"
  secData :: "(string, string) gomap"

text \<open>A selector is a list of required labels; \<open>None\<close> requires that the label is set.\<close>

type_synonym selector = "(string \<times> string option) list"

definition selects :: "selector \<Rightarrow> secret \<Rightarrow> bool" where
  "selects sel s = list_all (\<lambda>(l, v). case v of None \<Rightarrow> get (secLabels s) l \<noteq> None
                                          | Some x \<Rightarrow> get (secLabels s) l = Some x) sel"

record 'k client =
  cGet :: "string \<Rightarrow> 'k \<Rightarrow> (kerror + secret) \<times> 'k"
  cCreate :: "secret \<Rightarrow> 'k \<Rightarrow> (kerror + unit) \<times> 'k"
  cUpdate :: "secret \<Rightarrow> 'k \<Rightarrow> (kerror + unit) \<times> 'k"
  cDelete :: "string \<Rightarrow> 'k \<Rightarrow> (kerror + unit) \<times> 'k"
  cList :: "selector \<Rightarrow> 'k \<Rightarrow> (kerror + secret list) \<times> 'k"

type_synonym 'k stored = "'k \<Rightarrow> string \<Rightarrow> secret option"

text \<open>A read answers what is stored when it is served.\<close>

definition reads_stored :: "'k client \<Rightarrow> 'k stored \<Rightarrow> bool" where
  "reads_stored api st \<longleftrightarrow>
     (\<forall>n k s k'. cGet api n k = (Inr s, k') \<longrightarrow> st k' n = Some s \<and> secName s = n) \<and>
     (\<forall>n k k'. cGet api n k = (Inl NotFound, k') \<longrightarrow> st k' n = None)"

text \<open>A list answers every stored object that the selector matches.\<close>

definition lists_stored :: "'k client \<Rightarrow> 'k stored \<Rightarrow> bool" where
  "lists_stored api st \<longleftrightarrow>
     (\<forall>sel k l k'. cList api sel k = (Inr l, k') \<longrightarrow>
        (\<forall>s. s \<in> set l \<longleftrightarrow> selects sel s \<and> st k' (secName s) = Some s))"

text \<open>A create succeeds only on a free name, and stores the object.\<close>

definition creates_once :: "'k client \<Rightarrow> 'k stored \<Rightarrow> bool" where
  "creates_once api st \<longleftrightarrow>
     (\<forall>s k k'. cCreate api s k = (Inr (), k') \<longrightarrow> st k (secName s) = None \<and> st k' (secName s) = Some s)"

text \<open>An update that succeeds stores the object.\<close>

definition updates_stored :: "'k client \<Rightarrow> 'k stored \<Rightarrow> bool" where
  "updates_stored api st \<longleftrightarrow>
     (\<forall>s k k'. cUpdate api s k = (Inr (), k') \<longrightarrow> st k' (secName s) = Some s)"

lemma reads_storedD:
  "reads_stored api st \<Longrightarrow> cGet api n k = (Inr s, k') \<Longrightarrow> st k' n = Some s"
  "reads_stored api st \<Longrightarrow> cGet api n k = (Inl NotFound, k') \<Longrightarrow> st k' n = None"
  "reads_stored api st \<Longrightarrow> cGet api n k = (Inr s, k') \<Longrightarrow> secName s = n"
  unfolding reads_stored_def by blast+

lemma lists_storedD:
  "lists_stored api st \<Longrightarrow> cList api sel k = (Inr l, k') \<Longrightarrow>
     s \<in> set l \<longleftrightarrow> selects sel s \<and> st k' (secName s) = Some s"
  unfolding lists_stored_def by blast

lemma creates_onceD:
  "creates_once api st \<Longrightarrow> cCreate api s k = (Inr (), k') \<Longrightarrow> st k (secName s) = None"
  "creates_once api st \<Longrightarrow> cCreate api s k = (Inr (), k') \<Longrightarrow> st k' (secName s) = Some s"
  unfolding creates_once_def by blast+

lemma updates_storedD:
  "updates_stored api st \<Longrightarrow> cUpdate api s k = (Inr (), k') \<Longrightarrow> st k' (secName s) = Some s"
  unfolding updates_stored_def by blast

text \<open>
  A cluster that serves every call from one table of Secrets. It shows that the four predicates can
  hold, and the examples run on it.
\<close>

type_synonym table = "(string, secret) gomap"

definition table_stored :: "table stored" where
  "table_stored k n = (case get k n of None \<Rightarrow> None | Some s \<Rightarrow> if secName s = n then Some s else None)"

definition table_client :: "table client" where
  "table_client =
     \<lparr>cGet = (\<lambda>n k. (case table_stored k n of None \<Rightarrow> Inl NotFound | Some s \<Rightarrow> Inr s, k)),
      cCreate = (\<lambda>s k. if table_stored k (secName s) = None then (Inr (), put (secName s) s k) else (Inl AlreadyExists, k)),
      cUpdate = (\<lambda>s k. if table_stored k (secName s) = None then (Inl NotFound, k) else (Inr (), put (secName s) s k)),
      cDelete = (\<lambda>n k. if table_stored k n = None then (Inl NotFound, k) else (Inr (), del n k)),
      cList = (\<lambda>sel k. (Inr (filter (\<lambda>s. selects sel s \<and> table_stored k (secName s) = Some s) (map snd k)), k))\<rparr>"

lemma table_stored_put: "table_stored (put (secName s) s k) n = (if n = secName s then Some s else table_stored k n)"
  by (simp add: table_stored_def update_conv')

lemma table_stored_del: "table_stored (del m k) n = (if n = m then None else table_stored k n)"
  by (simp add: table_stored_def delete_conv')

lemma table_reads: "reads_stored table_client table_stored"
  by (auto simp: reads_stored_def table_client_def table_stored_def split: option.splits if_splits)

lemma table_lists: "lists_stored table_client table_stored"
proof -
  have "table_stored k n = Some s \<Longrightarrow> s \<in> snd ` set k" for k :: table and n s
    using map_of_SomeD [of k n s] by (force simp: table_stored_def split: option.splits if_splits)
  then show ?thesis
    by (auto simp: lists_stored_def table_client_def)
qed

lemma table_creates: "creates_once table_client table_stored"
  by (auto simp: creates_once_def table_client_def table_stored_put split: if_splits)

lemma table_updates: "updates_stored table_client table_stored"
  by (auto simp: updates_stored_def table_client_def table_stored_put split: if_splits)

subsection \<open>Retries\<close>

text \<open>
  \<open>retry.RetryOnConflict\<close> with its back-off is a parameter \<open>retry\<close>: it runs an attempt one or more
  times and returns what one of them answered.
\<close>

type_synonym ('s, 'a) attempt_fun = "'s \<Rightarrow> (kerror + 'a) \<times> 's"
type_synonym ('s, 'a) retrier = "('s, 'a) attempt_fun \<Rightarrow> ('s, 'a) attempt_fun"

definition runs_attempts :: "('s, 'a) retrier \<Rightarrow> bool" where
  "runs_attempts retry \<longleftrightarrow> (\<forall>f s x s'. retry f s = (Inr x, s') \<longrightarrow> (\<exists>s1. f s1 = (Inr x, s')))"

lemma runs_attemptsE:
  assumes "runs_attempts retry" and "retry f s = (Inr x, s')"
  obtains s1 where "f s1 = (Inr x, s')"
  using assms unfolding runs_attempts_def by blast

text \<open>The documented back-off: a conflict is tried again, up to a number of steps.\<close>

fun retry_steps :: "nat \<Rightarrow> ('s, 'a) retrier" where
  "retry_steps 0 f s = f s"
| "retry_steps (Suc n) f s =
     (case f s of
        (Inl Conflict, s') \<Rightarrow> retry_steps n f s'
      | r \<Rightarrow> r)"

lemma retry_steps_ok: "retry_steps n f s = (Inr x, s') \<Longrightarrow> \<exists>s1. f s1 = (Inr x, s')"
  by (induction n f s rule: retry_steps.induct) (auto split: prod.splits sum.splits kerror.splits)

lemma retry_steps_runs: "runs_attempts (retry_steps n)"
  unfolding runs_attempts_def by (intro allI impI) (rule retry_steps_ok)

subsection \<open>JSON web tokens\<close>

text \<open>
  The registered claims; a date is a whole number of seconds, as \<open>jwt.NewNumericDate\<close> truncates it.
  The claims of a component extend this record.
\<close>

record RegisteredClaims =
  cIssuer :: string
  cSubject :: string
  cAudience :: "string list"
  cExpiresAt :: "time option"
  cNotBefore :: "time option"
  cIssuedAt :: "time option"
  cID :: string

definition Truncate_second :: "time \<Rightarrow> time" where
  "Truncate_second t = t div second * second"

abbreviation NewNumericDate :: "time \<Rightarrow> time" where
  "NewNumericDate \<equiv> Truncate_second"

lemma Truncate_bounds: "Truncate_second t \<le> t" "t < Truncate_second t + second"
proof -
  have "0 \<le> t mod second" "t mod second < second" by (simp_all add: second_def)
  moreover have "Truncate_second t = t - t mod second"
    by (simp add: Truncate_second_def minus_mod_eq_div_mult)
  ultimately show "Truncate_second t \<le> t" "t < Truncate_second t + second" by simp_all
qed

lemma Truncate_idem [simp]: "Truncate_second (Truncate_second t) = Truncate_second t"
  by (simp add: Truncate_second_def second_def)

text \<open>The options of \<open>jwt.NewParser\<close> that the components set; the method is always pinned to HS256.\<close>

record parser_options =
  poMethod :: string
  poIssuer :: string
  poSubject :: "string option"
  poAudience :: string
  poLeeway :: duration
  poNow :: time

text \<open>
  What \<open>ParseWithClaims\<close> checks of the claims under these options: the expiry is required, and it,
  the issue time and the start of validity are compared with the leeway.
\<close>

definition claims_valid :: "parser_options \<Rightarrow> 'a RegisteredClaims_scheme \<Rightarrow> bool" where
  "claims_valid opt c \<longleftrightarrow>
     cIssuer c = poIssuer opt \<and>
     (case poSubject opt of None \<Rightarrow> True | Some s \<Rightarrow> cSubject c = s) \<and>
     poAudience opt \<in> set (cAudience c) \<and>
     (case cExpiresAt c of None \<Rightarrow> False | Some t \<Rightarrow> poNow opt < t + poLeeway opt) \<and>
     (case cIssuedAt c of None \<Rightarrow> True | Some t \<Rightarrow> t - poLeeway opt \<le> poNow opt) \<and>
     (case cNotBefore c of None \<Rightarrow> True | Some t \<Rightarrow> t - poLeeway opt \<le> poNow opt)"

text \<open>
  \<open>sign kid key c\<close> is \<open>SignedString\<close> with the key id in the header; \<open>parse opt key_of tok\<close> is
  \<open>ParseWithClaims\<close>, which asks \<open>key_of\<close> for the key of the id it finds (\<open>''''\<close> when there is none).
\<close>

type_synonym 'c signer = "string \<Rightarrow> string \<Rightarrow> 'c \<Rightarrow> string option"
type_synonym 'c parser = "parser_options \<Rightarrow> (string \<Rightarrow> string option) \<Rightarrow> string \<Rightarrow> 'c option"

text \<open>The library accepts no token whose claims fail the options, and none without a key.\<close>

definition checks_claims :: "'a RegisteredClaims_scheme parser \<Rightarrow> bool" where
  "checks_claims parse \<longleftrightarrow>
     (\<forall>opt key_of tok c. parse opt key_of tok = Some c \<longrightarrow> claims_valid opt c \<and> (\<exists>kid key. key_of kid = Some key))"

text \<open>
  \<open>tok\<close> was signed with key id \<open>kid\<close>, key \<open>key\<close> and claims \<open>c\<close>: under the same key it parses to its
  claims exactly when the options hold, and without a key for its id it never parses.
\<close>

definition signed_token :: "'a RegisteredClaims_scheme parser \<Rightarrow> string \<Rightarrow> string \<Rightarrow> string \<Rightarrow> 'a RegisteredClaims_scheme \<Rightarrow> bool" where
  "signed_token parse tok kid key c \<longleftrightarrow>
     tok \<noteq> [] \<and>
     (\<forall>opt key_of. key_of kid = Some key \<longrightarrow> parse opt key_of tok = (if claims_valid opt c then Some c else None)) \<and>
     (\<forall>opt key_of. key_of kid = None \<longrightarrow> parse opt key_of tok = None)"

lemma signed_tokenD:
  "signed_token parse tok kid key c \<Longrightarrow> key_of kid = Some key \<Longrightarrow>
     parse opt key_of tok = (if claims_valid opt c then Some c else None)"
  "signed_token parse tok kid key c \<Longrightarrow> key_of kid = None \<Longrightarrow> parse opt key_of tok = None"
  "signed_token parse tok kid key c \<Longrightarrow> tok \<noteq> []"
  unfolding signed_token_def by blast+

text \<open>
  A library that has signed a single token \<open>tok\<close> and accepts nothing else. It shows that the
  predicates can hold.
\<close>

definition one_token :: "string \<Rightarrow> string \<Rightarrow> string \<Rightarrow> 'a RegisteredClaims_scheme \<Rightarrow> 'a RegisteredClaims_scheme parser" where
  "one_token tok kid key c opt key_of s =
     (if s = tok \<and> key_of kid = Some key \<and> claims_valid opt c then Some c else None)"

lemma one_token_signed: "tok \<noteq> [] \<Longrightarrow> signed_token (one_token tok kid key c) tok kid key c"
  by (simp add: signed_token_def one_token_def)

lemma one_token_checks: "checks_claims (one_token tok kid key c)"
  by (auto simp: checks_claims_def one_token_def split: if_splits)

subsection \<open>Randomness\<close>

type_synonym random = "string option list"

definition rand_Read :: "random \<Rightarrow> string option \<times> random" where
  "rand_Read r = (case r of [] \<Rightarrow> (None, []) | x # xs \<Rightarrow> (x, xs))"

end
