(* ===== verification/Share.thy ===== *)
theory Share
  imports External
begin

text \<open>
  Share links for service UIs, \<^verbatim>\<open>src/console-api/share\<close>: the two-slot signing keyring
  (\<open>keyring.go\<close>, \<open>key.go\<close>), its trust cache (\<open>keycache.go\<close>), the tokens (\<open>token.go\<close>) and the stored
  grants with their cache (\<open>grants.go\<close>).

  Parameters: \<open>api\<close> (the Secrets of \<open>kipper-system\<close>), \<open>retry\<close>, \<open>sign\<close> and \<open>parse\<close> (the JWT library),
  \<open>enc\<close> and \<open>dec\<close> (the JSON coding of a grant), the clock \<open>now\<close> and the random values.
\<close>

subsection \<open>The keyring\<close>

definition SigningSecretName :: string where
  "SigningSecretName = ''kipper-share-signing''"

definition slotCurrent :: string where
  "slotCurrent = ''current''"

definition slotPrevious :: string where
  "slotPrevious = ''previous''"

record Keyring =
  CurrentKID :: string
  CurrentKey :: string
  PreviousKID :: string
  PreviousKey :: string

definition KeyFor :: "Keyring \<Rightarrow> string \<Rightarrow> string option" where
  "KeyFor k kid =
     (if kid = [] then None
      else if kid = CurrentKID k then Some (CurrentKey k)
      else if kid = PreviousKID k then Some (PreviousKey k)
      else None)"

definition newKID :: "random \<Rightarrow> string option \<times> random" where
  "newKID r = (case rand_Read r of (b, r') \<Rightarrow> (map_option hex_EncodeToString b, r'))"

definition newKey :: "random \<Rightarrow> string option \<times> random" where
  "newKey r = rand_Read r"

definition encodeSlot :: "string \<Rightarrow> string \<Rightarrow> string" where
  "encodeSlot kid key = kid @ '':'' @ b64_EncodeToString key"

definition malformed_slot :: kerror where
  "malformed_slot = Msg ''share: malformed key slot''"

definition decodeSlot :: "string \<Rightarrow> kerror + (string \<times> string)" where
  "decodeSlot raw =
     (case Cut raw (CHR '':'') of
        (kid, encoded, found) \<Rightarrow>
          if \<not> found \<or> kid = [] then Inl malformed_slot
          else (case b64_DecodeString encoded of
                  None \<Rightarrow> Inl malformed_slot
                | Some key \<Rightarrow> if length key \<noteq> 32 then Inl malformed_slot else Inr (kid, key)))"

text \<open>A missing key of a Go map reads as the empty value.\<close>

definition data_at :: "(string, string) gomap \<Rightarrow> string \<Rightarrow> string" where
  "data_at d k = (case get d k of None \<Rightarrow> [] | Some v \<Rightarrow> v)"

definition parseKeyring :: "(string, string) gomap \<Rightarrow> kerror + Keyring" where
  "parseKeyring data =
     (case decodeSlot (data_at data slotCurrent) of
        Inl e \<Rightarrow> Inl e
      | Inr (kid, key) \<Rightarrow>
          let kr = \<lparr>CurrentKID = kid, CurrentKey = key, PreviousKID = [], PreviousKey = []\<rparr>;
              prev = data_at data slotPrevious
          in if prev \<noteq> [] then
               (case decodeSlot prev of
                  Inl e \<Rightarrow> Inl e
                | Inr (pkid, pkey) \<Rightarrow>
                    if pkid = kid then Inl (Msg ''share: signing secret slots share a key id'')
                    else Inr (kr\<lparr>PreviousKID := pkid, PreviousKey := pkey\<rparr>))
             else Inr kr)"

definition managedLabels :: "(string, string) gomap" where
  "managedLabels = [(''app.kubernetes.io/managed-by'', ''kipper'')]"

definition signingSecret :: "(string, string) gomap \<Rightarrow> secret" where
  "signingSecret data = \<lparr>secName = SigningSecretName, secLabels = managedLabels, secData = data\<rparr>"

text \<open>A fresh key id and key, with the errors of \<open>rand.Read\<close>.\<close>

definition newPair :: "random \<Rightarrow> (kerror + (string \<times> string)) \<times> random" where
  "newPair r =
     (case newKID r of
        (None, r1) \<Rightarrow> (Inl (Msg ''share: generating key id''), r1)
      | (Some kid, r1) \<Rightarrow>
          (case newKey r1 of
             (None, r2) \<Rightarrow> (Inl (Msg ''share: generating signing key''), r2)
           | (Some key, r2) \<Rightarrow> (Inr (kid, key), r2)))"

definition load_attempt :: "'k client \<Rightarrow> ('k \<times> random, Keyring) attempt_fun" where
  "load_attempt api kr =
     (case kr of (k, r) \<Rightarrow>
        (case cGet api SigningSecretName k of
           (Inl NotFound, k1) \<Rightarrow>
             (case newPair r of
                (Inl e, r1) \<Rightarrow> (Inl e, k1, r1)
              | (Inr (kid, key), r1) \<Rightarrow>
                  (case cCreate api (signingSecret [(slotCurrent, encodeSlot kid key)]) k1 of
                     (Inl e, k2) \<Rightarrow> (Inl (if e = AlreadyExists then Conflict else e), k2, r1)
                   | (Inr _, k2) \<Rightarrow>
                       (Inr \<lparr>CurrentKID = kid, CurrentKey = key, PreviousKID = [], PreviousKey = []\<rparr>, k2, r1)))
         | (Inl e, k1) \<Rightarrow> (Inl e, k1, r)
         | (Inr s, k1) \<Rightarrow>
             if data_at (secData s) slotCurrent = [] then (Inl (Msg ''share: signing secret has no current slot''), k1, r)
             else (parseKeyring (secData s), k1, r)))"

definition LoadOrCreateKeyring :: "('k \<times> random, Keyring) retrier \<Rightarrow> 'k client \<Rightarrow> ('k \<times> random, Keyring) attempt_fun" where
  "LoadOrCreateKeyring retry api s = retry (load_attempt api) s"

definition rotated :: "string \<Rightarrow> string \<Rightarrow> (string, string) gomap \<Rightarrow> (string, string) gomap" where
  "rotated kid key data =
     put slotCurrent (encodeSlot kid key) (put slotPrevious (data_at data slotCurrent) data)"

definition rotate_attempt :: "'k client \<Rightarrow> ('k \<times> random, Keyring) attempt_fun" where
  "rotate_attempt api kr =
     (case kr of (k, r) \<Rightarrow>
        (case cGet api SigningSecretName k of
           (Inl e, k1) \<Rightarrow> (Inl e, k1, r)
         | (Inr s, k1) \<Rightarrow>
             if data_at (secData s) slotCurrent = [] then (Inl (Msg ''share: signing secret has no current key to rotate''), k1, r)
             else
               (case newPair r of
                  (Inl e, r1) \<Rightarrow> (Inl e, k1, r1)
                | (Inr (kid, key), r1) \<Rightarrow>
                    let s' = s\<lparr>secData := rotated kid key (secData s)\<rparr>
                    in (case cUpdate api s' k1 of
                          (Inl e, k2) \<Rightarrow> (Inl e, k2, r1)
                        | (Inr _, k2) \<Rightarrow> (parseKeyring (secData s'), k2, r1)))))"

definition RotateKeyring :: "('k \<times> random, Keyring) retrier \<Rightarrow> 'k client \<Rightarrow> ('k \<times> random, Keyring) attempt_fun" where
  "RotateKeyring retry api s =
     (case LoadOrCreateKeyring retry api s of
        (Inl e, s1) \<Rightarrow> (Inl e, s1)
      | (Inr _, s1) \<Rightarrow> retry (rotate_attempt api) s1)"

subsection \<open>The key cache\<close>

definition LoadKeyring :: "'k client \<Rightarrow> 'k \<Rightarrow> (kerror + Keyring) \<times> 'k" where
  "LoadKeyring api k =
     (case cGet api SigningSecretName k of
        (Inl e, k1) \<Rightarrow> (Inl e, k1)
      | (Inr s, k1) \<Rightarrow> (parseKeyring (secData s), k1))"

text \<open>The cache; an unset instant is \<open>None\<close>, and no clock value lies before it.\<close>

record KeyCache =
  kcTTL :: duration
  kcRing :: "Keyring option"
  kcOk :: bool
  kcValidThru :: "time option"
  kcRetryAt :: "time option"

definition before :: "time \<Rightarrow> time option \<Rightarrow> bool" where
  "before now t = (case t of None \<Rightarrow> False | Some u \<Rightarrow> now < u)"

definition NewKeyCache :: "duration \<Rightarrow> KeyCache" where
  "NewKeyCache ttl = \<lparr>kcTTL = ttl, kcRing = None, kcOk = False, kcValidThru = None, kcRetryAt = None\<rparr>"

definition currentLocked :: "KeyCache \<Rightarrow> time \<Rightarrow> Keyring option" where
  "currentLocked c now = (if kcOk c \<and> before now (kcValidThru c) then kcRing c else None)"

definition note_load :: "time \<Rightarrow> kerror + Keyring \<Rightarrow> KeyCache \<Rightarrow> KeyCache" where
  "note_load now res c =
     (case res of
        Inr kr \<Rightarrow> c\<lparr>kcRing := Some kr, kcOk := True, kcValidThru := Some (now + kcTTL c), kcRetryAt := None\<rparr>
      | Inl NotFound \<Rightarrow> c\<lparr>kcRing := None, kcOk := False, kcValidThru := None, kcRetryAt := Some (now + kcTTL c)\<rparr>
      | Inl _ \<Rightarrow> c\<lparr>kcRetryAt := Some (now + kcTTL c)\<rparr>)"

definition KeyCache_Get :: "'k client \<Rightarrow> time \<Rightarrow> KeyCache \<times> 'k \<Rightarrow> Keyring option \<times> KeyCache \<times> 'k" where
  "KeyCache_Get api now ck =
     (case ck of (c, k) \<Rightarrow>
        if kcOk c \<and> before now (kcValidThru c) then (kcRing c, c, k)
        else if before now (kcRetryAt c) then (currentLocked c now, c, k)
        else (case LoadKeyring api k of
                (res, k1) \<Rightarrow> let c1 = note_load now res c in (currentLocked c1 now, c1, k1)))"

subsection \<open>Grants\<close>

definition GrantVersion :: int where
  "GrantVersion = 1"

definition MaxGrantsPerService :: nat where
  "MaxGrantsPerService = 20"

definition grantCacheTTL :: duration where
  "grantCacheTTL = 15 * second"

definition grantSecretPrefix :: string where
  "grantSecretPrefix = ''kipper-share-''"

definition grantField :: string where
  "grantField = ''grant''"

definition GrantLabel :: string where
  "GrantLabel = ''kipper.run/share''"

definition GrantServiceLabel :: string where
  "GrantServiceLabel = ''kipper.run/share-service''"

definition GrantNamespaceLabel :: string where
  "GrantNamespaceLabel = ''kipper.run/share-namespace''"

definition jtiPattern :: "string \<Rightarrow> bool" where
  "jtiPattern jti \<longleftrightarrow> length jti = 32 \<and> list_all (\<lambda>c. c \<in> set hex_digits) jti"

record Grant =
  gV :: int
  gJTI :: string
  gServiceUID :: string
  gService :: string
  gNamespace :: string
  gHost :: string
  gLabel :: string
  gCreatedBy :: string
  gCreatedAt :: time
  gExpiresAt :: time

type_synonym grant_enc = "Grant \<Rightarrow> string"
type_synonym grant_dec = "string \<Rightarrow> Grant option"

record grantCacheEntry =
  geGrant :: "Grant option"
  geFetchedAt :: time

record GrantStore =
  gsCache :: "(string, grantCacheEntry) gomap"

definition NewGrantStore :: GrantStore where
  "NewGrantStore = \<lparr>gsCache = []\<rparr>"

definition grantSecretName :: "string \<Rightarrow> string" where
  "grantSecretName jti = grantSecretPrefix @ jti"

definition grantLabels :: "Grant \<Rightarrow> (string, string) gomap" where
  "grantLabels g = [(''app.kubernetes.io/managed-by'', ''kipper''), (GrantLabel, ''true''),
     (GrantServiceLabel, gService g), (GrantNamespaceLabel, gNamespace g)]"

definition serviceSelector :: "string \<Rightarrow> string \<Rightarrow> selector" where
  "serviceSelector namespace service =
     [(GrantLabel, Some ''true''), (GrantServiceLabel, Some service), (GrantNamespaceLabel, Some namespace)]"

definition jtiFromSecretName :: "string \<Rightarrow> string option" where
  "jtiFromSecretName name =
     (if length name \<le> length grantSecretPrefix then None
      else let jti = drop (length grantSecretPrefix) name in if jtiPattern jti then Some jti else None)"

definition parseGrant :: "grant_dec \<Rightarrow> secret \<Rightarrow> string \<Rightarrow> Grant option" where
  "parseGrant dec s jti =
     (case dec (data_at (secData s) grantField) of
        None \<Rightarrow> None
      | Some g \<Rightarrow>
          if gV g \<noteq> GrantVersion \<or> gJTI g \<noteq> jti then None
          else if gServiceUID g = [] \<or> gService g = [] \<or> gNamespace g = [] \<or> gHost g = [] then None
          else Some g)"

definition liveGrant :: "Grant option \<Rightarrow> time \<Rightarrow> Grant option" where
  "liveGrant g now = (case g of None \<Rightarrow> None | Some x \<Rightarrow> if gExpiresAt x < now then None else Some x)"

definition fetch :: "grant_dec \<Rightarrow> 'k client \<Rightarrow> string \<Rightarrow> 'k \<Rightarrow> Grant option \<times> 'k" where
  "fetch dec api jti k =
     (case cGet api (grantSecretName jti) k of
        (Inl _, k1) \<Rightarrow> (None, k1)
      | (Inr s, k1) \<Rightarrow> (parseGrant dec s jti, k1))"

definition forget :: "string \<Rightarrow> GrantStore \<Rightarrow> GrantStore" where
  "forget jti s = s\<lparr>gsCache := del jti (gsCache s)\<rparr>"

definition forgetAll :: "GrantStore \<Rightarrow> GrantStore" where
  "forgetAll s = s\<lparr>gsCache := []\<rparr>"

text \<open>The cached answer, when the entry is younger than the TTL.\<close>

definition cached_grant :: "time \<Rightarrow> string \<Rightarrow> GrantStore \<Rightarrow> Grant option option" where
  "cached_grant now jti s =
     (case get (gsCache s) jti of
        None \<Rightarrow> None
      | Some e \<Rightarrow> if time_Sub now (geFetchedAt e) < grantCacheTTL then Some (geGrant e) else None)"

definition cache_grant :: "time \<Rightarrow> string \<Rightarrow> Grant option \<Rightarrow> GrantStore \<Rightarrow> GrantStore" where
  "cache_grant now jti g s =
     s\<lparr>gsCache := filter (\<lambda>(j, e). \<not> grantCacheTTL \<le> time_Sub now (geFetchedAt e))
        (put jti \<lparr>geGrant = g, geFetchedAt = now\<rparr> (gsCache s))\<rparr>"

definition GrantStore_Get :: "grant_dec \<Rightarrow> 'k client \<Rightarrow> time \<Rightarrow> string \<Rightarrow> GrantStore \<times> 'k \<Rightarrow> Grant option \<times> GrantStore \<times> 'k" where
  "GrantStore_Get dec api now jti sk =
     (case sk of (s, k) \<Rightarrow>
        if \<not> jtiPattern jti then (None, s, k)
        else (case cached_grant now jti s of
                Some g \<Rightarrow> (liveGrant g now, s, k)
              | None \<Rightarrow>
                  (case fetch dec api jti k of
                     (g, k1) \<Rightarrow> (liveGrant g now, cache_grant now jti g s, k1))))"

text \<open>Deletes every name in turn, and stops at an error other than \<open>NotFound\<close>.\<close>

fun delete_all :: "'k client \<Rightarrow> string list \<Rightarrow> 'k \<Rightarrow> kerror option \<times> 'k" where
  "delete_all api [] k = (None, k)"
| "delete_all api (n # ns) k =
     (case cDelete api n k of
        (Inl e, k1) \<Rightarrow> if e = NotFound then delete_all api ns k1 else (Some e, k1)
      | (Inr _, k1) \<Rightarrow> delete_all api ns k1)"

text \<open>The grant of a listed Secret, by the id its name carries.\<close>

definition listed_grant :: "grant_dec \<Rightarrow> secret \<Rightarrow> Grant option" where
  "listed_grant dec s = (case jtiFromSecretName (secName s) of None \<Rightarrow> None | Some jti \<Rightarrow> parseGrant dec s jti)"

fun prune_loop :: "grant_dec \<Rightarrow> 'k client \<Rightarrow> time \<Rightarrow> secret list \<Rightarrow> 'k \<Rightarrow> (kerror + Grant list) \<times> 'k" where
  "prune_loop dec api now [] k = (Inr [], k)"
| "prune_loop dec api now (s # ss) k =
     (case liveGrant (listed_grant dec s) now of
        Some g \<Rightarrow>
          (case prune_loop dec api now ss k of
             (Inl e, k1) \<Rightarrow> (Inl e, k1)
           | (Inr gs, k1) \<Rightarrow> (Inr (g # gs), k1))
      | None \<Rightarrow>
          (case cDelete api (secName s) k of
             (Inl e, k1) \<Rightarrow> if e = NotFound then prune_loop dec api now ss k1 else (Inl e, k1)
           | (Inr _, k1) \<Rightarrow> prune_loop dec api now ss k1))"

definition pruneAndList :: "grant_dec \<Rightarrow> 'k client \<Rightarrow> time \<Rightarrow> string \<Rightarrow> string \<Rightarrow> 'k \<Rightarrow> (kerror + Grant list) \<times> 'k" where
  "pruneAndList dec api now namespace service k =
     (case cList api (serviceSelector namespace service) k of
        (Inl e, k1) \<Rightarrow> (Inl e, k1)
      | (Inr items, k1) \<Rightarrow> prune_loop dec api now items k1)"

definition grant_incomplete :: "Grant \<Rightarrow> bool" where
  "grant_incomplete g \<longleftrightarrow> gServiceUID g = [] \<or> gService g = [] \<or> gNamespace g = [] \<or> gHost g = []"

definition ErrGrantLimit :: kerror where
  "ErrGrantLimit = Msg ''share: service already has 20 active links: revoke one first''"

definition ErrGrantNotFound :: kerror where
  "ErrGrantNotFound = Msg ''share: unknown link id''"

definition grant_secret :: "grant_enc \<Rightarrow> Grant \<Rightarrow> secret" where
  "grant_secret enc g = \<lparr>secName = grantSecretName (gJTI g), secLabels = grantLabels g, secData = [(grantField, enc g)]\<rparr>"

definition GrantStore_Create :: "grant_enc \<Rightarrow> grant_dec \<Rightarrow> 'k client \<Rightarrow> time \<Rightarrow> Grant \<Rightarrow> GrantStore \<times> 'k \<Rightarrow> (kerror + unit) \<times> GrantStore \<times> 'k" where
  "GrantStore_Create enc dec api now g sk =
     (case sk of (s, k) \<Rightarrow>
        if gV g \<noteq> GrantVersion then (Inl (Msg ''share: grant version''), s, k)
        else if \<not> jtiPattern (gJTI g) then (Inl (Msg ''share: malformed grant id''), s, k)
        else if grant_incomplete g then (Inl (Msg ''share: grant is incomplete''), s, k)
        else (case pruneAndList dec api now (gNamespace g) (gService g) k of
                (Inl e, k1) \<Rightarrow> (Inl e, s, k1)
              | (Inr live, k1) \<Rightarrow>
                  if MaxGrantsPerService \<le> length live then (Inl ErrGrantLimit, s, k1)
                  else (case cCreate api (grant_secret enc g) k1 of
                          (Inl e, k2) \<Rightarrow> (Inl e, s, k2)
                        | (Inr _, k2) \<Rightarrow> (Inr (), forget (gJTI g) s, k2))))"

definition GrantStore_List :: "grant_dec \<Rightarrow> 'k client \<Rightarrow> time \<Rightarrow> string \<Rightarrow> string \<Rightarrow> 'k \<Rightarrow> (kerror + Grant list) \<times> 'k" where
  "GrantStore_List dec api now namespace service k =
     (case cList api (serviceSelector namespace service) k of
        (Inl e, k1) \<Rightarrow> (Inl e, k1)
      | (Inr items, k1) \<Rightarrow> (Inr (List.map_filter (\<lambda>s. liveGrant (listed_grant dec s) now) items), k1))"

definition GrantStore_Revoke :: "grant_dec \<Rightarrow> 'k client \<Rightarrow> string \<Rightarrow> string \<Rightarrow> string \<Rightarrow> GrantStore \<times> 'k \<Rightarrow> (kerror + unit) \<times> GrantStore \<times> 'k" where
  "GrantStore_Revoke dec api namespace service jti sk =
     (case sk of (s, k) \<Rightarrow>
        if \<not> jtiPattern jti then (Inl ErrGrantNotFound, s, k)
        else (case cGet api (grantSecretName jti) k of
                (Inl e, k1) \<Rightarrow> (Inl (if e = NotFound then ErrGrantNotFound else e), s, k1)
              | (Inr sec, k1) \<Rightarrow>
                  (case parseGrant dec sec jti of
                     None \<Rightarrow> (Inl ErrGrantNotFound, s, k1)
                   | Some g \<Rightarrow>
                       if gNamespace g \<noteq> namespace \<or> gService g \<noteq> service then (Inl ErrGrantNotFound, s, k1)
                       else (case cDelete api (secName sec) k1 of
                               (Inl e, k2) \<Rightarrow>
                                 if e = NotFound then (Inr (), forget jti s, k2) else (Inl e, s, k2)
                             | (Inr _, k2) \<Rightarrow> (Inr (), forget jti s, k2)))))"

definition maxRevokeSweeps :: nat where
  "maxRevokeSweeps = 4"

text \<open>\<open>n\<close> counts the sweeps that are left.\<close>

fun revoke_sweeps :: "'k client \<Rightarrow> selector \<Rightarrow> nat \<Rightarrow> GrantStore \<times> 'k \<Rightarrow> (kerror + unit) \<times> GrantStore \<times> 'k" where
  "revoke_sweeps api sel n (s, k) =
     (case cList api sel k of
        (Inl e, k1) \<Rightarrow> (Inl e, s, k1)
      | (Inr [], k1) \<Rightarrow> (Inr (), forgetAll s, k1)
      | (Inr items, k1) \<Rightarrow>
          (case n of
             0 \<Rightarrow> (Inl (Msg ''share: revoke did not converge''), s, k1)
           | Suc m \<Rightarrow>
               (case delete_all api (map secName items) k1 of
                  (Some e, k2) \<Rightarrow> (Inl e, s, k2)
                | (None, k2) \<Rightarrow> revoke_sweeps api sel m (s, k2))))"

definition deleteBySelector :: "'k client \<Rightarrow> selector \<Rightarrow> GrantStore \<times> 'k \<Rightarrow> (kerror + unit) \<times> GrantStore \<times> 'k" where
  "deleteBySelector api sel = revoke_sweeps api sel maxRevokeSweeps"

definition RevokeAllForService :: "'k client \<Rightarrow> string \<Rightarrow> string \<Rightarrow> GrantStore \<times> 'k \<Rightarrow> (kerror + unit) \<times> GrantStore \<times> 'k" where
  "RevokeAllForService api namespace service = deleteBySelector api (serviceSelector namespace service)"

definition GrantStore_RevokeAll :: "'k client \<Rightarrow> GrantStore \<times> 'k \<Rightarrow> (kerror + unit) \<times> GrantStore \<times> 'k" where
  "GrantStore_RevokeAll api = deleteBySelector api [(GrantLabel, Some ''true'')]"

definition day :: duration where
  "day = 24 * hour"

definition DefaultLifetime :: duration where
  "DefaultLifetime = 7 * day"

definition MaxLifetime :: duration where
  "MaxLifetime = 30 * day"

definition randomID :: "random \<Rightarrow> string option \<times> random" where
  "randomID r = (case rand_Read r of (b, r') \<Rightarrow> (map_option hex_EncodeToString b, r'))"

definition lifetime_error :: kerror where
  "lifetime_error = Msg ''share: lifetime must be between 0 and 720h0m0s''"

definition NewGrant :: "string \<Rightarrow> string \<Rightarrow> string \<Rightarrow> string \<Rightarrow> string \<Rightarrow> string \<Rightarrow> duration \<Rightarrow> time \<Rightarrow> random \<Rightarrow> (kerror + Grant) \<times> random" where
  "NewGrant serviceUID service namespace host label createdBy lifetime now r =
     (if lifetime \<le> 0 \<or> MaxLifetime < lifetime then (Inl lifetime_error, r)
      else (case randomID r of
              (None, r1) \<Rightarrow> (Inl (Msg ''share: generating token id''), r1)
            | (Some jti, r1) \<Rightarrow>
                (Inr \<lparr>gV = GrantVersion, gJTI = jti, gServiceUID = serviceUID, gService = service,
                   gNamespace = namespace, gHost = host, gLabel = label, gCreatedBy = createdBy,
                   gCreatedAt = Truncate_second now, gExpiresAt = Truncate_second (now + lifetime)\<rparr>, r1)))"

subsection \<open>Tokens\<close>

definition share_Issuer :: string where
  "share_Issuer = ''kipper-share''"

definition share_Subject :: string where
  "share_Subject = ''service-share''"

definition signingMethod :: string where
  "signingMethod = ''HS256''"

definition leeway :: duration where
  "leeway = 30 * second"

record Claims = RegisteredClaims +
  cService :: string
  cServiceUID :: string

definition grant_claims :: "Grant \<Rightarrow> time \<Rightarrow> Claims" where
  "grant_claims g now =
     \<lparr>cIssuer = share_Issuer, cSubject = share_Subject, cAudience = [gHost g],
      cExpiresAt = Some (NewNumericDate (gExpiresAt g)), cNotBefore = None,
      cIssuedAt = Some (NewNumericDate now), cID = gJTI g,
      cService = gNamespace g @ ''/'' @ gService g, cServiceUID = gServiceUID g\<rparr>"

definition MintGrant :: "Claims signer \<Rightarrow> Keyring option \<Rightarrow> Grant \<Rightarrow> time \<Rightarrow> kerror + string" where
  "MintGrant sign ring g now =
     (case ring of
        None \<Rightarrow> Inl (Msg ''share: keyring has no current key'')
      | Some kr \<Rightarrow>
          if CurrentKey kr = [] \<or> CurrentKID kr = [] then Inl (Msg ''share: keyring has no current key'')
          else if gHost g = [] \<or> gJTI g = [] \<or> gServiceUID g = [] then Inl (Msg ''share: grant is incomplete'')
          else let lifetime = time_Sub (gExpiresAt g) now
               in if lifetime \<le> 0 \<or> MaxLifetime < lifetime then Inl lifetime_error
                  else (case sign (CurrentKID kr) (CurrentKey kr) (grant_claims g now) of
                          None \<Rightarrow> Inl (Msg ''share: signing token'')
                        | Some tok \<Rightarrow> Inr tok))"

definition share_options :: "string \<Rightarrow> time \<Rightarrow> parser_options" where
  "share_options host now =
     \<lparr>poMethod = signingMethod, poIssuer = share_Issuer, poSubject = Some share_Subject,
      poAudience = host, poLeeway = leeway, poNow = now\<rparr>"

definition ValidateGrantToken :: "Claims parser \<Rightarrow> Keyring option \<Rightarrow> string \<Rightarrow> string \<Rightarrow> time \<Rightarrow> Claims option" where
  "ValidateGrantToken parse ring tokenStr host now =
     (case ring of
        None \<Rightarrow> None
      | Some kr \<Rightarrow>
          if tokenStr = [] \<or> host = [] then None
          else (case parse (share_options host now) (KeyFor kr) tokenStr of
                  None \<Rightarrow> None
                | Some c \<Rightarrow>
                    (case (cIssuedAt c, cExpiresAt c) of
                       (Some iat, Some expiry) \<Rightarrow>
                         (let life = time_Sub expiry iat
                          in if life \<le> 0 \<or> MaxLifetime < life then None
                             else if cID c = [] \<or> cServiceUID c = [] then None
                             else if cAudience c \<noteq> [host] then None
                             else Some c)
                     | _ \<Rightarrow> None)))"

definition Matches :: "Grant \<Rightarrow> Claims \<Rightarrow> string \<Rightarrow> bool" where
  "Matches g claims host \<longleftrightarrow>
     gJTI g = cID claims \<and> gServiceUID g = cServiceUID claims \<and> gHost g = host \<and>
     gNamespace g @ ''/'' @ gService g = cService claims \<and> cExpiresAt claims = Some (gExpiresAt g)"

definition JTIPrefix :: "string \<Rightarrow> string" where
  "JTIPrefix jti = (if length jti \<le> 8 then jti else take 8 jti)"

definition CanonicalHost :: "string \<Rightarrow> string option" where
  "CanonicalHost forwarded =
     (let h = TrimSpace forwarded
      in if h = [] then None
         else if list_ex (\<lambda>c. c \<in> set ''/@?#'' \<or> c = CHR 0x5C) h then None
         else if Contains h ''['' then None
         else let h1 = (case LastIndex h '':'' of None \<Rightarrow> h | Some i \<Rightarrow> take i h);
                  h2 = ToLower h1
              in if h2 = [] \<or> Contains h2 '':'' then None else Some h2)"

end
