(* ===== verification/UI_Session.thy ===== *)
theory UI_Session
  imports Share
begin

text \<open>
  Browser sessions on service UIs, \<^verbatim>\<open>src/console-api/uisession\<close>: the signing keyring that heals
  itself (\<open>keyring.go\<close>), its trust cache (\<open>keycache.go\<close>), the single-use codes and session tokens
  (\<open>token.go\<close>) and the session records (\<open>records.go\<close>). The package keeps its own copy of the keyring
  of \<open>share\<close>; \<open>H\<close> is SHA-256 as hex text.
\<close>

subsection \<open>The keyring\<close>

definition ui_SigningSecretName :: string where
  "ui_SigningSecretName = ''kipper-ui-session-signing''"

record UIKeyring =
  uiCurrentKID :: string
  uiCurrentKey :: string
  uiPreviousKID :: string
  uiPreviousKey :: string

definition ui_KeyFor :: "UIKeyring \<Rightarrow> string \<Rightarrow> string option" where
  "ui_KeyFor k kid =
     (if kid = [] then None
      else if kid = uiCurrentKID k then Some (uiCurrentKey k)
      else if kid = uiPreviousKID k then Some (uiPreviousKey k)
      else None)"

definition ui_newPair :: "random \<Rightarrow> (kerror + (string \<times> string)) \<times> random" where
  "ui_newPair r =
     (case rand_Read r of
        (None, r1) \<Rightarrow> (Inl (Msg ''uisession: generating key id''), r1)
      | (Some b, r1) \<Rightarrow>
          (case rand_Read r1 of
             (None, r2) \<Rightarrow> (Inl (Msg ''uisession: generating signing key''), r2)
           | (Some key, r2) \<Rightarrow> (Inr (hex_EncodeToString b, key), r2)))"

definition ui_encodeSlot :: "string \<Rightarrow> string \<Rightarrow> string" where
  "ui_encodeSlot kid key = kid @ '':'' @ b64_EncodeToString key"

definition ui_decodeSlot :: "string \<Rightarrow> (string \<times> string) option" where
  "ui_decodeSlot raw =
     (case Cut raw (CHR '':'') of
        (kid, encoded, found) \<Rightarrow>
          if \<not> found \<or> kid = [] then None
          else (case b64_DecodeString encoded of
                  None \<Rightarrow> None
                | Some key \<Rightarrow> if length key \<noteq> 32 then None else Some (kid, key)))"

definition ui_parseKeyring :: "(string, string) gomap \<Rightarrow> UIKeyring option" where
  "ui_parseKeyring data =
     (case ui_decodeSlot (data_at data slotCurrent) of
        None \<Rightarrow> None
      | Some (kid, key) \<Rightarrow>
          let kr = \<lparr>uiCurrentKID = kid, uiCurrentKey = key, uiPreviousKID = [], uiPreviousKey = []\<rparr>
          in if data_at data slotPrevious \<noteq> [] then
               (case ui_decodeSlot (data_at data slotPrevious) of
                  None \<Rightarrow> None
                | Some (pkid, pkey) \<Rightarrow> Some (kr\<lparr>uiPreviousKID := pkid, uiPreviousKey := pkey\<rparr>))
             else Some kr)"

definition ui_signingSecret :: "(string, string) gomap \<Rightarrow> secret" where
  "ui_signingSecret data = \<lparr>secName = ui_SigningSecretName, secLabels = managedLabels, secData = data\<rparr>"

definition freshKeyringSecret :: "random \<Rightarrow> (kerror + secret) \<times> random" where
  "freshKeyringSecret r =
     (case ui_newPair r of
        (Inl e, r1) \<Rightarrow> (Inl e, r1)
      | (Inr (kid, key), r1) \<Rightarrow> (Inr (ui_signingSecret [(slotCurrent, ui_encodeSlot kid key)]), r1))"

definition replaceKeyring :: "'k client \<Rightarrow> secret \<Rightarrow> ('k \<times> random, UIKeyring option) attempt_fun" where
  "replaceKeyring api existing kr =
     (case kr of (k, r) \<Rightarrow>
        (case ui_newPair r of
           (Inl e, r1) \<Rightarrow> (Inl e, k, r1)
         | (Inr (kid, key), r1) \<Rightarrow>
             (case cUpdate api (existing\<lparr>secData := [(slotCurrent, ui_encodeSlot kid key)]\<rparr>) k of
                (Inl e, k1) \<Rightarrow> (Inl e, k1, r1)
              | (Inr _, k1) \<Rightarrow>
                  (Inr (Some \<lparr>uiCurrentKID = kid, uiCurrentKey = key, uiPreviousKID = [], uiPreviousKey = []\<rparr>), k1, r1))))"

text \<open>The keyring is optional because the code drops the error of parsing what it has just encoded.\<close>

definition ui_load_attempt :: "'k client \<Rightarrow> ('k \<times> random, UIKeyring option) attempt_fun" where
  "ui_load_attempt api kr =
     (case kr of (k, r) \<Rightarrow>
        (case cGet api ui_SigningSecretName k of
           (Inl NotFound, k1) \<Rightarrow>
             (case freshKeyringSecret r of
                (Inl e, r1) \<Rightarrow> (Inl e, k1, r1)
              | (Inr fresh, r1) \<Rightarrow>
                  (case cCreate api fresh k1 of
                     (Inl e, k2) \<Rightarrow> (Inl (if e = AlreadyExists then Conflict else e), k2, r1)
                   | (Inr _, k2) \<Rightarrow> (Inr (ui_parseKeyring (secData fresh)), k2, r1)))
         | (Inl e, k1) \<Rightarrow> (Inl e, k1, r)
         | (Inr s, k1) \<Rightarrow>
             (case ui_parseKeyring (secData s) of
                None \<Rightarrow> replaceKeyring api s (k1, r)
              | Some kr \<Rightarrow> (Inr (Some kr), k1, r))))"

definition ui_LoadOrCreateKeyring :: "('k \<times> random, UIKeyring option) retrier \<Rightarrow> 'k client \<Rightarrow> ('k \<times> random, UIKeyring option) attempt_fun" where
  "ui_LoadOrCreateKeyring retry api s = retry (ui_load_attempt api) s"

definition reset_attempt :: "'k client \<Rightarrow> ('k \<times> random, UIKeyring option) attempt_fun" where
  "reset_attempt api kr =
     (case kr of (k, r) \<Rightarrow>
        (case cGet api ui_SigningSecretName k of
           (Inl NotFound, k1) \<Rightarrow>
             (case freshKeyringSecret r of
                (Inl e, r1) \<Rightarrow> (Inl e, k1, r1)
              | (Inr fresh, r1) \<Rightarrow>
                  (case cCreate api fresh k1 of
                     (Inl e, k2) \<Rightarrow> (Inl e, k2, r1)
                   | (Inr _, k2) \<Rightarrow> (Inr None, k2, r1)))
         | (Inl e, k1) \<Rightarrow> (Inl e, k1, r)
         | (Inr s, k1) \<Rightarrow> replaceKeyring api s (k1, r)))"

definition ResetKeyring :: "('k \<times> random, UIKeyring option) retrier \<Rightarrow> 'k client \<Rightarrow> 'k \<times> random \<Rightarrow> kerror option \<times> 'k \<times> random" where
  "ResetKeyring retry api s =
     (case retry (reset_attempt api) s of (Inl e, s1) \<Rightarrow> (Some e, s1) | (Inr _, s1) \<Rightarrow> (None, s1))"

definition ui_LoadKeyring :: "'k client \<Rightarrow> 'k \<Rightarrow> (kerror + UIKeyring) \<times> 'k" where
  "ui_LoadKeyring api k =
     (case cGet api ui_SigningSecretName k of
        (Inl e, k1) \<Rightarrow> (Inl e, k1)
      | (Inr s, k1) \<Rightarrow>
          (case ui_parseKeyring (secData s) of
             None \<Rightarrow> (Inl (Msg ''uisession: malformed key slot''), k1)
           | Some kr \<Rightarrow> (Inr kr, k1)))"

subsection \<open>The key cache\<close>

record UIKeyCache =
  ukcTTL :: duration
  ukcRing :: "UIKeyring option"
  ukcOk :: bool
  ukcValidThru :: "time option"
  ukcRetryAt :: "time option"

definition ui_NewKeyCache :: "duration \<Rightarrow> UIKeyCache" where
  "ui_NewKeyCache ttl = \<lparr>ukcTTL = ttl, ukcRing = None, ukcOk = False, ukcValidThru = None, ukcRetryAt = None\<rparr>"

definition ui_currentLocked :: "UIKeyCache \<Rightarrow> time \<Rightarrow> UIKeyring option" where
  "ui_currentLocked c now = (if ukcOk c \<and> before now (ukcValidThru c) then ukcRing c else None)"

definition ui_note_load :: "time \<Rightarrow> kerror + UIKeyring option \<Rightarrow> UIKeyCache \<Rightarrow> UIKeyCache" where
  "ui_note_load now res c =
     (case res of
        Inr kr \<Rightarrow> c\<lparr>ukcRing := kr, ukcOk := True, ukcValidThru := Some (now + ukcTTL c), ukcRetryAt := None\<rparr>
      | Inl _ \<Rightarrow> c\<lparr>ukcRetryAt := Some (now + ukcTTL c)\<rparr>)"

definition ui_KeyCache_Get :: "('k \<times> random, UIKeyring option) retrier \<Rightarrow> 'k client \<Rightarrow> time \<Rightarrow> UIKeyCache \<times> 'k \<times> random \<Rightarrow> UIKeyring option \<times> UIKeyCache \<times> 'k \<times> random" where
  "ui_KeyCache_Get retry api now ck =
     (case ck of (c, s) \<Rightarrow>
        if ukcOk c \<and> before now (ukcValidThru c) then (ukcRing c, c, s)
        else if before now (ukcRetryAt c) then (ui_currentLocked c now, c, s)
        else (case ui_LoadOrCreateKeyring retry api s of
                (res, s1) \<Rightarrow> let c1 = ui_note_load now res c in (ui_currentLocked c1 now, c1, s1)))"

subsection \<open>Codes and sessions\<close>

definition issuerCode :: string where
  "issuerCode = ''kipper-ui-code''"

definition issuerSession :: string where
  "issuerSession = ''kipper-ui-session''"

definition CodeTTL :: duration where
  "CodeTTL = 60 * second"

definition SessionIdleTTL :: duration where
  "SessionIdleTTL = 30 * minute"

definition SessionRenewBefore :: duration where
  "SessionRenewBefore = 15 * minute"

definition SessionAbsoluteTTL :: duration where
  "SessionAbsoluteTTL = 12 * hour"

text \<open>The first label of a host: everything before its first dot, unless the dot comes first.\<close>

definition first_label :: "string \<Rightarrow> string" where
  "first_label host = (case Index host ''.'' of Some (Suc i) \<Rightarrow> take (Suc i) host | _ \<Rightarrow> host)"

definition ui_CookieName :: "string \<Rightarrow> string" where
  "ui_CookieName host = ''__Host-kipper-ui-'' @ first_label host"

record ui_claims = RegisteredClaims +
  cEmail :: string
  cSID :: string
  cAuthTime :: int

definition newSID :: "random \<Rightarrow> string option \<times> random" where
  "newSID r = (case rand_Read r of (b, r') \<Rightarrow> (map_option hex_EncodeToString b, r'))"

definition signWith :: "ui_claims signer \<Rightarrow> UIKeyring \<Rightarrow> ui_claims \<Rightarrow> string option" where
  "signWith sign kr c = sign (uiCurrentKID kr) (uiCurrentKey kr) c"

definition code_claims :: "string \<Rightarrow> string \<Rightarrow> string \<Rightarrow> string \<Rightarrow> time \<Rightarrow> ui_claims" where
  "code_claims sub email host sid now =
     \<lparr>cIssuer = issuerCode, cSubject = sub, cAudience = [host],
      cExpiresAt = Some (NewNumericDate (now + CodeTTL)), cNotBefore = None,
      cIssuedAt = Some (NewNumericDate now), cID = sid, cEmail = email, cSID = sid, cAuthTime = 0\<rparr>"

definition MintCode :: "ui_claims signer \<Rightarrow> UIKeyring \<Rightarrow> string \<Rightarrow> string \<Rightarrow> string \<Rightarrow> time \<Rightarrow> random \<Rightarrow> (string \<times> string) option \<times> random" where
  "MintCode sign kr sub email host now r =
     (case newSID r of
        (None, r1) \<Rightarrow> (None, r1)
      | (Some sid, r1) \<Rightarrow>
          (map_option (\<lambda>code. (code, sid)) (signWith sign kr (code_claims sub email host sid now)), r1))"

definition Unix :: "time \<Rightarrow> int" where
  "Unix t = t div second"

definition session_claims :: "string \<Rightarrow> string \<Rightarrow> string \<Rightarrow> string \<Rightarrow> time \<Rightarrow> time \<Rightarrow> ui_claims" where
  "session_claims sub email host sid authTime now =
     \<lparr>cIssuer = issuerSession, cSubject = sub, cAudience = [host],
      cExpiresAt = Some (NewNumericDate (now + SessionIdleTTL)), cNotBefore = None,
      cIssuedAt = Some (NewNumericDate now), cID = sid, cEmail = email, cSID = sid, cAuthTime = Unix authTime\<rparr>"

definition MintSession :: "ui_claims signer \<Rightarrow> UIKeyring \<Rightarrow> string \<Rightarrow> string \<Rightarrow> string \<Rightarrow> string \<Rightarrow> time \<Rightarrow> time \<Rightarrow> string option" where
  "MintSession sign kr sub email host sid authTime now =
     signWith sign kr (session_claims sub email host sid authTime now)"

text \<open>The zero \<open>AuthTime\<close> is \<open>None\<close>.\<close>

record Validated =
  vSub :: string
  vEmail :: string
  vSID :: string
  vHost :: string
  vAuthTime :: "time option"
  vExpiry :: time

definition ui_options :: "string \<Rightarrow> string \<Rightarrow> time \<Rightarrow> parser_options" where
  "ui_options issuer host now =
     \<lparr>poMethod = signingMethod, poIssuer = issuer, poSubject = None, poAudience = host, poLeeway = leeway, poNow = now\<rparr>"

definition ui_validate :: "ui_claims parser \<Rightarrow> UIKeyring \<Rightarrow> string \<Rightarrow> string \<Rightarrow> string \<Rightarrow> duration \<Rightarrow> time \<Rightarrow> Validated option" where
  "ui_validate parse kr tokenStr issuer host maxSpan now =
     (case parse (ui_options issuer host now) (ui_KeyFor kr) tokenStr of
        None \<Rightarrow> None
      | Some c \<Rightarrow>
          (case (cIssuedAt c, cExpiresAt c) of
             (Some iat, Some expiry) \<Rightarrow>
               if maxSpan + leeway < time_Sub expiry iat then None
               else if cAudience c \<noteq> [host] then None
               else Some \<lparr>vSub = cSubject c, vEmail = cEmail c, vSID = cSID c, vHost = host,
                          vAuthTime = (if 0 < cAuthTime c then Some (cAuthTime c * second) else None), vExpiry = expiry\<rparr>
           | _ \<Rightarrow> None))"

definition ValidateCode :: "ui_claims parser \<Rightarrow> UIKeyring \<Rightarrow> string \<Rightarrow> string \<Rightarrow> time \<Rightarrow> Validated option" where
  "ValidateCode parse kr tokenStr host now = ui_validate parse kr tokenStr issuerCode host CodeTTL now"

definition ValidateSession :: "ui_claims parser \<Rightarrow> UIKeyring \<Rightarrow> string \<Rightarrow> string \<Rightarrow> time \<Rightarrow> Validated option" where
  "ValidateSession parse kr tokenStr host now =
     (case ui_validate parse kr tokenStr issuerSession host SessionIdleTTL now of
        None \<Rightarrow> None
      | Some v \<Rightarrow>
          (case vAuthTime v of
             None \<Rightarrow> None
           | Some t \<Rightarrow> if t + SessionAbsoluteTTL < now then None else Some v))"

subsection \<open>Session records\<close>

definition recordNamePrefix :: string where
  "recordNamePrefix = ''kipper-ui-session-''"

definition subjectHashLabel :: string where
  "subjectHashLabel = ''kipper.run/ui-session-sub''"

definition emailHashLabel :: string where
  "emailHashLabel = ''kipper.run/ui-session-email''"

definition recordCacheTTL :: duration where
  "recordCacheTTL = 30 * second"

record cacheEntry =
  ceLive :: bool
  ceExpires :: time

record RecordStore =
  rsCache :: "(string, cacheEntry) gomap"

definition NewRecordStore :: RecordStore where
  "NewRecordStore = \<lparr>rsCache = []\<rparr>"

definition hashLabel :: "digest \<Rightarrow> string \<Rightarrow> string" where
  "hashLabel H v = take 32 (H v)"

definition recordName :: "string \<Rightarrow> string" where
  "recordName sid = recordNamePrefix @ sid"

definition setCache :: "time \<Rightarrow> string \<Rightarrow> bool \<Rightarrow> RecordStore \<Rightarrow> RecordStore" where
  "setCache now sid live s = s\<lparr>rsCache := put sid \<lparr>ceLive = live, ceExpires = now + recordCacheTTL\<rparr> (rsCache s)\<rparr>"

definition getCache :: "time \<Rightarrow> string \<Rightarrow> RecordStore \<Rightarrow> bool option" where
  "getCache now sid s =
     (case get (rsCache s) sid of
        None \<Rightarrow> None
      | Some e \<Rightarrow> if ceExpires e < now then None else Some (ceLive e))"

definition clearCache :: "RecordStore \<Rightarrow> RecordStore" where
  "clearCache s = s\<lparr>rsCache := []\<rparr>"

definition int_decimal :: "int \<Rightarrow> string" where
  "int_decimal n = (if n < 0 then ''-'' @ decimal (nat (- n)) else decimal (nat n))"

definition session_record :: "digest \<Rightarrow> string \<Rightarrow> string \<Rightarrow> string \<Rightarrow> string \<Rightarrow> time \<Rightarrow> time \<Rightarrow> secret" where
  "session_record H sid sub email host authTime absoluteExpiry =
     \<lparr>secName = recordName sid,
      secLabels = [(''app.kubernetes.io/managed-by'', ''kipper''), (subjectHashLabel, hashLabel H sub), (emailHashLabel, hashLabel H email)],
      secData = [(''host'', host), (''email'', email), (''auth_time'', int_decimal (Unix authTime)), (''expires'', int_decimal (Unix absoluteExpiry))]\<rparr>"

definition ErrReplay :: kerror where
  "ErrReplay = Msg ''uisession: code already redeemed''"

text \<open>\<open>later\<close> is the clock when the answer of the API server is cached.\<close>

definition RecordStore_Create :: "digest \<Rightarrow> 'k client \<Rightarrow> time \<Rightarrow> string \<Rightarrow> string \<Rightarrow> string \<Rightarrow> string \<Rightarrow> time \<Rightarrow> time \<Rightarrow> RecordStore \<times> 'k \<Rightarrow> (kerror + unit) \<times> RecordStore \<times> 'k" where
  "RecordStore_Create H api later sid sub email host authTime absoluteExpiry sk =
     (case sk of (s, k) \<Rightarrow>
        (case cCreate api (session_record H sid sub email host authTime absoluteExpiry) k of
           (Inl e, k1) \<Rightarrow> (Inl (if e = AlreadyExists then ErrReplay else e), s, k1)
         | (Inr _, k1) \<Rightarrow> (Inr (), setCache later sid True s, k1)))"

text \<open>What a read of the record answers, and what of it is cached.\<close>

definition note_record :: "time \<Rightarrow> string \<Rightarrow> kerror + secret \<Rightarrow> RecordStore \<Rightarrow> bool \<times> RecordStore" where
  "note_record later sid res s =
     (case res of
        Inl e \<Rightarrow> (False, if e = NotFound then setCache later sid False s else s)
      | Inr _ \<Rightarrow> (True, setCache later sid True s))"

definition Live :: "'k client \<Rightarrow> time \<Rightarrow> time \<Rightarrow> string \<Rightarrow> RecordStore \<times> 'k \<Rightarrow> bool \<times> RecordStore \<times> 'k" where
  "Live api now later sid sk =
     (case sk of (s, k) \<Rightarrow>
        (case getCache now sid s of
           Some live \<Rightarrow> (live, s, k)
         | None \<Rightarrow>
             (case cGet api (recordName sid) k of
                (res, k1) \<Rightarrow> (case note_record later sid res s of (live, s1) \<Rightarrow> (live, s1, k1)))))"

definition deleteMatching :: "'k client \<Rightarrow> selector \<Rightarrow> 'k \<Rightarrow> kerror option \<times> 'k" where
  "deleteMatching api sel k =
     (case cList api sel k of
        (Inl e, k1) \<Rightarrow> (Some e, k1)
      | (Inr items, k1) \<Rightarrow> delete_all api (map secName items) k1)"

definition DeleteBySubject :: "digest \<Rightarrow> 'k client \<Rightarrow> string \<Rightarrow> RecordStore \<times> 'k \<Rightarrow> kerror option \<times> RecordStore \<times> 'k" where
  "DeleteBySubject H api subOrEmail sk =
     (case sk of (s, k) \<Rightarrow>
        (let h = hashLabel H subOrEmail in
         case deleteMatching api [(subjectHashLabel, Some h)] k of
           (Some e, k1) \<Rightarrow> (Some e, s, k1)
         | (None, k1) \<Rightarrow>
             (case deleteMatching api [(emailHashLabel, Some h)] k1 of
                (Some e, k2) \<Rightarrow> (Some e, s, k2)
              | (None, k2) \<Rightarrow> (None, clearCache s, k2))))"

definition DeleteAll :: "'k client \<Rightarrow> RecordStore \<times> 'k \<Rightarrow> kerror option \<times> RecordStore \<times> 'k" where
  "DeleteAll api sk =
     (case sk of (s, k) \<Rightarrow>
        (case deleteMatching api [(''app.kubernetes.io/managed-by'', Some ''kipper''), (subjectHashLabel, None)] k of
           (Some e, k1) \<Rightarrow> (Some e, s, k1)
         | (None, k1) \<Rightarrow> (None, clearCache s, k1)))"

end
