(* ===== verification/UI_Gate.thy ===== *)
theory UI_Gate
  imports UI_Session
begin

text \<open>
  The forwardAuth gate in front of the service UIs, \<^verbatim>\<open>src/console-api/handlers/auth.go\<close>: the checks
  of share links and UI sessions, the redirect to the login, the single-use code endpoint, renewal,
  logout and bulk revocation, over the stores of the two packages below it. The caches are wired as
  \<open>main.go\<close> wires them. One request reads the clock as \<open>now\<close>, and as \<open>later\<close> after a call to the API
  server. \<open>consoleHost\<close>, the host of \<open>ConsoleURL\<close>, is a field of the handler.
\<close>

subsection \<open>State, configuration and requests\<close>

record 'k gate =
  gKeys :: KeyCache
  gGrants :: GrantStore
  gUIKeys :: UIKeyCache
  gRecords :: RecordStore
  gKube :: 'k
  gRand :: random

text \<open>The libraries and services the gate calls.\<close>

record 'k libs =
  lApi :: "'k client"
  lRetry :: "('k \<times> random, UIKeyring option) retrier"
  lDec :: grant_dec
  lHash :: digest
  lParse :: "Claims parser"
  lUISign :: "ui_claims signer"
  lUIParse :: "ui_claims parser"

text \<open>A field of function type is \<open>None\<close> when it is nil; \<open>ServiceUID\<close> answers from the live Services.\<close>

record AuthHandler =
  hAuth :: bool
  hUIDomain :: string
  hConsoleURL :: string
  consoleHost :: string
  hShareKeyring :: bool
  hShareGrants :: bool
  hServiceUID :: "(string \<Rightarrow> string \<Rightarrow> string option) option"
  hUISessionKeyring :: bool
  hUISessions :: bool
  hUISessionReset :: bool
  hRoleOf :: "(string \<Rightarrow> string) option"
  hMonitoringAccess :: "(string \<Rightarrow> string \<times> bool) option"
  hGrafanaHosts :: "string list option"

record request =
  rqProto :: string
  rqHost :: string
  rqUri :: string
  rqCookies :: "(string, string) gomap"

record cookie =
  ckName :: string
  ckValue :: string
  ckPath :: string
  ckSecure :: bool
  ckHttpOnly :: bool
  ckSameSite :: string
  ckMaxAge :: int

record writer =
  wStatus :: "int option"
  wHeaders :: "(string, string) gomap"
  wCookies :: "cookie list"

definition new_writer :: writer where
  "new_writer = \<lparr>wStatus = None, wHeaders = [], wCookies = []\<rparr>"

definition SetCookie :: "cookie \<Rightarrow> writer \<Rightarrow> writer" where
  "SetCookie c w = w\<lparr>wCookies := wCookies w @ [c]\<rparr>"

definition Header_Set :: "string \<Rightarrow> string \<Rightarrow> writer \<Rightarrow> writer" where
  "Header_Set h v w = w\<lparr>wHeaders := put h v (wHeaders w)\<rparr>"

definition WriteHeader :: "int \<Rightarrow> writer \<Rightarrow> writer" where
  "WriteHeader st w = w\<lparr>wStatus := Some st\<rparr>"

definition http_Redirect :: "string \<Rightarrow> writer \<Rightarrow> writer" where
  "http_Redirect url w = WriteHeader 302 (Header_Set ''Location'' url w)"

subsection \<open>Hosts\<close>

definition isGrafanaHost :: "AuthHandler \<Rightarrow> string \<Rightarrow> bool" where
  "isGrafanaHost a host =
     (case hGrafanaHosts a of
        None \<Rightarrow> False
      | Some hs \<Rightarrow> host \<noteq> [] \<and> list_ex (\<lambda>h. EqualFold (TrimSuffix h ''.'') host) hs)"

definition redirectHostAllowed :: "AuthHandler \<Rightarrow> string \<Rightarrow> bool" where
  "redirectHostAllowed a h =
     (let host = ToLower (TrimSuffix h ''.'')
      in if host = [] then False
         else if consoleHost a \<noteq> [] \<and> host = consoleHost a then True
         else if isGrafanaHost a host then True
         else let base = TrimPrefix (hUIDomain a) ''.''
              in base \<noteq> [] \<and> (host = ToLower base \<or> HasSuffix host (''.'' @ ToLower base)))"

definition shareCookieName :: "string \<Rightarrow> string" where
  "shareCookieName host = ''__Host-kipper-share-'' @ first_label host"

subsection \<open>The capability parameters of a URI\<close>

definition shareParamName :: string where
  "shareParamName = ''kipper_share''"

definition ssoParamName :: string where
  "ssoParamName = ''kipper_sso''"

definition queryParam :: "string \<Rightarrow> string \<Rightarrow> string" where
  "queryParam uri name =
     (case Cut uri (CHR ''?'') of
        (_, q, found) \<Rightarrow>
          if \<not> found then []
          else (case ParseQuery q of None \<Rightarrow> [] | Some vs \<Rightarrow> values_Get vs name))"

definition shareParam :: "string \<Rightarrow> string" where
  "shareParam uri = queryParam uri shareParamName"

definition ssoParam :: "string \<Rightarrow> string" where
  "ssoParam uri = queryParam uri ssoParamName"

definition without_gate_params :: "query_values \<Rightarrow> query_values" where
  "without_gate_params q = values_Del (values_Del q shareParamName) ssoParamName"

definition stripGateParams :: "string \<Rightarrow> string" where
  "stripGateParams uri =
     (case Cut uri (CHR ''?'') of
        (path, q, found) \<Rightarrow>
          if \<not> found then uri
          else (case ParseQuery q of
                  None \<Rightarrow> path
                | Some vs \<Rightarrow>
                    let encoded = values_Encode (without_gate_params vs)
                    in if encoded \<noteq> [] then path @ ''?'' @ encoded else path))"

definition cleanURL :: "string \<Rightarrow> string \<Rightarrow> string" where
  "cleanURL host uri =
     (case Cut uri (CHR ''?'') of
        (p, q, found) \<Rightarrow>
          let query = (if found then (case ParseQuery q of None \<Rightarrow> [] | Some vs \<Rightarrow> values_Encode (without_gate_params vs)) else []);
              path = (if p = [] then ''/'' else p);
              path = (if HasPrefix path ''/'' then path else ''/'' @ path);
              out = ''https://'' @ host @ path
          in if query \<noteq> [] then out @ ''?'' @ query else out)"

subsection \<open>Cookies\<close>

definition remaining_seconds :: "time \<Rightarrow> time \<Rightarrow> int" where
  "remaining_seconds expiresAt now = max 1 (trunc_div (time_Sub expiresAt now) second)"

definition host_cookie :: "string \<Rightarrow> string \<Rightarrow> int \<Rightarrow> cookie" where
  "host_cookie name val maxAge =
     \<lparr>ckName = name, ckValue = val, ckPath = ''/'', ckSecure = True, ckHttpOnly = True,
      ckSameSite = ''Lax'', ckMaxAge = maxAge\<rparr>"

definition sessionCookie :: "string \<Rightarrow> string \<Rightarrow> time \<Rightarrow> time \<Rightarrow> cookie" where
  "sessionCookie name val expiresAt now = host_cookie name val (remaining_seconds expiresAt now)"

definition shareCookie :: "string \<Rightarrow> string \<Rightarrow> time \<Rightarrow> time \<Rightarrow> cookie" where
  "shareCookie name val expiresAt now = host_cookie name val (remaining_seconds expiresAt now)"

definition clearUICookie :: "string \<Rightarrow> writer \<Rightarrow> writer" where
  "clearUICookie name w = SetCookie (host_cookie name [] (- 1)) w"

definition clearShareCookie :: "string \<Rightarrow> writer \<Rightarrow> writer" where
  "clearShareCookie name w = SetCookie (host_cookie name [] (- 1)) w"

definition sessionCookieExpiry :: "time \<Rightarrow> time \<Rightarrow> time" where
  "sessionCookieExpiry authTime now =
     (let idle = now + SessionIdleTTL; absCap = authTime + SessionAbsoluteTTL
      in if absCap < idle then absCap else idle)"

text \<open>A cookie of the request, \<open>None\<close> when it is missing.\<close>

definition request_cookie :: "request \<Rightarrow> string \<Rightarrow> string option" where
  "request_cookie r name = get (rqCookies r) name"

subsection \<open>Share links\<close>

definition validShareClaims :: "'k libs \<Rightarrow> (string \<Rightarrow> string \<Rightarrow> string option) \<Rightarrow> Keyring option \<Rightarrow> string \<Rightarrow> string \<Rightarrow> time \<Rightarrow> 'k gate \<Rightarrow> Claims option \<times> 'k gate" where
  "validShareClaims lib serviceUID kr token host now g =
     (case ValidateGrantToken (lParse lib) kr token host now of
        None \<Rightarrow> (None, g)
      | Some claims \<Rightarrow>
          (case GrantStore_Get (lDec lib) (lApi lib) now (cID claims) (gGrants g, gKube g) of
             (found, gs, k) \<Rightarrow>
               let g1 = g\<lparr>gGrants := gs, gKube := k\<rparr>
               in (case found of
                     None \<Rightarrow> (None, g1)
                   | Some grant \<Rightarrow>
                       if \<not> Matches grant claims host then (None, g1)
                       else if serviceUID (gNamespace grant) (gService grant) \<noteq> Some (cServiceUID claims) then (None, g1)
                       else (Some claims, g1))))"

text \<open>The answer of the two credential checks: the user and whether the request is done.\<close>

definition tryShare :: "'k libs \<Rightarrow> AuthHandler \<Rightarrow> request \<Rightarrow> time \<Rightarrow> writer \<times> 'k gate \<Rightarrow> (string \<times> bool) \<times> writer \<times> 'k gate" where
  "tryShare lib a r now wg =
     (case wg of (w, g) \<Rightarrow>
        (case hServiceUID a of
           None \<Rightarrow> (([], False), w, g)
         | Some serviceUID \<Rightarrow>
             if \<not> hShareKeyring a \<or> \<not> hShareGrants a then (([], False), w, g)
             else if \<not> EqualFold (rqProto r) ''https'' then (([], False), w, g)
             else (case CanonicalHost (rqHost r) of
               None \<Rightarrow> (([], False), w, g)
             | Some host \<Rightarrow>
                 (case KeyCache_Get (lApi lib) now (gKeys g, gKube g) of
                    (kr, c, k) \<Rightarrow>
                      let g1 = g\<lparr>gKeys := c, gKube := k\<rparr>; cookieName = shareCookieName host; raw = shareParam (rqUri r)
                      in if kr = None then (([], False), w, g1)
                         else if raw \<noteq> [] then
                           (case validShareClaims lib serviceUID kr raw host now g1 of
                              (None, g2) \<Rightarrow> (([], False), clearShareCookie cookieName w, g2)
                            | (Some claims, g2) \<Rightarrow>
                                let expiry = (case cExpiresAt claims of None \<Rightarrow> 0 | Some t \<Rightarrow> t)
                                in (([], True),
                                    http_Redirect (cleanURL host (rqUri r)) (SetCookie (shareCookie cookieName raw expiry now) w), g2))
                         else (case request_cookie r cookieName of
                                 None \<Rightarrow> (([], False), w, g1)
                               | Some val \<Rightarrow>
                                   if val = [] then (([], False), w, g1)
                                   else (case validShareClaims lib serviceUID kr val host now g1 of
                                           (None, g2) \<Rightarrow> (([], False), clearShareCookie cookieName w, g2)
                                         | (Some claims, g2) \<Rightarrow> ((''share:'' @ JTIPrefix (cID claims), True), w, g2)))))))"

subsection \<open>UI sessions\<close>

definition maybeRenewSession :: "'k libs \<Rightarrow> UIKeyring \<Rightarrow> Validated \<Rightarrow> string \<Rightarrow> time \<Rightarrow> writer \<Rightarrow> writer" where
  "maybeRenewSession lib kr v host now w =
     (if SessionRenewBefore \<le> time_Sub (vExpiry v) now then w
      else (case vAuthTime v of
              None \<Rightarrow> w
            | Some authTime \<Rightarrow>
                if \<not> now < authTime + SessionAbsoluteTTL then w
                else (case MintSession (lUISign lib) kr (vSub v) (vEmail v) host (vSID v) authTime now of
                        None \<Rightarrow> w
                      | Some tok \<Rightarrow>
                          SetCookie (sessionCookie (ui_CookieName host) tok (sessionCookieExpiry authTime now) now) w)))"

text \<open>Redeeming a code: the record is created under the code's session id before the session is minted.\<close>

definition redeem_code :: "'k libs \<Rightarrow> UIKeyring \<Rightarrow> string \<Rightarrow> string \<Rightarrow> string \<Rightarrow> time \<Rightarrow> time \<Rightarrow> writer \<times> 'k gate \<Rightarrow> (string \<times> bool) \<times> writer \<times> 'k gate" where
  "redeem_code lib kr code host uri now later wg =
     (case wg of (w, g) \<Rightarrow>
        (case ValidateCode (lUIParse lib) kr code host now of
           None \<Rightarrow> (([], False), w, g)
         | Some v \<Rightarrow>
             (case RecordStore_Create (lHash lib) (lApi lib) later (vSID v) (vSub v) (vEmail v) host now (now + SessionAbsoluteTTL) (gRecords g, gKube g) of
                (Inl _, rs, k) \<Rightarrow> (([], False), w, g\<lparr>gRecords := rs, gKube := k\<rparr>)
              | (Inr _, rs, k) \<Rightarrow>
                  let g1 = g\<lparr>gRecords := rs, gKube := k\<rparr>
                  in (case MintSession (lUISign lib) kr (vSub v) (vEmail v) host (vSID v) now now of
                        None \<Rightarrow> (([], False), w, g1)
                      | Some tok \<Rightarrow>
                          (([], True),
                           http_Redirect (cleanURL host uri)
                             (SetCookie (sessionCookie (ui_CookieName host) tok (sessionCookieExpiry now now) now) w), g1)))))"

definition check_session :: "'k libs \<Rightarrow> (string \<Rightarrow> string) \<Rightarrow> UIKeyring \<Rightarrow> string \<Rightarrow> string \<Rightarrow> time \<Rightarrow> time \<Rightarrow> writer \<times> 'k gate \<Rightarrow> (string \<times> bool) \<times> writer \<times> 'k gate" where
  "check_session lib roleOf kr val host now later wg =
     (case wg of (w, g) \<Rightarrow>
        (case ValidateSession (lUIParse lib) kr val host now of
           None \<Rightarrow> (([], False), clearUICookie (ui_CookieName host) w, g)
         | Some v \<Rightarrow>
             (case Live (lApi lib) now later (vSID v) (gRecords g, gKube g) of
                (live, rs, k) \<Rightarrow>
                  let g1 = g\<lparr>gRecords := rs, gKube := k\<rparr>
                  in if \<not> live then (([], False), clearUICookie (ui_CookieName host) w, g1)
                     else if roleOf (vEmail v) = [] then (([], False), clearUICookie (ui_CookieName host) w, g1)
                     else ((vEmail v, True), maybeRenewSession lib kr v host now w, g1))))"

definition uiSessionFor :: "'k libs \<Rightarrow> AuthHandler \<Rightarrow> request \<Rightarrow> string \<Rightarrow> time \<Rightarrow> time \<Rightarrow> writer \<times> 'k gate \<Rightarrow> (string \<times> bool) \<times> writer \<times> 'k gate" where
  "uiSessionFor lib a r host now later wg =
     (case wg of (w, g) \<Rightarrow>
        (case hRoleOf a of
           None \<Rightarrow> (([], False), w, g)
         | Some roleOf \<Rightarrow>
             if \<not> hUISessionKeyring a \<or> \<not> hUISessions a then (([], False), w, g)
             else if \<not> EqualFold (rqProto r) ''https'' then (([], False), w, g)
             else (case ui_KeyCache_Get (lRetry lib) (lApi lib) now (gUIKeys g, gKube g, gRand g) of
                     (ring, c, k, rnd) \<Rightarrow>
                       let g1 = g\<lparr>gUIKeys := c, gKube := k, gRand := rnd\<rparr>
                       in (case ring of
                             None \<Rightarrow> (([], False), w, g1)
                           | Some kr \<Rightarrow>
                               if ssoParam (rqUri r) \<noteq> [] then
                                 redeem_code lib kr (ssoParam (rqUri r)) host (rqUri r) now later (w, g1)
                               else (case request_cookie r (ui_CookieName host) of
                                       None \<Rightarrow> (([], False), w, g1)
                                     | Some val \<Rightarrow>
                                         if val = [] then (([], False), w, g1)
                                         else check_session lib roleOf kr val host now later (w, g1))))))"

definition tryUISession :: "'k libs \<Rightarrow> AuthHandler \<Rightarrow> request \<Rightarrow> time \<Rightarrow> time \<Rightarrow> writer \<times> 'k gate \<Rightarrow> (string \<times> bool) \<times> writer \<times> 'k gate" where
  "tryUISession lib a r now later wg =
     (case CanonicalHost (rqHost r) of
        None \<Rightarrow> (([], False), wg)
      | Some host \<Rightarrow> uiSessionFor lib a r host now later wg)"

subsection \<open>The gate endpoints\<close>

definition TrimRight_slash :: "string \<Rightarrow> string" where
  "TrimRight_slash s = rev (dropWhile (\<lambda>c. c = CHR ''/'') (rev s))"

definition redirectToLogin :: "AuthHandler \<Rightarrow> request \<Rightarrow> writer \<Rightarrow> writer" where
  "redirectToLogin a r w =
     (if hConsoleURL a = [] then WriteHeader 401 w
      else let stripped = stripGateParams (rqUri r);
               uri = (if stripped = [] then ''/'' else stripped);
               target = (case CanonicalHost (rqHost r) of
                           None \<Rightarrow> []
                         | Some host \<Rightarrow> if redirectHostAllowed a host then ''https://'' @ host @ uri else []);
               loginURL = TrimRight_slash (hConsoleURL a) @ ''/login''
           in http_Redirect (if target \<noteq> [] then loginURL @ ''?next='' @ QueryEscape target else loginURL) w)"

definition no_store :: "writer \<Rightarrow> writer" where
  "no_store w = Header_Set ''Cache-Control'' ''no-store'' w"

text \<open>A finished check writes the user, unless it has written a redirect.\<close>

definition admit :: "string \<Rightarrow> writer \<Rightarrow> writer" where
  "admit user w = (if user \<noteq> [] then WriteHeader 200 (Header_Set ''X-Auth-User'' user w) else w)"

definition Check :: "'k libs \<Rightarrow> AuthHandler \<Rightarrow> request \<Rightarrow> time \<Rightarrow> time \<Rightarrow> 'k gate \<Rightarrow> writer \<times> 'k gate" where
  "Check lib a r now later g =
     (let w0 = no_store new_writer
      in if \<not> hAuth a then (WriteHeader 500 w0, g)
         else (case tryShare lib a r now (w0, g) of
                 ((user, True), w, g1) \<Rightarrow> (admit user w, g1)
               | ((_, False), w, g1) \<Rightarrow>
                   (case tryUISession lib a r now later (w, g1) of
                      ((user, True), w2, g2) \<Rightarrow> (admit user w2, g2)
                    | ((_, False), w2, g2) \<Rightarrow> (redirectToLogin a r w2, g2))))"

definition RoleAdmin :: string where
  "RoleAdmin = ''admin''"

definition CheckGrafana :: "'k libs \<Rightarrow> AuthHandler \<Rightarrow> request \<Rightarrow> time \<Rightarrow> time \<Rightarrow> 'k gate \<Rightarrow> writer \<times> 'k gate" where
  "CheckGrafana lib a r now later g =
     (let w0 = no_store new_writer
      in case hMonitoringAccess a of
           None \<Rightarrow> (WriteHeader 500 w0, g)
         | Some access \<Rightarrow>
             if hGrafanaHosts a = None then (WriteHeader 500 w0, g)
             else (case CanonicalHost (rqHost r) of
                     None \<Rightarrow> (WriteHeader 401 w0, g)
                   | Some host \<Rightarrow>
                       if \<not> isGrafanaHost a host then (WriteHeader 401 w0, g)
                       else (case uiSessionFor lib a r host now later (w0, g) of
                               ((_, False), w, g1) \<Rightarrow> (redirectToLogin a r w, g1)
                             | ((email, True), w, g1) \<Rightarrow>
                                 if email = [] then (w, g1)
                                 else (case access email of
                                         (role, allowed) \<Rightarrow>
                                           if \<not> allowed then (WriteHeader 403 w, g1)
                                           else (WriteHeader 200
                                                   (Header_Set ''X-WEBAUTH-ROLE'' (if role = RoleAdmin then ''Admin'' else ''Editor'')
                                                     (Header_Set ''X-WEBAUTH-USER'' email w)), g1)))))"

subsection \<open>Codes, logout and bulk revocation\<close>

text \<open>What \<open>Auth.ValidateRequest\<close> answers for the bearer token of a request.\<close>

record bearer =
  bSubject :: string
  bEmail :: string
  bAudience :: "string list"

definition isExactlyConsoleAudience :: "bearer \<Rightarrow> string \<Rightarrow> bool" where
  "isExactlyConsoleAudience b console \<longleftrightarrow> bAudience b = [console]"

text \<open>The status of the answer, with the code when it is 200.\<close>

definition UISessionCode :: "'k libs \<Rightarrow> AuthHandler \<Rightarrow> string \<Rightarrow> bearer option \<Rightarrow> string option \<Rightarrow> time \<Rightarrow> 'k gate \<Rightarrow> (int \<times> string) \<times> 'k gate" where
  "UISessionCode lib a console b body now g =
     (case hRoleOf a of
        None \<Rightarrow> ((500, []), g)
      | Some roleOf \<Rightarrow>
          if \<not> hAuth a \<or> \<not> hUISessionKeyring a then ((500, []), g)
          else (case b of
            None \<Rightarrow> ((401, []), g)
          | Some claims \<Rightarrow>
              if \<not> isExactlyConsoleAudience claims console then ((403, []), g)
              else if roleOf (bEmail claims) = [] then ((403, []), g)
              else (case body of
                None \<Rightarrow> ((400, []), g)
              | Some h \<Rightarrow>
                  if h = [] then ((400, []), g)
                  else (case CanonicalHost h of
                    None \<Rightarrow> ((400, []), g)
                  | Some host \<Rightarrow>
                      if \<not> redirectHostAllowed a host \<or> host = consoleHost a then ((400, []), g)
                      else if isGrafanaHost a host \<and>
                        (case hMonitoringAccess a of None \<Rightarrow> True | Some access \<Rightarrow> \<not> snd (access (bEmail claims)))
                      then ((403, []), g)
                      else (case ui_KeyCache_Get (lRetry lib) (lApi lib) now (gUIKeys g, gKube g, gRand g) of
                              (ring, c, k, rnd) \<Rightarrow>
                                let g1 = g\<lparr>gUIKeys := c, gKube := k, gRand := rnd\<rparr>
                                in (case ring of
                                      None \<Rightarrow> ((503, []), g1)
                                    | Some kr \<Rightarrow>
                                        (case MintCode (lUISign lib) kr (bSubject claims) (bEmail claims) host now rnd of
                                           (None, r1) \<Rightarrow> ((500, []), g1\<lparr>gRand := r1\<rparr>)
                                         | (Some (code, sid), r1) \<Rightarrow> ((200, code), g1\<lparr>gRand := r1\<rparr>))))))))"

definition RevokeAllUISessions :: "'k libs \<Rightarrow> AuthHandler \<Rightarrow> 'k gate \<Rightarrow> int \<times> 'k gate" where
  "RevokeAllUISessions lib a g =
     (if \<not> hUISessions a then (500, g)
      else (case DeleteAll (lApi lib) (gRecords g, gKube g) of
              (Some e, rs, k) \<Rightarrow> (500, g\<lparr>gRecords := rs, gKube := k\<rparr>)
            | (None, rs, k) \<Rightarrow>
                let g1 = g\<lparr>gRecords := rs, gKube := k\<rparr>
                in if hUISessionReset a then
                     (case ResetKeyring (lRetry lib) (lApi lib) (k, gRand g) of
                        (Some e, k1, r1) \<Rightarrow> (500, g1\<lparr>gKube := k1, gRand := r1\<rparr>)
                      | (None, k1, r1) \<Rightarrow> (204, g1\<lparr>gKube := k1, gRand := r1\<rparr>))
                   else (204, g1)))"

definition refreshCookieName :: string where
  "refreshCookieName = ''kipper_refresh''"

definition refreshCookiePath :: string where
  "refreshCookiePath = ''/auth/refresh''"

definition refreshCookieMaxAge :: int where
  "refreshCookieMaxAge = 720 * 60 * 60"

definition refresh_cookie :: "string \<Rightarrow> int \<Rightarrow> cookie" where
  "refresh_cookie val maxAge =
     \<lparr>ckName = refreshCookieName, ckValue = val, ckPath = refreshCookiePath, ckSecure = True, ckHttpOnly = True,
      ckSameSite = ''Strict'', ckMaxAge = maxAge\<rparr>"

definition setRefreshCookie :: "string \<Rightarrow> writer \<Rightarrow> writer" where
  "setRefreshCookie refreshToken w =
     (if refreshToken = [] then w else SetCookie (refresh_cookie refreshToken refreshCookieMaxAge) w)"

definition clearRefreshCookie :: "writer \<Rightarrow> writer" where
  "clearRefreshCookie w = SetCookie (refresh_cookie [] (- 1)) w"

definition Logout :: "'k libs \<Rightarrow> AuthHandler \<Rightarrow> bearer option \<Rightarrow> 'k gate \<Rightarrow> writer \<times> 'k gate" where
  "Logout lib a b g =
     (let w = WriteHeader 204 (SetCookie (refresh_cookie [] (- 1)) new_writer)
      in case b of
           None \<Rightarrow> (w, g)
         | Some claims \<Rightarrow>
             if hUISessions a \<and> hAuth a \<and> bSubject claims \<noteq> [] then
               (case DeleteBySubject (lHash lib) (lApi lib) (bSubject claims) (gRecords g, gKube g) of
                  (_, rs, k) \<Rightarrow> (w, g\<lparr>gRecords := rs, gKube := k\<rparr>))
             else (w, g))"

text \<open>
  What Dex answers to the token endpoint; \<open>trusted\<close> tells whether \<open>ValidateIDToken\<close> accepts the token.
\<close>

record tokenResponse =
  trIDToken :: string
  trRefreshToken :: string
  trExpiresIn :: int

datatype dex_answer = DexUnreachable | DexStatus int | DexUnparsable | DexTokens tokenResponse

text \<open>The answer carries the ID token when its status is 200.\<close>

definition Refresh :: "AuthHandler \<Rightarrow> (string \<Rightarrow> bool) \<Rightarrow> (string \<Rightarrow> dex_answer) \<Rightarrow> request \<Rightarrow> writer \<times> string" where
  "Refresh a trusted dex r =
     (case request_cookie r refreshCookieName of
        None \<Rightarrow> (WriteHeader 401 new_writer, [])
      | Some val \<Rightarrow>
          if val = [] then (WriteHeader 401 new_writer, [])
          else (case dex val of
                  DexUnreachable \<Rightarrow> (WriteHeader 502 new_writer, [])
                | DexStatus _ \<Rightarrow> (WriteHeader 401 (clearRefreshCookie new_writer), [])
                | DexUnparsable \<Rightarrow> (WriteHeader 500 new_writer, [])
                | DexTokens t \<Rightarrow>
                    if trIDToken t = [] \<or> trRefreshToken t = [] \<or> trExpiresIn t \<le> 0
                    then (WriteHeader 401 (clearRefreshCookie new_writer), [])
                    else if hAuth a \<and> \<not> trusted (trIDToken t)
                    then (WriteHeader 401 (clearRefreshCookie new_writer), [])
                    else (WriteHeader 200 (setRefreshCookie (trRefreshToken t) new_writer), trIDToken t)))"

end
