(* ===== verification/Share_Handlers.thy ===== *)
theory Share_Handlers
  imports UI_Gate Hostnames
begin

text \<open>
  The admin endpoints for share links, \<^verbatim>\<open>src/console-api/handlers/shares.go\<close>, and the UI host of a
  service, \<^verbatim>\<open>src/console-api/serviceui\<close>. \<open>ParseDuration\<close> and the reads of the Service and of its
  Ingress are arguments; the answer is a status with the link where there is one.
\<close>

definition Browseable :: "string \<Rightarrow> bool" where
  "Browseable serviceType \<longleftrightarrow> serviceType = ''mailhog''"

definition ui_Hostname :: "string \<Rightarrow> string \<Rightarrow> string \<Rightarrow> string" where
  "ui_Hostname name namespace clusterDomain =
     (if clusterDomain = [] then [] else SubdomainFor (name @ ''-'' @ namespace) clusterDomain)"

record 'k share_libs =
  slApi :: "'k client"
  slRetry :: "('k \<times> random, Keyring) retrier"
  slEnc :: grant_enc
  slDec :: grant_dec
  slSign :: "Claims signer"
  slParseDuration :: "string \<Rightarrow> duration option"

record 'k shares_state =
  ssGrants :: GrantStore
  ssKube :: 'k
  ssRand :: random

record createShareRequest =
  csExpiresIn :: string
  csLabel :: string

text \<open>The service as the custom resource stores it, and the host of the first rule of its Ingress.\<close>

record service_view =
  svType :: string
  svUID :: string

record shareLinkResponse =
  slrID :: string
  slrURL :: string
  slrLabel :: string
  slrCreatedBy :: string
  slrCreatedAt :: time
  slrExpiresAt :: time

definition link_response :: "Grant \<Rightarrow> string \<Rightarrow> shareLinkResponse" where
  "link_response g url = \<lparr>slrID = gJTI g, slrURL = url, slrLabel = gLabel g, slrCreatedBy = gCreatedBy g,
     slrCreatedAt = gCreatedAt g, slrExpiresAt = gExpiresAt g\<rparr>"

text \<open>The lifetime a request asks for; \<open>None\<close> is the 400 answer.\<close>

definition share_lifetime :: "(string \<Rightarrow> duration option) \<Rightarrow> string \<Rightarrow> duration option" where
  "share_lifetime parse_duration expiresIn =
     (if expiresIn = [] then Some DefaultLifetime
      else (case parse_duration expiresIn of
              None \<Rightarrow> None
            | Some d \<Rightarrow> if d \<le> 0 then None else if MaxLifetime < d then None else Some d))"

definition revoke_orphan :: "'k share_libs \<Rightarrow> Grant \<Rightarrow> 'k shares_state \<Rightarrow> 'k shares_state" where
  "revoke_orphan lib g st =
     (case GrantStore_Revoke (slDec lib) (slApi lib) (gNamespace g) (gService g) (gJTI g) (ssGrants st, ssKube st) of
        (_, s, k) \<Rightarrow> st\<lparr>ssGrants := s, ssKube := k\<rparr>)"

text \<open>Storing the grant, loading the key and signing, at clock \<open>now\<close> and then \<open>later\<close>.\<close>

definition mint_link :: "'k share_libs \<Rightarrow> Grant \<Rightarrow> time \<Rightarrow> time \<Rightarrow> 'k shares_state \<Rightarrow> (int \<times> shareLinkResponse option) \<times> 'k shares_state" where
  "mint_link lib grant now later st =
     (case GrantStore_Create (slEnc lib) (slDec lib) (slApi lib) now grant (ssGrants st, ssKube st) of
        (Inl e, s, k) \<Rightarrow> ((if e = ErrGrantLimit then 409 else 500, None), st\<lparr>ssGrants := s, ssKube := k\<rparr>)
      | (Inr _, s, k) \<Rightarrow>
          (case LoadOrCreateKeyring (slRetry lib) (slApi lib) (k, ssRand st) of
             (ring, k1, r1) \<Rightarrow>
               let st1 = st\<lparr>ssGrants := s, ssKube := k1, ssRand := r1\<rparr>
               in (case ring of
                     Inl _ \<Rightarrow> ((500, None), revoke_orphan lib grant st1)
                   | Inr kr \<Rightarrow>
                       (case MintGrant (slSign lib) (Some kr) grant later of
                          Inl _ \<Rightarrow> ((500, None), revoke_orphan lib grant st1)
                        | Inr token \<Rightarrow>
                            ((201, Some (link_response grant (''https://'' @ gHost grant @ ''/?kipper_share='' @ token))), st1)))))"

definition Shares_Create ::
  "'k share_libs \<Rightarrow> string \<Rightarrow> string \<Rightarrow> string \<Rightarrow> string \<Rightarrow> createShareRequest option \<Rightarrow> service_view option \<Rightarrow> string option \<Rightarrow> time \<Rightarrow> time \<Rightarrow>
     'k shares_state \<Rightarrow> (int \<times> shareLinkResponse option) \<times> 'k shares_state" where
  "Shares_Create lib domain name namespace actor body svc ingressHost now later st =
     (if name = [] \<or> namespace = [] then ((400, None), st)
      else (case body of
        None \<Rightarrow> ((400, None), st)
      | Some req \<Rightarrow>
          (case share_lifetime (slParseDuration lib) (csExpiresIn req) of
             None \<Rightarrow> ((400, None), st)
           | Some lifetime \<Rightarrow>
               if 100 < length (csLabel req) then ((400, None), st)
               else (case svc of
                 None \<Rightarrow> ((404, None), st)
               | Some s \<Rightarrow>
                   if \<not> Browseable (svType s) then ((400, None), st)
                   else let host = ui_Hostname name namespace domain
                        in if host = [] then ((409, None), st)
                           else if ingressHost \<noteq> Some host then ((409, None), st)
                           else (case NewGrant (svUID s) name namespace host (csLabel req) actor lifetime now (ssRand st) of
                                   (Inl _, r1) \<Rightarrow> ((400, None), st\<lparr>ssRand := r1\<rparr>)
                                 | (Inr grant, r1) \<Rightarrow> mint_link lib grant now later (st\<lparr>ssRand := r1\<rparr>))))))"

definition Shares_List :: "'k share_libs \<Rightarrow> string \<Rightarrow> string \<Rightarrow> time \<Rightarrow> 'k shares_state \<Rightarrow> (int \<times> shareLinkResponse list) \<times> 'k shares_state" where
  "Shares_List lib name namespace now st =
     (if name = [] \<or> namespace = [] then ((400, []), st)
      else (case GrantStore_List (slDec lib) (slApi lib) now namespace name (ssKube st) of
              (Inl _, k) \<Rightarrow> ((500, []), st\<lparr>ssKube := k\<rparr>)
            | (Inr gs, k) \<Rightarrow> ((200, map (\<lambda>g. link_response g []) gs), st\<lparr>ssKube := k\<rparr>)))"

definition Shares_Revoke :: "'k share_libs \<Rightarrow> string \<Rightarrow> string \<Rightarrow> string \<Rightarrow> 'k shares_state \<Rightarrow> int \<times> 'k shares_state" where
  "Shares_Revoke lib name namespace jti st =
     (if name = [] \<or> namespace = [] then (400, st)
      else (case GrantStore_Revoke (slDec lib) (slApi lib) namespace name jti (ssGrants st, ssKube st) of
              (res, s, k) \<Rightarrow>
                (case res of Inr _ \<Rightarrow> 204 | Inl e \<Rightarrow> if e = ErrGrantNotFound then 404 else 503,
                 st\<lparr>ssGrants := s, ssKube := k\<rparr>)))"

definition Shares_RevokeAll :: "'k share_libs \<Rightarrow> 'k shares_state \<Rightarrow> int \<times> 'k shares_state" where
  "Shares_RevokeAll lib st =
     (case GrantStore_RevokeAll (slApi lib) (ssGrants st, ssKube st) of
        (res, s, k) \<Rightarrow> (case res of Inr _ \<Rightarrow> 204 | Inl _ \<Rightarrow> 500, st\<lparr>ssGrants := s, ssKube := k\<rparr>))"

definition RotateKey :: "'k share_libs \<Rightarrow> 'k shares_state \<Rightarrow> (int \<times> string) \<times> 'k shares_state" where
  "RotateKey lib st =
     (case RotateKeyring (slRetry lib) (slApi lib) (ssKube st, ssRand st) of
        (res, k, r) \<Rightarrow>
          (case res of Inr kr \<Rightarrow> (200, CurrentKID kr) | Inl _ \<Rightarrow> (500, []), st\<lparr>ssKube := k, ssRand := r\<rparr>))"

end
