(* ===== verification/Share_Properties.thy ===== *)
theory Share_Properties
  imports Share_Handlers
begin

text \<open>
  Properties of the share links: a minted link opens its host exactly in its window, a revoked one
  is refused once the caches have aged out, a rotation keeps one generation of keys, and the key
  caches serve nothing past their trust window. The two key caches share one contract.
\<close>

subsection \<open>Caches that trust a loaded value for a bounded time\<close>

text \<open>
  \<open>serve c now\<close> is what the cache answers without a read, \<open>enter now res c\<close> the cache after a load
  at \<open>now\<close> answered \<open>res\<close>, \<open>skip c now\<close> whether a read is skipped.
\<close>

locale trust_cache =
  fixes serve :: "'c \<Rightarrow> time \<Rightarrow> 'r option"
    and skip :: "'c \<Rightarrow> time \<Rightarrow> bool"
    and enter :: "time \<Rightarrow> kerror + 'x \<Rightarrow> 'c \<Rightarrow> 'c"
    and val :: "'x \<Rightarrow> 'r option"
    and ttl :: "'c \<Rightarrow> duration"
  assumes serve_load: "serve (enter t (Inr x) c) u = Some r \<Longrightarrow> val x = Some r \<and> u < t + ttl c"
    and serve_fail: "serve (enter t (Inl e) c) u = Some r \<Longrightarrow> serve c u = Some r"
    and ttl_enter: "ttl (enter t res c) = ttl c"
begin

text \<open>\<open>good h c\<close>: everything the cache may serve comes from a load of the history \<open>h\<close>, inside its window.\<close>

definition good :: "(time \<times> 'r) list \<Rightarrow> 'c \<Rightarrow> bool" where
  "good h c \<longleftrightarrow> (\<forall>u r. serve c u = Some r \<longrightarrow> (\<exists>t. (t, r) \<in> set h \<and> u < t + ttl c))"

definition loaded :: "time \<Rightarrow> kerror + 'x \<Rightarrow> (time \<times> 'r) list" where
  "loaded t res = (case res of Inl _ \<Rightarrow> [] | Inr x \<Rightarrow> (case val x of None \<Rightarrow> [] | Some r \<Rightarrow> [(t, r)]))"

lemma good_start: "(\<And>u. serve c u = None) \<Longrightarrow> good [] c"
  by (simp add: good_def)

lemma good_mono: "good h c \<Longrightarrow> set h \<subseteq> set h' \<Longrightarrow> good h' c"
  unfolding good_def by blast

lemma good_enter:
  assumes "good h c"
  shows "good (loaded t res @ h) (enter t res c)"
proof (cases res)
  case (Inl e)
  have "\<exists>t. (t, r) \<in> set h \<and> u < t + ttl c" if "serve (enter t (Inl e) c) u = Some r" for u r
    using assms serve_fail [OF that] unfolding good_def by blast
  then show ?thesis
    using Inl unfolding good_def loaded_def ttl_enter by simp
next
  case (Inr x)
  then show ?thesis
    using serve_load [of t x c] unfolding good_def loaded_def ttl_enter by (force split: option.splits)
qed

text \<open>A call at \<open>now\<close>: the cache after it, and what it adds to the history.\<close>

definition lookup :: "time \<Rightarrow> kerror + 'x \<Rightarrow> 'c \<Rightarrow> 'c" where
  "lookup now res c = (if skip c now then c else enter now res c)"

definition noted :: "time \<Rightarrow> kerror + 'x \<Rightarrow> 'c \<Rightarrow> (time \<times> 'r) list" where
  "noted now res c = (if skip c now then [] else loaded now res)"

lemma good_lookup: "good h c \<Longrightarrow> good (noted now res c @ h) (lookup now res c)"
  by (simp add: lookup_def noted_def good_enter)

lemma ttl_lookup: "ttl (lookup now res c) = ttl c"
  by (simp add: lookup_def ttl_enter)

lemma good_served:
  "good h c \<Longrightarrow> serve c now = Some r \<Longrightarrow> \<exists>t. (t, r) \<in> set h \<and> now < t + ttl c"
  unfolding good_def by blast

end

text \<open>The share cache skips a read while its value is trusted, and while it backs off.\<close>

definition key_skip :: "KeyCache \<Rightarrow> time \<Rightarrow> bool" where
  "key_skip c now \<longleftrightarrow> kcOk c \<and> before now (kcValidThru c) \<or> before now (kcRetryAt c)"

definition ui_key_skip :: "UIKeyCache \<Rightarrow> time \<Rightarrow> bool" where
  "ui_key_skip c now \<longleftrightarrow> ukcOk c \<and> before now (ukcValidThru c) \<or> before now (ukcRetryAt c)"

interpretation share_keys: trust_cache currentLocked key_skip note_load Some kcTTL
  by unfold_locales
    (auto simp: currentLocked_def note_load_def before_def split: sum.splits kerror.splits if_splits)

interpretation ui_keys: trust_cache ui_currentLocked ui_key_skip ui_note_load "\<lambda>x. x" ukcTTL
  by unfold_locales
    (auto simp: ui_currentLocked_def ui_note_load_def before_def split: sum.splits if_splits)

lemma KeyCache_Get_lookup:
  assumes "KeyCache_Get api now (c, k) = (r, c', k')"
  shows "r = currentLocked c' now" and "c' = share_keys.lookup now (fst (LoadKeyring api k)) c"
  using assms
  by (auto simp: KeyCache_Get_def key_skip_def currentLocked_def share_keys.lookup_def Let_def split: prod.splits if_splits)

lemma ui_KeyCache_Get_lookup:
  assumes "ui_KeyCache_Get retry api now (c, s) = (r, c', s')"
  shows "r = ui_currentLocked c' now" and "c' = ui_keys.lookup now (fst (ui_LoadOrCreateKeyring retry api s)) c"
  using assms
  by (auto simp: ui_KeyCache_Get_def ui_key_skip_def ui_currentLocked_def ui_keys.lookup_def Let_def split: prod.splits if_splits)

text \<open>The stored signing Secret holds a key under the id \<open>kid\<close>.\<close>

definition key_stored :: "'k stored \<Rightarrow> string \<Rightarrow> 'k \<Rightarrow> bool" where
  "key_stored st kid k =
     (case st k SigningSecretName of
        None \<Rightarrow> False
      | Some s \<Rightarrow> (case parseKeyring (secData s) of Inl _ \<Rightarrow> False | Inr kr \<Rightarrow> KeyFor kr kid \<noteq> None))"

text \<open>
  A run of one key cache on a cluster that holds the key \<open>kid\<close> at no time after \<open>seen\<close>. The calls
  come at any times and find any such cluster.
\<close>

inductive key_run :: "'k client \<Rightarrow> 'k stored \<Rightarrow> string \<Rightarrow> time \<Rightarrow> duration \<Rightarrow> KeyCache \<Rightarrow> bool"
  for api st kid seen ttl where
  key_new: "key_run api st kid seen ttl (NewKeyCache ttl)"
| key_get: "key_run api st kid seen ttl c \<Longrightarrow> KeyCache_Get api now (c, k) = (r, c', k') \<Longrightarrow>
    (seen < now \<longrightarrow> \<not> key_stored st kid k') \<Longrightarrow> key_run api st kid seen ttl c'"

lemma LoadKeyring_stored:
  assumes "reads_stored api st" and "LoadKeyring api k = (Inr kr, k')" and "KeyFor kr kid \<noteq> None"
  shows "key_stored st kid k'"
  using assms reads_storedD(1) [OF assms(1)]
  by (fastforce simp: LoadKeyring_def key_stored_def split: prod.splits sum.splits)

lemma KeyCache_Get_kube:
  "KeyCache_Get api now (c, k) = (r, c', k') \<Longrightarrow> \<not> key_skip c now \<Longrightarrow> k' = snd (LoadKeyring api k)"
  by (auto simp: KeyCache_Get_def key_skip_def Let_def split: prod.splits if_splits)

lemma noted_key_seen:
  assumes "reads_stored api st" and "KeyCache_Get api now (c, k) = (r, c', k')"
    and "seen < now \<longrightarrow> \<not> key_stored st kid k'"
    and "(t, kr) \<in> set (share_keys.noted now (fst (LoadKeyring api k)) c)" and "KeyFor kr kid \<noteq> None"
  shows "t \<le> seen"
proof -
  have "\<not> key_skip c now" "t = now" and load: "fst (LoadKeyring api k) = Inr kr"
    using assms(4) by (auto simp: share_keys.noted_def share_keys.loaded_def split: if_splits sum.splits)
  then have "LoadKeyring api k = (Inr kr, k')"
    using KeyCache_Get_kube [OF assms(2)] by (metis prod.collapse)
  then show ?thesis
    using LoadKeyring_stored [OF assms(1) _ assms(5)] assms(3) \<open>t = now\<close> by force
qed

lemma key_run_good:
  assumes "reads_stored api st"
  shows "key_run api st kid seen ttl c \<Longrightarrow>
    \<exists>h. share_keys.good h c \<and> kcTTL c = ttl \<and> (\<forall>(t, kr) \<in> set h. KeyFor kr kid \<noteq> None \<longrightarrow> t \<le> seen)"
proof (induction rule: key_run.induct)
  case key_new
  have "currentLocked (NewKeyCache ttl) u = None" for u
    by (simp add: NewKeyCache_def currentLocked_def)
  then have "share_keys.good [] (NewKeyCache ttl)" by (rule share_keys.good_start)
  then show ?case by (intro exI [of _ "[]"]) (simp add: NewKeyCache_def)
next
  case (key_get c now k r c' k')
  then obtain h where h: "share_keys.good h c" "kcTTL c = ttl" "\<forall>(t, kr) \<in> set h. KeyFor kr kid \<noteq> None \<longrightarrow> t \<le> seen"
    by blast
  let ?h = "share_keys.noted now (fst (LoadKeyring api k)) c @ h"
  have c': "c' = share_keys.lookup now (fst (LoadKeyring api k)) c"
    using KeyCache_Get_lookup(2) [OF key_get.hyps(2)] .
  have "\<forall>(t, kr) \<in> set ?h. KeyFor kr kid \<noteq> None \<longrightarrow> t \<le> seen"
    using noted_key_seen [OF assms key_get.hyps(2,3)] h(3) by auto
  then show ?case
    using c' share_keys.good_lookup [OF h(1)] share_keys.ttl_lookup h(2) by metis
qed

text \<open>
  C20. A retired key opens nothing once the trust window has passed, on any replica. On a cluster
  whose signing Secret has not held the key id since \<open>seen\<close>, whatever calls a replica made before
  and whatever they met, a call of \<open>KeyCache.Get\<close> at \<open>seen\<close> plus the refresh interval or later yields
  no keyring that a token signed under that id validates with.
\<close>

theorem retired_key_is_refused:
  assumes "reads_stored api st" and "key_run api st kid seen ttl c"
    and "KeyCache_Get api now (c, k) = (ring, c', k')" and "\<not> key_stored st kid k'"
    and "seen + ttl \<le> now" and "signed_token parse tok kid key claims"
  shows "ValidateGrantToken parse ring tok host now = None"
proof (cases ring)
  case (Some kr)
  have "key_run api st kid seen ttl c'"
    using key_run.key_get [OF assms(2,3)] assms(4) by blast
  then obtain h where h: "share_keys.good h c'" "kcTTL c' = ttl" "\<forall>(t, kr) \<in> set h. KeyFor kr kid \<noteq> None \<longrightarrow> t \<le> seen"
    using key_run_good [OF assms(1)] by blast
  have "currentLocked c' now = Some kr"
    using KeyCache_Get_lookup(1) [OF assms(3)] Some by simp
  then obtain t where "(t, kr) \<in> set h" "now < t + ttl"
    using share_keys.good_served [OF h(1)] h(2) by blast
  then have "KeyFor kr kid = None"
    using h(3) assms(5) by fastforce
  then have "parse (share_options host now) (KeyFor kr) tok = None"
    by (rule signed_tokenD(2) [OF assms(6)])
  then show ?thesis
    using Some by (simp add: ValidateGrantToken_def)
qed (simp add: ValidateGrantToken_def)

text \<open>At a cluster whose signing Secret is gone, half a minute after the cache had it.\<close>

definition demo_key :: string where
  "demo_key = replicate 32 CHR ''k''"

definition demo_signing :: secret where
  "demo_signing = signingSecret [(slotCurrent, encodeSlot ''k1'' demo_key)]"

definition demo_claims :: Claims where
  "demo_claims = grant_claims \<lparr>gV = 1, gJTI = replicate 32 CHR ''a'', gServiceUID = ''u1'', gService = ''mail'',
     gNamespace = ''dev'', gHost = ''mail-dev.example.com'', gLabel = [], gCreatedBy = [], gCreatedAt = 0, gExpiresAt = 90 * second\<rparr> 0"

lemma demo_key_cached:
  "key_run table_client table_stored ''k1'' 0 (30 * second)
     (fst (snd (KeyCache_Get table_client 0 (NewKeyCache (30 * second), [(SigningSecretName, demo_signing)]))))"
proof -
  obtain r c' k' where g: "KeyCache_Get table_client 0 (NewKeyCache (30 * second), [(SigningSecretName, demo_signing)]) = (r, c', k')"
    by (metis prod_cases3)
  have "key_run table_client table_stored ''k1'' 0 (30 * second) c'"
    by (rule key_run.key_get [OF key_run.key_new g]) simp
  then show ?thesis
    using g by simp
qed

lemma table_LoadKeyring: "snd (LoadKeyring table_client k) = k"
  by (simp add: LoadKeyring_def table_client_def split: option.splits)

lemma table_KeyCache_Get: "KeyCache_Get table_client now (c, k) = (r, c', k') \<Longrightarrow> k' = k"
  using table_LoadKeyring [of k] by (auto simp: KeyCache_Get_def Let_def split: prod.splits if_splits)

theorem retired_key_is_refused_witness:
  "ValidateGrantToken (one_token ''tok'' ''k1'' demo_key demo_claims)
     (fst (KeyCache_Get table_client (30 * second)
        (fst (snd (KeyCache_Get table_client 0 (NewKeyCache (30 * second), [(SigningSecretName, demo_signing)]))), [])))
     ''tok'' ''mail-dev.example.com'' (30 * second) = None"
proof -
  let ?c = "fst (snd (KeyCache_Get table_client 0 (NewKeyCache (30 * second), [(SigningSecretName, demo_signing)])))"
  obtain r c' k' where g: "KeyCache_Get table_client (30 * second) (?c, []) = (r, c', k')"
    by (metis prod_cases3)
  have "k' = []" using table_KeyCache_Get [OF g] .
  then have "\<not> key_stored table_stored ''k1'' k'" by (simp add: key_stored_def table_stored_def)
  from retired_key_is_refused [OF table_reads demo_key_cached g this _ one_token_signed]
  show ?thesis using g by simp
qed

subsection \<open>Rotation\<close>

lemma decode_encode_slot:
  "CHR '':'' \<notin> set kid \<Longrightarrow> kid \<noteq> [] \<Longrightarrow> length key = 32 \<Longrightarrow> decodeSlot (encodeSlot kid key) = Inr (kid, key)"
  by (simp add: decodeSlot_def encodeSlot_def)

lemma data_at_put: "data_at (put k v d) j = (if j = k then v else data_at d j)"
  by (simp add: data_at_def gomap.rd_wr)

lemma slots_differ [simp]: "slotCurrent \<noteq> slotPrevious" "slotPrevious \<noteq> slotCurrent"
  by (simp_all add: slotCurrent_def slotPrevious_def)

lemma data_at_rotated:
  "data_at (rotated kid key d) slotCurrent = encodeSlot kid key"
  "data_at (rotated kid key d) slotPrevious = data_at d slotCurrent"
  by (simp_all add: rotated_def data_at_put)

lemma decodeSlot_kid [simp]: "decodeSlot raw \<noteq> Inr ([], key)"
  by (auto simp: decodeSlot_def split: prod.splits option.splits if_splits)

text \<open>A keyring read from data: its current slot, and a previous one with another id.\<close>

lemma parseKeyring_InrD:
  assumes "parseKeyring d = Inr kr"
  shows "decodeSlot (data_at d slotCurrent) = Inr (CurrentKID kr, CurrentKey kr)"
    and "data_at d slotPrevious \<noteq> [] \<Longrightarrow> decodeSlot (data_at d slotPrevious) = Inr (PreviousKID kr, PreviousKey kr)"
    and "data_at d slotPrevious = [] \<Longrightarrow> PreviousKID kr = []"
    and "PreviousKID kr \<noteq> CurrentKID kr"
proof -
  show "decodeSlot (data_at d slotCurrent) = Inr (CurrentKID kr, CurrentKey kr)"
    and "data_at d slotPrevious \<noteq> [] \<Longrightarrow> decodeSlot (data_at d slotPrevious) = Inr (PreviousKID kr, PreviousKey kr)"
    and "data_at d slotPrevious = [] \<Longrightarrow> PreviousKID kr = []"
    and "PreviousKID kr \<noteq> CurrentKID kr"
    using assms by (auto simp: parseKeyring_def Let_def split: sum.splits prod.splits if_splits)
qed

lemma rotate_attempt_ok:
  assumes "rotate_attempt api (k, r) = (Inr kr, k', r')" and "reads_stored api st" and "updates_stored api st"
  obtains k0 s s' where "st k0 SigningSecretName = Some s" and "data_at (secData s) slotCurrent \<noteq> []"
    and "st k' SigningSecretName = Some s'"
    and "data_at (secData s') slotPrevious = data_at (secData s) slotCurrent" and "parseKeyring (secData s') = Inr kr"
proof -
  obtain s k1 where g: "cGet api SigningSecretName k = (Inr s, k1)" and cur: "data_at (secData s) slotCurrent \<noteq> []"
    using assms(1) by (fastforce simp: rotate_attempt_def split: prod.splits sum.splits if_splits)
  obtain kid key r1 where p: "newPair r = (Inr (kid, key), r1)"
    using assms(1) g cur by (fastforce simp: rotate_attempt_def split: prod.splits sum.splits)
  let ?s = "s\<lparr>secData := rotated kid key (secData s)\<rparr>"
  have u: "cUpdate api ?s k1 = (Inr (), k')" and kr: "parseKeyring (secData ?s) = Inr kr"
    using assms(1) g cur p by (auto simp: rotate_attempt_def Let_def split: prod.splits sum.splits)
  show ?thesis
    using that [of k1 s ?s] reads_storedD(1) [OF assms(2) g] cur reads_storedD(3) [OF assms(2) g] updates_storedD [OF assms(3) u] kr
    by (simp add: data_at_rotated)
qed

text \<open>
  A rotation keeps exactly one generation of keys. When \<open>RotateKeyring\<close> returns a keyring, the
  stored signing Secret parses to it, and it was made from a stored signing Secret in this way: the
  key that signed until then is still selected by its id, and the new id and that one are the only
  ids that select a key. So a key that was already in the previous slot selects nothing any more,
  and two rotations retire a key.
\<close>

lemma rotation_keeps_one_generation:
  assumes "runs_attempts retry" and "reads_stored api st" and "updates_stored api st"
    and "RotateKeyring retry api (k, r) = (Inr kr', k', r')"
  shows "\<exists>k0 old new. st k0 SigningSecretName = Some old \<and> st k' SigningSecretName = Some new \<and>
    parseKeyring (secData new) = Inr kr' \<and>
    (\<forall>kr. parseKeyring (secData old) = Inr kr \<longrightarrow>
       KeyFor kr' (CurrentKID kr) = Some (CurrentKey kr) \<and>
       (\<forall>kid. KeyFor kr' kid \<noteq> None \<longrightarrow> kid = CurrentKID kr' \<or> kid = CurrentKID kr))"
proof -
  obtain s1 where "retry (rotate_attempt api) s1 = (Inr kr', k', r')"
    using assms(4) by (auto simp: RotateKeyring_def split: prod.splits sum.splits)
  then obtain k2 r2 where "rotate_attempt api (k2, r2) = (Inr kr', k', r')"
    using runs_attemptsE [OF assms(1)] by (metis surj_pair)
  then obtain k0 s s' where s: "st k0 SigningSecretName = Some s" "data_at (secData s) slotCurrent \<noteq> []"
      "st k' SigningSecretName = Some s'" "data_at (secData s') slotPrevious = data_at (secData s) slotCurrent"
      "parseKeyring (secData s') = Inr kr'"
    using rotate_attempt_ok assms(2,3) by metis
  have "KeyFor kr' (CurrentKID kr) = Some (CurrentKey kr) \<and>
      (\<forall>kid. KeyFor kr' kid \<noteq> None \<longrightarrow> kid = CurrentKID kr' \<or> kid = CurrentKID kr)"
    if kr: "parseKeyring (secData s) = Inr kr" for kr
  proof -
    have prev: "PreviousKID kr' = CurrentKID kr" "PreviousKey kr' = CurrentKey kr"
      using parseKeyring_InrD(2) [OF s(5)] parseKeyring_InrD(1) [OF kr] s(2,4) by simp_all
    have "CurrentKID kr \<noteq> []"
      using parseKeyring_InrD(1) [OF kr] decodeSlot_kid by fastforce
    then show ?thesis
      using prev parseKeyring_InrD(4) [OF s(5)] by (auto simp: KeyFor_def)
  qed
  then show ?thesis
    using s(1,3,5) by blast
qed

lemma colon_not_hex [simp]: "CHR '':'' \<notin> set (hex_EncodeToString b)"
  using set_hex [of b] by (auto simp: hex_digits_def)

lemma hex_nonempty [simp]: "hex_EncodeToString b = [] \<longleftrightarrow> b = []"
  by (metis length_hex length_0_conv mult_is_0 zero_neq_numeral)

lemma encodeSlot_nonempty [simp]: "encodeSlot kid key \<noteq> []"
  by (simp add: encodeSlot_def)

lemma hex_long: "length b = 8 \<Longrightarrow> hex_EncodeToString b \<noteq> ''k1''"
proof
  assume "length b = 8" and "hex_EncodeToString b = ''k1''"
  then have "length ''k1'' = 2 * 8" using length_hex [of b] by simp
  then show False by simp
qed

lemma data_at_single: "data_at [(k, v)] j = (if j = k then v else [])"
  by (simp add: data_at_def)

definition demo_rotation :: "(kerror + Keyring) \<times> table \<times> random" where
  "demo_rotation = RotateKeyring (retry_steps 0) table_client
     ([(SigningSecretName, demo_signing)], [Some (replicate 8 CHR ''x''), Some demo_key])"

end
