(* ===== verification/Share_Links.thy ===== *)
theory Share_Links
  imports Share_Properties
begin

text \<open>
  The life of a share link at the gate: the window in which a minted link opens its host, what an
  accepted link rests on, and the end of a revoked one under the grant cache of every replica.
\<close>

subsection \<open>The window of a link\<close>

lemma seconds_whole:
  "Truncate_second e = e \<Longrightarrow> e \<le> t \<Longrightarrow> e \<le> Truncate_second t"
  by (metis Truncate_second_def mult_right_mono order_less_imp_le second_def zdiv_mono1 zero_less_numeral)

lemma Truncate_minus_days: "Truncate_second (e - n * day) = Truncate_second e - n * day"
proof -
  have d: "n * day = (n * 86400) * second" by (simp add: day_def duration_defs)
  have "(e - (n * 86400) * second) div second = e div second - n * 86400"
    using div_mult_self1 [of second e "- (n * 86400)"] by (simp add: second_def)
  then show ?thesis
    unfolding d Truncate_second_def by (simp add: left_diff_distrib)
qed

lemma lifetime_range [simp]: "min_duration < MaxLifetime" "MaxLifetime < max_duration" "0 < MaxLifetime"
  "min_duration \<le> 0" "0 < max_duration" "min_duration \<le> MaxLifetime"
  by (simp_all add: MaxLifetime_def day_def duration_defs min_duration_def max_duration_def)

text \<open>What a successful mint tells of the grant and the clock.\<close>

lemma MintGrant_InrD:
  assumes "MintGrant sign (Some kr) g t = Inr tok"
  shows "sign (CurrentKID kr) (CurrentKey kr) (grant_claims g t) = Some tok"
    and "t < gExpiresAt g" and "gExpiresAt g \<le> t + MaxLifetime"
    and "gHost g \<noteq> []" and "gJTI g \<noteq> []" and "gServiceUID g \<noteq> []"
proof -
  have "\<not> time_Sub (gExpiresAt g) t \<le> 0" "\<not> MaxLifetime < time_Sub (gExpiresAt g) t"
    and *: "sign (CurrentKID kr) (CurrentKey kr) (grant_claims g t) = Some tok"
      "gHost g \<noteq> []" "gJTI g \<noteq> []" "gServiceUID g \<noteq> []"
    using assms by (auto simp: MintGrant_def Let_def split: if_splits option.splits)
  then show "t < gExpiresAt g" and "gExpiresAt g \<le> t + MaxLifetime"
    by (simp_all add: time_Sub_le time_Sub_gt)
  show "sign (CurrentKID kr) (CurrentKey kr) (grant_claims g t) = Some tok"
    "gHost g \<noteq> []" "gJTI g \<noteq> []" "gServiceUID g \<noteq> []"
    using * by blast+
qed

text \<open>The span between the claims of a minted token is a lifetime the validation accepts.\<close>

lemma minted_span:
  assumes "MintGrant sign (Some kr) g t = Inr tok" and "Truncate_second (gExpiresAt g) = gExpiresAt g"
  shows "\<not> time_Sub (gExpiresAt g) (Truncate_second t) \<le> 0" "\<not> MaxLifetime < time_Sub (gExpiresAt g) (Truncate_second t)"
proof -
  have "Truncate_second (gExpiresAt g - MaxLifetime) = gExpiresAt g - MaxLifetime"
    using assms(2) by (simp add: MaxLifetime_def Truncate_minus_days)
  then have "gExpiresAt g - MaxLifetime \<le> Truncate_second t"
    using MintGrant_InrD(3) [OF assms(1)] seconds_whole by simp
  moreover have "Truncate_second t < gExpiresAt g"
    using MintGrant_InrD(2) [OF assms(1)] Truncate_bounds(1) [of t] by linarith
  ultimately show "\<not> time_Sub (gExpiresAt g) (Truncate_second t) \<le> 0"
    "\<not> MaxLifetime < time_Sub (gExpiresAt g) (Truncate_second t)"
    by (simp_all add: time_Sub_le time_Sub_gt)
qed

lemma minted_claims_valid:
  "claims_valid (share_options host now) (grant_claims g t) \<longleftrightarrow>
     host = gHost g \<and> now < Truncate_second (gExpiresAt g) + leeway \<and> Truncate_second t - leeway \<le> now"
  by (auto simp: claims_valid_def share_options_def grant_claims_def)

lemma ValidateGrantToken_minted:
  assumes mint: "MintGrant sign (Some kr) g t = Inr tok" and whole: "Truncate_second (gExpiresAt g) = gExpiresAt g"
    and tok: "signed_token parse tok (CurrentKID kr) (CurrentKey kr) (grant_claims g t)"
    and key: "KeyFor kr' (CurrentKID kr) = Some (CurrentKey kr)"
  shows "ValidateGrantToken parse (Some kr') tok host now =
    (if host = gHost g \<and> Truncate_second t - leeway \<le> now \<and> now < gExpiresAt g + leeway then Some (grant_claims g t) else None)"
proof -
  have "parse (share_options host now) (KeyFor kr') tok =
      (if claims_valid (share_options host now) (grant_claims g t) then Some (grant_claims g t) else None)"
    using signed_tokenD(1) [OF tok, of "KeyFor kr'"] key by blast
  moreover have "cIssuedAt (grant_claims g t) = Some (Truncate_second t)" "cExpiresAt (grant_claims g t) = Some (gExpiresAt g)"
    "cID (grant_claims g t) = gJTI g" "cServiceUID (grant_claims g t) = gServiceUID g" "cAudience (grant_claims g t) = [gHost g]"
    using whole by (simp_all add: grant_claims_def)
  ultimately show ?thesis
    using minted_span [OF mint whole] MintGrant_InrD(4-6) [OF mint] signed_tokenD(3) [OF tok] whole
    by (auto simp: ValidateGrantToken_def minted_claims_valid)
qed

lemma NewGrant_whole:
  "NewGrant uid svc ns host label by lifetime now r = (Inr g, r') \<Longrightarrow> Truncate_second (gExpiresAt g) = gExpiresAt g"
  by (auto simp: NewGrant_def split: if_splits prod.splits option.splits)

lemma Matches_minted:
  "Truncate_second (gExpiresAt g) = gExpiresAt g \<Longrightarrow> Matches g (grant_claims g t) (gHost g)"
  by (simp add: Matches_def grant_claims_def)

subsection \<open>The share check of the gate\<close>

lemma validShareClaims_minted:
  assumes mint: "MintGrant sign (Some kr) g t = Inr tok" and whole: "Truncate_second (gExpiresAt g) = gExpiresAt g"
    and tok: "signed_token (lParse lib) tok (CurrentKID kr) (CurrentKey kr) (grant_claims g t)"
    and key: "KeyFor kr' (CurrentKID kr) = Some (CurrentKey kr)"
    and store: "fst (GrantStore_Get (lDec lib) (lApi lib) now (gJTI g) (gGrants s, gKube s)) = liveGrant (Some g) now"
    and uid: "uid (gNamespace g) (gService g) = Some (gServiceUID g)"
  shows "fst (validShareClaims lib uid (Some kr') tok host now s) =
    (if host = gHost g \<and> Truncate_second t - leeway \<le> now \<and> now \<le> gExpiresAt g then Some (grant_claims g t) else None)"
proof -
  have id: "cID (grant_claims g t) = gJTI g" "cServiceUID (grant_claims g t) = gServiceUID g"
    by (simp_all add: grant_claims_def)
  have "0 < leeway" by (simp add: leeway_def second_def)
  then show ?thesis
    using store uid Matches_minted [OF whole, of t]
    by (auto simp: validShareClaims_def ValidateGrantToken_minted [OF mint whole tok key] liveGrant_def id Let_def
        split: prod.splits option.splits if_splits)
qed

text \<open>A request that reaches the share check with a cookie: over https, for a well-formed host.\<close>

definition share_visit :: "AuthHandler \<Rightarrow> request \<Rightarrow> string \<Rightarrow> string \<Rightarrow> bool" where
  "share_visit a r host tok \<longleftrightarrow>
     hShareKeyring a \<and> hShareGrants a \<and> hServiceUID a \<noteq> None \<and> EqualFold (rqProto r) ''https'' \<and>
     CanonicalHost (rqHost r) = Some host \<and> shareParam (rqUri r) = [] \<and> tok \<noteq> [] \<and>
     request_cookie r (shareCookieName host) = Some tok"

lemma tryShare_visit:
  assumes "share_visit a r host tok" and "KeyCache_Get (lApi lib) now (gKeys s, gKube s) = (Some kr, c, k)"
  shows "fst (tryShare lib a r now (w, s)) =
    (case fst (validShareClaims lib (the (hServiceUID a)) (Some kr) tok host now (s\<lparr>gKeys := c, gKube := k\<rparr>)) of
       None \<Rightarrow> ([], False) | Some claims \<Rightarrow> (''share:'' @ JTIPrefix (cID claims), True))"
  using assms by (auto simp: share_visit_def tryShare_def Let_def split: prod.splits option.splits)

text \<open>
  C15. A share link opens exactly its host, exactly in its window. Take a grant made by \<open>NewGrant\<close>, a
  token minted for it at \<open>t\<close> (which may be later), and a gate whose key cache still knows the
  signing key, whose grant store finds the grant while it is unexpired and whose Service still has
  the uid. A visit with the token in its cookie is admitted as \<open>share:\<close> and the prefix of the link's id
  when the forwarded host is the host of the grant and the clock lies between the mint (less the
  leeway of 30 seconds) and the expiry of the grant, both inclusive; otherwise the check passes the
  request on. The leeway of the JWT library never extends a link past its expiry.
\<close>

theorem minted_link_opens_exactly:
  assumes "NewGrant suid svc ns ghost label creator lifetime t0 rnd = (Inr g, rnd')"
    and "MintGrant sign (Some kr) g t = Inr tok"
    and "signed_token (lParse lib) tok (CurrentKID kr) (CurrentKey kr) (grant_claims g t)"
    and "share_visit a r host tok"
    and "KeyCache_Get (lApi lib) now (gKeys s, gKube s) = (Some kr', c, k)"
    and "KeyFor kr' (CurrentKID kr) = Some (CurrentKey kr)"
    and "fst (GrantStore_Get (lDec lib) (lApi lib) now (gJTI g) (gGrants s, k)) = liveGrant (Some g) now"
    and "the (hServiceUID a) ns svc = Some suid"
  shows "fst (tryShare lib a r now (w, s)) =
    (if host = ghost \<and> Truncate_second t - leeway \<le> now \<and> now \<le> Truncate_second (t0 + lifetime)
     then (''share:'' @ JTIPrefix (gJTI g), True) else ([], False))"
proof -
  have g: "gHost g = ghost" "gExpiresAt g = Truncate_second (t0 + lifetime)" "gServiceUID g = suid"
    "gNamespace g = ns" "gService g = svc"
    using assms(1) by (auto simp: NewGrant_def split: if_splits prod.splits option.splits)
  have "fst (validShareClaims lib (the (hServiceUID a)) (Some kr') tok host now (s\<lparr>gKeys := c, gKube := k\<rparr>)) =
      (if host = gHost g \<and> Truncate_second t - leeway \<le> now \<and> now \<le> gExpiresAt g then Some (grant_claims g t) else None)"
    by (rule validShareClaims_minted [OF assms(2) NewGrant_whole [OF assms(1)] assms(3,6)])
      (use assms(7,8) g in simp_all)
  then show ?thesis
    using tryShare_visit [OF assms(4,5)] g by (simp add: grant_claims_def)
qed

text \<open>A link of ninety seconds, visited after forty-five.\<close>

definition demo_grant :: Grant where
  "demo_grant = projr (fst (NewGrant ''u1'' ''mail'' ''dev'' ''mail-dev.example.com'' [] [] (90 * second) 0 [Some (replicate 16 CHR ''a'')]))"

definition demo_ring :: Keyring where
  "demo_ring = \<lparr>CurrentKID = ''k1'', CurrentKey = demo_key, PreviousKID = [], PreviousKey = []\<rparr>"

definition demo_handler :: AuthHandler where
  "demo_handler = \<lparr>hAuth = True, hUIDomain = ''example.com'', hConsoleURL = ''https://console.example.com'',
     consoleHost = ''console.example.com'', hShareKeyring = True, hShareGrants = True,
     hServiceUID = Some (\<lambda>ns n. if ns = ''dev'' \<and> n = ''mail'' then Some ''u1'' else None),
     hUISessionKeyring = True, hUISessions = True, hUISessionReset = True,
     hRoleOf = Some (\<lambda>e. if e = ''op@example.com'' then ''admin'' else []), hMonitoringAccess = None, hGrafanaHosts = None\<rparr>"

definition demo_libs :: "table libs" where
  "demo_libs = \<lparr>lApi = table_client, lRetry = retry_steps 0, lDec = (\<lambda>_. None), lHash = (\<lambda>v. v),
     lParse = one_token ''tok'' ''k1'' demo_key (grant_claims demo_grant 0), lUISign = (\<lambda>_ _ _. Some ''s''), lUIParse = (\<lambda>_ _ _. None)\<rparr>"

definition demo_visit :: request where
  "demo_visit = \<lparr>rqProto = ''https'', rqHost = ''mail-dev.example.com'', rqUri = ''/'',
     rqCookies = [(''__Host-kipper-share-mail-dev'', ''tok'')]\<rparr>"

definition demo_replica :: "table gate" where
  "demo_replica =
     \<lparr>gKeys = \<lparr>kcTTL = 30 * second, kcRing = Some demo_ring, kcOk = True, kcValidThru = Some (60 * second), kcRetryAt = None\<rparr>,
      gGrants = \<lparr>gsCache = [(gJTI demo_grant, \<lparr>geGrant = Some demo_grant, geFetchedAt = 40 * second\<rparr>)]\<rparr>,
      gUIKeys = ui_NewKeyCache (30 * second), gRecords = NewRecordStore, gKube = [], gRand = []\<rparr>"

lemma demo_visit_ok: "share_visit demo_handler demo_visit ''mail-dev.example.com'' ''tok''"
  by code_simp

theorem minted_link_opens_exactly_witness:
  "fst (tryShare demo_libs demo_handler demo_visit (45 * second) (new_writer, demo_replica)) =
     (''share:61616161'', True)"
proof -
  let ?kr = demo_ring
  have new: "NewGrant ''u1'' ''mail'' ''dev'' ''mail-dev.example.com'' [] [] (90 * second) 0 [Some (replicate 16 CHR ''a'')] = (Inr demo_grant, [])"
    by code_simp
  have mint: "MintGrant (\<lambda>_ _ _. Some ''tok'') (Some ?kr) demo_grant 0 = Inr ''tok''"
    by code_simp
  have tok: "signed_token (lParse demo_libs) ''tok'' (CurrentKID ?kr) (CurrentKey ?kr) (grant_claims demo_grant 0)"
    by (simp add: demo_libs_def demo_ring_def one_token_signed)
  have keys: "KeyCache_Get (lApi demo_libs) (45 * second) (gKeys demo_replica, gKube demo_replica) = (Some ?kr, gKeys demo_replica, [])"
    by (simp add: KeyCache_Get_def demo_replica_def before_def second_def)
  have key: "KeyFor ?kr (CurrentKID ?kr) = Some (CurrentKey ?kr)" by (simp add: KeyFor_def demo_ring_def)
  have store: "fst (GrantStore_Get (lDec demo_libs) (lApi demo_libs) (45 * second) (gJTI demo_grant) (gGrants demo_replica, [])) = liveGrant (Some demo_grant) (45 * second)"
    by code_simp
  have uid: "the (hServiceUID demo_handler) ''dev'' ''mail'' = Some ''u1''" by (simp add: demo_handler_def)
  have "JTIPrefix (gJTI demo_grant) = ''61616161''" by code_simp
  then show ?thesis
    using minted_link_opens_exactly [OF new mint tok demo_visit_ok keys key store uid, of new_writer]
    by (simp add: Truncate_second_def second_def leeway_def)
qed

subsection \<open>What an admitted link rests on\<close>

lemma validShareClaims_SomeD:
  assumes "fst (validShareClaims lib uid ring tok host now s) = Some claims"
  shows "ValidateGrantToken (lParse lib) ring tok host now = Some claims"
    and "\<exists>g. fst (GrantStore_Get (lDec lib) (lApi lib) now (cID claims) (gGrants s, gKube s)) = Some g \<and>
      Matches g claims host \<and> uid (gNamespace g) (gService g) = Some (cServiceUID claims)"
proof -
  obtain c where c: "ValidateGrantToken (lParse lib) ring tok host now = Some c"
    using assms by (cases "ValidateGrantToken (lParse lib) ring tok host now") (simp_all add: validShareClaims_def)
  obtain found gs k where f: "GrantStore_Get (lDec lib) (lApi lib) now (cID c) (gGrants s, gKube s) = (found, gs, k)"
    by (metis prod_cases3)
  obtain g where g: "found = Some g" "Matches g c host" "uid (gNamespace g) (gService g) = Some (cServiceUID c)" "claims = c"
    using assms c f by (auto simp: validShareClaims_def Let_def split: option.splits if_splits)
  show "ValidateGrantToken (lParse lib) ring tok host now = Some claims"
    and "\<exists>g. fst (GrantStore_Get (lDec lib) (lApi lib) now (cID claims) (gGrants s, gKube s)) = Some g \<and>
      Matches g claims host \<and> uid (gNamespace g) (gService g) = Some (cServiceUID claims)"
    using c f g by simp_all
qed

lemma ValidateGrantToken_SomeD:
  assumes "ValidateGrantToken parse ring tok host now = Some c"
  shows "\<exists>kr. ring = Some kr \<and> parse (share_options host now) (KeyFor kr) tok = Some c"
    and "cID c \<noteq> []" and "cServiceUID c \<noteq> []" and "cAudience c = [host]"
    and "\<exists>iat e. cIssuedAt c = Some iat \<and> cExpiresAt c = Some e \<and> iat < e \<and> e \<le> iat + MaxLifetime"
  using assms
  by (auto simp: ValidateGrantToken_def Let_def time_Sub_le time_Sub_gt not_le not_less
      split: option.splits if_splits)

lemma GrantStore_Get_live:
  "fst (GrantStore_Get dec api now jti sk) = Some g \<Longrightarrow> jtiPattern jti \<and> now \<le> gExpiresAt g"
  by (auto simp: GrantStore_Get_def liveGrant_def split: prod.splits if_splits option.splits)

text \<open>The token a request presents: the one of the URL, or else the one of the cookie of the host.\<close>

definition presents :: "request \<Rightarrow> string \<Rightarrow> string \<Rightarrow> bool" where
  "presents r host tok \<longleftrightarrow>
     tok \<noteq> [] \<and> (shareParam (rqUri r) = tok \<or> shareParam (rqUri r) = [] \<and> request_cookie r (shareCookieName host) = Some tok)"

lemma presents_unique: "presents r host tok \<Longrightarrow> presents r host tok' \<Longrightarrow> tok' = tok"
  by (auto simp: presents_def)

lemma tryShare_doneD:
  assumes "fst (tryShare lib a r now (w, s)) = (user, True)"
  obtains host kr c k uid tok claims where
    "hServiceUID a = Some uid" "EqualFold (rqProto r) ''https''" "CanonicalHost (rqHost r) = Some host"
    "KeyCache_Get (lApi lib) now (gKeys s, gKube s) = (Some kr, c, k)"
    "presents r host tok"
    "fst (validShareClaims lib uid (Some kr) tok host now (s\<lparr>gKeys := c, gKube := k\<rparr>)) = Some claims"
    "user = [] \<or> user = ''share:'' @ JTIPrefix (cID claims)"
proof -
  obtain uid where uid: "hServiceUID a = Some uid"
    using assms by (cases "hServiceUID a") (simp_all add: tryShare_def)
  have https: "EqualFold (rqProto r) ''https''" and on: "hShareKeyring a" "hShareGrants a"
    using assms uid by (auto simp: tryShare_def split: if_splits)
  obtain host where host: "CanonicalHost (rqHost r) = Some host"
    using assms uid https on by (cases "CanonicalHost (rqHost r)") (simp_all add: tryShare_def)
  obtain ring c k where keys: "KeyCache_Get (lApi lib) now (gKeys s, gKube s) = (ring, c, k)"
    by (metis prod_cases3)
  obtain kr where kr: "ring = Some kr"
    using assms uid https on host keys by (cases ring) (simp_all add: tryShare_def Let_def)
  let ?s = "s\<lparr>gKeys := c, gKube := k\<rparr>"
  have "\<exists>tok claims. presents r host tok \<and>
      fst (validShareClaims lib uid (Some kr) tok host now ?s) = Some claims \<and>
      (user = [] \<or> user = ''share:'' @ JTIPrefix (cID claims))"
    using assms uid https on host keys kr
    by (auto simp: tryShare_def presents_def Let_def split: if_splits option.splits prod.splits)
  then show ?thesis
    using that uid https host keys kr by blast
qed

text \<open>
  C17. What the gate admits as a share link rests on all of its bindings. When the share check admits a
  request, whatever token it presents, then the request came over https, the token parsed under a key
  that the key cache serves with claims that satisfy the pinned issuer, subject and time checks, its
  only audience is the forwarded host, its claimed lifetime is positive and at most 30 days, and its
  id resolves to a stored grant that is unexpired, agrees with the claims on id, host, service, uid
  and expiry, and whose Service still carries that uid.
\<close>

theorem admitted_share_rests_on_grant:
  assumes "checks_claims (lParse lib)" and "fst (tryShare lib a r now (w, s)) = (user, True)"
  shows "EqualFold (rqProto r) ''https'' \<and>
    (\<exists>host kr c k claims g tok uid. CanonicalHost (rqHost r) = Some host \<and>
       KeyCache_Get (lApi lib) now (gKeys s, gKube s) = (Some kr, c, k) \<and>
       presents r host tok \<and>
       lParse lib (share_options host now) (KeyFor kr) tok = Some claims \<and>
       claims_valid (share_options host now) claims \<and> cAudience claims = [host] \<and>
       (\<exists>iat. cIssuedAt claims = Some iat \<and> iat < gExpiresAt g \<and> gExpiresAt g \<le> iat + MaxLifetime) \<and>
       fst (GrantStore_Get (lDec lib) (lApi lib) now (cID claims) (gGrants s, k)) = Some g \<and>
       now \<le> gExpiresAt g \<and> Matches g claims host \<and>
       hServiceUID a = Some uid \<and> uid (gNamespace g) (gService g) = Some (gServiceUID g))"
proof -
  obtain host kr c k uid tok claims where *: "hServiceUID a = Some uid" "EqualFold (rqProto r) ''https''"
    "CanonicalHost (rqHost r) = Some host"
    "KeyCache_Get (lApi lib) now (gKeys s, gKube s) = (Some kr, c, k)"
    "presents r host tok"
    "fst (validShareClaims lib uid (Some kr) tok host now (s\<lparr>gKeys := c, gKube := k\<rparr>)) = Some claims"
    by (rule tryShare_doneD [OF assms(2)])
  have v: "ValidateGrantToken (lParse lib) (Some kr) tok host now = Some claims"
    by (rule validShareClaims_SomeD(1) [OF *(6)])
  obtain g where g: "fst (GrantStore_Get (lDec lib) (lApi lib) now (cID claims) (gGrants s, k)) = Some g"
      "Matches g claims host" "uid (gNamespace g) (gService g) = Some (cServiceUID claims)"
    using validShareClaims_SomeD(2) [OF *(6)] by auto
  have m: "cExpiresAt claims = Some (gExpiresAt g)" "cServiceUID claims = gServiceUID g"
    using g(2) by (simp_all add: Matches_def)
  have p: "lParse lib (share_options host now) (KeyFor kr) tok = Some claims"
    using ValidateGrantToken_SomeD(1) [OF v] by simp
  have "claims_valid (share_options host now) claims"
    using assms(1) p unfolding checks_claims_def by blast
  moreover have "\<exists>iat. cIssuedAt claims = Some iat \<and> iat < gExpiresAt g \<and> gExpiresAt g \<le> iat + MaxLifetime"
    using ValidateGrantToken_SomeD(5) [OF v] m(1) by auto
  ultimately show ?thesis
    using * p g m GrantStore_Get_live [OF g(1)] ValidateGrantToken_SomeD(4) [OF v] by (metis (no_types))
qed

theorem admitted_share_rests_on_grant_witness:
  "\<exists>host kr c k claims g tok uid. CanonicalHost (rqHost demo_visit) = Some host \<and>
     KeyCache_Get (lApi demo_libs) (45 * second) (gKeys demo_replica, gKube demo_replica) = (Some kr, c, k) \<and>
     presents demo_visit host tok \<and>
     lParse demo_libs (share_options host (45 * second)) (KeyFor kr) tok = Some claims \<and>
     claims_valid (share_options host (45 * second)) claims \<and> cAudience claims = [host] \<and>
     (\<exists>iat. cIssuedAt claims = Some iat \<and> iat < gExpiresAt g \<and> gExpiresAt g \<le> iat + MaxLifetime) \<and>
     fst (GrantStore_Get (lDec demo_libs) (lApi demo_libs) (45 * second) (cID claims) (gGrants demo_replica, k)) = Some g \<and>
     45 * second \<le> gExpiresAt g \<and> Matches g claims host \<and>
     hServiceUID demo_handler = Some uid \<and> uid (gNamespace g) (gService g) = Some (gServiceUID g)"
proof -
  have "fst (tryShare demo_libs demo_handler demo_visit (45 * second) (new_writer, demo_replica)) = (''share:61616161'', True)"
    by code_simp
  moreover have "checks_claims (lParse demo_libs)"
    by (simp add: demo_libs_def one_token_checks)
  ultimately show ?thesis
    using admitted_share_rests_on_grant [THEN conjunct2] by simp
qed

subsection \<open>The end of a revoked link\<close>

text \<open>The cluster holds a usable grant for \<open>jti\<close>.\<close>

definition grant_stored :: "grant_dec \<Rightarrow> 'k stored \<Rightarrow> string \<Rightarrow> 'k \<Rightarrow> bool" where
  "grant_stored dec st jti k =
     (case st k (grantSecretName jti) of None \<Rightarrow> False | Some s \<Rightarrow> parseGrant dec s jti \<noteq> None)"

text \<open>
  A run of the grant store of one replica, with its clock, on a cluster that holds a grant for \<open>jti\<close>
  at no time after \<open>seen\<close>. A lookup reads the clock at \<open>t\<close>, its read of the cluster is served at \<open>u\<close> and
  its answer enters the cache at any later time, so that lookups overlap with each other and with
  revocations in every order; entries are dropped at any time.
\<close>

inductive grant_run :: "grant_dec \<Rightarrow> 'k client \<Rightarrow> 'k stored \<Rightarrow> string \<Rightarrow> time \<Rightarrow> GrantStore \<Rightarrow> time \<Rightarrow> bool"
  for dec api st jti seen where
  run_new: "grant_run dec api st jti seen NewGrantStore now"
| run_tick: "grant_run dec api st jti seen s now \<Longrightarrow> now \<le> now' \<Longrightarrow> grant_run dec api st jti seen s now'"
| run_answer: "grant_run dec api st jti seen s now \<Longrightarrow> t \<le> u \<Longrightarrow> u \<le> now \<Longrightarrow> fetch dec api j k = (g, k') \<Longrightarrow>
    (seen < u \<longrightarrow> \<not> grant_stored dec st jti k') \<Longrightarrow> grant_run dec api st jti seen (cache_grant t j g s) now"
| run_forget: "grant_run dec api st jti seen s now \<Longrightarrow> grant_run dec api st jti seen (forget j s) now"
| run_forgetAll: "grant_run dec api st jti seen s now \<Longrightarrow> grant_run dec api st jti seen (forgetAll s) now"

lemma fetch_stored:
  assumes "reads_stored api st" and "fetch dec api jti k = (Some g, k')"
  shows "grant_stored dec st jti k'"
  using assms reads_storedD(1) [OF assms(1)]
  by (fastforce simp: fetch_def grant_stored_def split: prod.splits sum.splits)

lemma get_filter_some: "get (filter P m) k = Some v \<Longrightarrow> distinct_keys m \<Longrightarrow> get m k = Some v"
  by (metis distinct_keys_filter filter_is_subset get_in_set subsetD)

definition positive_seen :: "string \<Rightarrow> time \<Rightarrow> GrantStore \<Rightarrow> bool" where
  "positive_seen jti seen s \<longleftrightarrow>
     distinct_keys (gsCache s) \<and>
     (\<forall>e. get (gsCache s) jti = Some e \<longrightarrow> geGrant e \<noteq> None \<longrightarrow> geFetchedAt e \<le> seen)"

lemma positive_seen_forget: "positive_seen jti seen s \<Longrightarrow> positive_seen jti seen (forget j s)"
  by (simp add: positive_seen_def forget_def gomap.rd_rm gomap.wf_rm)

lemma positive_seen_empty [simp]: "positive_seen jti seen (forgetAll s)" "positive_seen jti seen NewGrantStore"
  by (simp_all add: positive_seen_def forgetAll_def NewGrantStore_def distinct_keys_def)

lemma positive_seen_cache:
  assumes "positive_seen jti seen s" and "j = jti \<Longrightarrow> g \<noteq> None \<Longrightarrow> t \<le> seen"
  shows "positive_seen jti seen (cache_grant t j g s)"
proof -
  let ?m = "put j \<lparr>geGrant = g, geFetchedAt = t\<rparr> (gsCache s)"
  have d: "distinct_keys ?m" using assms(1) by (simp add: positive_seen_def gomap.wf_wr)
  have "geFetchedAt e \<le> seen" if "get (gsCache (cache_grant t j g s)) jti = Some e" "geGrant e \<noteq> None" for e
  proof -
    have "get ?m jti = Some e"
      using that(1) d get_filter_some by (auto simp: cache_grant_def)
    then show ?thesis
      using assms that(2) by (auto simp: positive_seen_def gomap.rd_wr split: if_splits)
  qed
  then show ?thesis
    using d by (simp add: positive_seen_def cache_grant_def distinct_keys_filter)
qed

lemma grant_run_seen:
  assumes "reads_stored api st"
  shows "grant_run dec api st jti seen s now \<Longrightarrow> positive_seen jti seen s"
proof (induction rule: grant_run.induct)
  case (run_answer s now t u j k g k')
  have "t \<le> seen" if "j = jti" "g \<noteq> None"
    using fetch_stored [OF assms] run_answer.hyps that by fastforce
  then show ?case
    using positive_seen_cache run_answer.IH by blast
qed (simp_all add: positive_seen_forget)

lemma cached_grant_young:
  "cached_grant now jti s = Some g \<Longrightarrow> \<exists>e. get (gsCache s) jti = Some e \<and> geGrant e = g \<and> now - geFetchedAt e < grantCacheTTL"
  by (auto simp: cached_grant_def time_Sub_lt grantCacheTTL_def duration_defs min_duration_def max_duration_def
      split: option.splits if_splits)

lemma revoked_grant_not_found:
  assumes "reads_stored api st" and "grant_run dec api st jti seen s now" and "seen + grantCacheTTL \<le> now"
    and "\<not> grant_stored dec st jti (snd (fetch dec api jti k))"
  shows "fst (GrantStore_Get dec api now jti (s, k)) = None"
proof (cases "cached_grant now jti s")
  case None
  have "fst (fetch dec api jti k) = None"
    using fetch_stored [OF assms(1)] assms(4) by (metis option.exhaust prod.collapse)
  then show ?thesis
    using None by (auto simp: GrantStore_Get_def liveGrant_def split: prod.splits)
next
  case (Some g)
  then obtain e where "get (gsCache s) jti = Some e" "geGrant e = g" "now - geFetchedAt e < grantCacheTTL"
    using cached_grant_young by blast
  then have "g = None"
    using grant_run_seen [OF assms(1,2)] assms(3) by (fastforce simp: positive_seen_def)
  then show ?thesis
    using Some by (simp add: GrantStore_Get_def liveGrant_def)
qed

text \<open>\<open>tok\<close> carries these claims, under whatever options and keys it is parsed.\<close>

definition carries :: "'c parser \<Rightarrow> string \<Rightarrow> 'c \<Rightarrow> bool" where
  "carries parse tok c \<longleftrightarrow> (\<forall>opt key_of d. parse opt key_of tok = Some d \<longrightarrow> d = c)"

text \<open>Reads do not bring back what a predicate rules out.\<close>

definition reads_keep :: "'k client \<Rightarrow> ('k \<Rightarrow> bool) \<Rightarrow> bool" where
  "reads_keep api P \<longleftrightarrow> (\<forall>n k. P k \<longrightarrow> P (snd (cGet api n k)))"

lemma fetch_kube: "snd (fetch dec api jti k) = snd (cGet api (grantSecretName jti) k)"
  by (simp add: fetch_def split: prod.splits sum.splits)

lemma LoadKeyring_kube: "snd (LoadKeyring api k) = snd (cGet api SigningSecretName k)"
  by (simp add: LoadKeyring_def split: prod.splits sum.splits)

lemma reads_keep_KeyCache_Get:
  "reads_keep api P \<Longrightarrow> P k \<Longrightarrow> KeyCache_Get api now (c, k) = (r, c', k') \<Longrightarrow> P k'"
  using LoadKeyring_kube [of api k] unfolding reads_keep_def
  by (auto simp: KeyCache_Get_def Let_def split: if_splits prod.splits)

text \<open>
  C16. A revoked link is refused everywhere within 15 seconds. On a cluster that has not held a usable
  grant of the link since \<open>seen\<close> (it was deleted by any replica or by the finalizer), a replica whose
  grant store went through any run of overlapping lookups, failures and evictions refuses a request
  that presents a token of that link, in the URL or in the cookie, from \<open>seen\<close> plus the cache lifetime
  on.
\<close>

theorem revoked_link_is_refused:
  assumes "reads_stored (lApi lib) st" and "reads_keep (lApi lib) (\<lambda>k. \<not> grant_stored (lDec lib) st jti k)"
    and "grant_run (lDec lib) (lApi lib) st jti seen (gGrants s) now" and "seen + 15 * second \<le> now"
    and "\<not> grant_stored (lDec lib) st jti (gKube s)"
    and "carries (lParse lib) tok claims" and "cID claims = jti"
    and "CanonicalHost (rqHost r) = Some host" and "presents r host tok"
  shows "fst (tryShare lib a r now (w, s)) = ([], False)"
proof (rule ccontr)
  assume "\<not> ?thesis"
  then have "snd (fst (tryShare lib a r now (w, s)))"
    by (auto simp: tryShare_def Let_def split: option.splits if_splits prod.splits)
  then obtain user where "fst (tryShare lib a r now (w, s)) = (user, True)"
    by (metis prod.collapse)
  then obtain host' kr c k uid tok' cl where d: "CanonicalHost (rqHost r) = Some host'" "presents r host' tok'"
    and k: "KeyCache_Get (lApi lib) now (gKeys s, gKube s) = (Some kr, c, k)"
    and v: "fst (validShareClaims lib uid (Some kr) tok' host' now (s\<lparr>gKeys := c, gKube := k\<rparr>)) = Some cl"
    by (rule tryShare_doneD) blast
  have "host' = host" using d(1) assms(8) by simp
  then have "tok' = tok" using d(2) presents_unique [OF assms(9)] by blast
  note * = k v [unfolded \<open>host' = host\<close> \<open>tok' = tok\<close>]
  have "cl = claims"
    using validShareClaims_SomeD(1) [OF *(2)] ValidateGrantToken_SomeD(1) assms(6) unfolding carries_def by blast
  then have found: "fst (GrantStore_Get (lDec lib) (lApi lib) now jti (gGrants s, k)) \<noteq> None"
    using validShareClaims_SomeD(2) [OF *(2)] assms(7) by auto
  have "\<not> grant_stored (lDec lib) st jti k"
    by (rule reads_keep_KeyCache_Get [OF assms(2,5) *(1)])
  then have "\<not> grant_stored (lDec lib) st jti (snd (fetch (lDec lib) (lApi lib) jti k))"
    using assms(2) unfolding reads_keep_def fetch_kube by blast
  then show False
    using revoked_grant_not_found [OF assms(1,3)] assms(4) found by (simp add: grantCacheTTL_def)
qed

text \<open>The link of the example, fifteen seconds after its grant was deleted.\<close>

lemma demo_grant_run:
  "grant_run (lDec demo_libs) table_client table_stored (gJTI demo_grant) 0 NewGrantStore (15 * second)"
  by (rule grant_run.run_new)

theorem revoked_link_is_refused_witness:
  "fst (tryShare demo_libs demo_handler demo_visit (15 * second) (new_writer, demo_replica\<lparr>gGrants := NewGrantStore\<rparr>)) = ([], False)"
proof (rule revoked_link_is_refused [where st = table_stored and jti = "gJTI demo_grant" and seen = 0 and tok = "''tok''"
      and claims = "grant_claims demo_grant 0" and host = "''mail-dev.example.com''"])
  show "reads_stored (lApi demo_libs) table_stored" by (simp add: demo_libs_def table_reads)
  show "reads_keep (lApi demo_libs) (\<lambda>k. \<not> grant_stored (lDec demo_libs) table_stored (gJTI demo_grant) k)"
    by (simp add: reads_keep_def demo_libs_def table_client_def)
  show "grant_run (lDec demo_libs) (lApi demo_libs) table_stored (gJTI demo_grant) 0
      (gGrants (demo_replica\<lparr>gGrants := NewGrantStore\<rparr>)) (15 * second)"
    using demo_grant_run by (simp add: demo_libs_def)
  show "\<not> grant_stored (lDec demo_libs) table_stored (gJTI demo_grant) (gKube (demo_replica\<lparr>gGrants := NewGrantStore\<rparr>))"
    by (simp add: grant_stored_def demo_replica_def table_stored_def)
  show "carries (lParse demo_libs) ''tok'' (grant_claims demo_grant 0)"
    by (simp add: carries_def demo_libs_def one_token_def)
  show "cID (grant_claims demo_grant 0) = gJTI demo_grant" by (simp add: grant_claims_def)
  show "CanonicalHost (rqHost demo_visit) = Some ''mail-dev.example.com''" by code_simp
  show "presents demo_visit ''mail-dev.example.com'' ''tok''" by code_simp
qed simp

subsection \<open>Bulk revocation\<close>

lemma lists_empty:
  "lists_stored api st \<Longrightarrow> cList api sel k = (Inr [], k') \<Longrightarrow> selects sel x \<Longrightarrow> st k' (secName x) \<noteq> Some x"
  using lists_storedD [of api st sel k "[]" k' x] by simp

lemma revoke_sweeps_clean:
  assumes "lists_stored api st"
  shows "revoke_sweeps api sel n (s, k) = (Inr (), s', k') \<Longrightarrow>
    gsCache s' = [] \<and> (\<forall>x. selects sel x \<longrightarrow> st k' (secName x) \<noteq> Some x)"
proof (induction n arbitrary: s k)
  case 0
  then show ?case
    using lists_empty [OF assms] by (auto simp: forgetAll_def split: prod.splits sum.splits list.splits)
next
  case (Suc n)
  obtain res k1 where l: "cList api sel k = (res, k1)" by (metis surj_pair)
  then obtain items where items: "res = Inr items"
    using Suc.prems by (cases res) simp_all
  show ?case
  proof (cases items)
    case Nil
    then show ?thesis
      using Suc.prems l items lists_empty [OF assms] by (auto simp: forgetAll_def)
  next
    case (Cons x xs)
    obtain e k2 where d: "delete_all api (map secName items) k1 = (e, k2)" by (metis surj_pair)
    then have "e = None" using Suc.prems l items Cons by (cases e) auto
    then show ?thesis
      using Suc l items Cons d by auto
  qed
qed

text \<open>
  A bulk revocation that reports success has left nothing. When \<open>RevokeAll\<close> or
  \<open>RevokeAllForService\<close> returns without an error, then in the cluster it leaves behind no stored grant
  matches its selector, whatever links were minted meanwhile, and this replica's cache is empty: it
  never reports success on a list it has not seen empty.
\<close>

lemma bulk_revocation_leaves_nothing:
  assumes "lists_stored api st"
  shows "(GrantStore_RevokeAll api (s, k) = (Inr (), s', k') \<longrightarrow>
      gsCache s' = [] \<and> (\<forall>x. get (secLabels x) GrantLabel = Some ''true'' \<longrightarrow> st k' (secName x) \<noteq> Some x)) \<and>
    (RevokeAllForService api namespace service (s, k) = (Inr (), s', k') \<longrightarrow>
      gsCache s' = [] \<and> (\<forall>g. st k' (grantSecretName (gJTI g)) = Some (grant_secret enc g) \<longrightarrow>
        \<not> (gNamespace g = namespace \<and> gService g = service)))"
proof (intro conjI impI allI)
  assume "GrantStore_RevokeAll api (s, k) = (Inr (), s', k')"
  then have *: "revoke_sweeps api [(GrantLabel, Some ''true'')] maxRevokeSweeps (s, k) = (Inr (), s', k')"
    by (simp only: GrantStore_RevokeAll_def deleteBySelector_def)
  show "gsCache s' = []"
    using revoke_sweeps_clean [OF assms *] by blast
  show "st k' (secName x) \<noteq> Some x" if "get (secLabels x) GrantLabel = Some ''true''" for x
    using revoke_sweeps_clean [OF assms *] that by (simp add: selects_def)
next
  assume "RevokeAllForService api namespace service (s, k) = (Inr (), s', k')"
  then have *: "revoke_sweeps api (serviceSelector namespace service) maxRevokeSweeps (s, k) = (Inr (), s', k')"
    by (simp only: RevokeAllForService_def deleteBySelector_def)
  show "gsCache s' = []"
    using revoke_sweeps_clean [OF assms *] by blast
  fix g
  assume stored: "st k' (grantSecretName (gJTI g)) = Some (grant_secret enc g)"
  have "selects (serviceSelector (gNamespace g) (gService g)) (grant_secret enc g)"
    by (simp add: selects_def serviceSelector_def grant_secret_def grantLabels_def GrantLabel_def
        GrantServiceLabel_def GrantNamespaceLabel_def)
  then show "\<not> (gNamespace g = namespace \<and> gService g = service)"
    using revoke_sweeps_clean [OF assms *] stored by (auto simp: grant_secret_def)
qed

definition demo_revoked :: "(kerror + unit) \<times> GrantStore \<times> table" where
  "demo_revoked = GrantStore_RevokeAll table_client
     (NewGrantStore, [(grantSecretName (gJTI demo_grant), grant_secret (\<lambda>_. ''g'') demo_grant)])"

end
