(* ===== verification/UI_Gate_Properties.thy ===== *)
theory UI_Gate_Properties
  imports Share_Links
begin

text \<open>
  Properties of the gate around UI sessions: the capability parameters never leave it, a code opens
  one session, a session ends at its absolute limit however often it is renewed, and a deleted record
  ends it within the record cache.
\<close>

subsection \<open>The capability parameters\<close>

lemma Cut_head: "c \<notin> set (fst (Cut s c))"
  by (auto simp: Cut_def dest: set_takeWhileD)

lemma queryParam_no_query: "CHR ''?'' \<notin> set uri \<Longrightarrow> queryParam uri n = []"
  by (simp add: queryParam_def Cut_def)

lemma queryParam_append:
  "CHR ''?'' \<notin> set path \<Longrightarrow>
     queryParam (path @ ''?'' @ q) n = (case ParseQuery q of None \<Rightarrow> [] | Some vs \<Rightarrow> values_Get vs n)"
  by (simp add: queryParam_def)

lemma without_gate_params_Get:
  "values_Get (without_gate_params q) n = (if n \<in> {shareParamName, ssoParamName} then [] else values_Get q n)"
  by (simp add: without_gate_params_def values_Get_Del)

lemma without_gate_params_distinct: "distinct_keys q \<Longrightarrow> distinct_keys (without_gate_params q)"
  by (simp add: without_gate_params_def values_Del_def gomap.wf_rm)

text \<open>The query that is left, encoded: read again it holds every other parameter and neither of the two.\<close>

lemma encoded_rest:
  assumes "ParseQuery q = Some vs"
  shows "(case ParseQuery (values_Encode (without_gate_params vs)) of None \<Rightarrow> [] | Some us \<Rightarrow> values_Get us n) =
    (if n \<in> {shareParamName, ssoParamName} then [] else values_Get vs n)"
  by (rule values_roundtrip [OF without_gate_params_distinct [OF ParseQuery_distinct [OF assms]]])
    (simp add: without_gate_params_Get)

lemma empty_encoded_rest:
  assumes "ParseQuery q = Some vs" and "values_Encode (without_gate_params vs) = []"
  shows "n \<notin> {shareParamName, ssoParamName} \<Longrightarrow> values_Get vs n = []"
proof -
  have "ParseQuery [] = Some []" by code_simp
  then show "n \<notin> {shareParamName, ssoParamName} \<Longrightarrow> values_Get vs n = []"
    using encoded_rest [OF assms(1), of n] assms(2) by (simp add: values_Get_def)
qed

lemma Cut_found:
  "Cut uri c = (path, q, True) \<Longrightarrow> uri = path @ c # q \<and> c \<notin> set path"
proof -
  assume cut: "Cut uri c = (path, q, True)"
  then have "c \<in> set uri" by (auto simp: Cut_def split: if_splits)
  then obtain xs ys where "uri = xs @ c # ys" "c \<notin> set xs" by (metis split_list_first)
  then show ?thesis using cut by simp
qed

lemma queryParam_Cut:
  "Cut uri (CHR ''?'') = (path, q, True) \<Longrightarrow>
     queryParam uri n = (case ParseQuery q of None \<Rightarrow> [] | Some vs \<Rightarrow> values_Get vs n)"
  by (simp add: queryParam_def)

text \<open>Both rewritings put what is left of the query behind some path.\<close>

definition rest_query :: "string \<Rightarrow> string" where
  "rest_query uri =
     (case Cut uri (CHR ''?'') of
        (_, q, found) \<Rightarrow> if found then (case ParseQuery q of None \<Rightarrow> [] | Some vs \<Rightarrow> values_Encode (without_gate_params vs)) else [])"

definition with_query :: "string \<Rightarrow> string \<Rightarrow> string" where
  "with_query path q = (if q \<noteq> [] then path @ ''?'' @ q else path)"

lemma rest_query_param:
  assumes "CHR ''?'' \<notin> set p"
  shows "queryParam (with_query p (rest_query uri)) n =
    (if n \<in> {shareParamName, ssoParamName} then [] else queryParam uri n)"
proof -
  obtain path q found where cut: "Cut uri (CHR ''?'') = (path, q, found)" by (metis prod_cases3)
  show ?thesis
  proof (cases "found \<and> ParseQuery q \<noteq> None")
    case True
    then obtain vs where vs: "found" "ParseQuery q = Some vs" by blast
    show ?thesis
    proof (cases "values_Encode (without_gate_params vs) = []")
      case True
      then show ?thesis
        using vs cut assms empty_encoded_rest [OF vs(2) True, of n]
        by (simp add: rest_query_def with_query_def queryParam_no_query queryParam_Cut)
    next
      case False
      then show ?thesis
        using vs cut assms encoded_rest [OF vs(2), of n] queryParam_append [OF assms]
        by (simp add: rest_query_def with_query_def queryParam_Cut)
    qed
  next
    case False
    then have "queryParam uri n = []" using cut by (auto simp: queryParam_def)
    moreover have "rest_query uri = []"
      using False cut by (cases "ParseQuery q") (simp_all add: rest_query_def)
    ultimately show ?thesis
      using assms by (simp add: with_query_def queryParam_no_query)
  qed
qed

lemma stripGateParams_eq: "stripGateParams uri = with_query (fst (Cut uri (CHR ''?''))) (rest_query uri)"
proof -
  obtain path q found where cut: "Cut uri (CHR ''?'') = (path, q, found)" by (metis prod_cases3)
  have "\<not> found \<Longrightarrow> path = uri" using cut by (simp add: Cut_def split: if_splits)
  then show ?thesis
    using cut by (cases "ParseQuery q") (simp_all add: stripGateParams_def with_query_def rest_query_def Let_def)
qed

definition slashed :: "string \<Rightarrow> string" where
  "slashed p = (let path = (if p = [] then ''/'' else p) in if HasPrefix path ''/'' then path else ''/'' @ path)"

lemma cleanURL_eq:
  "cleanURL host uri = with_query (''https://'' @ host @ slashed (fst (Cut uri (CHR ''?'')))) (rest_query uri)"
proof -
  obtain path q found where cut: "Cut uri (CHR ''?'') = (path, q, found)" by (metis prod_cases3)
  then show ?thesis
    by (cases "ParseQuery q") (simp_all add: cleanURL_def with_query_def rest_query_def slashed_def Let_def)
qed

lemma slashed_facts: "CHR ''?'' \<notin> set p \<Longrightarrow> CHR ''?'' \<notin> set (slashed p)" "HasPrefix (slashed p) ''/''"
  by (auto simp: slashed_def Let_def HasPrefix_def)



subsection \<open>Sessions and their renewals\<close>

text \<open>Every token the library signs carries the claims it was signed with.\<close>

definition signs_claims :: "'c signer \<Rightarrow> 'c parser \<Rightarrow> bool" where
  "signs_claims sign parse \<longleftrightarrow> (\<forall>kid key c tok. sign kid key c = Some tok \<longrightarrow> carries parse tok c)"

text \<open>
  The session tokens that descend from one redemption at \<open>t0\<close>: the first one, and each that the gate
  sets when it renews another, under any keyrings and at any times. \<open>m\<close> is when the token was minted.
\<close>

inductive session_token :: "'k libs \<Rightarrow> string \<Rightarrow> string \<Rightarrow> string \<Rightarrow> string \<Rightarrow> time \<Rightarrow> string \<Rightarrow> time \<Rightarrow> bool"
  for lib sub email host sid t0 where
  first_token: "MintSession (lUISign lib) kr sub email host sid t0 t0 = Some tok \<Longrightarrow>
    session_token lib sub email host sid t0 tok t0"
| renewed_token: "session_token lib sub email host sid t0 tok m \<Longrightarrow> ValidateSession (lUIParse lib) kr tok host now = Some v \<Longrightarrow>
    tok' \<in> ckValue ` set (wCookies (maybeRenewSession lib kr' v host now new_writer)) \<Longrightarrow>
    session_token lib sub email host sid t0 tok' now"

lemma ui_validate_SomeD:
  assumes "carries parse tok c" and "ui_validate parse kr tok issuer host maxSpan now = Some v"
  shows "cAudience c = [host]" "vSub v = cSubject c" "vEmail v = cEmail c" "vSID v = cSID c" "vHost v = host"
    "cExpiresAt c = Some (vExpiry v)" "vAuthTime v = (if 0 < cAuthTime c then Some (cAuthTime c * second) else None)"
    "parse (ui_options issuer host now) (ui_KeyFor kr) tok = Some c"
proof -
  obtain d where d: "parse (ui_options issuer host now) (ui_KeyFor kr) tok = Some d"
    using assms(2) by (cases "parse (ui_options issuer host now) (ui_KeyFor kr) tok") (simp_all add: ui_validate_def)
  then have "d = c" using assms(1) unfolding carries_def by blast
  then show "cAudience c = [host]" "vSub v = cSubject c" "vEmail v = cEmail c" "vSID v = cSID c" "vHost v = host"
    "cExpiresAt c = Some (vExpiry v)" "vAuthTime v = (if 0 < cAuthTime c then Some (cAuthTime c * second) else None)"
    "parse (ui_options issuer host now) (ui_KeyFor kr) tok = Some c"
    using assms(2) d by (auto simp: ui_validate_def split: option.splits if_splits)
qed

lemma ValidateSession_SomeD:
  assumes "ValidateSession parse kr tok host now = Some v"
  shows "ui_validate parse kr tok issuerSession host SessionIdleTTL now = Some v"
    and "\<exists>t. vAuthTime v = Some t \<and> now \<le> t + SessionAbsoluteTTL"
  using assms by (auto simp: ValidateSession_def split: option.splits if_splits)

lemma Unix_seconds [simp]: "Unix (n * second) = n"
  by (simp add: Unix_def second_def)

lemma session_token_claims:
  assumes "signs_claims (lUISign lib) (lUIParse lib)"
  shows "session_token lib sub email host sid t0 tok m \<Longrightarrow>
    \<exists>t. Unix t = Unix t0 \<and> carries (lUIParse lib) tok (session_claims sub email host sid t m)"
proof (induction rule: session_token.induct)
  case (first_token kr tok)
  then show ?case
    using assms unfolding signs_claims_def by (auto simp: MintSession_def signWith_def)
next
  case (renewed_token tok m kr now v tok' kr')
  then obtain t where t: "Unix t = Unix t0" "carries (lUIParse lib) tok (session_claims sub email host sid t m)"
    by blast
  note v = ui_validate_SomeD [OF t(2) ValidateSession_SomeD(1) [OF renewed_token.hyps(2)]]
  have eq: "vSub v = sub" "vEmail v = email" "vSID v = sid"
    using v(2-4) by (simp_all add: session_claims_def)
  obtain a where a: "vAuthTime v = Some a" "a = Unix t0 * second"
    using v(7) ValidateSession_SomeD(2) [OF renewed_token.hyps(2)] t(1)
    by (auto simp: session_claims_def split: if_splits)
  have "MintSession (lUISign lib) kr' sub email host sid a now = Some tok'"
    using renewed_token.hyps(3) a eq
    by (auto simp: maybeRenewSession_def SetCookie_def new_writer_def sessionCookie_def host_cookie_def split: if_splits option.splits)
  then have "carries (lUIParse lib) tok' (session_claims sub email host sid a now)"
    using assms unfolding signs_claims_def by (auto simp: MintSession_def signWith_def)
  then show ?case using a(2) by (intro exI [of _ a]) simp
qed

lemma check_session_doneD:
  assumes "fst (check_session lib roleOf kr tok host now later (w, g)) = (user, True)"
  obtains v where "ValidateSession (lUIParse lib) kr tok host now = Some v" "user = vEmail v" "roleOf (vEmail v) \<noteq> []"
    "fst (Live (lApi lib) now later (vSID v) (gRecords g, gKube g))"
  using assms by (auto simp: check_session_def Let_def split: option.splits if_splits prod.splits)

lemma checks_claimsD: "checks_claims parse \<Longrightarrow> parse opt key_of tok = Some c \<Longrightarrow> claims_valid opt c"
  unfolding checks_claims_def by blast

text \<open>
  C18. Renewal never outlives the absolute limit. Take any session token that descends from a code
  redeemed at \<open>t0\<close> through any number of renewals, under any key rotations. Whenever the gate admits a
  request with it, the host is the one of the session, at most 12 hours have passed since \<open>t0\<close>, less
  than 30 minutes and the leeway have passed since the token itself was minted, the user is the one
  the code was issued to, who still has a role, and the session's record reads as live.
\<close>

theorem session_ends_at_absolute_limit:
  assumes "signs_claims (lUISign lib) (lUIParse lib)" and "checks_claims (lUIParse lib)"
    and "session_token lib sub email host sid t0 tok m"
    and "fst (check_session lib roleOf kr tok host' now later (w, g)) = (user, True)"
  shows "host' = host \<and> now \<le> t0 + 12 * hour \<and> now < m + 30 * minute + leeway \<and>
    user = email \<and> roleOf email \<noteq> [] \<and> fst (Live (lApi lib) now later sid (gRecords g, gKube g))"
proof -
  obtain t where t: "Unix t = Unix t0" and c: "carries (lUIParse lib) tok (session_claims sub email host sid t m)"
    using session_token_claims [OF assms(1,3)] by blast
  obtain v where v: "ValidateSession (lUIParse lib) kr tok host' now = Some v" "user = vEmail v" "roleOf (vEmail v) \<noteq> []"
    "fst (Live (lApi lib) now later (vSID v) (gRecords g, gKube g))"
    using check_session_doneD [OF assms(4)] .
  note f = ui_validate_SomeD [OF c ValidateSession_SomeD(1) [OF v(1)]]
  obtain a where a: "vAuthTime v = Some a" "now \<le> a + SessionAbsoluteTTL"
    using ValidateSession_SomeD(2) [OF v(1)] by blast
  have "a = Truncate_second t0"
    using f(7) a(1) t by (auto simp: session_claims_def Truncate_second_def Unix_def split: if_splits)
  then have limit: "now \<le> t0 + 12 * hour"
    using a(2) Truncate_bounds(1) [of t0] by (simp add: SessionAbsoluteTTL_def)
  have "claims_valid (ui_options issuerSession host' now) (session_claims sub email host sid t m)"
    by (rule checks_claimsD [OF assms(2) f(8)])
  then have "now < Truncate_second (m + SessionIdleTTL) + leeway"
    by (simp add: claims_valid_def ui_options_def session_claims_def)
  then have "now < m + 30 * minute + leeway"
    using Truncate_bounds(1) [of "m + SessionIdleTTL"] by (simp add: SessionIdleTTL_def)
  then show ?thesis
    using limit f(1,3,4) v(2-4) by (simp add: session_claims_def)
qed

text \<open>A session redeemed at second one, used a minute later.\<close>

definition demo_session :: ui_claims where
  "demo_session = session_claims ''sub'' ''op@example.com'' ''mail-dev.example.com'' ''sid'' second second"

definition ui_libs :: "table libs" where
  "ui_libs = demo_libs\<lparr>lUISign := (\<lambda>kid key c. if c = demo_session then Some ''s'' else None),
     lUIParse := one_token ''s'' ''k1'' demo_key demo_session\<rparr>"

definition ui_ring :: UIKeyring where
  "ui_ring = \<lparr>uiCurrentKID = ''k1'', uiCurrentKey = demo_key, uiPreviousKID = [], uiPreviousKey = []\<rparr>"

definition ui_replica :: "table gate" where
  "ui_replica = demo_replica\<lparr>gRecords := setCache (50 * second) ''sid'' True NewRecordStore\<rparr>"

theorem session_ends_at_absolute_limit_witness:
  "61 * second \<le> second + 12 * hour \<and> fst (Live table_client (61 * second) (61 * second) ''sid'' (gRecords ui_replica, gKube ui_replica))"
proof -
  have sign: "signs_claims (lUISign ui_libs) (lUIParse ui_libs)"
    by (simp add: signs_claims_def carries_def ui_libs_def one_token_def)
  have chk: "checks_claims (lUIParse ui_libs)"
    by (simp add: ui_libs_def one_token_checks)
  have tok: "session_token ui_libs ''sub'' ''op@example.com'' ''mail-dev.example.com'' ''sid'' second ''s'' second"
    by (rule session_token.first_token [where kr = ui_ring])
      (simp add: MintSession_def signWith_def ui_libs_def demo_session_def)
  have ok: "fst (check_session ui_libs (\<lambda>e. ''admin'') ui_ring ''s'' ''mail-dev.example.com'' (61 * second) (61 * second) (new_writer, ui_replica)) =
      (''op@example.com'', True)"
    by code_simp
  have "lApi ui_libs = table_client" by (simp add: ui_libs_def demo_libs_def)
  then show ?thesis
    using session_ends_at_absolute_limit [OF sign chk tok ok] by simp
qed

subsection \<open>Single-use codes\<close>

lemma ValidateCode_sid:
  "carries parse code c \<Longrightarrow> ValidateCode parse kr code host now = Some v \<Longrightarrow> vSID v = cSID c"
  unfolding ValidateCode_def by (rule ui_validate_SomeD(4))

lemma session_record_name [simp]: "secName (session_record H sid sub email host t e) = recordName sid"
  by (simp add: session_record_def)

text \<open>A redemption that is done has created the record of its session id.\<close>

lemma redeem_code_doneD:
  assumes "redeem_code lib kr code host uri now later (w, g) = ((user, True), w', g')"
  obtains v where "ValidateCode (lUIParse lib) kr code host now = Some v"
    "cCreate (lApi lib) (session_record (lHash lib) (vSID v) (vSub v) (vEmail v) host now (now + SessionAbsoluteTTL)) (gKube g) =
       (Inr (), gKube g')"
proof -
  obtain v where v: "ValidateCode (lUIParse lib) kr code host now = Some v"
    using assms by (cases "ValidateCode (lUIParse lib) kr code host now") (simp_all add: redeem_code_def)
  obtain res k1 where c: "cCreate (lApi lib)
      (session_record (lHash lib) (vSID v) (vSub v) (vEmail v) host now (now + SessionAbsoluteTTL)) (gKube g) = (res, k1)"
    by (metis surj_pair)
  then have "res = Inr () \<and> gKube g' = k1"
    using assms v
    by (auto simp: redeem_code_def RecordStore_Create_def Let_def split: sum.splits option.splits if_splits)
  then show ?thesis using that v c by blast
qed

text \<open>
  C19. A sign-in code opens one session. After the gate has redeemed a code, the record of its session
  is stored; and while that record is stored, no replica redeems the code again, whatever its host,
  keyring and clock.
\<close>

theorem code_redeems_once:
  fixes lib :: "'k libs" and g :: "'k gate"
  assumes "creates_once (lApi lib) st" and "carries (lUIParse lib) code c"
    and "redeem_code lib kr code host uri now later (w, g) = ((user, True), w', g')"
  shows "st (gKube g') (recordName (cSID c)) \<noteq> None \<and>
    (\<forall>g2. st (gKube g2) (recordName (cSID c)) \<noteq> None \<longrightarrow>
       fst (redeem_code lib kr2 code host2 uri2 now2 later2 (w2, g2)) = ([], False))"
proof (intro conjI allI impI)
  obtain v where v: "ValidateCode (lUIParse lib) kr code host now = Some v"
    "cCreate (lApi lib) (session_record (lHash lib) (vSID v) (vSub v) (vEmail v) host now (now + SessionAbsoluteTTL)) (gKube g) =
       (Inr (), gKube g')"
    using redeem_code_doneD [OF assms(3)] .
  show "st (gKube g') (recordName (cSID c)) \<noteq> None"
    using creates_onceD(2) [OF assms(1) v(2)] ValidateCode_sid [OF assms(2) v(1)] by simp
next
  fix g2 :: "'k gate"
  assume stored: "st (gKube g2) (recordName (cSID c)) \<noteq> None"
  show "fst (redeem_code lib kr2 code host2 uri2 now2 later2 (w2, g2)) = ([], False)"
  proof (rule ccontr)
    assume "\<not> ?thesis"
    then have "snd (fst (redeem_code lib kr2 code host2 uri2 now2 later2 (w2, g2)))"
      by (auto simp: redeem_code_def Let_def split: option.splits sum.splits prod.splits)
    then obtain u w3 g3 where "redeem_code lib kr2 code host2 uri2 now2 later2 (w2, g2) = ((u, True), w3, g3)"
      by (metis prod.collapse)
    then obtain v where v: "ValidateCode (lUIParse lib) kr2 code host2 now2 = Some v"
      "cCreate (lApi lib) (session_record (lHash lib) (vSID v) (vSub v) (vEmail v) host2 now2 (now2 + SessionAbsoluteTTL)) (gKube g2) =
         (Inr (), gKube g3)"
      by (rule redeem_code_doneD)
    show False
      using creates_onceD(1) [OF assms(1) v(2)] ValidateCode_sid [OF assms(2) v(1)] stored by simp
  qed
qed

text \<open>A code issued at second zero and presented twice.\<close>

definition demo_code :: ui_claims where
  "demo_code = code_claims ''sub'' ''op@example.com'' ''mail-dev.example.com'' ''sid'' 0"

definition code_libs :: "table libs" where
  "code_libs = demo_libs\<lparr>lUISign := (\<lambda>_ _ _. Some ''s''), lUIParse := one_token ''code'' ''k1'' demo_key demo_code\<rparr>"

definition demo_redeem :: "time \<Rightarrow> table gate \<Rightarrow> (string \<times> bool) \<times> writer \<times> table gate" where
  "demo_redeem now g = redeem_code code_libs ui_ring ''code'' ''mail-dev.example.com'' ''/'' now now (new_writer, g)"

lemma code_libs_carries: "carries (lUIParse code_libs) ''code'' demo_code"
  by (simp add: carries_def code_libs_def one_token_def)

text \<open>On the table of Secrets a valid code is redeemed whenever its record is not there.\<close>

lemma table_redeem:
  assumes "lApi lib = table_client" and "ValidateCode (lUIParse lib) kr code host now = Some v"
    and "table_stored (gKube g) (recordName (vSID v)) = None"
    and "MintSession (lUISign lib) kr (vSub v) (vEmail v) host (vSID v) now now \<noteq> None"
  shows "fst (redeem_code lib kr code host uri now later (w, g)) = ([], True)"
    and "gKube (snd (snd (redeem_code lib kr code host uri now later (w, g)))) =
      put (recordName (vSID v)) (session_record (lHash lib) (vSID v) (vSub v) (vEmail v) host now (now + SessionAbsoluteTTL)) (gKube g)"
  using assms by (auto simp: redeem_code_def RecordStore_Create_def table_client_def Let_def)

lemma demo_code_valid:
  "ValidateCode (lUIParse code_libs) ui_ring ''code'' ''mail-dev.example.com'' second =
     Some \<lparr>vSub = ''sub'', vEmail = ''op@example.com'', vSID = ''sid'', vHost = ''mail-dev.example.com'',
       vAuthTime = None, vExpiry = 60 * second\<rparr>"
  by code_simp

lemma demo_redeem_ok: "fst (demo_redeem second ui_replica) = ([], True)"
  unfolding demo_redeem_def
  by (rule table_redeem [OF _ demo_code_valid])
    (simp_all add: code_libs_def demo_libs_def MintSession_def signWith_def ui_replica_def demo_replica_def table_stored_def)

theorem code_redeems_once_witness:
  "fst (demo_redeem (2 * second) (snd (snd (demo_redeem second ui_replica)))) = ([], False)"
proof -
  obtain w g where r: "demo_redeem second ui_replica = (([], True), w, g)"
    using demo_redeem_ok by (metis prod.collapse)
  have "lApi code_libs = table_client" by (simp add: code_libs_def demo_libs_def)
  then have "creates_once (lApi code_libs) table_stored" using table_creates by simp
  from code_redeems_once [OF this code_libs_carries r [unfolded demo_redeem_def]]
  show ?thesis using r by (simp add: demo_redeem_def)
qed

subsection \<open>Logging out makes a spent code good again\<close>

lemma table_delete: "cDelete table_client n k = (if table_stored k n = None then (Inl NotFound, k) else (Inr (), del n k))"
  by (simp add: table_client_def)

lemma table_delete_all:
  "fst (delete_all table_client ns k) = None"
  "table_stored (snd (delete_all table_client ns k)) n = (if n \<in> set ns then None else table_stored k n)"
proof -
  have "fst (delete_all table_client ns k) = None \<and>
      table_stored (snd (delete_all table_client ns k)) n = (if n \<in> set ns then None else table_stored k n)"
    by (induction ns arbitrary: k) (auto simp: table_delete table_stored_del)
  then show "fst (delete_all table_client ns k) = None"
    "table_stored (snd (delete_all table_client ns k)) n = (if n \<in> set ns then None else table_stored k n)"
    by blast+
qed

lemma table_deleteMatching:
  "fst (deleteMatching table_client sel k) = None"
  "table_stored (snd (deleteMatching table_client sel k)) n =
     (case table_stored k n of None \<Rightarrow> None | Some s \<Rightarrow> if selects sel s then None else Some s)"
proof -
  obtain items where l: "cList table_client sel k = (Inr items, k)" by (simp add: table_client_def)
  have named: "table_stored k n = Some s \<Longrightarrow> secName s = n" for s
    by (auto simp: table_stored_def split: option.splits if_splits)
  have "n \<in> set (map secName items) \<longleftrightarrow> (\<exists>s. table_stored k n = Some s \<and> selects sel s)"
  proof
    assume "n \<in> set (map secName items)"
    then obtain s where "s \<in> set items" "n = secName s" by auto
    then show "\<exists>s. table_stored k n = Some s \<and> selects sel s"
      using lists_storedD [OF table_lists l, of s] by blast
  next
    assume "\<exists>s. table_stored k n = Some s \<and> selects sel s"
    then obtain s where s: "table_stored k n = Some s" "selects sel s" by blast
    then have "s \<in> set items"
      using lists_storedD [OF table_lists l, of s] named by simp
    then show "n \<in> set (map secName items)"
      using named [OF s(1)] by auto
  qed
  moreover have d: "deleteMatching table_client sel k = delete_all table_client (map secName items) k"
    using l by (simp add: deleteMatching_def)
  ultimately show "table_stored (snd (deleteMatching table_client sel k)) n =
      (case table_stored k n of None \<Rightarrow> None | Some s \<Rightarrow> if selects sel s then None else Some s)"
    by (cases "table_stored k n") (simp_all add: table_delete_all del: set_map)
  show "fst (deleteMatching table_client sel k) = None"
    unfolding d by (rule table_delete_all)
qed

lemma table_DeleteBySubject:
  "table_stored (snd (snd (DeleteBySubject H table_client x (s, k)))) n =
     (case table_stored k n of
        None \<Rightarrow> None
      | Some sec \<Rightarrow> if selects [(subjectHashLabel, Some (hashLabel H x))] sec \<or> selects [(emailHashLabel, Some (hashLabel H x))] sec
                    then None else Some sec)"
proof -
  obtain k1 where k1: "deleteMatching table_client [(subjectHashLabel, Some (hashLabel H x))] k = (None, k1)"
    using table_deleteMatching(1) by (metis prod.collapse)
  obtain k2 where k2: "deleteMatching table_client [(emailHashLabel, Some (hashLabel H x))] k1 = (None, k2)"
    using table_deleteMatching(1) by (metis prod.collapse)
  have "table_stored k2 n = (case table_stored k1 n of None \<Rightarrow> None | Some s \<Rightarrow> if selects [(emailHashLabel, Some (hashLabel H x))] s then None else Some s)"
    using table_deleteMatching(2) [of "[(emailHashLabel, Some (hashLabel H x))]" k1 n] k2 by simp
  moreover have "table_stored k1 n = (case table_stored k n of None \<Rightarrow> None | Some s \<Rightarrow> if selects [(subjectHashLabel, Some (hashLabel H x))] s then None else Some s)"
    using table_deleteMatching(2) [of "[(subjectHashLabel, Some (hashLabel H x))]" k n] k1 by simp
  ultimately show ?thesis
    using k1 k2 by (cases "table_stored k n") (simp_all add: DeleteBySubject_def)
qed

lemma session_record_labelled:
  "selects [(subjectHashLabel, Some (hashLabel H sub))] (session_record H sid sub email host t e)"
  by (simp add: selects_def session_record_def subjectHashLabel_def)

lemma Logout_kube:
  assumes "hUISessions a" and "hAuth a" and "bSubject b \<noteq> []"
  shows "gKube (snd (Logout lib a (Some b) g)) = snd (snd (DeleteBySubject (lHash lib) (lApi lib) (bSubject b) (gRecords g, gKube g)))"
  using assms by (simp add: Logout_def Let_def split: prod.splits)

text \<open>
  Logging out makes a spent code good again. On a cluster that serves every call, a code that is
  valid at two moments is redeemed at the first, its user logs out, and the same code is then
  redeemed once more at the second: the record that makes the code single-use is the one the logout
  deletes. A code taken from a browser's history or a log within its 90 seconds opens a new session
  for a user who has just signed out.
\<close>

lemma logout_reopens_code:
  assumes "lApi lib = table_client" and "\<And>kid key c. lUISign lib kid key c \<noteq> None"
    and "ValidateCode (lUIParse lib) kr code host now = Some v" and "ValidateCode (lUIParse lib) kr code host now2 = Some v"
    and "table_stored (gKube g) (recordName (vSID v)) = None"
    and "hUISessions a" and "hAuth a" and "bSubject b = vSub v" and "vSub v \<noteq> []"
    and "g1 = snd (snd (redeem_code lib kr code host uri now later (w, g)))"
    and "g2 = snd (Logout lib a (Some b) g1)"
  shows "fst (redeem_code lib kr code host uri now later (w, g)) = ([], True) \<and>
    fst (redeem_code lib kr code host uri now2 later2 (w2, g2)) = ([], True)"
proof -
  have mint: "MintSession (lUISign lib) kr (vSub v) (vEmail v) host (vSID v) t t \<noteq> None" for t
    using assms(2) by (simp add: MintSession_def signWith_def)
  note first = table_redeem [OF assms(1,3,5) mint]
  let ?rec = "session_record (lHash lib) (vSID v) (vSub v) (vEmail v) host now (now + SessionAbsoluteTTL)"
  have "gKube g1 = put (recordName (vSID v)) ?rec (gKube g)"
    using first(2) assms(10) by simp
  then have "table_stored (gKube g1) (recordName (vSID v)) = Some ?rec"
    using table_stored_put [of ?rec "gKube g" "recordName (vSID v)"] by simp
  then have "table_stored (gKube g2) (recordName (vSID v)) = None"
    using Logout_kube [of a b lib g1] assms(1,6-9,11) session_record_labelled
    by (simp add: table_DeleteBySubject)
  then show ?thesis
    using first(1) table_redeem(1) [OF assms(1,4) _ mint] by blast
qed

subsection \<open>Deleted records\<close>

text \<open>
  A run of the record store of one replica, with its clock, on a cluster that holds no record of \<open>sid\<close>
  after \<open>seen\<close>. A read or a creation is served at \<open>u\<close> and its answer enters the cache with the clock \<open>t\<close>,
  at most \<open>delay\<close> later; reads overlap with deletions in every order.
\<close>

inductive record_run :: "'k client \<Rightarrow> 'k stored \<Rightarrow> string \<Rightarrow> time \<Rightarrow> duration \<Rightarrow> RecordStore \<Rightarrow> bool"
  for api st sid seen delay where
  rec_new: "record_run api st sid seen delay NewRecordStore"
| rec_read: "record_run api st sid seen delay s \<Longrightarrow> cGet api (recordName j) k = (res, k') \<Longrightarrow>
    (seen < u \<longrightarrow> st k' (recordName sid) = None) \<Longrightarrow> t \<le> u + delay \<Longrightarrow>
    record_run api st sid seen delay (snd (note_record t j res s))"
| rec_create: "record_run api st sid seen delay s \<Longrightarrow> secName sec = recordName j \<Longrightarrow> cCreate api sec k = (Inr (), k') \<Longrightarrow>
    (seen < u \<longrightarrow> st k' (recordName sid) = None) \<Longrightarrow> t \<le> u + delay \<Longrightarrow>
    record_run api st sid seen delay (setCache t j True s)"
| rec_clear: "record_run api st sid seen delay s \<Longrightarrow> record_run api st sid seen delay (clearCache s)"

definition live_seen :: "string \<Rightarrow> time \<Rightarrow> RecordStore \<Rightarrow> bool" where
  "live_seen sid limit s \<longleftrightarrow> (\<forall>e. get (rsCache s) sid = Some e \<longrightarrow> ceLive e \<longrightarrow> ceExpires e \<le> limit + recordCacheTTL)"

lemma live_seen_setCache:
  "live_seen sid limit s \<Longrightarrow> (j = sid \<Longrightarrow> live \<Longrightarrow> t \<le> limit) \<Longrightarrow> live_seen sid limit (setCache t j live s)"
  by (auto simp: live_seen_def setCache_def gomap.rd_wr split: if_splits)

lemma recordName_inj [simp]: "recordName i = recordName j \<longleftrightarrow> i = j"
  by (simp add: recordName_def)

lemma record_run_seen:
  assumes "reads_stored api st" and "creates_once api st"
  shows "record_run api st sid seen delay s \<Longrightarrow> live_seen sid (seen + delay) s"
proof (induction rule: record_run.induct)
  case (rec_read s j k res k' u t)
  have "t \<le> seen + delay" if "j = sid" "res = Inr sec" for sec
    using reads_storedD(1) [OF assms(1)] rec_read.hyps that by fastforce
  then show ?case
    using rec_read.IH by (auto simp: note_record_def intro: live_seen_setCache split: sum.splits)
next
  case (rec_create s sec j k k' u t)
  have "t \<le> seen + delay" if "j = sid"
    using creates_onceD(2) [OF assms(2) rec_create.hyps(3)] rec_create.hyps that by fastforce
  then show ?case
    using rec_create.IH live_seen_setCache by blast
qed (simp_all add: live_seen_def NewRecordStore_def clearCache_def)

text \<open>
  A deleted session dies within the record cache's lifetime. On a cluster that has held no record
  of a session since \<open>seen\<close>, a replica whose record store went through any run of overlapping reads,
  creations and revocations, each cached at most \<open>delay\<close> after the API server answered it, refuses
  every request with a token of that session later than \<open>seen\<close> plus \<open>delay\<close> plus 30 seconds.
\<close>

lemma deleted_session_is_refused:
  assumes "reads_stored (lApi lib) st" and "creates_once (lApi lib) st"
    and "record_run (lApi lib) st sid seen delay (gRecords g)" and "seen + delay + 30 * second < now"
    and "\<And>k'. snd (cGet (lApi lib) (recordName sid) (gKube g)) = k' \<Longrightarrow> st k' (recordName sid) = None"
    and "carries (lUIParse lib) tok c" and "cSID c = sid"
  shows "fst (check_session lib roleOf kr tok host now later (w, g)) = ([], False)"
proof (rule ccontr)
  assume "\<not> ?thesis"
  then obtain user where "fst (check_session lib roleOf kr tok host now later (w, g)) = (user, True)"
    by (auto simp: check_session_def Let_def split: option.splits if_splits prod.splits)
  then obtain v where v: "ValidateSession (lUIParse lib) kr tok host now = Some v"
    and live: "fst (Live (lApi lib) now later (vSID v) (gRecords g, gKube g))"
    by (rule check_session_doneD) blast
  have "vSID v = sid"
    using ui_validate_SomeD(4) [OF assms(6) ValidateSession_SomeD(1) [OF v]] assms(7) by simp
  then have live: "fst (Live (lApi lib) now later sid (gRecords g, gKube g))" using live by simp
  obtain res k' where got: "cGet (lApi lib) (recordName sid) (gKube g) = (res, k')" by (metis surj_pair)
  have "getCache now sid (gRecords g) \<noteq> Some True"
    using record_run_seen [OF assms(1-3)] assms(4)
    by (auto simp: getCache_def live_seen_def recordCacheTTL_def split: option.splits if_splits)
  moreover have "res \<noteq> Inr sec" for sec
    using reads_storedD(1) [OF assms(1)] got assms(5) by fastforce
  ultimately show False
    using live got by (auto simp: Live_def note_record_def split: option.splits sum.splits)
qed

lemma table_get_kube: "snd (cGet table_client n k) = k"
  by (simp add: table_client_def)

end
