(* ===== verification/Capability.thy ===== *)
theory Capability
  imports Go_Strings "HOL-Library.List_Lexorder" "HOL-Library.Char_ord" "HOL-Library.Word"
begin

text \<open>
  The catalogue of project capabilities (\<^verbatim>\<open>controller/pkg/capability/capability.go\<close>): what a
  project role may hold, the Kubernetes rules it renders, the sentence shown to the person who
  grants it, and the sets the built-in roles stand for. The catalogue is the table of the source,
  entry for entry and word for word; a plane set is the eight-bit mask the source has. Slices that
  the source clones so that a caller cannot change the table are values here, so \<open>clone\<close> is a
  copy by construction. \<open>nil\<close> and the empty slice are both the empty list.
\<close>

unbundle bit_operations_syntax

subsection \<open>Types\<close>

type_synonym Plane = "8 word"

definition PlaneK :: Plane where
  "PlaneK = push_bit 0 1"

definition PlaneC :: Plane where
  "PlaneC = push_bit 1 1"

definition Plane_Has :: "Plane \<Rightarrow> Plane \<Rightarrow> bool" where
  "Plane_Has p q \<longleftrightarrow> p AND q \<noteq> 0"

record Claim =
  APIGroup :: string
  Resources :: "string list"
  Verbs :: "string list"

record Implication =
  Grants :: string
  Via :: string

record Capability =
  cap_Name :: string
  Planes :: Plane
  Claims :: "Claim list"
  Touches :: "string list"
  Action :: string
  Effect :: string
  Grantable :: bool
  AlsoReads :: string
  Implications :: "Implication list"

record PolicyRule =
  rule_APIGroups :: "string list"
  rule_Resources :: "string list"
  rule_Verbs :: "string list"

subsection \<open>Descriptions\<close>

text \<open>The two loops append to the sentence; the position of an entry decides what joins it.\<close>

definition implicationSuffix :: "Implication list \<Rightarrow> string" where
  "implicationSuffix implications =
     (if implications = [] then ''''
      else fold (\<lambda>(i, imp) out.
             (if i = 0 then '', which also grants '' @ Grants imp
              else if i = length implications - 1 then out @ '' and '' @ Grants imp
              else out @ '', '' @ Grants imp) @ '' '' @ Via imp)
           (enumerate 0 implications) '''')"

definition Description :: "Capability \<Rightarrow> string" where
  "Description c =
     (if Touches c = [] then
        (let out = Effect c;
             out = (if AlsoReads c \<noteq> '''' then out @ '', and '' @ AlsoReads c else out)
         in out @ implicationSuffix (Implications c))
      else
        (let out = Action c @ '' '' @ Touches c ! 0;
             out = fold (\<lambda>i out.
                 if i = length (Touches c) - 1 then out @ '' and '' @ Touches c ! i
                 else out @ '', '' @ Touches c ! i) [1..<length (Touches c)] out;
             out = (if AlsoReads c \<noteq> '''' then out @ '', and '' @ AlsoReads c else out)
         in out @ implicationSuffix (Implications c)))"

subsection \<open>The catalogue\<close>

definition RoleViewer :: string where "RoleViewer = ''viewer''"
definition RoleDeployer :: string where "RoleDeployer = ''deployer''"
definition RoleOwner :: string where "RoleOwner = ''owner''"

definition groupCore :: string where "groupCore = ''''"
definition groupApps :: string where "groupApps = ''apps''"
definition groupBatch :: string where "groupBatch = ''batch''"
definition groupNetworking :: string where "groupNetworking = ''networking.k8s.io''"
definition groupKipper :: string where "groupKipper = ''kipper.run''"

definition readVerbs :: "string list" where
  "readVerbs = [''get'', ''list'', ''watch'']"

definition writeVerbs :: "string list" where
  "writeVerbs = [''create'', ''update'', ''patch'', ''delete'']"

text \<open>The table, in the order of the source.\<close>

definition catalogue_apikeys_files :: "Capability list" where
  "catalogue_apikeys_files = [
   \<lparr>cap_Name = ''apikeys.manage'', Planes = PlaneC,
     Claims = [],
     Touches = [], Action = '''',
     Effect = ''create, change and delete the project's API keys and their usage plans'',
     Grantable = True, AlsoReads = '''',
     Implications = []\<rparr>,
   \<lparr>cap_Name = ''database.read'', Planes = PlaneC,
     Claims = [],
     Touches = [], Action = '''',
     Effect = ''browse a service's databases, tables, rows and saved queries'',
     Grantable = True, AlsoReads = '''',
     Implications = []\<rparr>,
   \<lparr>cap_Name = ''database.write'', Planes = PlaneC,
     Claims = [],
     Touches = [], Action = '''',
     Effect = ''change rows, tables, indexes and saved queries in a service's database'',
     Grantable = True, AlsoReads = '''',
     Implications = []\<rparr>,
   \<lparr>cap_Name = ''env.read'', Planes = PlaneC,
     Claims = [],
     Touches = [], Action = '''',
     Effect = ''see an app's environment variables and which of them are secret, through the console'',
     Grantable = True, AlsoReads = '''',
     Implications = []\<rparr>,
   \<lparr>cap_Name = ''env.reveal'', Planes = PlaneC,
     Claims = [],
     Touches = [], Action = '''',
     Effect = ''reveal the stored value of a secret environment variable or git token through the console'',
     Grantable = True, AlsoReads = '''',
     Implications = []\<rparr>,
   \<lparr>cap_Name = ''env.write'', Planes = PlaneC,
     Claims = [],
     Touches = [], Action = '''',
     Effect = ''change an app's environment variables through the console'',
     Grantable = True, AlsoReads = '''',
     Implications = []\<rparr>,
   \<lparr>cap_Name = ''files.read'', Planes = PlaneC,
     Claims = [],
     Touches = [], Action = '''',
     Effect = ''read and download any file inside a running workload through the console'',
     Grantable = True, AlsoReads = '''',
     Implications = [\<lparr>Grants = ''secrets.read'', Via = ''by reading the files a Secret is mounted into''\<rparr>]\<rparr>,
   \<lparr>cap_Name = ''files.write'', Planes = PlaneC,
     Claims = [],
     Touches = [], Action = '''',
     Effect = ''change and upload files inside a running workload through the console'',
     Grantable = True, AlsoReads = '''',
     Implications = [\<lparr>Grants = ''kipper.write'', Via = ''by changing what the running workload executes''\<rparr>,
       \<lparr>Grants = ''secrets.read'', Via = ''through the environment that code then runs with''\<rparr>]\<rparr>]"

definition catalogue_kipper_project :: "Capability list" where
  "catalogue_kipper_project = [
   \<lparr>cap_Name = ''kipper.read'', Planes = PlaneK OR PlaneC,
     Claims = [\<lparr>APIGroup = groupKipper, Resources = [''apps'', ''services'', ''functions'', ''jobs'', ''volumes''], Verbs = readVerbs\<rparr>],
     Touches = [''apps'', ''services'', ''functions'', ''jobs'', ''volumes''], Action = ''read'',
     Effect = '''',
     Grantable = True, AlsoReads = '''',
     Implications = []\<rparr>,
   \<lparr>cap_Name = ''kipper.write'', Planes = PlaneK OR PlaneC,
     Claims = [\<lparr>APIGroup = groupKipper, Resources = [''apps'', ''services'', ''functions'', ''jobs'', ''volumes''], Verbs = writeVerbs\<rparr>],
     Touches = [''apps'', ''services'', ''functions'', ''jobs'', ''volumes''], Action = ''create, change and delete'',
     Effect = '''',
     Grantable = True, AlsoReads = '''',
     Implications = [\<lparr>Grants = ''secrets.read'', Via = ''by declaring any Secret as an app's environment''\<rparr>,
       \<lparr>Grants = ''pods.logs.read'', Via = ''through the diagnosis routes, which read a workload's logs and send them to the AI provider''\<rparr>,
       \<lparr>Grants = ''workloads.read'', Via = ''through the optimization route, which reads deployments, pods and their metrics''\<rparr>]\<rparr>,
   \<lparr>cap_Name = ''members.manage'', Planes = PlaneC,
     Claims = [],
     Touches = [], Action = '''',
     Effect = ''add and remove project members, and create, change and delete the project's own roles'',
     Grantable = True, AlsoReads = '''',
     Implications = []\<rparr>,
   \<lparr>cap_Name = ''members.read'', Planes = PlaneC,
     Claims = [],
     Touches = [], Action = '''',
     Effect = ''see who is in the project and what they hold'',
     Grantable = True, AlsoReads = '''',
     Implications = []\<rparr>,
   \<lparr>cap_Name = ''pods.exec'', Planes = PlaneK,
     Claims = [\<lparr>APIGroup = groupCore, Resources = [''pods/exec''], Verbs = [''create'']\<rparr>],
     Touches = [''pods/exec''], Action = ''open a shell in'',
     Effect = '''',
     Grantable = True, AlsoReads = '''',
     Implications = [\<lparr>Grants = ''secrets.read'', Via = ''by reading the environment of the container it opens''\<rparr>]\<rparr>,
   \<lparr>cap_Name = ''pods.logs.read'', Planes = PlaneK OR PlaneC,
     Claims = [\<lparr>APIGroup = groupCore, Resources = [''pods/log''], Verbs = [''get'']\<rparr>],
     Touches = [''pods/log''], Action = ''read'',
     Effect = '''',
     Grantable = True, AlsoReads = '''',
     Implications = []\<rparr>,
   \<lparr>cap_Name = ''project.delete'', Planes = PlaneC,
     Claims = [],
     Touches = [], Action = '''',
     Effect = ''delete the project and everything in it'',
     Grantable = True, AlsoReads = '''',
     Implications = []\<rparr>,
   \<lparr>cap_Name = ''project.read'', Planes = PlaneC,
     Claims = [],
     Touches = [], Action = '''',
     Effect = ''see the project's settings, quota, resource requests, API keys and usage plans'',
     Grantable = True, AlsoReads = '''',
     Implications = []\<rparr>,
   \<lparr>cap_Name = ''project.settings'', Planes = PlaneC,
     Claims = [],
     Touches = [], Action = '''',
     Effect = ''change the project's own settings, including which other projects may route into this one'',
     Grantable = True, AlsoReads = '''',
     Implications = []\<rparr>]"

definition catalogue_secrets_workloads :: "Capability list" where
  "catalogue_secrets_workloads = [
   \<lparr>cap_Name = ''secrets.read'', Planes = PlaneK,
     Claims = [\<lparr>APIGroup = groupCore, Resources = [''secrets'', ''configmaps''], Verbs = readVerbs\<rparr>],
     Touches = [''secrets'', ''configmaps''], Action = ''read'',
     Effect = '''',
     Grantable = True, AlsoReads = '''',
     Implications = []\<rparr>,
   \<lparr>cap_Name = ''secrets.write'', Planes = PlaneK,
     Claims = [\<lparr>APIGroup = groupCore, Resources = [''secrets'', ''configmaps''], Verbs = writeVerbs\<rparr>],
     Touches = [''secrets'', ''configmaps''], Action = ''create, change and delete'',
     Effect = '''',
     Grantable = True, AlsoReads = '''',
     Implications = [\<lparr>Grants = ''secrets.read'', Via = ''because writing one requires reading what is there''\<rparr>]\<rparr>,
   \<lparr>cap_Name = ''storage.read'', Planes = PlaneC,
     Claims = [],
     Touches = [], Action = '''',
     Effect = ''list and download objects in a service's buckets'',
     Grantable = True, AlsoReads = '''',
     Implications = []\<rparr>,
   \<lparr>cap_Name = ''storage.write'', Planes = PlaneC,
     Claims = [],
     Touches = [], Action = '''',
     Effect = ''upload and delete objects, and change what a bucket exposes publicly'',
     Grantable = True, AlsoReads = '''',
     Implications = []\<rparr>,
   \<lparr>cap_Name = ''terminal.open'', Planes = PlaneC,
     Claims = [],
     Touches = [], Action = '''',
     Effect = ''open a shell into a running workload through the console'',
     Grantable = True, AlsoReads = '''',
     Implications = [\<lparr>Grants = ''secrets.read'', Via = ''by reading the environment of the container it opens''\<rparr>]\<rparr>,
   \<lparr>cap_Name = ''webhook.reveal'', Planes = PlaneC,
     Claims = [],
     Touches = [], Action = '''',
     Effect = ''reveal the token an app's deploy webhook is called with'',
     Grantable = True, AlsoReads = '''',
     Implications = [\<lparr>Grants = ''kipper.write'', Via = ''by posting an image of its choosing to the app's webhook''\<rparr>,
       \<lparr>Grants = ''secrets.read'', Via = ''through the environment the deployed image runs with''\<rparr>]\<rparr>,
   \<lparr>cap_Name = ''workloads.read'', Planes = PlaneK OR PlaneC,
     Claims = [\<lparr>APIGroup = groupCore, Resources = [''pods'', ''persistentvolumeclaims''], Verbs = readVerbs\<rparr>,
       \<lparr>APIGroup = groupApps, Resources = [''deployments'', ''statefulsets''], Verbs = readVerbs\<rparr>,
       \<lparr>APIGroup = groupBatch, Resources = [''jobs'', ''cronjobs''], Verbs = readVerbs\<rparr>,
       \<lparr>APIGroup = groupNetworking, Resources = [''ingresses''], Verbs = readVerbs\<rparr>],
     Touches = [''pods'', ''persistentvolumeclaims'', ''deployments'', ''statefulsets'', ''jobs'', ''cronjobs'', ''ingresses''], Action = ''read'',
     Effect = '''',
     Grantable = True, AlsoReads = ''the autoscaler status and resource metrics behind them'',
     Implications = []\<rparr>,
   \<lparr>cap_Name = ''workloads.restart'', Planes = PlaneC,
     Claims = [],
     Touches = [], Action = '''',
     Effect = ''restart a workload, which is an annotation the console writes on the App'',
     Grantable = True, AlsoReads = '''',
     Implications = []\<rparr>]"

definition catalogue :: "Capability list" where
  "catalogue = catalogue_apikeys_files @ catalogue_kipper_project @ catalogue_secrets_workloads"

lemmas catalogue_entries = catalogue_def catalogue_apikeys_files_def catalogue_kipper_project_def
  catalogue_secrets_workloads_def

definition builtIn :: "(string, string list) gomap" where
  "builtIn = [
     (RoleViewer, [''database.read'', ''env.read'', ''kipper.read'', ''members.read'', ''pods.logs.read'',
       ''project.read'', ''storage.read'', ''workloads.read'']),
     (RoleDeployer, [''apikeys.manage'', ''database.read'', ''database.write'', ''env.read'', ''env.reveal'',
       ''env.write'', ''files.read'', ''files.write'', ''kipper.read'', ''kipper.write'',
       ''members.read'', ''pods.logs.read'', ''project.read'', ''storage.read'', ''storage.write'',
       ''terminal.open'', ''webhook.reveal'', ''workloads.read'', ''workloads.restart'']),
     (RoleOwner, [''apikeys.manage'', ''database.read'', ''database.write'', ''env.read'', ''env.reveal'',
       ''env.write'', ''files.read'', ''files.write'', ''kipper.read'', ''kipper.write'',
       ''members.manage'', ''members.read'', ''pods.exec'', ''pods.logs.read'', ''project.delete'',
       ''project.read'', ''project.settings'', ''secrets.read'', ''secrets.write'', ''storage.read'',
       ''storage.write'', ''terminal.open'', ''webhook.reveal'', ''workloads.read'', ''workloads.restart''])]"

subsection \<open>Operations\<close>

definition claim_clone :: "Claim \<Rightarrow> Claim" where
  "claim_clone c = \<lparr>APIGroup = APIGroup c, Resources = Resources c, Verbs = Verbs c\<rparr>"

definition clone :: "Capability \<Rightarrow> Capability" where
  "clone c = c\<lparr>Touches := Touches c, Implications := Implications c,
                Claims := map claim_clone (Claims c)\<rparr>"

definition AllCapabilities :: "Capability list" where
  "AllCapabilities = map clone catalogue"

definition LookupCapability :: "string \<Rightarrow> Capability option" where
  "LookupCapability name = map_option clone (find (\<lambda>c. cap_Name c = name) catalogue)"

definition Unknown :: "string list \<Rightarrow> string list" where
  "Unknown names = filter (\<lambda>n. LookupCapability n = None) names"

definition Rules :: "string list \<Rightarrow> PolicyRule list" where
  "Rules names =
     (let wanted = fold (\<lambda>n m. put n True m) names [] in
      concat (map (\<lambda>c.
        if get wanted (cap_Name c) \<noteq> Some True \<or> \<not> Grantable c then []
        else map (\<lambda>claim. \<lparr>rule_APIGroups = [APIGroup claim], rule_Resources = Resources claim,
                             rule_Verbs = Verbs claim\<rparr>) (Claims c)) catalogue))"

definition Subset :: "string list \<Rightarrow> string list \<Rightarrow> bool" where
  "Subset inner outer =
     (let have_them = fold (\<lambda>n m. put n True m) outer [] in
      list_all (\<lambda>n. get have_them n = Some True) inner)"

definition held :: "(string, (string, bool) gomap) gomap" where
  "held = map (\<lambda>(role, names). (role, fold (\<lambda>n m. put n True m) names [])) builtIn"

definition Holds :: "string \<Rightarrow> string \<Rightarrow> bool" where
  "Holds role name =
     (case get held role of None \<Rightarrow> False | Some names \<Rightarrow> get names name = Some True)"

definition KnownRole :: "string \<Rightarrow> bool" where
  "KnownRole role \<longleftrightarrow> get held role \<noteq> None"

definition BuiltIn :: "string \<Rightarrow> string list" where
  "BuiltIn role = (case get builtIn role of None \<Rightarrow> [] | Some names \<Rightarrow> sort names)"

subsection \<open>What the catalogue promises\<close>

lemma Subset_iff: "Subset inner outer \<longleftrightarrow> set inner \<subseteq> set outer"
  by (auto simp: Subset_def get_fold_put_True list_all_iff Let_def split: if_splits)

lemma clone_id [simp]: "clone c = c"
proof -
  have "map claim_clone (Claims c) = Claims c" by (rule map_idI) (simp add: claim_clone_def)
  then show ?thesis by (simp add: clone_def)
qed

lemma get_held: "get held role = map_option (\<lambda>names. fold (\<lambda>n m. put n True m) names []) (get builtIn role)"
  by (simp add: held_def map_of_map)

lemma KnownRole_iff: "KnownRole role \<longleftrightarrow> role \<in> {RoleViewer, RoleDeployer, RoleOwner}"
  by (auto simp: KnownRole_def get_held builtIn_def RoleViewer_def RoleDeployer_def RoleOwner_def)

lemma Holds_iff: "Holds role name \<longleftrightarrow> name \<in> set (BuiltIn role)"
  by (auto simp: Holds_def get_held BuiltIn_def get_fold_put_True split: option.splits if_splits)

definition rule_of :: "Claim \<Rightarrow> PolicyRule" where
  "rule_of claim = \<lparr>rule_APIGroups = [APIGroup claim], rule_Resources = Resources claim, rule_Verbs = Verbs claim\<rparr>"

lemma Rules_filter:
  "Rules names = concat (map (\<lambda>c. map rule_of (Claims c)) (filter (\<lambda>c. cap_Name c \<in> set names \<and> Grantable c) catalogue))"
proof -
  have "concat (map (\<lambda>c. if get (fold (\<lambda>n m. put n True m) names []) (cap_Name c) \<noteq> Some True \<or> \<not> Grantable c then []
          else map rule_of (Claims c)) cs) =
        concat (map (\<lambda>c. map rule_of (Claims c)) (filter (\<lambda>c. cap_Name c \<in> set names \<and> Grantable c) cs))" for cs
    by (induction cs) (simp_all add: get_fold_put_True)
  then show ?thesis
    by (simp only: Rules_def Let_def rule_of_def [abs_def])
qed


text \<open>
  The Kubernetes rules of a set of capabilities are exactly the claims of its grantable entries, in
  catalogue order: they do not depend on the order or the repetition of the names, a smaller set
  never renders a rule that the larger one does not, and unknown names render none. What the
  built-in viewer renders only reads, and neither it nor the deployer reaches a Secret, a ConfigMap
  or a shell on that plane.
\<close>

lemma rules_follow_the_grants:
  "set (Rules names) = {rule_of k | c k. c \<in> set catalogue \<and> k \<in> set (Claims c) \<and> cap_Name c \<in> set names \<and> Grantable c} \<and>
   (set names = set names' \<longrightarrow> Rules names = Rules names') \<and>
   (Subset names outer \<longrightarrow> set (Rules names) \<subseteq> set (Rules outer)) \<and>
   Rules (Unknown names) = [] \<and>
   list_all (\<lambda>r. Subset (rule_Verbs r) readVerbs) (Rules (BuiltIn RoleViewer)) \<and>
   list_all (\<lambda>role. list_all (\<lambda>r. list_all (\<lambda>x. x \<notin> {''secrets'', ''configmaps'', ''pods/exec''}) (rule_Resources r))
                      (Rules (BuiltIn role))) [RoleViewer, RoleDeployer]"
proof (intro conjI)
  show "set (Rules names) = {rule_of k | c k. c \<in> set catalogue \<and> k \<in> set (Claims c) \<and> cap_Name c \<in> set names \<and> Grantable c}"
    by (auto simp: Rules_filter)
  show "set names = set names' \<longrightarrow> Rules names = Rules names'"
    by (simp add: Rules_filter)
  show "Subset names outer \<longrightarrow> set (Rules names) \<subseteq> set (Rules outer)"
    by (auto simp: Rules_filter Subset_iff)
  have "\<not> (cap_Name c \<in> set (Unknown names))" if "c \<in> set catalogue" for c
    using that by (auto simp: Unknown_def LookupCapability_def find_None_iff)
  then show "Rules (Unknown names) = []"
    by (auto simp: Rules_filter filter_empty_conv)
  show "list_all (\<lambda>r. Subset (rule_Verbs r) readVerbs) (Rules (BuiltIn RoleViewer))" by code_simp
  show "list_all (\<lambda>role. list_all (\<lambda>r. list_all (\<lambda>x. x \<notin> {''secrets'', ''configmaps'', ''pods/exec''}) (rule_Resources r))
                      (Rules (BuiltIn role))) [RoleViewer, RoleDeployer]" by code_simp
qed

end
