(* ===== verification/User_Roles.thy ===== *)
theory User_Roles
  imports External "HOL-Library.List_Lexorder" "HOL-Library.Char_ord"
begin

text \<open>
  Console roles and monitoring grants, kept in the ConfigMap \<open>kipper-users\<close>: the grant list
  (\<^verbatim>\<open>controller/pkg/usergrants/usergrants.go\<close>) and the cached store with the two middlewares that
  read it (\<^verbatim>\<open>console-api/middleware/roles.go\<close>).

  A ConfigMap has the shape of a Secret (name, labels, data), so \<open>api\<close> is a \<open>client\<close> for the
  ConfigMaps of \<open>kipper-system\<close>. The JSON coding of the two values is the parameter \<open>j\<close>. Every
  reading of the clock is an argument of its own, in the order the code reads it.
\<close>

subsection \<open>The JSON coding\<close>

text \<open>
  \<open>jMapOf\<close> decodes into a \<open>map[string]string\<close>: \<open>None\<close> is an error and \<open>Some None\<close> the nil map that
  \<^verbatim>\<open>null\<close> leaves. \<open>jListOf\<close> decodes into a \<open>[]string\<close>. \<open>jText\<close> holds of the strings that are valid UTF-8,
  which the coding preserves.
\<close>

record json =
  jText :: "string \<Rightarrow> bool"
  jMapOf :: "string \<Rightarrow> (string, string) gomap option option"
  jMap :: "(string, string) gomap \<Rightarrow> string"
  jListOf :: "string \<Rightarrow> string list option"
  jList :: "string list \<Rightarrow> string"

definition text_map :: "json \<Rightarrow> (string, string) gomap \<Rightarrow> bool" where
  "text_map j m \<longleftrightarrow> distinct_keys m \<and> list_all (\<lambda>(k, v). jText j k \<and> jText j v) m"

definition json_faithful :: "json \<Rightarrow> bool" where
  "json_faithful j \<longleftrightarrow>
     (\<forall>m. text_map j m \<longrightarrow> jMap j m \<noteq> [] \<and> (\<exists>m'. jMapOf j (jMap j m) = Some (Some m') \<and> map_of m' = map_of m)) \<and>
     (\<forall>raw m. jMapOf j raw = Some (Some m) \<longrightarrow> text_map j m) \<and>
     jMapOf j ''null'' = Some None \<and> jMapOf j [] = None \<and>
     (\<forall>l. list_all (jText j) l \<longrightarrow> jListOf j (jList j l) = Some l) \<and>
     (\<forall>raw l. jListOf j raw = Some l \<longrightarrow> list_all (jText j) l)"

subsection \<open>The grant list\<close>

definition UsersKey :: string where
  "UsersKey = ''users''"

definition MonitoringKey :: string where
  "MonitoringKey = ''monitoring''"

datatype grant_error = ErrParseUsers | ErrParseMonitoring | ErrUnknownUser

type_synonym cmdata = "(string, string) gomap"

definition Monitoring :: "json \<Rightarrow> cmdata \<Rightarrow> grant_error + (string, bool) gomap" where
  "Monitoring j data =
     (case get data MonitoringKey of
        None \<Rightarrow> Inr []
      | Some raw \<Rightarrow>
          (case jListOf j raw of
             None \<Rightarrow> Inl ErrParseMonitoring
           | Some emails \<Rightarrow> Inr (fold (\<lambda>e m. put e True m) emails [])))"

definition grants_roles :: "json \<Rightarrow> cmdata \<Rightarrow> grant_error + (string, string) gomap" where
  "grants_roles j data =
     (case get data UsersKey of
        None \<Rightarrow> Inr []
      | Some raw \<Rightarrow>
          if raw = [] then Inr []
          else (case jMapOf j raw of
                  None \<Rightarrow> Inl ErrParseUsers
                | Some None \<Rightarrow> Inr []
                | Some (Some m) \<Rightarrow> Inr m))"

definition sortedEmails :: "(string, bool) gomap \<Rightarrow> string list" where
  "sortedEmails grants = sort (keys grants)"

text \<open>A role that is missing reads as the empty string.\<close>

definition role_at :: "(string, string) gomap \<Rightarrow> string \<Rightarrow> string" where
  "role_at m email = (case get m email of None \<Rightarrow> [] | Some role \<Rightarrow> role)"

definition grants_SetMonitoring :: "json \<Rightarrow> cmdata \<Rightarrow> string \<Rightarrow> bool \<Rightarrow> grant_error option \<times> cmdata" where
  "grants_SetMonitoring j data email granted =
     (case Monitoring j data of
        Inl e \<Rightarrow> (Some e, data)
      | Inr grants \<Rightarrow>
          if granted then
            (case grants_roles j data of
               Inl e \<Rightarrow> (Some e, data)
             | Inr userRoles \<Rightarrow>
                 if role_at userRoles email = [] then (Some ErrUnknownUser, data)
                 else (None, put MonitoringKey (jList j (sortedEmails (put email True grants))) data))
          else (None, put MonitoringKey (jList j (sortedEmails (del email grants))) data))"

text \<open>One turn of the loop of \<open>Merge\<close> over the backup's roles.\<close>

definition merge_turn :: "(string, bool) gomap \<Rightarrow> string \<times> string \<Rightarrow>
    (string, string) gomap \<times> (string, bool) gomap \<times> string list \<Rightarrow>
    (string, string) gomap \<times> (string, bool) gomap \<times> string list" where
  "merge_turn backupGrants kv acc =
     (case kv of (email, role) \<Rightarrow> case acc of (liveRoles, grants, added) \<Rightarrow>
        if role_at liveRoles email \<noteq> [] then acc
        else (put email role liveRoles,
              if get backupGrants email = Some True then put email True grants else grants,
              added @ [email]))"

definition Merge :: "json \<Rightarrow> cmdata \<Rightarrow> cmdata \<Rightarrow> (grant_error + string list) \<times> cmdata" where
  "Merge j live backup =
     (case grants_roles j live of
        Inl e \<Rightarrow> (Inl e, live)
      | Inr liveRoles \<Rightarrow>
     (case grants_roles j backup of
        Inl e \<Rightarrow> (Inl e, live)
      | Inr backupRoles \<Rightarrow>
     (case Monitoring j backup of
        Inl e \<Rightarrow> (Inl e, live)
      | Inr backupGrants \<Rightarrow>
     (case Monitoring j live of
        Inl e \<Rightarrow> (Inl e, live)
      | Inr grants \<Rightarrow>
          (case fold (merge_turn backupGrants) backupRoles (liveRoles, grants, []) of
             (liveRoles', grants', added) \<Rightarrow>
               if added = [] then (Inr [], live)
               else (Inr (sort added),
                     put MonitoringKey (jList j (sortedEmails grants'))
                       (put UsersKey (jMap j liveRoles') live)))))))"

subsection \<open>The store\<close>

definition roleConfigMapName :: string where
  "roleConfigMapName = ''kipper-users''"

definition Role_Admin :: string where
  "Role_Admin = ''admin''"

definition monitoringTrustAge :: duration where
  "monitoringTrustAge = 60 * second"

record RoleStore =
  rsRoles :: "(string, string) gomap"
  rsMonitoring :: "(string, bool) gomap"
  rsMonitoringValid :: bool
  rsLastFetch :: time
  rsCacheTTL :: duration

definition NewRoleStore :: RoleStore where
  "NewRoleStore = \<lparr>rsRoles = [], rsMonitoring = [], rsMonitoringValid = False,
                   rsLastFetch = zero_time, rsCacheTTL = 30 * second\<rparr>"

text \<open>What a successful read of the ConfigMap stores, at the clock reading \<open>t2\<close>.\<close>

definition store_users :: "json \<Rightarrow> cmdata \<Rightarrow> time \<Rightarrow> RoleStore \<Rightarrow> RoleStore" where
  "store_users j data t2 s =
     (case get data UsersKey of
        None \<Rightarrow> s
      | Some rolesJSON \<Rightarrow>
          (case jMapOf j rolesJSON of
             None \<Rightarrow> s
           | Some m \<Rightarrow>
               s\<lparr>rsRoles := (case m of None \<Rightarrow> [] | Some roles \<Rightarrow> roles),
                 rsMonitoring := (case Monitoring j data of Inl _ \<Rightarrow> [] | Inr grants \<Rightarrow> grants),
                 rsMonitoringValid := (case Monitoring j data of Inl _ \<Rightarrow> False | Inr _ \<Rightarrow> True),
                 rsLastFetch := t2\<rparr>))"

definition refresh :: "json \<Rightarrow> 'k client \<Rightarrow> time \<Rightarrow> time \<Rightarrow> RoleStore \<times> 'k \<Rightarrow> RoleStore \<times> 'k" where
  "refresh j api t1 t2 sk =
     (case sk of (s, k) \<Rightarrow>
        if time_Sub t1 (rsLastFetch s) < rsCacheTTL s then (s, k)
        else (case cGet api roleConfigMapName k of
                (Inl _, k1) \<Rightarrow> (s, k1)
              | (Inr cm, k1) \<Rightarrow> (store_users j (secData cm) t2 s, k1)))"

definition GetRole :: "json \<Rightarrow> 'k client \<Rightarrow> time \<Rightarrow> time \<Rightarrow> time \<Rightarrow> string \<Rightarrow> RoleStore \<times> 'k \<Rightarrow> string \<times> RoleStore \<times> 'k" where
  "GetRole j api t0 t1 t2 email sk =
     (case sk of (s, k) \<Rightarrow>
        if time_Sub t0 (rsLastFetch s) < rsCacheTTL s \<and> 0 < length (rsRoles s)
        then (role_at (rsRoles s) email, s, k)
        else (case refresh j api t1 t2 (s, k) of (s1, k1) \<Rightarrow> (role_at (rsRoles s1) email, s1, k1)))"

definition MonitoringAccess :: "json \<Rightarrow> 'k client \<Rightarrow> time \<Rightarrow> time \<Rightarrow> time \<Rightarrow> string \<Rightarrow> RoleStore \<times> 'k \<Rightarrow> (string \<times> bool) \<times> RoleStore \<times> 'k" where
  "MonitoringAccess j api t1 t2 t3 email sk =
     (case refresh j api t1 t2 sk of (s, k) \<Rightarrow>
        ((if rsLastFetch s = zero_time \<or> monitoringTrustAge < time_Sub t3 (rsLastFetch s) \<or> \<not> rsMonitoringValid s
          then ([], False)
          else let role = role_at (rsRoles s) email in
               if role = Role_Admin \<or> (role \<noteq> [] \<and> get (rsMonitoring s) email = Some True)
               then (role, True) else ([], False)), s, k))"

definition MonitoringHolders :: "json \<Rightarrow> 'k client \<Rightarrow> time \<Rightarrow> time \<Rightarrow> RoleStore \<times> 'k \<Rightarrow> (string, bool) gomap \<times> RoleStore \<times> 'k" where
  "MonitoringHolders j api t1 t2 sk =
     (case refresh j api t1 t2 sk of (s, k) \<Rightarrow>
        (fold (\<lambda>(email, role) holders.
            if role = Role_Admin \<or> (rsMonitoringValid s \<and> get (rsMonitoring s) email = Some True)
            then put email True holders else holders) (rsRoles s) [], s, k))"

definition invalidateCache :: "RoleStore \<Rightarrow> RoleStore" where
  "invalidateCache s = s\<lparr>rsLastFetch := zero_time\<rparr>"

definition grant_kerror :: "grant_error \<Rightarrow> kerror" where
  "grant_kerror e = Msg (case e of ErrParseUsers \<Rightarrow> ''parsing users'' | ErrParseMonitoring \<Rightarrow> ''parsing monitoring''
                                 | ErrUnknownUser \<Rightarrow> ''unknown user'')"

definition monitoring_attempt :: "json \<Rightarrow> 'k client \<Rightarrow> string \<Rightarrow> bool \<Rightarrow> ('k, unit) attempt_fun" where
  "monitoring_attempt j api email granted k =
     (case cGet api roleConfigMapName k of
        (Inl e, k1) \<Rightarrow> (Inl e, k1)
      | (Inr cm, k1) \<Rightarrow>
          (case grants_SetMonitoring j (secData cm) email granted of
             (Some e, _) \<Rightarrow> (Inl (grant_kerror e), k1)
           | (None, data) \<Rightarrow> cUpdate api (cm\<lparr>secData := data\<rparr>) k1))"

definition store_SetMonitoring :: "('k, unit) retrier \<Rightarrow> json \<Rightarrow> 'k client \<Rightarrow> string \<Rightarrow> bool \<Rightarrow> RoleStore \<times> 'k \<Rightarrow> (kerror + unit) \<times> RoleStore \<times> 'k" where
  "store_SetMonitoring retry j api email granted sk =
     (case sk of (s, k) \<Rightarrow>
        (case retry (monitoring_attempt j api email granted) k of
           (r, k1) \<Rightarrow> (r, invalidateCache s, k1)))"

text \<open>
  The attempt of \<open>updateUsers\<close>. The map handed to \<open>mutate\<close> is \<open>None\<close> when it is nil, which it is after
  decoding \<^verbatim>\<open>null\<close>; \<open>mutate\<close> answers \<open>None\<close> when it panics. A nil map encodes as \<^verbatim>\<open>null\<close>.
\<close>

type_synonym mutation = "(string, string) gomap option \<Rightarrow> cmdata \<Rightarrow> ((string, string) gomap option \<times> cmdata) option"

definition nil_map_panic :: kerror where
  "nil_map_panic = Msg ''assignment to entry in nil map''"

definition users_JSON :: "json \<Rightarrow> (string, string) gomap option \<Rightarrow> string" where
  "users_JSON j m = (case m of None \<Rightarrow> ''null'' | Some roles \<Rightarrow> jMap j roles)"

definition new_users_map :: secret where
  "new_users_map = \<lparr>secName = roleConfigMapName,
                    secLabels = [(''app.kubernetes.io/managed-by'', ''kipper'')], secData = []\<rparr>"

definition stored_roles :: "json \<Rightarrow> cmdata \<Rightarrow> (string, string) gomap option option" where
  "stored_roles j data =
     (case get data UsersKey of
        None \<Rightarrow> Some (Some [])
      | Some raw \<Rightarrow> if raw = [] then Some (Some []) else jMapOf j raw)"

definition users_attempt :: "json \<Rightarrow> 'k client \<Rightarrow> mutation \<Rightarrow> ('k, unit) attempt_fun" where
  "users_attempt j api mutate k =
     (let write = (\<lambda>create cm k1.
            case stored_roles j (secData cm) of
              None \<Rightarrow> (Inl (grant_kerror ErrParseUsers), k1)
            | Some m \<Rightarrow>
                (case mutate m (secData cm) of
                   None \<Rightarrow> (Inl nil_map_panic, k1)
                 | Some (m', data) \<Rightarrow>
                     let cm' = cm\<lparr>secData := put UsersKey (users_JSON j m') data\<rparr> in
                     if create then cCreate api cm' k1 else cUpdate api cm' k1))
      in case cGet api roleConfigMapName k of
           (Inl NotFound, k1) \<Rightarrow> write True new_users_map k1
         | (Inl e, k1) \<Rightarrow> (Inl e, k1)
         | (Inr cm, k1) \<Rightarrow> write False cm k1)"

definition updateUsers :: "('k, unit) retrier \<Rightarrow> json \<Rightarrow> 'k client \<Rightarrow> mutation \<Rightarrow> RoleStore \<times> 'k \<Rightarrow> (kerror + unit) \<times> RoleStore \<times> 'k" where
  "updateUsers retry j api mutate sk =
     (case sk of (s, k) \<Rightarrow>
        (case retry (users_attempt j api mutate) k of (r, k1) \<Rightarrow> (r, invalidateCache s, k1)))"

definition set_role_mutation :: "json \<Rightarrow> string \<Rightarrow> string \<Rightarrow> mutation" where
  "set_role_mutation j email role m data =
     (let existed = (case m of None \<Rightarrow> False | Some roles \<Rightarrow> get roles email \<noteq> None);
          data' = (if existed then data else snd (grants_SetMonitoring j data email False))
      in case m of None \<Rightarrow> None | Some roles \<Rightarrow> Some (Some (put email role roles), data'))"

definition remove_user_mutation :: "json \<Rightarrow> string \<Rightarrow> mutation" where
  "remove_user_mutation j email m data =
     Some (map_option (del email) m, snd (grants_SetMonitoring j data email False))"

definition SetRole :: "('k, unit) retrier \<Rightarrow> json \<Rightarrow> 'k client \<Rightarrow> string \<Rightarrow> string \<Rightarrow> RoleStore \<times> 'k \<Rightarrow> (kerror + unit) \<times> RoleStore \<times> 'k" where
  "SetRole retry j api email role = updateUsers retry j api (set_role_mutation j email role)"

definition RemoveUser :: "('k, unit) retrier \<Rightarrow> json \<Rightarrow> 'k client \<Rightarrow> string \<Rightarrow> RoleStore \<times> 'k \<Rightarrow> (kerror + unit) \<times> RoleStore \<times> 'k" where
  "RemoveUser retry j api email = updateUsers retry j api (remove_user_mutation j email)"

definition ListUsers :: "json \<Rightarrow> 'k client \<Rightarrow> time \<Rightarrow> time \<Rightarrow> RoleStore \<times> 'k \<Rightarrow> (string, string) gomap \<times> RoleStore \<times> 'k" where
  "ListUsers j api t1 t2 sk =
     (case refresh j api t1 t2 sk of (s, k) \<Rightarrow> (fold (\<lambda>(e, r) m. put e r m) (rsRoles s) [], s, k))"

end
