(* ===== verification/Project_Access.thy ===== *)
theory Project_Access
  imports Capability User_Roles
begin

text \<open>
  Who may do what in a project, on every request of the console API:

  \<^item> \<^verbatim>\<open>console-api/internal/nsowner/nsowner.go\<close>: which project a namespace belongs to;
  \<^item> \<^verbatim>\<open>console-api/middleware/projectmembers.go\<close>, \<^verbatim>\<open>projectaccess.go\<close>: a user's role in a project, with the
    swap of the ownership reader while requests are in flight;
  \<^item> \<^verbatim>\<open>console-api/middleware/projectguard.go\<close> and the middlewares of \<^verbatim>\<open>roles.go\<close>: the guards of a route.

  The cluster is a state of any type; a reader, the namespace client and the client for Projects are
  functions on it that may fail. Between taking a reader and checking that it is still the current
  one, other goroutines may swap it: the swaps that happen there are an argument of the lookup.
\<close>

subsection \<open>Ownership of a namespace\<close>

record NamespaceClaim =
  claimName :: string
  claimUID :: string

record Project =
  pName :: string
  pMembers :: "(string \<times> string) list"
  pNamespaces :: "string list"
  pClaims :: "NamespaceClaim list"

record Namespace =
  nsName :: string
  nsUID :: string
  nsLabels :: "(string, string) gomap"

record 'k Reader =
  rdNamespace :: "string \<Rightarrow> 'k \<Rightarrow> (kerror + Namespace) \<times> 'k"
  rdProject :: "string \<Rightarrow> 'k \<Rightarrow> (kerror + Project) \<times> 'k"

definition labels_Project :: string where
  "labels_Project = ''kipper.run/project''"

definition fallbackToLabel :: bool where
  "fallbackToLabel = True"

definition Claimed :: "NamespaceClaim list \<Rightarrow> string \<Rightarrow> string \<Rightarrow> bool" where
  "Claimed claims namespace uid =
     list_ex (\<lambda>claim. claimName claim = namespace \<and> claimUID claim = uid) claims"

definition HoldsObject :: "Project \<Rightarrow> string \<Rightarrow> string \<Rightarrow> bool" where
  "HoldsObject p namespace uid =
     (if Claimed (pClaims p) namespace uid then True
      else if list_ex (\<lambda>claim. claimName claim = namespace) (pClaims p) then False
      else List.member (pNamespaces p) namespace)"

definition ClaimedElsewhere :: "Project list \<Rightarrow> string \<Rightarrow> string \<Rightarrow> string \<Rightarrow> bool" where
  "ClaimedElsewhere projects self namespace uid =
     list_ex (\<lambda>p. pName p \<noteq> self \<and> Claimed (pClaims p) namespace uid) projects"

definition EverHeld :: "Project \<Rightarrow> string \<Rightarrow> string \<Rightarrow> bool" where
  "EverHeld p namespace uid =
     (if Claimed (pClaims p) namespace uid then True else List.member (pNamespaces p) namespace)"

text \<open>A nil reader and a nil namespace are \<open>None\<close>; the answer is the project and whether there is one.\<close>

definition OfNamespace :: "'k Reader option \<Rightarrow> Namespace option \<Rightarrow> 'k \<Rightarrow> (kerror + string \<times> bool) \<times> 'k" where
  "OfNamespace reader nso k =
     (case (reader, nso) of
        (Some rd, Some ns) \<Rightarrow>
          (let candidate = (case get (nsLabels ns) labels_Project of None \<Rightarrow> [] | Some l \<Rightarrow> l) in
           if candidate = [] then (Inr ([], False), k)
           else (case rdProject rd candidate k of
                   (Inl NotFound, k1) \<Rightarrow> (Inr ([], False), k1)
                 | (Inl e, k1) \<Rightarrow> (Inl e, k1)
                 | (Inr p, k1) \<Rightarrow>
                     if HoldsObject p (nsName ns) (nsUID ns) then (Inr (candidate, True), k1)
                     else if fallbackToLabel then (Inr (candidate, True), k1)
                     else (Inr ([], False), k1)))
      | _ \<Rightarrow> (Inr ([], False), k))"

definition Of :: "'k Reader option \<Rightarrow> string \<Rightarrow> 'k \<Rightarrow> (kerror + string \<times> bool) \<times> 'k" where
  "Of reader namespace k =
     (case reader of
        None \<Rightarrow> (Inr ([], False), k)
      | Some rd \<Rightarrow>
          (case rdNamespace rd namespace k of
             (Inl NotFound, k1) \<Rightarrow> (Inr ([], False), k1)
           | (Inl e, k1) \<Rightarrow> (Inl e, k1)
           | (Inr ns, k1) \<Rightarrow> OfNamespace reader (Some ns) k1))"

definition OwnsNamespace :: "'k Reader option \<Rightarrow> string \<Rightarrow> Namespace option \<Rightarrow> 'k \<Rightarrow> (kerror + bool) \<times> 'k" where
  "OwnsNamespace reader project nso k =
     (case OfNamespace reader nso k of
        (Inl e, k1) \<Rightarrow> (Inl e, k1)
      | (Inr (owner, owned), k1) \<Rightarrow> (Inr (owned \<and> owner = project), k1))"

definition Owns :: "'k Reader option \<Rightarrow> string \<Rightarrow> string \<Rightarrow> 'k \<Rightarrow> (kerror + bool) \<times> 'k" where
  "Owns reader project namespace k =
     (case Of reader namespace k of
        (Inl e, k1) \<Rightarrow> (Inl e, k1)
      | (Inr (owner, owned), k1) \<Rightarrow> (Inr (owned \<and> owner = project), k1))"

subsection \<open>The ownership reader and its swaps\<close>

record 'k Owners =
  owners :: "'k Reader option"
  ownersRetired :: bool
  ownersGen :: "64 word"

definition NewOwners :: "'k Reader option \<Rightarrow> 'k Owners" where
  "NewOwners live = \<lparr>owners = live, ownersRetired = False, ownersGen = 0\<rparr>"

definition UseOwners :: "'k Reader option \<Rightarrow> 'k Owners \<Rightarrow> 'k Owners" where
  "UseOwners offer r =
     (case offer of
        None \<Rightarrow> r
      | Some _ \<Rightarrow> if ownersRetired r then r else r\<lparr>owners := offer, ownersGen := ownersGen r + 1\<rparr>)"

definition RetireOwners :: "'k Reader option \<Rightarrow> 'k Owners \<Rightarrow> 'k Owners" where
  "RetireOwners live r =
     (let r1 = r\<lparr>ownersRetired := True\<rparr>;
          r2 = (case live of None \<Rightarrow> r1 | Some _ \<Rightarrow> r1\<lparr>owners := live\<rparr>)
      in r2\<lparr>ownersGen := ownersGen r2 + 1\<rparr>)"

definition ownerReader :: "'k Owners \<Rightarrow> 'k Reader option \<times> 64 word" where
  "ownerReader r = (owners r, ownersGen r)"

definition ownersChangedSince :: "'k Owners \<Rightarrow> 64 word \<Rightarrow> bool" where
  "ownersChangedSince r gen \<longleftrightarrow> ownersGen r \<noteq> gen"

datatype 'k swap = Offer "'k Reader option" | Retire "'k Reader option"

fun do_swap :: "'k swap \<Rightarrow> 'k Owners \<Rightarrow> 'k Owners" where
  "do_swap (Offer r) s = UseOwners r s"
| "do_swap (Retire r) s = RetireOwners r s"

abbreviation do_swaps :: "'k swap list \<Rightarrow> 'k Owners \<Rightarrow> 'k Owners" where
  "do_swaps \<equiv> fold do_swap"

text \<open>The swaps of other goroutines: for each attempt, those before it takes the reader and those while it reads.\<close>

type_synonym 'k interference = "('k swap list \<times> 'k swap list) list"

datatype lookup_error = LookupFailed kerror | Unsettled

fun owner_attempts :: "nat \<Rightarrow> 'k interference \<Rightarrow> string \<Rightarrow> 'k Owners \<times> 'k \<Rightarrow>
    (lookup_error + string \<times> bool) \<times> 'k Owners \<times> 'k" where
  "owner_attempts 0 env name rk = (Inl Unsettled, rk)"
| "owner_attempts (Suc n) env name rk =
     (case rk of (r, k) \<Rightarrow>
      let (before, during) = (case env of [] \<Rightarrow> ([], []) | e # _ \<Rightarrow> e);
          r1 = do_swaps before r;
          (rd, gen) = ownerReader r1
      in case Of rd name k of
           (Inl e, k1) \<Rightarrow> (Inl (LookupFailed e), do_swaps during r1, k1)
         | (Inr answer, k1) \<Rightarrow>
             let r2 = do_swaps during r1 in
             if ownersChangedSince r2 gen then owner_attempts n (drop 1 env) name (r2, k1)
             else (Inr answer, r2, k1))"

definition projectForName :: "(string \<Rightarrow> 'k \<Rightarrow> (kerror + Namespace) \<times> 'k) \<Rightarrow> 'k interference \<Rightarrow> string \<Rightarrow> 'k Owners \<times> 'k \<Rightarrow>
    (lookup_error + string) \<times> 'k Owners \<times> 'k" where
  "projectForName getNamespace env name rk =
     (case owner_attempts 4 env name rk of
        (Inl e, rk1) \<Rightarrow> (Inl e, rk1)
      | (Inr (project, owned), r1, k1) \<Rightarrow>
          if owned then (Inr project, r1, k1)
          else (case getNamespace name k1 of
                  (Inl NotFound, k2) \<Rightarrow> (Inr name, r1, k2)
                | (Inl e, k2) \<Rightarrow> (Inl (LookupFailed e), r1, k2)
                | (Inr _, k2) \<Rightarrow> (Inr [], r1, k2)))"

subsection \<open>Access to a project\<close>

record ProjectAccess =
  paProject :: string
  paRole :: string
  paIsAdmin :: bool

definition Allows :: "ProjectAccess \<Rightarrow> string \<Rightarrow> bool" where
  "Allows a required = Holds (paRole a) required"

definition ProjectMembers :: "(string \<Rightarrow> 'k \<Rightarrow> (kerror + Project) \<times> 'k) \<Rightarrow> string \<Rightarrow> 'k \<Rightarrow>
    (kerror + (string, string) gomap \<times> bool) \<times> 'k" where
  "ProjectMembers getProject project k =
     (case getProject project k of
        (Inl NotFound, k1) \<Rightarrow> (Inr ([], False), k1)
      | (Inl e, k1) \<Rightarrow> (Inl e, k1)
      | (Inr p, k1) \<Rightarrow> (Inr (fold (\<lambda>(email, role) m. put email role m) (pMembers p) [], True), k1))"

text \<open>What the resolver calls: the ConfigMaps, the JSON coding, the namespaces and the Projects.\<close>

record 'k services =
  svUsers :: "'k client"
  svJson :: json
  svNamespace :: "string \<Rightarrow> 'k \<Rightarrow> (kerror + Namespace) \<times> 'k"
  svProject :: "string \<Rightarrow> 'k \<Rightarrow> (kerror + Project) \<times> 'k"

record 'k resolver =
  rsvRoles :: RoleStore
  rsvOwners :: "'k Owners"
  rsvKube :: 'k

definition resolveProject :: "'k services \<Rightarrow> string \<Rightarrow> string \<Rightarrow> string \<Rightarrow> 'k \<Rightarrow> ProjectAccess option \<times> 'k" where
  "resolveProject sv email project globalRole k =
     (if globalRole = [] then (None, k)
      else if globalRole = Role_Admin then
        (Some \<lparr>paProject = project, paRole = RoleOwner, paIsAdmin = True\<rparr>, k)
      else if project = [] then (None, k)
      else (case ProjectMembers (svProject sv) project k of
              (Inl _, k1) \<Rightarrow> (None, k1)
            | (Inr (members, found), k1) \<Rightarrow>
                if \<not> found then (None, k1)
                else (case get members email of
                        None \<Rightarrow> (None, k1)
                      | Some role \<Rightarrow>
                          if \<not> KnownRole role then (None, k1)
                          else (Some \<lparr>paProject = project, paRole = role, paIsAdmin = False\<rparr>, k1))))"

text \<open>The clock readings of the role store, and the swaps during the lookup.\<close>

record 'k moment =
  at0 :: time
  at1 :: time
  at2 :: time
  swaps :: "'k interference"

definition global_role :: "'k services \<Rightarrow> 'k moment \<Rightarrow> string \<Rightarrow> 'k resolver \<Rightarrow> string \<times> 'k resolver" where
  "global_role sv mo email r =
     (case GetRole (svJson sv) (svUsers sv) (at0 mo) (at1 mo) (at2 mo) email (rsvRoles r, rsvKube r) of
        (role, s, k) \<Rightarrow> (role, r\<lparr>rsvRoles := s, rsvKube := k\<rparr>))"

type_synonym 'k resolve_fun = "'k services \<Rightarrow> 'k moment \<Rightarrow> string \<Rightarrow> string \<Rightarrow> 'k resolver \<Rightarrow> ProjectAccess option \<times> 'k resolver"

definition Resolve :: "'k resolve_fun" where
  "Resolve sv mo email namespace r =
     (case global_role sv mo email r of
        (globalRole, r1) \<Rightarrow>
          if globalRole = [] then (None, r1)
          else (case projectForName (svNamespace sv) (swaps mo) namespace (rsvOwners r1, rsvKube r1) of
                  (Inl _, o1, k1) \<Rightarrow> (None, r1\<lparr>rsvOwners := o1, rsvKube := k1\<rparr>)
                | (Inr project, o1, k1) \<Rightarrow>
                    (case resolveProject sv email project globalRole k1 of
                       (a, k2) \<Rightarrow> (a, r1\<lparr>rsvOwners := o1, rsvKube := k2\<rparr>))))"

definition ResolveProject :: "'k resolve_fun" where
  "ResolveProject sv mo email project r =
     (case global_role sv mo email r of
        (globalRole, r1) \<Rightarrow>
          (case resolveProject sv email project globalRole (rsvKube r1) of
             (a, k1) \<Rightarrow> (a, r1\<lparr>rsvKube := k1\<rparr>)))"

end
