(* ===== verification/Console_Auth.thy ===== *)
theory Console_Auth
  imports Project_Access
begin

text \<open>
  The middleware chain in front of the console API (\<^verbatim>\<open>console-api/middleware\<close>): the keys of Dex and
  their cache (\<open>jwks.go\<close>), the bearer token (\<open>auth.go\<close>), the WebSocket origin (\<open>origin.go\<close>), the
  global role (\<open>roles.go\<close>), the project scopes and the capability check (\<open>projectguard.go\<close>).

  Parameters: the JWT library (\<open>parse\<close>), the answers of Dex to a key request, and the clients of
  \<open>Project_Access\<close>. A middleware answers \<open>Stop\<close> with the status it writes, or \<open>Pass\<close> with the request
  context the next handler gets.
\<close>

subsection \<open>RSA keys\<close>

record jwksKey =
  Kty :: string
  Kid :: string
  keyUse :: string
  keyN :: string
  keyE :: string
  keyAlg :: string

record rsa_key =
  rsaN :: nat
  rsaE :: int

text \<open>
  \<open>base64.RawURLEncoding\<close>: the URL alphabet and no padding; the rest of the decoder is that of the
  padded encoding, with the padding that the length asks for.
\<close>

definition b64_url_char :: "char \<Rightarrow> char" where
  "b64_url_char c = (if c = CHR ''-'' then CHR ''+'' else if c = CHR ''_'' then CHR ''/'' else c)"

definition b64_RawURL_Decode :: "string \<Rightarrow> string option" where
  "b64_RawURL_Decode s0 =
     (let s = filter (\<lambda>c. c \<noteq> CHR 0x0A \<and> c \<noteq> CHR 0x0D) s0 in
      if CHR ''='' \<in> set s \<or> CHR ''+'' \<in> set s \<or> CHR ''/'' \<in> set s \<or> length s mod 4 = 1 then None
      else b64_quads (map b64_url_char s @ replicate ((4 - length s mod 4) mod 4) (CHR ''='')))"

definition SetBytes :: "string \<Rightarrow> nat" where
  "SetBytes b = fold (\<lambda>c n. 256 * n + byte c) b 0"

fun BitLen :: "nat \<Rightarrow> nat" where
  "BitLen n = (if n = 0 then 0 else Suc (BitLen (n div 2)))"

declare BitLen.simps [simp del]

text \<open>The exponent keeps the low 64 bits of the number.\<close>

definition parseRSAPublicKey :: "jwksKey \<Rightarrow> rsa_key option" where
  "parseRSAPublicKey k =
     (case b64_RawURL_Decode (keyN k) of
        None \<Rightarrow> None
      | Some nBytes \<Rightarrow>
          (case b64_RawURL_Decode (keyE k) of
             None \<Rightarrow> None
           | Some eBytes \<Rightarrow>
               let n = SetBytes nBytes; e = wrap64 (int (SetBytes eBytes))
               in if BitLen n < 2048 then None else Some \<lparr>rsaN = n, rsaE = e\<rparr>))"

subsection \<open>The key cache\<close>

text \<open>\<open>jwSent\<close> lists the clock readings at which a request was sent to Dex.\<close>

record jwks =
  jwKeys :: "(string, rsa_key) gomap option"
  jwFetchedAt :: time
  jwNextRefetchAllowedAt :: time
  jwSent :: "time list"

definition new_jwks :: jwks where
  "new_jwks = \<lparr>jwKeys = None, jwFetchedAt = zero_time, jwNextRefetchAllowedAt = zero_time, jwSent = []\<rparr>"

definition cacheTTL :: duration where
  "cacheTTL = 5 * minute"

definition refetchCooldown :: duration where
  "refetchCooldown = 30 * second"

definition refetchFailBackoff :: duration where
  "refetchFailBackoff = 3 * second"

text \<open>
  One call of \<open>refetch\<close>: the clock when it checks the throttle, the answer of Dex (\<open>None\<close> when the
  request fails or its body does not decode; the status of the answer is not looked at) and the
  clock when it stores the keys and when it arms the throttle.
\<close>

record fetch_call =
  fcCheck :: time
  fcAnswer :: "jwksKey list option"
  fcStored :: time
  fcArmed :: time

definition usable_keys :: "jwksKey list \<Rightarrow> (string, rsa_key) gomap" where
  "usable_keys ks =
     fold (\<lambda>k newKeys.
        if Kty k \<noteq> ''RSA'' then newKeys
        else (case parseRSAPublicKey k of None \<Rightarrow> newKeys | Some pub \<Rightarrow> put (Kid k) pub newKeys)) ks []"

definition refetch :: "fetch_call \<Rightarrow> jwks \<Rightarrow> jwks" where
  "refetch f s =
     (if fcCheck f < jwNextRefetchAllowedAt s then s
      else let s1 = s\<lparr>jwSent := jwSent s @ [fcCheck f]\<rparr> in
           case fcAnswer f of
             None \<Rightarrow> s1\<lparr>jwNextRefetchAllowedAt := fcArmed f + refetchFailBackoff\<rparr>
           | Some ks \<Rightarrow> s1\<lparr>jwKeys := Some (usable_keys ks), jwFetchedAt := fcStored f,
                           jwNextRefetchAllowedAt := fcArmed f + refetchCooldown\<rparr>)"

definition known_key :: "jwks \<Rightarrow> string \<Rightarrow> rsa_key option" where
  "known_key s kid = (case jwKeys s of None \<Rightarrow> None | Some m \<Rightarrow> get m kid)"

text \<open>
  The key function, for the method and the key id in a token's header. \<open>now\<close> is its own reading of
  the clock; \<open>f1\<close> and \<open>f2\<close> are the two calls of \<open>refetch\<close> it may make.
\<close>

record key_call =
  kcNow :: time
  kcFirst :: fetch_call
  kcSecond :: fetch_call

definition JWKSKeyFunc :: "key_call \<Rightarrow> string \<Rightarrow> string option \<Rightarrow> jwks \<Rightarrow> rsa_key option \<times> jwks" where
  "JWKSKeyFunc c alg kido s =
     (if alg \<noteq> ''RS256'' then (None, s)
      else let s1 = (if cacheTTL < time_Sub (kcNow c) (jwFetchedAt s) \<or> jwKeys s = None
                     then refetch (kcFirst c) s else s)
           in case kido of
                None \<Rightarrow> (None, s1)
              | Some kid \<Rightarrow>
                  (case known_key s1 kid of
                     Some key \<Rightarrow> (Some key, s1)
                   | None \<Rightarrow>
                       let s2 = refetch (kcSecond c) s1 in (known_key s2 kid, s2)))"

subsection \<open>Bearer tokens\<close>

record auth_claims = RegisteredClaims +
  acEmail :: string
  acEmailVerified :: "bool option"
  acName :: string
  acGroups :: "string list"

definition DefaultAudience :: string where
  "DefaultAudience = ''kipper-console''"

definition CLIAudience :: string where
  "CLIAudience = ''kipper-cli''"

definition EmailUsableForAuth :: "auth_claims \<Rightarrow> bool" where
  "EmailUsableForAuth c \<longleftrightarrow> acEmail c = [] \<or> acEmailVerified c = None \<or> acEmailVerified c = Some True"

record Auth =
  auIssuer :: string
  auAudience :: string

text \<open>
  \<open>jwt.ParseWithClaims\<close> under the options the two callers set: the methods, the issuer, the audiences
  of which one has to match, and a required expiry. It asks the key function with the method and
  the key id of the token.
\<close>

record rs_options =
  roMethods :: "string list"
  roIssuer :: string
  roAudiences :: "string list"

type_synonym key_fun = "string \<Rightarrow> string option \<Rightarrow> jwks \<Rightarrow> rsa_key option \<times> jwks"
type_synonym rs_parser = "rs_options \<Rightarrow> key_fun \<Rightarrow> string \<Rightarrow> jwks \<Rightarrow> auth_claims option \<times> jwks"

definition extractBearerToken :: "string \<Rightarrow> string option" where
  "extractBearerToken header =
     (if header = [] then None
      else case Cut header (CHR '' '') of
             (scheme, rest, found) \<Rightarrow> if \<not> found \<or> \<not> EqualFold scheme ''bearer'' then None else Some rest)"

definition extractAndValidate :: "rs_parser \<Rightarrow> Auth \<Rightarrow> key_call \<Rightarrow> string \<Rightarrow> jwks \<Rightarrow> auth_claims option \<times> jwks" where
  "extractAndValidate parse a c header s =
     (case extractBearerToken header of
        None \<Rightarrow> (None, s)
      | Some raw \<Rightarrow>
          (case parse \<lparr>roMethods = [''RS256''], roIssuer = auIssuer a, roAudiences = [auAudience a, CLIAudience]\<rparr>
                  (JWKSKeyFunc c) raw s of
             (None, s1) \<Rightarrow> (None, s1)
           | (Some claims, s1) \<Rightarrow> if \<not> EmailUsableForAuth claims then (None, s1) else (Some claims, s1)))"

definition ValidateRequest :: "rs_parser \<Rightarrow> Auth \<Rightarrow> key_call \<Rightarrow> string \<Rightarrow> jwks \<Rightarrow> auth_claims option \<times> jwks" where
  "ValidateRequest parse a c header s = extractAndValidate parse a c header s"

definition ValidateIDToken :: "rs_parser \<Rightarrow> Auth \<Rightarrow> key_call \<Rightarrow> string \<Rightarrow> jwks \<Rightarrow> auth_claims option \<times> jwks" where
  "ValidateIDToken parse a c raw s =
     (case parse \<lparr>roMethods = [''RS256''], roIssuer = auIssuer a, roAudiences = [auAudience a]\<rparr> (JWKSKeyFunc c) raw s of
        (None, s1) \<Rightarrow> (None, s1)
      | (Some claims, s1) \<Rightarrow> if \<not> EmailUsableForAuth claims then (None, s1) else (Some claims, s1))"

definition CheckWebSocketOrigin :: "string \<Rightarrow> string \<Rightarrow> bool" where
  "CheckWebSocketOrigin consoleDomain origin =
     (if origin = [] then True
      else if consoleDomain \<noteq> [] then origin = ''https://'' @ consoleDomain
      else False)"

subsection \<open>The chain\<close>

record request_context =
  cxUser :: "auth_claims option"
  cxRole :: string
  cxAccess :: "ProjectAccess option"

definition empty_context :: request_context where
  "empty_context = \<lparr>cxUser = None, cxRole = [], cxAccess = None\<rparr>"

record api_request =
  apiAuthorization :: string
  apiName :: string
  apiQuery :: string

datatype passage = Stop nat | Pass request_context

definition Auth_Handler :: "rs_parser \<Rightarrow> Auth \<Rightarrow> key_call \<Rightarrow> api_request \<Rightarrow> request_context \<Rightarrow> jwks \<Rightarrow> passage \<times> jwks" where
  "Auth_Handler parse a c rq cx s =
     (case extractAndValidate parse a c (apiAuthorization rq) s of
        (None, s1) \<Rightarrow> (Stop 401, s1)
      | (Some claims, s1) \<Rightarrow> (Pass (cx\<lparr>cxUser := Some claims\<rparr>), s1))"

definition RoleMiddleware :: "'k services \<Rightarrow> 'k moment \<Rightarrow> request_context \<Rightarrow> 'k resolver \<Rightarrow> passage \<times> 'k resolver" where
  "RoleMiddleware sv mo cx r =
     (case cxUser cx of
        None \<Rightarrow> (Pass cx, r)
      | Some claims \<Rightarrow>
          (case global_role sv mo (acEmail claims) r of
             (role, r1) \<Rightarrow> if role = [] then (Stop 403, r1) else (Pass (cx\<lparr>cxRole := role\<rparr>), r1)))"

definition RequireRole :: "string list \<Rightarrow> request_context \<Rightarrow> passage" where
  "RequireRole roles cx =
     (let allowed = fold (\<lambda>n m. put n True m) roles [] in
      if get allowed (cxRole cx) \<noteq> Some True then Stop 403 else Pass cx)"

definition scopeBy :: "'k resolve_fun \<Rightarrow> 'k services \<Rightarrow> 'k moment \<Rightarrow> api_request \<Rightarrow> request_context \<Rightarrow> 'k resolver \<Rightarrow> passage \<times> 'k resolver" where
  "scopeBy resolve sv mo rq cx r =
     (case cxUser cx of
        None \<Rightarrow> (Stop 401, r)
      | Some claims \<Rightarrow>
          (case resolve sv mo (acEmail claims) (apiName rq) r of
             (None, r1) \<Rightarrow> (Stop 403, r1)
           | (Some access, r1) \<Rightarrow> (Pass (cx\<lparr>cxAccess := Some access\<rparr>), r1)))"

definition ProjectScope :: "'k services \<Rightarrow> 'k moment \<Rightarrow> api_request \<Rightarrow> request_context \<Rightarrow> 'k resolver \<Rightarrow> passage \<times> 'k resolver" where
  "ProjectScope = scopeBy ResolveProject"

definition NamespaceScope :: "'k services \<Rightarrow> 'k moment \<Rightarrow> api_request \<Rightarrow> request_context \<Rightarrow> 'k resolver \<Rightarrow> passage \<times> 'k resolver" where
  "NamespaceScope = scopeBy Resolve"

text \<open>\<open>URL.Query\<close> skips the pieces of the query that do not parse.\<close>

definition URL_Query :: "string \<Rightarrow> query_values" where
  "URL_Query raw =
     fold (\<lambda>p q. case parse_piece p of Some (Some kv) \<Rightarrow> values_Add kv q | _ \<Rightarrow> q) (split_at (CHR ''&'') raw) []"

definition ProjectScopeQuery :: "'k services \<Rightarrow> 'k moment \<Rightarrow> api_request \<Rightarrow> request_context \<Rightarrow> 'k resolver \<Rightarrow> passage \<times> 'k resolver" where
  "ProjectScopeQuery sv mo rq cx r =
     (case cxUser cx of
        None \<Rightarrow> (Stop 401, r)
      | Some claims \<Rightarrow>
          let namespace = values_Get (URL_Query (apiQuery rq)) ''namespace'' in
          if namespace = [] then (Stop 400, r)
          else (case Resolve sv mo (acEmail claims) namespace r of
                  (None, r1) \<Rightarrow> (Stop 403, r1)
                | (Some access, r1) \<Rightarrow> (Pass (cx\<lparr>cxAccess := Some access\<rparr>), r1)))"

definition RequireCapability :: "string \<Rightarrow> request_context \<Rightarrow> passage" where
  "RequireCapability required cx =
     (case cxAccess cx of
        None \<Rightarrow> Stop 403
      | Some access \<Rightarrow> if \<not> Allows access required then Stop 403 else Pass cx)"

end
