(* ===== verification/Console_Routes.thy ===== *)
theory Console_Routes
  imports Console_Auth
begin

text \<open>
  The routes of \<^verbatim>\<open>console-api/main.go\<close> under \<open>/api/v1\<close> behind the two middlewares every one of them runs
  (\<open>auth.Handler\<close>, \<open>RoleMiddleware\<close>), each with its method, its pattern and what guards its handler.
  The table has the routes of the source in its order; the handlers behind them and the pattern
  matching of the router are not part of it.
\<close>

datatype guard =
    SignedIn
  | AdminOnly
  | DeployerUp
  | ProjectAdmin
  | ProjectCap string
  | NamespaceCap string
  | QueryCap string

record route =
  rtMethod :: string
  rtPath :: string
  rtGuard :: guard

abbreviation (input) Get :: "string \<Rightarrow> guard \<Rightarrow> route" where
  "Get path g \<equiv> \<lparr>rtMethod = ''GET'', rtPath = path, rtGuard = g\<rparr>"

abbreviation (input) Post :: "string \<Rightarrow> guard \<Rightarrow> route" where
  "Post path g \<equiv> \<lparr>rtMethod = ''POST'', rtPath = path, rtGuard = g\<rparr>"

abbreviation (input) Put :: "string \<Rightarrow> guard \<Rightarrow> route" where
  "Put path g \<equiv> \<lparr>rtMethod = ''PUT'', rtPath = path, rtGuard = g\<rparr>"

abbreviation (input) Patch :: "string \<Rightarrow> guard \<Rightarrow> route" where
  "Patch path g \<equiv> \<lparr>rtMethod = ''PATCH'', rtPath = path, rtGuard = g\<rparr>"

abbreviation (input) Delete :: "string \<Rightarrow> guard \<Rightarrow> route" where
  "Delete path g \<equiv> \<lparr>rtMethod = ''DELETE'', rtPath = path, rtGuard = g\<rparr>"

definition routes_platform_services :: "route list" where
  "routes_platform_services = [
     Get ''/cluster/status'' AdminOnly,
     Get ''/nodes'' AdminOnly,
     Get ''/dashboard'' SignedIn,
     Get ''/dashboard/usage-history'' SignedIn,
     Get ''/alerts'' SignedIn,
     Get ''/alerts/unread-count'' SignedIn,
     Post ''/alerts/dismiss'' SignedIn,
     Get ''/platform'' SignedIn,
     Get ''/platform/components'' SignedIn,
     Patch ''/platform/components/{name}'' AdminOnly,
     Get ''/resources/usage'' SignedIn,
     Get ''/resources/usage/summary'' SignedIn,
     Get ''/resources/adjustments'' SignedIn,
     Get ''/routes'' SignedIn,
     Get ''/backups'' AdminOnly,
     Post ''/backups'' AdminOnly,
     Delete ''/backups/{backup}'' AdminOnly,
     Get ''/backups/schedules'' AdminOnly,
     Put ''/backups/schedules/{schedule}'' AdminOnly,
     Post ''/backups/{backup}/restore'' AdminOnly,
     Get ''/jobs'' SignedIn,
     Post ''/jobs'' SignedIn,
     Post ''/jobs/{name}/trigger'' SignedIn,
     Get ''/jobs/{name}/history'' SignedIn,
     Get ''/jobs/{name}/resources'' SignedIn,
     Put ''/jobs/{name}/resources'' SignedIn,
     Post ''/bind'' SignedIn,
     Post ''/unbind'' SignedIn,
     Post ''/link'' SignedIn,
     Post ''/unlink'' SignedIn,
     Get ''/services'' SignedIn,
     Post ''/services'' SignedIn,
     Get ''/service-types'' SignedIn,
     Get ''/services/{name}'' (QueryCap ''kipper.read''),
     Delete ''/services/{name}'' (QueryCap ''kipper.write''),
     Get ''/services/{name}/logs'' (QueryCap ''pods.logs.read''),
     Get ''/services/{name}/resources'' (QueryCap ''workloads.read''),
     Put ''/services/{name}/resources'' (QueryCap ''kipper.write''),
     Get ''/services/{name}/rollout'' (QueryCap ''workloads.read''),
     Post ''/services/{name}/migrate-data'' (QueryCap ''kipper.write''),
     Get ''/services/{name}/migrate-data/status'' (QueryCap ''pods.logs.read''),
     Post ''/services/{name}/shares'' AdminOnly,
     Get ''/services/{name}/shares'' AdminOnly,
     Delete ''/services/{name}/shares/{id}'' AdminOnly,
     Delete ''/shares'' AdminOnly,
     Post ''/shares/rotate-key'' AdminOnly,
     Post ''/sessions/revoke-all'' AdminOnly,
     Post ''/services/{name}/diagnose'' (QueryCap ''kipper.write''),
     Get ''/services/{name}/db/databases'' (QueryCap ''database.read''),
     Get ''/services/{name}/rabbitmq/vhosts'' (QueryCap ''database.read''),
     Get ''/services/{name}/db/schema'' (QueryCap ''database.read''),
     Post ''/services/{name}/db/query'' (QueryCap ''database.write''),
     Get ''/services/{name}/db/tables/{schema}/{table}/rows'' (QueryCap ''database.read''),
     Post ''/services/{name}/db/tables/{schema}/{table}/rows'' (QueryCap ''database.write''),
     Patch ''/services/{name}/db/tables/{schema}/{table}/rows'' (QueryCap ''database.write''),
     Delete ''/services/{name}/db/tables/{schema}/{table}/rows'' (QueryCap ''database.write''),
     Get ''/services/{name}/db/tables/{schema}/{table}/structure'' (QueryCap ''database.read''),
     Post ''/services/{name}/db/tables'' (QueryCap ''database.write''),
     Patch ''/services/{name}/db/tables/{schema}/{table}'' (QueryCap ''database.write''),
     Post ''/services/{name}/db/indexes'' (QueryCap ''database.write''),
     Delete ''/services/{name}/db/indexes/{schema}/{indexName}'' (QueryCap ''database.write''),
     Post ''/services/{name}/db/ddl/preview'' (QueryCap ''database.write''),
     Get ''/services/{name}/db/snippets'' (QueryCap ''database.read''),
     Post ''/services/{name}/db/snippets'' (QueryCap ''database.write''),
     Delete ''/services/{name}/db/snippets/{snippetName}'' (QueryCap ''database.write''),
     Get ''/services/{name}/db/history'' (QueryCap ''database.read''),
     Get ''/project-roles'' SignedIn,
     Get ''/projects'' SignedIn,
     Post ''/projects'' AdminOnly]"

definition routes_projects :: "route list" where
  "routes_projects = [
     Put ''/projects/{name}/'' (ProjectCap ''project.settings''),
     Delete ''/projects/{name}/'' (ProjectCap ''project.delete''),
     Post ''/projects/{name}/environments'' (ProjectCap ''project.settings''),
     Get ''/projects/{name}/copy-preview'' (ProjectCap ''kipper.read''),
     Post ''/projects/{name}/promote'' (ProjectCap ''kipper.write''),
     Get ''/projects/{name}/requests'' (ProjectCap ''project.read''),
     Get ''/projects/{name}/quota'' (ProjectCap ''project.read''),
     Put ''/projects/{name}/quota'' ProjectAdmin,
     Get ''/projects/{name}/link-consent'' (ProjectCap ''project.read''),
     Put ''/projects/{name}/link-consent'' (ProjectCap ''project.settings''),
     Get ''/projects/{name}/members'' (ProjectCap ''members.read''),
     Put ''/projects/{name}/members'' (ProjectCap ''members.manage''),
     Delete ''/projects/{name}/members/{email}'' (ProjectCap ''members.manage'')]"

definition routes_namespace_functions :: "route list" where
  "routes_namespace_functions = [
     Get ''/projects/{name}/usage-plans'' (NamespaceCap ''project.read''),
     Put ''/projects/{name}/usage-plans'' (NamespaceCap ''apikeys.manage''),
     Delete ''/projects/{name}/usage-plans/{plan}'' (NamespaceCap ''apikeys.manage''),
     Get ''/projects/{name}/api-keys'' (NamespaceCap ''project.read''),
     Post ''/projects/{name}/api-keys'' (NamespaceCap ''apikeys.manage''),
     Patch ''/projects/{name}/api-keys/{key}'' (NamespaceCap ''apikeys.manage''),
     Delete ''/projects/{name}/api-keys/{key}'' (NamespaceCap ''apikeys.manage''),
     Get ''/projects/{name}/api-keys/{key}/usage'' (NamespaceCap ''project.read''),
     Get ''/projects/{name}/functions'' (NamespaceCap ''kipper.read''),
     Post ''/projects/{name}/functions'' (NamespaceCap ''kipper.write''),
     Delete ''/projects/{name}/functions/{fn}/'' (NamespaceCap ''kipper.write''),
     Post ''/projects/{name}/functions/{fn}/test'' (NamespaceCap ''kipper.write''),
     Post ''/projects/{name}/functions/{fn}/diagnose'' (NamespaceCap ''pods.logs.read''),
     Get ''/projects/{name}/functions/{fn}/resources'' (NamespaceCap ''kipper.read''),
     Put ''/projects/{name}/functions/{fn}/resources'' (NamespaceCap ''kipper.write''),
     Get ''/projects/{name}/functions/{fn}/settings'' (NamespaceCap ''kipper.read''),
     Put ''/projects/{name}/functions/{fn}/settings'' (NamespaceCap ''kipper.write''),
     Get ''/projects/{name}/functions/{fn}/env'' (NamespaceCap ''env.read''),
     Put ''/projects/{name}/functions/{fn}/env'' (NamespaceCap ''env.write''),
     Get ''/projects/{name}/functions/{fn}/secrets'' (NamespaceCap ''env.read''),
     Put ''/projects/{name}/functions/{fn}/secrets'' (NamespaceCap ''env.write''),
     Get ''/projects/{name}/functions/{fn}/secrets/{key}'' (NamespaceCap ''env.reveal''),
     Delete ''/projects/{name}/functions/{fn}/secrets/{key}'' (NamespaceCap ''env.write''),
     Get ''/projects/{name}/functions/{fn}/dependencies'' (NamespaceCap ''kipper.read''),
     Put ''/projects/{name}/functions/{fn}/dependencies'' (NamespaceCap ''kipper.write''),
     Get ''/projects/{name}/functions/{fn}/bindings'' (NamespaceCap ''kipper.read''),
     Post ''/projects/{name}/jobs/{job}/trigger'' (NamespaceCap ''kipper.write''),
     Get ''/projects/{name}/jobs/{job}/history'' (NamespaceCap ''kipper.read''),
     Get ''/projects/{name}/jobs/{job}/resources'' (NamespaceCap ''kipper.read''),
     Put ''/projects/{name}/jobs/{job}/resources'' (NamespaceCap ''kipper.write''),
     Get ''/projects/{name}/volumes'' (NamespaceCap ''kipper.read''),
     Post ''/projects/{name}/volumes'' (NamespaceCap ''kipper.write''),
     Delete ''/projects/{name}/volumes/{vol}'' (NamespaceCap ''kipper.write''),
     Post ''/projects/{name}/volumes/mount'' (NamespaceCap ''kipper.write''),
     Post ''/projects/{name}/volumes/unmount'' (NamespaceCap ''kipper.write''),
     Post ''/projects/{name}/inline-functions'' (NamespaceCap ''kipper.write''),
     Get ''/projects/{name}/inline-functions/{fn}/code'' (NamespaceCap ''kipper.read''),
     Put ''/projects/{name}/inline-functions/{fn}/code'' (NamespaceCap ''kipper.write''),
     Post ''/projects/{name}/route-groups'' (NamespaceCap ''kipper.write''),
     Put ''/projects/{name}/route-groups'' (NamespaceCap ''kipper.write''),
     Delete ''/projects/{name}/route-groups/{host}'' (NamespaceCap ''kipper.write'')]"

definition routes_namespace_apps :: "route list" where
  "routes_namespace_apps = [
     Get ''/projects/{name}/apps'' (NamespaceCap ''kipper.read''),
     Post ''/projects/{name}/apps'' (NamespaceCap ''kipper.write''),
     Delete ''/projects/{name}/apps/{app}/'' (NamespaceCap ''kipper.write''),
     Post ''/projects/{name}/apps/{app}/restart'' (NamespaceCap ''workloads.restart''),
     Get ''/projects/{name}/apps/{app}/pods'' (NamespaceCap ''workloads.read''),
     Get ''/projects/{name}/apps/{app}/health'' (NamespaceCap ''workloads.read''),
     Put ''/projects/{name}/apps/{app}/image'' (NamespaceCap ''kipper.write''),
     Put ''/projects/{name}/apps/{app}/scale'' (NamespaceCap ''kipper.write''),
     Post ''/projects/{name}/apps/{app}/stop'' (NamespaceCap ''kipper.write''),
     Post ''/projects/{name}/apps/{app}/start'' (NamespaceCap ''kipper.write''),
     Get ''/projects/{name}/apps/{app}/history'' (NamespaceCap ''kipper.read''),
     Post ''/projects/{name}/apps/{app}/rollback'' (NamespaceCap ''kipper.write''),
     Get ''/projects/{name}/apps/{app}/webhook'' (NamespaceCap ''webhook.reveal''),
     Post ''/projects/{name}/apps/{app}/webhook'' (NamespaceCap ''kipper.write''),
     Delete ''/projects/{name}/apps/{app}/webhook'' (NamespaceCap ''kipper.write''),
     Post ''/projects/{name}/apps/{app}/rebuild'' (NamespaceCap ''kipper.write''),
     Get ''/projects/{name}/apps/{app}/build/status'' (NamespaceCap ''workloads.read''),
     Get ''/projects/{name}/apps/{app}/build/logs'' (NamespaceCap ''pods.logs.read''),
     Post ''/projects/{name}/apps/{app}/build/cancel'' (NamespaceCap ''kipper.write''),
     Get ''/projects/{name}/apps/{app}/logs'' (NamespaceCap ''pods.logs.read''),
     Post ''/projects/{name}/apps/{app}/diagnose'' (NamespaceCap ''kipper.write''),
     Post ''/projects/{name}/apps/{app}/optimise'' (NamespaceCap ''kipper.write''),
     Get ''/projects/{name}/apps/{app}/resources'' (NamespaceCap ''kipper.read''),
     Put ''/projects/{name}/apps/{app}/resources'' (NamespaceCap ''kipper.write''),
     Get ''/projects/{name}/apps/{app}/autoscale'' (NamespaceCap ''workloads.read''),
     Get ''/projects/{name}/apps/{app}/activity'' (NamespaceCap ''workloads.read''),
     Put ''/projects/{name}/apps/{app}/autoscale'' (NamespaceCap ''kipper.write''),
     Delete ''/projects/{name}/apps/{app}/autoscale'' (NamespaceCap ''kipper.write''),
     Get ''/projects/{name}/apps/{app}/recommendation'' (NamespaceCap ''kipper.read''),
     Post ''/projects/{name}/apps/{app}/recommendation/dismiss'' (NamespaceCap ''kipper.write''),
     Post ''/projects/{name}/apps/{app}/recommendation/apply'' (NamespaceCap ''kipper.write''),
     Get ''/projects/{name}/apps/{app}/settings'' (NamespaceCap ''kipper.read''),
     Put ''/projects/{name}/apps/{app}/settings'' (NamespaceCap ''kipper.write''),
     Get ''/projects/{name}/apps/{app}/health-check'' (NamespaceCap ''kipper.read''),
     Put ''/projects/{name}/apps/{app}/health-check'' (NamespaceCap ''kipper.write''),
     Get ''/projects/{name}/apps/{app}/route'' (NamespaceCap ''workloads.read''),
     Put ''/projects/{name}/apps/{app}/route'' (NamespaceCap ''kipper.write''),
     Delete ''/projects/{name}/apps/{app}/route'' (NamespaceCap ''kipper.write''),
     Get ''/projects/{name}/apps/{app}/route/dns-status'' (NamespaceCap ''kipper.read''),
     Get ''/projects/{name}/apps/{app}/git'' (NamespaceCap ''kipper.read''),
     Put ''/projects/{name}/apps/{app}/git'' (NamespaceCap ''kipper.write''),
     Delete ''/projects/{name}/apps/{app}/git'' (NamespaceCap ''kipper.write''),
     Post ''/projects/{name}/apps/{app}/git/reveal'' (NamespaceCap ''env.reveal''),
     Get ''/projects/{name}/apps/{app}/links'' (NamespaceCap ''kipper.read''),
     Get ''/projects/{name}/apps/{app}/env'' (NamespaceCap ''env.read''),
     Put ''/projects/{name}/apps/{app}/env'' (NamespaceCap ''env.write''),
     Get ''/projects/{name}/apps/{app}/env/preview'' (NamespaceCap ''env.reveal''),
     Get ''/projects/{name}/apps/{app}/env/status'' (NamespaceCap ''env.read''),
     Get ''/projects/{name}/apps/{app}/env/conflicts'' (NamespaceCap ''env.read''),
     Delete ''/projects/{name}/apps/{app}/env/conflicts'' (NamespaceCap ''env.write''),
     Get ''/projects/{name}/apps/{app}/env/injected'' (NamespaceCap ''env.read''),
     Get ''/projects/{name}/apps/{app}/secrets'' (NamespaceCap ''env.read''),
     Put ''/projects/{name}/apps/{app}/secrets'' (NamespaceCap ''env.write''),
     Get ''/projects/{name}/apps/{app}/secrets/{key}'' (NamespaceCap ''env.reveal''),
     Delete ''/projects/{name}/apps/{app}/secrets/{key}'' (NamespaceCap ''env.write''),
     Get ''/projects/{name}/apps/{app}/files'' (NamespaceCap ''files.read''),
     Get ''/projects/{name}/apps/{app}/files/content'' (NamespaceCap ''files.read''),
     Put ''/projects/{name}/apps/{app}/files/content'' (NamespaceCap ''files.write''),
     Get ''/projects/{name}/apps/{app}/files/download'' (NamespaceCap ''files.read''),
     Post ''/projects/{name}/apps/{app}/files/upload'' (NamespaceCap ''files.write''),
     Get ''/projects/{name}/apps/{app}/basic-auth'' (NamespaceCap ''kipper.read''),
     Put ''/projects/{name}/apps/{app}/basic-auth'' (NamespaceCap ''kipper.write''),
     Delete ''/projects/{name}/apps/{app}/basic-auth'' (NamespaceCap ''kipper.write''),
     Delete ''/projects/{name}/apps/{app}/basic-auth/{username}'' (NamespaceCap ''kipper.write'')]"

definition routes_storage_admin :: "route list" where
  "routes_storage_admin = [
     Get ''/storage/{service}/buckets'' (QueryCap ''storage.read''),
     Post ''/storage/{service}/buckets'' (QueryCap ''storage.write''),
     Get ''/storage/{service}/objects'' (QueryCap ''storage.read''),
     Post ''/storage/{service}/upload'' (QueryCap ''storage.write''),
     Post ''/storage/{service}/folder'' (QueryCap ''storage.write''),
     Get ''/storage/{service}/download'' (QueryCap ''storage.read''),
     Delete ''/storage/{service}/objects'' (QueryCap ''storage.write''),
     Post ''/storage/{service}/share'' (QueryCap ''storage.write''),
     Get ''/storage/{service}/public'' (QueryCap ''storage.read''),
     Put ''/storage/{service}/public'' (QueryCap ''storage.write''),
     Delete ''/storage/{service}/public'' (QueryCap ''storage.write''),
     Post ''/ai/chat'' DeployerUp,
     Post ''/ai/analyse-logs'' SignedIn,
     Post ''/migration/token'' AdminOnly,
     Get ''/migration/notification-status'' AdminOnly,
     Post ''/migration/plan'' AdminOnly,
     Post ''/migration/start'' AdminOnly,
     Get ''/migration/{session}'' AdminOnly,
     Get ''/migration/{session}/progress'' AdminOnly,
     Get ''/migration/{session}/verify'' AdminOnly,
     Get ''/migration/{session}/dns'' AdminOnly,
     Post ''/migration/{session}/cutover'' AdminOnly,
     Post ''/migration/{session}/cancel'' AdminOnly,
     Get ''/me'' SignedIn,
     Post ''/auth/2fa/enroll'' SignedIn,
     Post ''/auth/2fa/confirm'' SignedIn,
     Get ''/auth/2fa/status'' SignedIn,
     Post ''/auth/2fa/reset'' SignedIn,
     Get ''/users/'' AdminOnly,
     Post ''/users/'' AdminOnly,
     Put ''/users/{email}/role'' AdminOnly,
     Put ''/users/{email}/monitoring'' AdminOnly,
     Delete ''/users/{email}/monitoring'' AdminOnly,
     Post ''/users/{email}/reset-password'' AdminOnly,
     Delete ''/users/{email}'' AdminOnly,
     Get ''/settings/mode'' SignedIn,
     Get ''/settings/resource-log'' SignedIn,
     Put ''/settings/mode'' AdminOnly,
     Put ''/settings/appearance'' AdminOnly,
     Get ''/settings/ai'' AdminOnly,
     Put ''/settings/ai'' AdminOnly,
     Get ''/settings/ai/bundle-status'' AdminOnly,
     Get ''/settings/slack'' AdminOnly,
     Put ''/settings/slack'' AdminOnly,
     Get ''/settings/alert-delivery'' AdminOnly,
     Get ''/settings/smtp'' AdminOnly,
     Put ''/settings/smtp'' AdminOnly,
     Post ''/settings/smtp/test'' AdminOnly,
     Get ''/settings/registries'' AdminOnly,
     Get ''/settings/registries/health'' AdminOnly,
     Post ''/settings/registries'' AdminOnly,
     Post ''/settings/registries/{name}/reveal'' AdminOnly,
     Delete ''/settings/registries/*'' AdminOnly,
     Get ''/settings/git-credentials'' AdminOnly,
     Get ''/settings/git-credentials/health'' AdminOnly,
     Post ''/settings/git-credentials'' AdminOnly,
     Post ''/settings/git-credentials/{name}/reveal'' AdminOnly,
     Delete ''/settings/git-credentials/*'' AdminOnly,
     Get ''/settings/auth'' AdminOnly,
     Put ''/settings/auth'' AdminOnly,
     Get ''/invites'' AdminOnly,
     Post ''/invites'' AdminOnly,
     Delete ''/invites/{token}'' AdminOnly]"

definition console_routes :: "route list" where
  "console_routes = routes_platform_services @ routes_projects @ routes_namespace_functions @
     routes_namespace_apps @ routes_storage_admin"

lemmas console_routes_rows = console_routes_def routes_platform_services_def routes_projects_def
  routes_namespace_functions_def routes_namespace_apps_def routes_storage_admin_def

subsection \<open>Running the chain\<close>

definition Role_Deployer :: string where
  "Role_Deployer = ''deployer''"

definition and_then :: "passage \<times> 'r \<Rightarrow> (request_context \<Rightarrow> passage) \<Rightarrow> passage \<times> 'r" where
  "and_then p f = (case p of (Stop n, r) \<Rightarrow> (Stop n, r) | (Pass cx, r) \<Rightarrow> (f cx, r))"

definition run_guard :: "guard \<Rightarrow> 'k services \<Rightarrow> 'k moment \<Rightarrow> api_request \<Rightarrow> request_context \<Rightarrow> 'k resolver \<Rightarrow> passage \<times> 'k resolver" where
  "run_guard g sv mo rq cx r =
     (case g of
        SignedIn \<Rightarrow> (Pass cx, r)
      | AdminOnly \<Rightarrow> (RequireRole [Role_Admin] cx, r)
      | DeployerUp \<Rightarrow> (RequireRole [Role_Admin, Role_Deployer] cx, r)
      | ProjectAdmin \<Rightarrow> and_then (ProjectScope sv mo rq cx r) (RequireRole [Role_Admin])
      | ProjectCap name \<Rightarrow> and_then (ProjectScope sv mo rq cx r) (RequireCapability name)
      | NamespaceCap name \<Rightarrow> and_then (NamespaceScope sv mo rq cx r) (RequireCapability name)
      | QueryCap name \<Rightarrow> and_then (ProjectScopeQuery sv mo rq cx r) (RequireCapability name))"

text \<open>
  A request on a route: the bearer token, the global role, then the guard. The two readings of the
  role store have their own moments.
\<close>

definition serve :: "rs_parser \<Rightarrow> Auth \<Rightarrow> 'k services \<Rightarrow> route \<Rightarrow> key_call \<Rightarrow> 'k moment \<Rightarrow> 'k moment \<Rightarrow> api_request \<Rightarrow>
    jwks \<times> 'k resolver \<Rightarrow> passage \<times> jwks \<times> 'k resolver" where
  "serve parse a sv rt c mo1 mo2 rq w =
     (case w of (ks, r) \<Rightarrow>
        (case Auth_Handler parse a c rq empty_context ks of
           (Stop n, ks1) \<Rightarrow> (Stop n, ks1, r)
         | (Pass cx, ks1) \<Rightarrow>
             (case RoleMiddleware sv mo1 cx r of
                (Stop n, r1) \<Rightarrow> (Stop n, ks1, r1)
              | (Pass cx1, r1) \<Rightarrow>
                  (case run_guard (rtGuard rt) sv mo2 rq cx1 r1 of (p, r2) \<Rightarrow> (p, ks1, r2)))))"

end
