(* ===== verification/User_Roles_Properties.thy ===== *)
theory User_Roles_Properties
  imports User_Roles
begin

text \<open>
  What the role store promises: a monitoring decision rests on a recent read of the ConfigMap, the
  writes of roles and grants do what they say and nothing else, and a merge never overrides a live
  user.
\<close>

subsection \<open>A coding\<close>

text \<open>
  A coding of lines, which shows that the laws of \<open>json_faithful\<close> can hold; the examples run on it.
\<close>

definition nl :: char where
  "nl = CHR 0x0A"

definition lines_of :: "string list \<Rightarrow> string" where
  "lines_of l = concat (map (\<lambda>s. s @ [nl]) l)"

definition parse_lines :: "string \<Rightarrow> string list option" where
  "parse_lines s = (let ls = split_at nl s in if last ls = [] then Some (butlast ls) else None)"

fun pair_up :: "string list \<Rightarrow> (string \<times> string) list option" where
  "pair_up [] = Some []"
| "pair_up [_] = None"
| "pair_up (k # v # r) = map_option ((#) (k, v)) (pair_up r)"

definition line_json :: json where
  "line_json =
     \<lparr>jText = (\<lambda>s. nl \<notin> set s),
      jMapOf = (\<lambda>raw. if raw = ''null'' then Some None
                  else (case raw of
                          [] \<Rightarrow> None
                        | c # r \<Rightarrow> if c \<noteq> CHR ''{'' then None
                                   else (case Option.bind (parse_lines r) pair_up of
                                           None \<Rightarrow> None
                                         | Some kvs \<Rightarrow> Some (Some (fold (\<lambda>(k, v) m. put k v m) kvs []))))),
      jMap = (\<lambda>m. CHR ''{'' # lines_of (concat (map (\<lambda>(k, v). [k, v]) m))),
      jListOf = parse_lines,
      jList = lines_of\<rparr>"

lemma parse_lines_of: "list_all (\<lambda>s. nl \<notin> set s) l \<Longrightarrow> parse_lines (lines_of l) = Some l"
proof -
  have "split_at nl (lines_of l) = l @ [[]]" if "list_all (\<lambda>s. nl \<notin> set s) l"
    using that by (induction l) (simp_all add: lines_of_def split_at_append)
  then show "list_all (\<lambda>s. nl \<notin> set s) l \<Longrightarrow> parse_lines (lines_of l) = Some l"
    by (simp add: parse_lines_def)
qed

lemma split_at_pieces: "w \<in> set (split_at c s) \<Longrightarrow> c \<notin> set w"
  by (induction s arbitrary: w) (auto split: if_splits list.splits)

lemma parse_lines_text: "parse_lines s = Some l \<Longrightarrow> list_all (\<lambda>s. nl \<notin> set s) l"
  by (auto simp: parse_lines_def Let_def list_all_iff split: if_splits dest!: in_set_butlastD split_at_pieces)

lemma pair_up_concat: "pair_up (concat (map (\<lambda>(k, v). [k, v]) m)) = Some m"
  by (induction m) auto

lemma pair_up_text: "pair_up ls = Some kvs \<Longrightarrow> list_all P ls \<Longrightarrow> list_all (\<lambda>(k, v). P k \<and> P v) kvs"
  by (induction ls arbitrary: kvs rule: pair_up.induct) auto

lemma fold_put_values:
  "list_all P kvs \<Longrightarrow> list_all P m \<Longrightarrow> list_all P (fold (\<lambda>(k, v) m. put k v m) kvs m)"
proof (induction kvs arbitrary: m)
  case (Cons kv kvs)
  have "set (put k v m) \<subseteq> insert (k, v) (set m)" for k v
    by (induction m) auto
  then have "list_all P (case kv of (k, v) \<Rightarrow> put k v m)"
    using Cons.prems by (cases kv) (auto simp: list_all_iff)
  then show ?case
    using Cons by (simp add: split_def)
qed simp

lemma line_json_faithful: "json_faithful line_json"
  unfolding json_faithful_def
proof (intro conjI allI impI)
  fix m assume m: "text_map line_json m"
  show "jMap line_json m \<noteq> []"
    by (simp add: line_json_def)
  have "list_all (\<lambda>s. nl \<notin> set s) (concat (map (\<lambda>(k, v). [k, v]) m))"
    using m by (auto simp: text_map_def line_json_def list_all_iff)
  then have "parse_lines (lines_of (concat (map (\<lambda>(k, v). [k, v]) m))) = Some (concat (map (\<lambda>(k, v). [k, v]) m))"
    by (rule parse_lines_of)
  moreover have "map_of (fold (\<lambda>(k, v) m. put k v m) m []) = map_of m"
    using m by (auto simp: text_map_def get_fold_put split: option.splits)
  ultimately show "\<exists>m'. jMapOf line_json (jMap line_json m) = Some (Some m') \<and> map_of m' = map_of m"
    by (simp add: line_json_def pair_up_concat)
next
  fix raw m assume "jMapOf line_json raw = Some (Some m)"
  then obtain r ls kvs where r: "parse_lines r = Some ls" "pair_up ls = Some kvs"
    and m: "m = fold (\<lambda>(k, v) m. put k v m) kvs []"
    by (auto simp: line_json_def bind_eq_Some_conv split: if_splits list.splits option.splits)
  have "list_all (\<lambda>(k, v). nl \<notin> set k \<and> nl \<notin> set v) kvs"
    using pair_up_text [OF r(2) parse_lines_text [OF r(1)]] .
  then show "text_map line_json m"
    by (simp add: text_map_def m distinct_fold_put distinct_keys_def [of "[]"] fold_put_values line_json_def)
qed (simp_all add: line_json_def parse_lines_of parse_lines_text)

subsection \<open>Reading roles and grants\<close>

lemma json_faithfulD:
  assumes "json_faithful j"
  shows "text_map j m \<Longrightarrow> jMap j m \<noteq> []"
    and "text_map j m \<Longrightarrow> \<exists>m'. jMapOf j (jMap j m) = Some (Some m') \<and> map_of m' = map_of m"
    and "jMapOf j raw = Some (Some m) \<Longrightarrow> text_map j m"
    and "jMapOf j ''null'' = Some None" and "jMapOf j [] = None"
    and "list_all (jText j) l \<Longrightarrow> jListOf j (jList j l) = Some l"
    and "jListOf j raw = Some l \<Longrightarrow> list_all (jText j) l"
  using assms unfolding json_faithful_def by blast+

text \<open>What the stored data say of a user.\<close>

definition role_in :: "json \<Rightarrow> cmdata \<Rightarrow> string \<Rightarrow> string" where
  "role_in j data email = (case grants_roles j data of Inl _ \<Rightarrow> [] | Inr m \<Rightarrow> role_at m email)"

definition granted_in :: "json \<Rightarrow> cmdata \<Rightarrow> string \<Rightarrow> bool" where
  "granted_in j data email = (case Monitoring j data of Inl _ \<Rightarrow> False | Inr g \<Rightarrow> get g email = Some True)"

definition may_monitor :: "json \<Rightarrow> cmdata \<Rightarrow> string \<Rightarrow> bool" where
  "may_monitor j data email \<longleftrightarrow>
     role_in j data email = Role_Admin \<or> role_in j data email \<noteq> [] \<and> granted_in j data email"

text \<open>The reads of the ConfigMap that reach the store, with the clock reading it keeps.\<close>

definition reads_of :: "'k client \<Rightarrow> time \<Rightarrow> time \<Rightarrow> RoleStore \<times> 'k \<Rightarrow> (time \<times> cmdata) list" where
  "reads_of api t1 t2 sk =
     (case sk of (s, k) \<Rightarrow>
        if time_Sub t1 (rsLastFetch s) < rsCacheTTL s then []
        else (case cGet api roleConfigMapName k of (Inl _, _) \<Rightarrow> [] | (Inr cm, _) \<Rightarrow> [(t2, secData cm)]))"

text \<open>
  The life of a store: it starts empty, is refreshed at any time, and a write invalidates it. The
  cluster changes underneath as it likes. \<open>log\<close> holds the reads so far.
\<close>

inductive role_run :: "json \<Rightarrow> 'k client \<Rightarrow> RoleStore \<times> 'k \<Rightarrow> (time \<times> cmdata) list \<Rightarrow> bool" for j api where
  run_new: "role_run j api (NewRoleStore, k) []"
| run_refresh: "role_run j api (s, k) log \<Longrightarrow> role_run j api (refresh j api t1 t2 (s, k)) (log @ reads_of api t1 t2 (s, k))"
| run_world: "role_run j api (s, k) log \<Longrightarrow> role_run j api (s, k') log"
| run_write: "role_run j api (s, k) log \<Longrightarrow> role_run j api (invalidateCache s, k') log"

definition store_shows :: "json \<Rightarrow> RoleStore \<Rightarrow> cmdata \<Rightarrow> bool" where
  "store_shows j s data \<longleftrightarrow>
     (\<forall>email. role_at (rsRoles s) email = role_in j data email) \<and>
     (\<forall>email. rsMonitoringValid s \<longrightarrow> (get (rsMonitoring s) email = Some True \<longleftrightarrow> granted_in j data email))"

lemma store_users_cases:
  assumes j: "json_faithful j"
  shows "store_users j data t2 s = s \<or>
   rsLastFetch (store_users j data t2 s) = t2 \<and> store_shows j (store_users j data t2 s) data"
proof (cases "get data UsersKey")
  case raw: (Some raw)
  show ?thesis
  proof (cases "jMapOf j raw")
    case m: (Some m)
    have "raw \<noteq> []" using m json_faithfulD(5) [OF j] by auto
    then have "role_at (case m of None \<Rightarrow> [] | Some m \<Rightarrow> m) email = role_in j data email" for email
      using raw m by (auto simp: role_in_def grants_roles_def role_at_def split: option.splits)
    then show ?thesis
      using raw m by (auto simp: store_users_def store_shows_def granted_in_def split: option.splits sum.splits)
  qed (simp add: store_users_def raw)
qed (simp add: store_users_def)

lemma refresh_cases:
  assumes "json_faithful j" and "refresh j api t1 t2 (s, k) = (s', k')"
  shows "s' = s \<or> (\<exists>data. reads_of api t1 t2 (s, k) = [(t2, data)] \<and> rsLastFetch s' = t2 \<and> store_shows j s' data)"
proof (cases "time_Sub t1 (rsLastFetch s) < rsCacheTTL s")
  case False
  obtain r k1 where g: "cGet api roleConfigMapName k = (r, k1)" by (cases "cGet api roleConfigMapName k")
  show ?thesis
  proof (cases r)
    case (Inr cm)
    then have "s' = store_users j (secData cm) t2 s" "reads_of api t1 t2 (s, k) = [(t2, secData cm)]"
      using assms(2) False g by (auto simp: refresh_def reads_of_def)
    then show ?thesis using store_users_cases [OF assms(1)] by metis
  qed (use assms(2) False g in \<open>simp add: refresh_def\<close>)
qed (use assms(2) in \<open>simp add: refresh_def\<close>)

lemma role_run_shows:
  assumes "role_run j api sk log" and "json_faithful j"
  shows "rsLastFetch (fst sk) = zero_time \<or> (\<exists>data. (rsLastFetch (fst sk), data) \<in> set log \<and> store_shows j (fst sk) data)"
  using assms
proof (induction rule: role_run.induct)
  case (run_refresh s k log t1 t2)
  obtain s' k' where r: "refresh j api t1 t2 (s, k) = (s', k')" by (cases "refresh j api t1 t2 (s, k)")
  show ?case
    using refresh_cases [OF run_refresh.prems r] run_refresh.IH [OF run_refresh.prems] r by auto
qed (simp_all add: NewRoleStore_def invalidateCache_def)

text \<open>The operations of the store are steps of its life.\<close>

lemma role_run_ops:
  assumes "role_run j api (s, k) log"
  shows "\<exists>log'. role_run j api (snd (GetRole j api t0 t1 t2 email (s, k))) log'"
    and "role_run j api (snd (MonitoringAccess j api t1 t2 t3 email (s, k))) (log @ reads_of api t1 t2 (s, k))"
    and "role_run j api (snd (MonitoringHolders j api t1 t2 (s, k))) (log @ reads_of api t1 t2 (s, k))"
    and "role_run j api (snd (ListUsers j api t1 t2 (s, k))) (log @ reads_of api t1 t2 (s, k))"
    and "role_run j api (snd (updateUsers retry j api mutate (s, k))) log"
    and "role_run j api (snd (store_SetMonitoring retry j api email granted (s, k))) log"
proof -
  note again = run_refresh [OF assms, of t1 t2]
  show "\<exists>log'. role_run j api (snd (GetRole j api t0 t1 t2 email (s, k))) log'"
    using again assms by (cases "refresh j api t1 t2 (s, k)") (auto simp: GetRole_def)
  show "role_run j api (snd (MonitoringAccess j api t1 t2 t3 email (s, k))) (log @ reads_of api t1 t2 (s, k))"
    using again by (cases "refresh j api t1 t2 (s, k)") (simp add: MonitoringAccess_def)
  show "role_run j api (snd (MonitoringHolders j api t1 t2 (s, k))) (log @ reads_of api t1 t2 (s, k))"
    using again by (cases "refresh j api t1 t2 (s, k)") (simp add: MonitoringHolders_def)
  show "role_run j api (snd (ListUsers j api t1 t2 (s, k))) (log @ reads_of api t1 t2 (s, k))"
    using again by (cases "refresh j api t1 t2 (s, k)") (simp add: ListUsers_def)
  show "role_run j api (snd (updateUsers retry j api mutate (s, k))) log"
    using run_write [OF assms] by (simp add: updateUsers_def split: prod.splits)
  show "role_run j api (snd (store_SetMonitoring retry j api email granted (s, k))) log"
    using run_write [OF assms] by (simp add: store_SetMonitoring_def split: prod.splits)
qed

lemma trust_age: "time_Sub t l \<le> monitoringTrustAge \<longleftrightarrow> t - l \<le> 60 * second"
  by (simp add: monitoringTrustAge_def time_Sub_le min_duration_def max_duration_def second_def)

text \<open>
  C26. Over the whole life of a role store, with refreshes, failed reads and writes in any order,
  monitoring is allowed only on the strength of one read of the ConfigMap at most 60 seconds before
  the decision: that read shows the caller as an admin, or with a role and a grant, and the role
  answered is the one it shows.
\<close>

theorem monitoring_rests_on_recent_read:
  assumes "json_faithful j" and "role_run j api (s, k) log"
    and "MonitoringAccess j api t1 t2 t3 email (s, k) = ((role, True), s', k')"
  shows "\<exists>(t, data) \<in> set (log @ reads_of api t1 t2 (s, k)).
           t3 - t \<le> 60 * second \<and> role = role_in j data email \<and> may_monitor j data email"
proof -
  obtain s1 k1 where r: "refresh j api t1 t2 (s, k) = (s1, k1)" by (cases "refresh j api t1 t2 (s, k)")
  have run: "role_run j api (s1, k1) (log @ reads_of api t1 t2 (s, k))"
    using run_refresh [OF assms(2), of t1 t2] r by simp
  have a: "rsLastFetch s1 \<noteq> zero_time" "t3 - rsLastFetch s1 \<le> 60 * second" "rsMonitoringValid s1"
    "role = role_at (rsRoles s1) email"
    "role = Role_Admin \<or> role \<noteq> [] \<and> get (rsMonitoring s1) email = Some True"
    using assms(3) r by (auto simp: MonitoringAccess_def Let_def not_less trust_age split: if_splits)
  then obtain data where d: "(rsLastFetch s1, data) \<in> set (log @ reads_of api t1 t2 (s, k))" "store_shows j s1 data"
    using role_run_shows [OF run assms(1)] by auto
  then have "role = role_in j data email" "may_monitor j data email"
    using a by (auto simp: store_shows_def may_monitor_def)
  then show ?thesis using d(1) a(2) by (intro bexI [of _ "(rsLastFetch s1, data)"]) simp_all
qed

definition demo_users :: table where
  "demo_users = [(roleConfigMapName, \<lparr>secName = roleConfigMapName, secLabels = [],
     secData = [(UsersKey, jMap line_json [(''ann'', ''viewer''), (''bob'', ''admin'')]), (MonitoringKey, jList line_json [''ann''])]\<rparr>)]"

theorem monitoring_rests_on_recent_read_witness:
  "fst (MonitoringAccess line_json table_client (100 * second) (101 * second) (102 * second) ''ann'' (NewRoleStore, demo_users)) =
     (''viewer'', True) \<and>
   (\<exists>(t, data) \<in> set (reads_of table_client (100 * second) (101 * second) (NewRoleStore, demo_users)).
      102 * second - t \<le> 60 * second \<and> ''viewer'' = role_in line_json data ''ann'' \<and> may_monitor line_json data ''ann'')"
proof -
  obtain s' k' where m: "MonitoringAccess line_json table_client (100 * second) (101 * second) (102 * second) ''ann'' (NewRoleStore, demo_users)
      = ((''viewer'', True), s', k')"
  proof -
    have "fst (MonitoringAccess line_json table_client (100 * second) (101 * second) (102 * second) ''ann'' (NewRoleStore, demo_users))
      = (''viewer'', True)" by code_simp
    then show ?thesis using that by (metis prod.collapse)
  qed
  show ?thesis
    using monitoring_rests_on_recent_read [OF line_json_faithful run_new m] m by simp
qed

subsection \<open>Writing roles and grants\<close>

lemma keys_distinct [simp]: "UsersKey \<noteq> MonitoringKey" "MonitoringKey \<noteq> UsersKey"
  by (simp_all add: UsersKey_def MonitoringKey_def)

lemma Monitoring_flags:
  assumes "json_faithful j" and "Monitoring j data = Inr g"
  shows "get g e = Some True \<longleftrightarrow> e \<in> set (keys g)" and "e \<in> set (keys g) \<Longrightarrow> jText j e" and "distinct_keys g"
proof -
  obtain l where l: "g = fold (\<lambda>e m. put e True m) l []" "list_all (jText j) l"
  proof (cases "get data MonitoringKey")
    case None
    then show ?thesis using assms(2) that [of "[]"] by (simp add: Monitoring_def)
  next
    case (Some raw)
    then show ?thesis
      using assms(2) that json_faithfulD(7) [OF assms(1)] by (auto simp: Monitoring_def split: option.splits)
  qed
  have "set (keys g) = set l"
    using keys_fold_put_True [of l "[]"] by (simp add: l(1))
  then show "get g e = Some True \<longleftrightarrow> e \<in> set (keys g)" and "e \<in> set (keys g) \<Longrightarrow> jText j e"
    using l(2) by (simp_all add: l(1) get_fold_put_True list_all_iff)
  show "distinct_keys g"
    by (simp add: l(1) distinct_fold_put_True distinct_keys_def [of "[]"])
qed

lemma granted_in_written:
  assumes "json_faithful j" and "\<forall>e \<in> set (keys g). jText j e"
  shows "granted_in j (put MonitoringKey (jList j (sortedEmails g)) data) e \<longleftrightarrow> e \<in> set (keys g)"
proof -
  have "jListOf j (jList j (sortedEmails g)) = Some (sortedEmails g)"
    using assms by (intro json_faithfulD(6)) (auto simp: sortedEmails_def list_all_iff)
  then show ?thesis
    by (simp add: granted_in_def Monitoring_def update_conv' get_fold_put_True sortedEmails_def)
qed

lemma role_in_put_monitoring [simp]: "role_in j (put MonitoringKey v data) = role_in j data"
  by (auto simp: role_in_def grants_roles_def update_conv')

lemma granted_in_put_users [simp]: "granted_in j (put UsersKey v data) = granted_in j data"
  by (auto simp: granted_in_def Monitoring_def update_conv')

lemma stored_roles_put_monitoring [simp]: "stored_roles j (put MonitoringKey v data) = stored_roles j data"
  by (simp add: stored_roles_def update_conv')

lemma del_keys: "set (keys (del e g)) = set (keys g) - {e}"
  by (simp add: AList.delete_keys)

lemma unset_monitoring:
  assumes "json_faithful j"
  shows "granted_in j (snd (grants_SetMonitoring j data email False)) e \<longleftrightarrow> granted_in j data e \<and> e \<noteq> email"
    and "role_in j (snd (grants_SetMonitoring j data email False)) = role_in j data"
proof -
  show "granted_in j (snd (grants_SetMonitoring j data email False)) e \<longleftrightarrow> granted_in j data e \<and> e \<noteq> email"
  proof (cases "Monitoring j data")
    case (Inr g)
    have "granted_in j (put MonitoringKey (jList j (sortedEmails (del email g))) data) e \<longleftrightarrow> e \<in> set (keys (del email g))"
      using Monitoring_flags(2) [OF assms Inr] by (intro granted_in_written [OF assms]) (simp only: del_keys, blast)
    then show ?thesis
      using Inr Monitoring_flags(1) [OF assms Inr, of e]
      by (simp add: grants_SetMonitoring_def granted_in_def [of j data] del_keys del: set_map)
  qed (simp add: grants_SetMonitoring_def granted_in_def)
  show "role_in j (snd (grants_SetMonitoring j data email False)) = role_in j data"
    by (auto simp: grants_SetMonitoring_def split: sum.splits)
qed

lemma role_in_stored: "stored_roles j data = Some m \<Longrightarrow> role_in j data e = role_at (case m of None \<Rightarrow> [] | Some m \<Rightarrow> m) e"
  by (auto simp: stored_roles_def role_in_def grants_roles_def split: option.splits if_splits)

lemma stored_roles_text: "json_faithful j \<Longrightarrow> stored_roles j data = Some (Some m) \<Longrightarrow> text_map j m"
  using json_faithfulD(3) by (auto simp: stored_roles_def text_map_def distinct_keys_def split: option.splits if_splits)

lemma role_in_written:
  assumes "json_faithful j" and "\<And>r. m = Some r \<Longrightarrow> text_map j r"
  shows "role_in j (put UsersKey (users_JSON j m) data) e = role_at (case m of None \<Rightarrow> [] | Some m \<Rightarrow> m) e"
proof (cases m)
  case None
  then show ?thesis
    using json_faithfulD(4) [OF assms(1)] by (simp add: role_in_def grants_roles_def update_conv' users_JSON_def role_at_def)
next
  case (Some r)
  then obtain r' where "jMapOf j (jMap j r) = Some (Some r')" "map_of r' = map_of r" "jMap j r \<noteq> []"
    using assms json_faithfulD(1,2) by blast
  then show ?thesis
    using Some by (simp add: role_in_def grants_roles_def update_conv' users_JSON_def role_at_def)
qed

text \<open>The data that a successful write of the users replaced, and what it stored.\<close>

definition replaced :: "'k client \<Rightarrow> cmdata \<Rightarrow> bool" where
  "replaced api old \<longleftrightarrow>
     (\<exists>k k'. cGet api roleConfigMapName k = (Inl NotFound, k') \<and> old = []) \<or>
     (\<exists>k k' cm. cGet api roleConfigMapName k = (Inr cm, k') \<and> old = secData cm)"

lemma users_attempt_ok:
  assumes laws: "reads_stored api st" "creates_once api st" "updates_stored api st"
    and "users_attempt j api mutate k = (Inr (), k')"
  obtains old m m' data cm where "replaced api old" and "stored_roles j old = Some m"
    and "mutate m old = Some (m', data)" and "st k' roleConfigMapName = Some cm"
    and "secData cm = put UsersKey (users_JSON j m') data"
proof -
  obtain r k1 where g: "cGet api roleConfigMapName k = (r, k1)" by (cases "cGet api roleConfigMapName k")
  have "r = Inl NotFound \<or> (\<exists>cm. r = Inr cm)"
    using assms(4) g by (cases r) (auto simp: users_attempt_def Let_def split: kerror.splits)
  then show thesis
  proof
    assume r: "r = Inl NotFound"
    then obtain m m' data where w: "stored_roles j [] = Some m" "mutate m [] = Some (m', data)"
      "cCreate api (new_users_map\<lparr>secData := put UsersKey (users_JSON j m') data\<rparr>) k1 = (Inr (), k')"
      using assms(4) g by (auto simp: users_attempt_def Let_def new_users_map_def split: option.splits prod.splits)
    then have "st k' roleConfigMapName = Some (new_users_map\<lparr>secData := put UsersKey (users_JSON j m') data\<rparr>)"
      using creates_onceD(2) [OF laws(2) w(3)] by (simp add: new_users_map_def)
    moreover have "replaced api []" using r g by (auto simp: replaced_def)
    ultimately show thesis
      using that [OF _ w(1,2)] by simp
  next
    assume "\<exists>cm. r = Inr cm"
    then obtain cm where r: "r = Inr cm" ..
    then obtain m m' data where w: "stored_roles j (secData cm) = Some m" "mutate m (secData cm) = Some (m', data)"
      "cUpdate api (cm\<lparr>secData := put UsersKey (users_JSON j m') data\<rparr>) k1 = (Inr (), k')"
      using assms(4) g by (auto simp: users_attempt_def Let_def split: option.splits prod.splits)
    then have "st k' roleConfigMapName = Some (cm\<lparr>secData := put UsersKey (users_JSON j m') data\<rparr>)"
      using updates_storedD [OF laws(3) w(3)] reads_storedD(3) [OF laws(1)] g r by simp
    moreover have "replaced api (secData cm)" using r g unfolding replaced_def by blast
    ultimately show thesis
      using that [OF _ w(1,2)] by simp
  qed
qed

lemma text_map_put: "text_map j m \<Longrightarrow> jText j k \<Longrightarrow> jText j v \<Longrightarrow> text_map j (put k v m)"
proof -
  have "set (put k v m) \<subseteq> insert (k, v) (set m)" by (induction m) auto
  then show "text_map j m \<Longrightarrow> jText j k \<Longrightarrow> jText j v \<Longrightarrow> text_map j (put k v m)"
    by (auto simp: text_map_def distinct_keys_def distinct_update list_all_iff)
qed

lemma text_map_del: "text_map j m \<Longrightarrow> text_map j (del k m)"
proof -
  have "set (del k m) \<subseteq> set m" by (auto simp: AList.delete_eq)
  then show "text_map j m \<Longrightarrow> text_map j (del k m)"
    by (auto simp: text_map_def distinct_keys_def distinct_delete list_all_iff)
qed

lemma role_at_put: "role_at (put k v m) e = (if e = k then v else role_at m e)"
  by (simp add: role_at_def update_conv')

lemma role_at_del: "role_at (del k m) e = (if e = k then [] else role_at m e)"
  by (simp add: role_at_def delete_conv')

definition readable :: "json \<Rightarrow> cmdata \<Rightarrow> bool" where
  "readable j data \<longleftrightarrow> (case get data UsersKey of None \<Rightarrow> False | Some raw \<Rightarrow> raw \<noteq> [] \<and> jMapOf j raw \<noteq> None)"

lemma readable_written:
  assumes "json_faithful j" and "\<And>r. m = Some r \<Longrightarrow> text_map j r"
  shows "readable j (put UsersKey (users_JSON j m) data)"
  using assms json_faithfulD(1,2,4) [OF assms(1)]
  by (cases m) (fastforce simp: readable_def update_conv' users_JSON_def)+

lemma RemoveUser_stores:
  assumes j: "json_faithful j" and retry: "runs_attempts retry"
    and laws: "reads_stored api st" "creates_once api st" "updates_stored api st"
    and "RemoveUser retry j api email (s, k) = (Inr (), s', k')"
  obtains old cm where "replaced api old" and "st k' roleConfigMapName = Some cm" and "s' = invalidateCache s"
    and "readable j (secData cm)"
    and "\<And>e. role_in j (secData cm) e = (if e = email then [] else role_in j old e)"
    and "\<And>e. granted_in j (secData cm) e \<longleftrightarrow> granted_in j old e \<and> e \<noteq> email"
proof -
  have "retry (users_attempt j api (remove_user_mutation j email)) k = (Inr (), k')" and s': "s' = invalidateCache s"
    using assms(6) by (auto simp: RemoveUser_def updateUsers_def split: prod.splits)
  then obtain k1 where "users_attempt j api (remove_user_mutation j email) k1 = (Inr (), k')"
    using runs_attemptsE [OF retry] by metis
  then obtain old m m' data cm where w: "replaced api old" "stored_roles j old = Some m"
      "remove_user_mutation j email m old = Some (m', data)" "st k' roleConfigMapName = Some cm"
      "secData cm = put UsersKey (users_JSON j m') data"
    by (rule users_attempt_ok [OF laws])
  then have m': "m' = map_option (del email) m" and data: "data = snd (grants_SetMonitoring j old email False)"
    by (simp_all add: remove_user_mutation_def)
  have texts: "text_map j r" if "m' = Some r" for r
    using that m' w(2) stored_roles_text [OF j] text_map_del by (cases m) auto
  have "role_in j (secData cm) e = (if e = email then [] else role_in j old e)" for e
    using role_in_written [OF j texts, of m' data e] role_in_stored [OF w(2), of e]
    by (cases m) (simp_all add: w(5) m' role_at_del, simp add: role_at_def)
  moreover have "granted_in j (secData cm) e \<longleftrightarrow> granted_in j old e \<and> e \<noteq> email" for e
    by (simp add: w(5) data unset_monitoring(1) [OF j])
  moreover have "readable j (secData cm)"
    using readable_written [OF j texts] by (simp add: w(5))
  ultimately show thesis using that w(1,4) s' by blast
qed

lemma SetRole_stores:
  assumes j: "json_faithful j" and retry: "runs_attempts retry"
    and laws: "reads_stored api st" "creates_once api st" "updates_stored api st"
    and "SetRole retry j api email role (s, k) = (Inr (), s', k')" and texts: "jText j email" "jText j role"
  obtains old m cm where "replaced api old" and "st k' roleConfigMapName = Some cm" and "s' = invalidateCache s"
    and "readable j (secData cm)"
    and "stored_roles j old = Some (Some m)"
    and "\<And>e. role_in j (secData cm) e = (if e = email then role else role_in j old e)"
    and "\<And>e. granted_in j (secData cm) e \<longleftrightarrow> granted_in j old e \<and> (e = email \<longrightarrow> get m email \<noteq> None)"
proof -
  have "retry (users_attempt j api (set_role_mutation j email role)) k = (Inr (), k')" and s': "s' = invalidateCache s"
    using assms(6) by (auto simp: SetRole_def updateUsers_def split: prod.splits)
  then obtain k1 where "users_attempt j api (set_role_mutation j email role) k1 = (Inr (), k')"
    using runs_attemptsE [OF retry] by metis
  then obtain old mo m' data cm where w: "replaced api old" "stored_roles j old = Some mo"
      "set_role_mutation j email role mo old = Some (m', data)" "st k' roleConfigMapName = Some cm"
      "secData cm = put UsersKey (users_JSON j m') data"
    by (rule users_attempt_ok [OF laws])
  then obtain m where m: "mo = Some m" "m' = Some (put email role m)"
    and data: "data = (if get m email \<noteq> None then old else snd (grants_SetMonitoring j old email False))"
    by (cases mo) (auto simp: set_role_mutation_def Let_def)
  have new: "text_map j (put email role m)"
    using stored_roles_text [OF j] w(2) m(1) texts by (simp add: text_map_put)
  then have "role_in j (secData cm) e = role_at (put email role m) e" for e
    using role_in_written [OF j, of m' data e] by (simp add: w(5) m(2))
  then have "role_in j (secData cm) e = (if e = email then role else role_in j old e)" for e
    using role_in_stored [OF w(2), of e] by (simp add: m(1) role_at_put)
  moreover have "granted_in j (secData cm) e \<longleftrightarrow> granted_in j old e \<and> (e = email \<longrightarrow> get m email \<noteq> None)" for e
    using unset_monitoring(1) [OF j, of old email e] by (auto simp: w(5) data)
  moreover have "readable j (secData cm)"
    using readable_written [OF j, of m' data] new by (simp add: w(5) m(2))
  ultimately show thesis using that w(1,2,4) m(1) s' by blast
qed

lemma GetRole_after_write:
  assumes j: "json_faithful j" and "rsCacheTTL s = 30 * second" and "30 * second \<le> at0" and "30 * second \<le> at1"
    and "cGet api roleConfigMapName k = (Inr cm, k')" and "readable j (secData cm)"
  shows "fst (GetRole j api at0 at1 at2 email (invalidateCache s, k)) = role_in j (secData cm) email"
proof -
  have stale: "\<not> time_Sub t 0 < 30 * second" if "30 * second \<le> t" for t
    using that time_Sub_lt [of "30 * second" t 0] by (simp add: second_def min_duration_def max_duration_def)
  obtain raw m where raw: "get (secData cm) UsersKey = Some raw" "raw \<noteq> []" "jMapOf j raw = Some m"
    using assms(6) by (auto simp: readable_def split: option.splits)
  then have "stored_roles j (secData cm) = Some m" by (simp add: stored_roles_def)
  moreover have "refresh j api at1 at2 (invalidateCache s, k) = (store_users j (secData cm) at2 (invalidateCache s), k')"
    using assms stale by (simp add: refresh_def invalidateCache_def)
  ultimately show ?thesis
    using assms stale role_in_stored raw
    by (simp add: GetRole_def invalidateCache_def store_users_def)
qed

text \<open>
  C27. A removal and an assignment of a console role that report success store exactly that. Compared with
  the data the write replaced, the named user alone changes: a removed user has neither a role nor
  a grant, and a user who was not there before gets the role and no monitoring grant left over from
  an earlier account. The replica that wrote forgets its cache, so its next answer for the user is
  what the ConfigMap says then.
\<close>

theorem user_writes_are_exact:
  assumes j: "json_faithful j" and retry: "runs_attempts retry"
    and laws: "reads_stored api st" "creates_once api st" "updates_stored api st"
    and ttl: "rsCacheTTL s = 30 * second"
  shows "(RemoveUser retry j api email (s, k) = (Inr (), s', k') \<longrightarrow>
      (\<exists>old cm. replaced api old \<and> st k' roleConfigMapName = Some cm \<and>
        (\<forall>e. role_in j (secData cm) e = (if e = email then [] else role_in j old e)) \<and>
        (\<forall>e. granted_in j (secData cm) e \<longleftrightarrow> granted_in j old e \<and> e \<noteq> email) \<and>
        (\<forall>at0 at1 at2 k''. 30 * second \<le> at0 \<and> 30 * second \<le> at1 \<and> cGet api roleConfigMapName k' = (Inr cm, k'') \<longrightarrow>
           fst (GetRole j api at0 at1 at2 email (s', k')) = []))) \<and>
    (SetRole retry j api email role (s, k) = (Inr (), s', k') \<and> jText j email \<and> jText j role \<longrightarrow>
      (\<exists>old m cm. replaced api old \<and> stored_roles j old = Some (Some m) \<and> st k' roleConfigMapName = Some cm \<and>
        (\<forall>e. role_in j (secData cm) e = (if e = email then role else role_in j old e)) \<and>
        (\<forall>e. granted_in j (secData cm) e \<longleftrightarrow> granted_in j old e \<and> (e = email \<longrightarrow> get m email \<noteq> None)) \<and>
        (\<forall>at0 at1 at2 k''. 30 * second \<le> at0 \<and> 30 * second \<le> at1 \<and> cGet api roleConfigMapName k' = (Inr cm, k'') \<longrightarrow>
           fst (GetRole j api at0 at1 at2 email (s', k')) = role)))"
proof (intro conjI impI)
  assume "RemoveUser retry j api email (s, k) = (Inr (), s', k')"
  then obtain old cm where w: "replaced api old" "st k' roleConfigMapName = Some cm" "s' = invalidateCache s"
      "readable j (secData cm)" "\<And>e. role_in j (secData cm) e = (if e = email then [] else role_in j old e)"
      "\<And>e. granted_in j (secData cm) e \<longleftrightarrow> granted_in j old e \<and> e \<noteq> email"
    by (rule RemoveUser_stores [OF j retry laws]) blast
  have "fst (GetRole j api at0 at1 at2 email (s', k')) = []"
    if "30 * second \<le> at0 \<and> 30 * second \<le> at1 \<and> cGet api roleConfigMapName k' = (Inr cm, k'')" for at0 at1 at2 k''
    using GetRole_after_write [OF j ttl, of at0 at1 api k' cm] that w(3,4,5) by simp
  then show "\<exists>old cm. replaced api old \<and> st k' roleConfigMapName = Some cm \<and>
        (\<forall>e. role_in j (secData cm) e = (if e = email then [] else role_in j old e)) \<and>
        (\<forall>e. granted_in j (secData cm) e \<longleftrightarrow> granted_in j old e \<and> e \<noteq> email) \<and>
        (\<forall>at0 at1 at2 k''. 30 * second \<le> at0 \<and> 30 * second \<le> at1 \<and> cGet api roleConfigMapName k' = (Inr cm, k'') \<longrightarrow>
           fst (GetRole j api at0 at1 at2 email (s', k')) = [])"
    using w(1,2,5,6) by blast
next
  assume "SetRole retry j api email role (s, k) = (Inr (), s', k') \<and> jText j email \<and> jText j role"
  then have set: "SetRole retry j api email role (s, k) = (Inr (), s', k')" "jText j email" "jText j role" by simp_all
  obtain old m cm where w: "replaced api old" "st k' roleConfigMapName = Some cm" "s' = invalidateCache s"
      "readable j (secData cm)" "stored_roles j old = Some (Some m)"
      "\<And>e. role_in j (secData cm) e = (if e = email then role else role_in j old e)"
      "\<And>e. granted_in j (secData cm) e \<longleftrightarrow> granted_in j old e \<and> (e = email \<longrightarrow> get m email \<noteq> None)"
    by (rule SetRole_stores [OF j retry laws set]) blast
  have "fst (GetRole j api at0 at1 at2 email (s', k')) = role"
    if "30 * second \<le> at0 \<and> 30 * second \<le> at1 \<and> cGet api roleConfigMapName k' = (Inr cm, k'')" for at0 at1 at2 k''
    using GetRole_after_write [OF j ttl, of at0 at1 api k' cm] that w(3,4,6) by simp
  then show "\<exists>old m cm. replaced api old \<and> stored_roles j old = Some (Some m) \<and> st k' roleConfigMapName = Some cm \<and>
        (\<forall>e. role_in j (secData cm) e = (if e = email then role else role_in j old e)) \<and>
        (\<forall>e. granted_in j (secData cm) e \<longleftrightarrow> granted_in j old e \<and> (e = email \<longrightarrow> get m email \<noteq> None)) \<and>
        (\<forall>at0 at1 at2 k''. 30 * second \<le> at0 \<and> 30 * second \<le> at1 \<and> cGet api roleConfigMapName k' = (Inr cm, k'') \<longrightarrow>
           fst (GetRole j api at0 at1 at2 email (s', k')) = role)"
    using w(1,2,5,6,7) by blast
qed

theorem user_writes_are_exact_witness:
  "\<exists>s' k' cm. RemoveUser (retry_steps 3) line_json table_client ''ann'' (NewRoleStore, demo_users) = (Inr (), s', k') \<and>
     table_stored k' roleConfigMapName = Some cm \<and>
     role_in line_json (secData cm) ''ann'' = [] \<and> \<not> granted_in line_json (secData cm) ''ann''"
proof -
  have "fst (RemoveUser (retry_steps 3) line_json table_client ''ann'' (NewRoleStore, demo_users)) = Inr ()" by code_simp
  then obtain s' k' where r: "RemoveUser (retry_steps 3) line_json table_client ''ann'' (NewRoleStore, demo_users) = (Inr (), s', k')"
    by (metis prod.collapse)
  have "rsCacheTTL NewRoleStore = 30 * second" by (simp add: NewRoleStore_def)
  from mp [OF conjunct1 [OF user_writes_are_exact [OF line_json_faithful retry_steps_runs table_reads table_creates table_updates this]] r]
  obtain cm where "table_stored k' roleConfigMapName = Some cm" "role_in line_json (secData cm) ''ann'' = []"
      "\<not> granted_in line_json (secData cm) ''ann''"
    by auto
  then show ?thesis using r by blast
qed

text \<open>A stored \<^verbatim>\<open>null\<close> leaves a nil map, and assigning a role panics on it; the merge and the grants read it as no users.\<close>

lemma null_users_block_assignment:
  assumes "json_faithful j" and "cGet api roleConfigMapName k = (Inr cm, k1)" and "get (secData cm) UsersKey = Some ''null''"
  shows "users_attempt j api (set_role_mutation j email role) k = (Inl nil_map_panic, k1)"
    and "grants_roles j (secData cm) = Inr []"
  using assms(2,3) json_faithfulD(4) [OF assms(1)]
  by (simp_all add: users_attempt_def stored_roles_def set_role_mutation_def grants_roles_def Let_def)

subsection \<open>Merging a backup\<close>

definition merged_role :: "(string, string) gomap \<Rightarrow> (string, string) gomap \<Rightarrow> string \<Rightarrow> string" where
  "merged_role live backup e = (if role_at live e \<noteq> [] then role_at live e else role_at backup e)"

definition newly_added :: "(string, string) gomap \<Rightarrow> (string, string) gomap \<Rightarrow> string set" where
  "newly_added live backup = {e. role_at live e = [] \<and> get backup e \<noteq> None}"

lemma merge_turn_text:
  "fold (merge_turn bg) B (L, G, A) = (L', G', A') \<Longrightarrow> text_map j L \<Longrightarrow>
     list_all (\<lambda>(k, v). jText j k \<and> jText j v) B \<Longrightarrow> text_map j L'"
proof (induction B arbitrary: L G A)
  case (Cons kv B)
  then show ?case
    by (cases kv) (auto simp: merge_turn_def text_map_put split: if_splits)
qed simp

lemma merge_fold:
  assumes "fold (merge_turn bg) B (L, G, A) = (L', G', A')" and "distinct_keys B"
  shows "role_at L' e = merged_role L B e"
    and "set A' = set A \<union> newly_added L B"
    and "set (keys G') = set (keys G) \<union> {e \<in> newly_added L B. get bg e = Some True}"
proof -
  have "role_at L' e = merged_role L B e \<and> set A' = set A \<union> newly_added L B \<and>
      set (keys G') = set (keys G) \<union> {e \<in> newly_added L B. get bg e = Some True}"
    using assms
  proof (induction B arbitrary: L G A)
    case Nil
    then show ?case by (auto simp: merged_role_def newly_added_def role_at_def)
  next
    case (Cons kv B)
    obtain k v where kv: "kv = (k, v)" by (cases kv)
    have B: "distinct_keys B" "get B k = None"
      using Cons.prems(2) by (auto simp: kv distinct_keys_def map_of_eq_None_iff)
    show ?case
    proof (cases "role_at L k = []")
      case False
      then have "merge_turn bg kv (L, G, A) = (L, G, A)" by (simp add: kv merge_turn_def)
      then have "fold (merge_turn bg) B (L, G, A) = (L', G', A')"
        using Cons.prems(1) by simp
      moreover have "newly_added L (kv # B) = newly_added L B" "merged_role L (kv # B) e = merged_role L B e"
        using False by (auto simp: kv newly_added_def merged_role_def role_at_def)
      ultimately show ?thesis
        using Cons.IH B(1) by presburger
    next
      case True
      define G1 where "G1 = (if get bg k = Some True then put k True G else G)"
      have "merge_turn bg kv (L, G, A) = (put k v L, G1, A @ [k])" using True by (simp add: kv merge_turn_def G1_def)
      then have "fold (merge_turn bg) B (put k v L, G1, A @ [k]) = (L', G', A')"
        using Cons.prems(1) by simp
      note IH = Cons.IH [OF this B(1)]
      have keep: "role_at (put k v L) e' = role_at L e'" if "e' \<noteq> k" for e'
        using that by (simp add: role_at_put)
      have "newly_added L (kv # B) = insert k (newly_added (put k v L) B)"
        using True B(2) keep by (auto simp: kv newly_added_def)
      moreover have "merged_role L (kv # B) e = merged_role (put k v L) B e"
        using True B(2) by (auto simp: kv merged_role_def role_at_put) (simp_all add: role_at_def)
      moreover have "set (keys G1) = set (keys G) \<union> (if get bg k = Some True then {k} else {})"
        by (auto simp: G1_def dom_update)
      ultimately show ?thesis
        using IH by (auto simp del: set_map)
    qed
  qed
  then show "role_at L' e = merged_role L B e" "set A' = set A \<union> newly_added L B"
    "set (keys G') = set (keys G) \<union> {e \<in> newly_added L B. get bg e = Some True}" by blast+
qed

lemma grants_roles_text:
  assumes "json_faithful j" and "grants_roles j data = Inr m"
  shows "text_map j m"
  using assms json_faithfulD(3) [OF assms(1)]
  by (auto simp: grants_roles_def text_map_def distinct_keys_def split: option.splits if_splits)

text \<open>
  C28. Merging the users of a backup into the live data never overrides a live user. On an error the live
  data stay as they were. Otherwise the names returned are sorted and are exactly the backup's users
  who had no live role; every live role is kept and the added users have the backup's; a grant is
  held afterwards exactly when it was held before, or by an added user whom the backup granted it.
  With nobody to add nothing is written.
\<close>

theorem merge_keeps_live_users:
  assumes j: "json_faithful j" and "Merge j live backup = (r, live')"
  shows "case r of
           Inl _ \<Rightarrow> live' = live
         | Inr added \<Rightarrow>
             (\<exists>l b. grants_roles j live = Inr l \<and> grants_roles j backup = Inr b \<and>
                sorted added \<and> set added = newly_added l b) \<and>
             (\<forall>e. role_in j live' e = (if role_in j live e \<noteq> [] then role_in j live e else role_in j backup e)) \<and>
             (\<forall>e. granted_in j live' e \<longleftrightarrow> granted_in j live e \<or> e \<in> set added \<and> granted_in j backup e) \<and>
             (added = [] \<longrightarrow> live' = live)"
proof (cases r)
  case (Inl e)
  then show ?thesis
    using assms(2) by (auto simp: Merge_def split: sum.splits prod.splits if_splits)
next
  case (Inr added)
  then obtain l b bg g where in_: "grants_roles j live = Inr l" "grants_roles j backup = Inr b"
    "Monitoring j backup = Inr bg" "Monitoring j live = Inr g"
    using assms(2) by (auto simp: Merge_def split: sum.splits)
  obtain L G A where f: "fold (merge_turn bg) b (l, g, []) = (L, G, A)" by (metis prod_cases3)
  have texts: "text_map j l" "text_map j b" using grants_roles_text [OF j] in_(1,2) by simp_all
  then have B: "distinct_keys b" by (simp add: text_map_def)
  note m = merge_fold [OF f B]
  have out: "added = (if A = [] then [] else sort A)"
    "live' = (if A = [] then live else put MonitoringKey (jList j (sortedEmails G)) (put UsersKey (jMap j L) live))"
    using assms(2) Inr by (auto simp: Merge_def in_ f split: if_splits)
  have set: "set added = newly_added l b" using m(2) out(1) by auto
  have roles: "role_in j live e = role_at l e" "role_in j backup e = role_at b e" for e
    by (simp_all add: role_in_def in_)
  have L: "role_in j live' e = merged_role l b e" for e
  proof (cases "A = []")
    case True
    then have "newly_added l b = {}" using m(2) by simp
    then have "merged_role l b e = role_at l e" by (auto simp: newly_added_def merged_role_def role_at_def split: option.splits)
    then show ?thesis using True out(2) roles by simp
  next
    case False
    have "text_map j L" using merge_turn_text [OF f texts(1)] texts(2) by (simp add: text_map_def)
    then show ?thesis
      using False out(2) role_in_written [OF j, of "Some L" live e] m(1) by (simp add: users_JSON_def)
  qed
  have flags: "granted_in j live e \<longleftrightarrow> e \<in> set (keys g)" "granted_in j backup e \<longleftrightarrow> get bg e = Some True" for e
    using Monitoring_flags(1) [OF j in_(4)] by (simp_all add: granted_in_def in_)
  have G: "granted_in j live' e \<longleftrightarrow> e \<in> set (keys G)" for e
  proof (cases "A = []")
    case True
    then have "newly_added l b = {}" using m(2) by simp
    then show ?thesis using True out(2) m(3) flags by simp
  next
    case False
    have "\<forall>e \<in> set (keys G). jText j e"
      using m(3) Monitoring_flags(2) [OF j in_(3)] Monitoring_flags(2) [OF j in_(4)] Monitoring_flags(1) [OF j in_(3)]
      by (simp del: set_map) blast
    then show ?thesis using False out(2) granted_in_written [OF j] by simp
  qed
  have "sorted added" using out(1) by simp
  moreover have "added = [] \<longrightarrow> live' = live" using out by (cases A) (auto simp: insort_not_Nil)
  ultimately show ?thesis
    unfolding Inr sum.case
    using in_(1,2) set L G m(3) flags roles by (auto simp: merged_role_def simp del: set_map)
qed

definition demo_live :: cmdata where
  "demo_live = [(UsersKey, jMap line_json [(''ann'', ''viewer'')])]"

definition demo_backup :: cmdata where
  "demo_backup = [(UsersKey, jMap line_json [(''ann'', ''admin''), (''cid'', ''deployer'')]),
                  (MonitoringKey, jList line_json [''ann'', ''cid''])]"

theorem merge_keeps_live_users_witness:
  "\<exists>live'. Merge line_json demo_live demo_backup = (Inr [''cid''], live') \<and>
     role_in line_json live' ''ann'' = ''viewer'' \<and> \<not> granted_in line_json live' ''ann'' \<and>
     role_in line_json live' ''cid'' = ''deployer'' \<and> granted_in line_json live' ''cid''"
proof -
  have "fst (Merge line_json demo_live demo_backup) = Inr [''cid'']" by code_simp
  then obtain live' where w: "Merge line_json demo_live demo_backup = (Inr [''cid''], live')"
    by (metis prod.collapse)
  have d: "role_in line_json demo_live ''ann'' = ''viewer''" "\<not> granted_in line_json demo_live ''ann''"
    "role_in line_json demo_live ''cid'' = ''''" "role_in line_json demo_backup ''cid'' = ''deployer''"
    "granted_in line_json demo_backup ''cid''"
    by code_simp+
  show ?thesis
    using merge_keeps_live_users [OF line_json_faithful w] w d by auto
qed

end
