(* ===== verification/Access_Properties.thy ===== *)
theory Access_Properties
  imports Console_Routes User_Roles_Properties
begin

text \<open>
  What the console's gates promise: how often Dex is asked for its keys, that the lookup of a
  namespace's owner ends and answers from the current reader, and who passes which route.
\<close>

subsection \<open>The keys of Dex\<close>

type_synonym key_request = "key_call \<times> string \<times> string option"

definition run_keys :: "key_request list \<Rightarrow> jwks \<Rightarrow> jwks" where
  "run_keys calls s = fold (\<lambda>(c, alg, kid) s. snd (JWKSKeyFunc c alg kid s)) calls s"

text \<open>The clock does not run backwards within a call of \<open>refetch\<close>.\<close>

definition clock_ok :: "key_call \<Rightarrow> bool" where
  "clock_ok c \<longleftrightarrow> fcCheck (kcFirst c) \<le> fcArmed (kcFirst c) \<and> fcCheck (kcSecond c) \<le> fcArmed (kcSecond c)"

definition spaced :: "duration \<Rightarrow> time list \<Rightarrow> bool" where
  "spaced d l = sorted_wrt (\<lambda>x y. x + d \<le> y) l"

definition throttled :: "jwks \<Rightarrow> bool" where
  "throttled s \<longleftrightarrow> spaced refetchFailBackoff (jwSent s) \<and>
     (\<forall>t \<in> set (jwSent s). t + refetchFailBackoff \<le> jwNextRefetchAllowedAt s)"

text \<open>What a later state may add: requests no earlier than the time the throttle was armed for.\<close>

definition later_than :: "jwks \<Rightarrow> jwks \<Rightarrow> bool" where
  "later_than s s' \<longleftrightarrow> jwNextRefetchAllowedAt s \<le> jwNextRefetchAllowedAt s' \<and>
     (\<exists>l. jwSent s' = jwSent s @ l \<and> (\<forall>t \<in> set l. jwNextRefetchAllowedAt s \<le> t))"

lemma later_refl [simp]: "later_than s s"
  by (simp add: later_than_def)

lemma later_trans: "later_than s s1 \<Longrightarrow> later_than s1 s2 \<Longrightarrow> later_than s s2"
  by (fastforce simp: later_than_def)

lemma refetch_steps:
  assumes "fcCheck f \<le> fcArmed f"
  shows "throttled s \<Longrightarrow> throttled (refetch f s)" and "later_than s (refetch f s)"
proof -
  have "0 < refetchFailBackoff" "refetchFailBackoff \<le> refetchCooldown"
    by (simp_all add: refetchFailBackoff_def refetchCooldown_def second_def)
  then show "throttled s \<Longrightarrow> throttled (refetch f s)" and "later_than s (refetch f s)"
    using assms
    by (auto simp: refetch_def throttled_def later_than_def spaced_def sorted_wrt_append Let_def split: option.splits)
qed

lemma refetches_steps:
  assumes "\<forall>f \<in> set fs. fcCheck f \<le> fcArmed f"
  shows "throttled s \<Longrightarrow> throttled (fold refetch fs s)" and "later_than s (fold refetch fs s)"
proof -
  have "(throttled s \<longrightarrow> throttled (fold refetch fs s)) \<and> later_than s (fold refetch fs s)"
    using assms by (induction fs arbitrary: s) (auto intro: refetch_steps later_trans)
  then show "throttled s \<Longrightarrow> throttled (fold refetch fs s)" and "later_than s (fold refetch fs s)" by simp_all
qed

lemma JWKSKeyFunc_refetches:
  "\<exists>fs. set fs \<subseteq> {kcFirst c, kcSecond c} \<and> snd (JWKSKeyFunc c alg kid s) = fold refetch fs s"
proof -
  have "snd (JWKSKeyFunc c alg kid s) \<in> {s, refetch (kcFirst c) s, refetch (kcSecond c) s, refetch (kcSecond c) (refetch (kcFirst c) s)}"
    by (simp add: JWKSKeyFunc_def Let_def split: option.splits)
  then have "snd (JWKSKeyFunc c alg kid s) \<in>
      {fold refetch [] s, fold refetch [kcFirst c] s, fold refetch [kcSecond c] s, fold refetch [kcFirst c, kcSecond c] s}"
    by simp
  then show ?thesis
    by (elim insertE emptyE) (rule exI, erule conjI [rotated], simp)+
qed

lemma run_keys_refetches:
  "\<exists>fs. set fs \<subseteq> (\<Union>(c, alg, kid) \<in> set calls. {kcFirst c, kcSecond c}) \<and> run_keys calls s = fold refetch fs s"
proof (induction calls arbitrary: s)
  case (Cons x calls)
  obtain c alg kid where x: "x = (c, alg, kid)" by (cases x)
  obtain fs where fs: "set fs \<subseteq> {kcFirst c, kcSecond c}" "snd (JWKSKeyFunc c alg kid s) = fold refetch fs s"
    using JWKSKeyFunc_refetches [of c alg kid s] by blast
  obtain gs where gs: "set gs \<subseteq> (\<Union>(c, alg, kid) \<in> set calls. {kcFirst c, kcSecond c})"
    "run_keys calls (fold refetch fs s) = fold refetch gs (fold refetch fs s)"
    using Cons.IH [of "fold refetch fs s"] by blast
  have "run_keys (x # calls) s = fold refetch (fs @ gs) s"
    using fs(2) gs(2) by (simp add: x run_keys_def)
  moreover have "set (fs @ gs) \<subseteq> (\<Union>(c, alg, kid) \<in> set (x # calls). {kcFirst c, kcSecond c})"
    using fs(1) gs(1) by (auto simp: x)
  ultimately show ?case by blast
qed (simp add: run_keys_def)

lemma run_keys_steps:
  assumes "list_all (\<lambda>(c, alg, kid). clock_ok c) calls"
  shows "throttled s \<Longrightarrow> throttled (run_keys calls s)" and "later_than s (run_keys calls s)"
proof -
  obtain fs where fs: "set fs \<subseteq> (\<Union>(c, alg, kid) \<in> set calls. {kcFirst c, kcSecond c})" "run_keys calls s = fold refetch fs s"
    using run_keys_refetches [of calls s] by blast
  have "fcCheck f \<le> fcArmed f" if "f \<in> {kcFirst c, kcSecond c}" "(c, alg, kid) \<in> set calls" for f c alg kid
    using assms that by (auto simp: list_all_iff clock_ok_def)
  then have "\<forall>f \<in> set fs. fcCheck f \<le> fcArmed f"
    using fs(1) by blast
  then show "throttled s \<Longrightarrow> throttled (run_keys calls s)" and "later_than s (run_keys calls s)"
    using refetches_steps fs(2) by simp_all
qed

lemma spaced_length:
  assumes "spaced d l" and "l \<noteq> []" and "\<forall>t \<in> set l. a \<le> t \<and> t < b"
  shows "(int (length l) - 1) * d < b - a"
proof -
  have "hd l + (int (length l) - 1) * d \<le> last l"
    using assms(1,2)
  proof (induction l rule: induct_list012)
    case (3 x y l)
    then have "y + (int (length (y # l)) - 1) * d \<le> last (y # l)" "x + d \<le> y"
      by (auto simp: spaced_def)
    then show ?case by (simp add: algebra_simps)
  qed simp_all
  moreover have "a \<le> hd l" "last l < b"
    using assms(2,3) by simp_all
  ultimately show ?thesis by linarith
qed

text \<open>
  C29. Requests cannot be turned into a load on Dex: whatever tokens arrive, in any window of length \<open>d\<close> at
  most \<open>d\<close> over three seconds, plus one, key requests are sent. And once an answer with keys has
  been stored, no request is sent for the next 30 seconds.
\<close>

theorem key_requests_are_throttled:
  assumes calls: "list_all (\<lambda>(c, alg, kid). clock_ok c) calls" and d: "0 \<le> d"
  shows "int (length (filter (\<lambda>t. a \<le> t \<and> t < a + d) (jwSent (run_keys calls new_jwks)))) * (3 * second) < d + 3 * second \<and>
    (fcAnswer f \<noteq> None \<and> fcCheck f \<le> fcArmed f \<and> jwNextRefetchAllowedAt s \<le> fcCheck f \<longrightarrow>
      (\<exists>l. jwSent (run_keys calls (refetch f s)) = jwSent (refetch f s) @ l \<and> (\<forall>t \<in> set l. fcArmed f + 30 * second \<le> t)))"
proof (intro conjI impI)
  define l where "l = filter (\<lambda>t. a \<le> t \<and> t < a + d) (jwSent (run_keys calls new_jwks))"
  have "throttled new_jwks" by (simp add: throttled_def new_jwks_def spaced_def)
  then have sp: "spaced (3 * second) l"
    using run_keys_steps(1) [OF calls] by (simp add: l_def throttled_def spaced_def refetchFailBackoff_def sorted_wrt_filter)
  have "\<forall>t \<in> set l. a \<le> t \<and> t < a + d" by (simp add: l_def)
  from spaced_length [OF sp _ this] have gap: "l \<noteq> [] \<Longrightarrow> (int (length l) - 1) * (3 * second) < d"
    by (simp only: add_diff_cancel_left' not_False_eq_True)
  have split: "(int (length l) - 1) * (3 * second) = int (length l) * (3 * second) - 3 * second"
    by (simp add: left_diff_distrib)
  have "0 < second" by (simp add: second_def)
  have "int (length l) * (3 * second) < d + 3 * second"
  proof (cases "l = []")
    case True
    then show ?thesis using d \<open>0 < second\<close> by simp
  next
    case False
    then show ?thesis using gap split by linarith
  qed
  then show "int (length (filter (\<lambda>t. a \<le> t \<and> t < a + d) (jwSent (run_keys calls new_jwks)))) * (3 * second) < d + 3 * second"
    by (simp only: l_def)
next
  assume "fcAnswer f \<noteq> None \<and> fcCheck f \<le> fcArmed f \<and> jwNextRefetchAllowedAt s \<le> fcCheck f"
  then have "jwNextRefetchAllowedAt (refetch f s) = fcArmed f + 30 * second"
    by (auto simp: refetch_def Let_def refetchCooldown_def)
  then show "\<exists>l. jwSent (run_keys calls (refetch f s)) = jwSent (refetch f s) @ l \<and> (\<forall>t \<in> set l. fcArmed f + 30 * second \<le> t)"
    using run_keys_steps(2) [OF calls, of "refetch f s"] by (simp add: later_than_def)
qed

definition demo_fetch :: "time \<Rightarrow> jwksKey list option \<Rightarrow> fetch_call" where
  "demo_fetch t ans = \<lparr>fcCheck = t, fcAnswer = ans, fcStored = t + second, fcArmed = t + second\<rparr>"

definition demo_key_call :: "time \<Rightarrow> jwksKey list option \<Rightarrow> key_call" where
  "demo_key_call t ans = \<lparr>kcNow = t, kcFirst = demo_fetch t ans, kcSecond = demo_fetch (t + second) ans\<rparr>"

definition demo_spray :: "key_request list" where
  "demo_spray = map (\<lambda>t. (demo_key_call (t * second) None, ''RS256'', Some ''x'')) [100, 101, 102, 103, 104, 105, 106, 107]"

theorem key_requests_are_throttled_witness:
  "jwSent (run_keys demo_spray new_jwks) = [100 * second, 104 * second, 108 * second] \<and>
   int (length (filter (\<lambda>t. 100 * second \<le> t \<and> t < 100 * second + 8 * second) (jwSent (run_keys demo_spray new_jwks)))) * (3 * second)
     < 8 * second + 3 * second"
proof
  show "jwSent (run_keys demo_spray new_jwks) = [100 * second, 104 * second, 108 * second]" by code_simp
  have "list_all (\<lambda>(c, alg, kid). clock_ok c) demo_spray" and "0 \<le> 8 * second" by code_simp+
  from conjunct1 [OF key_requests_are_throttled [OF this]]
  show "int (length (filter (\<lambda>t. 100 * second \<le> t \<and> t < 100 * second + 8 * second) (jwSent (run_keys demo_spray new_jwks)))) * (3 * second)
     < 8 * second + 3 * second" .
qed

text \<open>
  An answer of Dex that decodes but holds no usable key, as the JSON body of an error page does, replaces
  the keys that were cached, and for the next 30 seconds every token is refused, whatever its key:
  the key function answers nothing and asks nobody.
\<close>

lemma keyless_answer_locks_out:
  assumes "fcAnswer f = Some ks" and "usable_keys ks = []" and "jwNextRefetchAllowedAt s \<le> fcCheck f"
    and "fcCheck (kcFirst c) < fcArmed f + 30 * second" and "fcCheck (kcSecond c) < fcArmed f + 30 * second"
  shows "JWKSKeyFunc c alg kid (refetch f s) = (None, refetch f s)"
proof -
  define s1 where "s1 = refetch f s"
  have s1: "jwKeys s1 = Some []" "jwNextRefetchAllowedAt s1 = fcArmed f + 30 * second"
    using assms(1-3) by (auto simp: s1_def refetch_def Let_def refetchCooldown_def)
  then have "refetch (kcFirst c) s1 = s1" "refetch (kcSecond c) s1 = s1" "known_key s1 x = None" for x
    using assms(4,5) by (simp_all add: refetch_def known_key_def)
  then have "JWKSKeyFunc c alg kid s1 = (None, s1)"
    by (simp add: JWKSKeyFunc_def Let_def split: option.splits)
  then show ?thesis by (simp add: s1_def)
qed

subsection \<open>The owner of a namespace\<close>

text \<open>A swap either changes nothing or takes the next generation.\<close>

lemma do_swap_gen: "do_swap x r = r \<or> ownersGen (do_swap x r) = ownersGen r + 1"
  by (cases x) (auto simp: UseOwners_def RetireOwners_def Let_def split: option.splits)

lemma do_swaps_gen:
  obtains n where "n \<le> length xs" and "ownersGen (do_swaps xs r) = ownersGen r + of_nat n"
    and "n = 0 \<Longrightarrow> do_swaps xs r = r"
proof -
  have "\<exists>n \<le> length xs. ownersGen (do_swaps xs r) = ownersGen r + of_nat n \<and> (n = 0 \<longrightarrow> do_swaps xs r = r)"
  proof (induction xs arbitrary: r)
    case (Cons x xs)
    obtain n where n: "n \<le> length xs" "ownersGen (do_swaps xs (do_swap x r)) = ownersGen (do_swap x r) + of_nat n"
        "n = 0 \<longrightarrow> do_swaps xs (do_swap x r) = do_swap x r"
      using Cons.IH by blast
    show ?case
    proof (cases "do_swap x r = r")
      case True
      then show ?thesis using n by (intro exI [of _ n]) auto
    next
      case False
      then have "ownersGen (do_swap x r) = ownersGen r + 1" using do_swap_gen by metis
      then show ?thesis using n by (intro exI [of _ "Suc n"]) auto
    qed
  qed simp
  then show thesis using that by blast
qed

lemma do_swaps_unchanged:
  assumes "length xs < 2 ^ 64" and "\<not> ownersChangedSince (do_swaps xs r) (ownersGen r)"
  shows "do_swaps xs r = r"
proof -
  obtain n where n: "n \<le> length xs" "ownersGen (do_swaps xs r) = ownersGen r + of_nat n" "n = 0 \<Longrightarrow> do_swaps xs r = r"
    by (rule do_swaps_gen [of xs r]) blast
  then have "(of_nat n :: 64 word) = 0" using assms(2) by (simp add: ownersChangedSince_def)
  then have "2 ^ 64 dvd n" by (simp add: word_of_nat_eq_0_iff)
  then have "n = 0" using n(1) assms(1) dvd_imp_le [of "2 ^ 64" n] by fastforce
  then show ?thesis using n(3) by simp
qed

definition during :: "'k interference \<Rightarrow> 'k swap list" where
  "during env = concat (map snd env)"

lemma owner_attempts_settles:
  "length (filter (\<lambda>e. snd e \<noteq> []) (take n env)) < n \<Longrightarrow> fst (owner_attempts n env name rk) \<noteq> Inl Unsettled"
proof (induction n arbitrary: env rk)
  case (Suc n)
  obtain r k where rk: "rk = (r, k)" by (cases rk)
  obtain bef dur where e: "(case env of [] \<Rightarrow> ([], []) | e # _ \<Rightarrow> e) = (bef, dur)" by fastforce
  show ?case
  proof (cases "dur = []")
    case True
    then show ?thesis
      using e by (auto simp: rk Let_def ownerReader_def ownersChangedSince_def split: sum.splits prod.splits)
  next
    case False
    then obtain env' where env: "env = (bef, dur) # env'" using e by (cases env) auto
    have "length (filter (\<lambda>e. snd e \<noteq> []) (take n env')) < n" using Suc.prems False env by simp
    then have "fst (owner_attempts n env' name rk') \<noteq> Inl Unsettled" for rk' by (rule Suc.IH)
    then show ?thesis
      by (auto simp: rk env Let_def ownerReader_def split: sum.splits prod.splits)
  qed
qed simp

text \<open>One attempt, with the swaps the environment makes in it.\<close>

definition attempt_swaps :: "'k interference \<Rightarrow> 'k swap list \<times> 'k swap list" where
  "attempt_swaps env = (case env of [] \<Rightarrow> ([], []) | e # _ \<Rightarrow> e)"

lemma attempt_swaps_in: "x \<in> set (fst (attempt_swaps env)) \<union> set (snd (attempt_swaps env)) \<Longrightarrow>
    \<exists>e \<in> set env. x \<in> set (fst e) \<union> set (snd e)"
  by (cases env) (auto simp: attempt_swaps_def)

lemma owner_attempts_cases:
  assumes "owner_attempts (Suc n) env name (r, k) = (Inr answer, r', k')"
  shows "\<exists>r1 k1. r1 = do_swaps (fst (attempt_swaps env)) r \<and>
     (Of (owners r1) name k = (Inr answer, k') \<and> r' = do_swaps (snd (attempt_swaps env)) r1 \<and> \<not> ownersChangedSince r' (ownersGen r1) \<or>
      owner_attempts n (drop 1 env) name (do_swaps (snd (attempt_swaps env)) r1, k1) = (Inr answer, r', k'))"
proof -
  obtain bef dur where e: "(case env of [] \<Rightarrow> ([], []) | e # _ \<Rightarrow> e) = (bef, dur)" by fastforce
  obtain a k1 where "Of (owners (do_swaps bef r)) name k = (a, k1)" by fastforce
  then show ?thesis
    using assms unfolding attempt_swaps_def e
    by (cases a) (auto simp: e Let_def ownerReader_def split: if_splits)
qed

lemma owner_attempts_current:
  assumes "\<forall>e \<in> set env. length (snd e) < 2 ^ 64" and "owner_attempts n env name (r, k) = (Inr answer, r', k')"
  shows "\<exists>k1. Of (owners r') name k1 = (Inr answer, k')"
  using assms
proof (induction n arbitrary: env r k)
  case (Suc n)
  define r1 where "r1 = do_swaps (fst (attempt_swaps env)) r"
  consider (now) "Of (owners r1) name k = (Inr answer, k')" "r' = do_swaps (snd (attempt_swaps env)) r1"
      "\<not> ownersChangedSince r' (ownersGen r1)"
    | (again) k1 where "owner_attempts n (drop 1 env) name (do_swaps (snd (attempt_swaps env)) r1, k1) = (Inr answer, r', k')"
    using owner_attempts_cases [OF Suc.prems(2)] unfolding r1_def by blast
  then show ?case
  proof cases
    case now
    have "length (snd (attempt_swaps env)) < 2 ^ 64"
      using Suc.prems(1) by (cases env) (auto simp: attempt_swaps_def)
    then have "r' = r1" using do_swaps_unchanged now(2,3) by metis
    then show ?thesis using now(1) by blast
  next
    case again
    then show ?thesis using Suc.IH [OF _ again] Suc.prems(1) by (meson in_set_dropD)
  qed
qed simp

lemma owner_attempts_swaps:
  assumes "owner_attempts n env name (r, k) = (Inr answer, r', k')"
  shows "\<exists>xs. r' = do_swaps xs r \<and> (\<forall>x \<in> set xs. \<exists>e \<in> set env. x \<in> set (fst e) \<union> set (snd e))"
  using assms
proof (induction n arbitrary: env r k)
  case (Suc n)
  define ys where "ys = fst (attempt_swaps env) @ snd (attempt_swaps env)"
  have ys: "\<forall>x \<in> set ys. \<exists>e \<in> set env. x \<in> set (fst e) \<union> set (snd e)"
    unfolding ys_def using attempt_swaps_in by fastforce
  consider "r' = do_swaps ys r" | k1 where "owner_attempts n (drop 1 env) name (do_swaps ys r, k1) = (Inr answer, r', k')"
    using owner_attempts_cases [OF Suc.prems] unfolding ys_def by auto
  then show ?case
  proof cases
    case 2
    obtain xs where xs: "r' = do_swaps xs (do_swaps ys r)" "\<forall>x \<in> set xs. \<exists>e \<in> set (drop 1 env). x \<in> set (fst e) \<union> set (snd e)"
      using Suc.IH [OF 2] by blast
    have "\<forall>x \<in> set xs. \<exists>e \<in> set env. x \<in> set (fst e) \<union> set (snd e)"
      using xs(2) set_drop_subset [of 1 env] by blast
    then have "\<forall>x \<in> set (ys @ xs). \<exists>e \<in> set env. x \<in> set (fst e) \<union> set (snd e)"
      using ys by auto
    moreover have "r' = do_swaps (ys @ xs) r" using xs(1) by simp
    ultimately show ?thesis by blast
  qed (use ys in blast)
qed simp

lemma do_swaps_retired:
  "ownersRetired r \<Longrightarrow> ownersRetired (do_swaps xs r) \<and>
     (owners (do_swaps xs r) = owners r \<or> (\<exists>live. Retire (Some live) \<in> set xs \<and> owners (do_swaps xs r) = Some live))"
proof (induction xs arbitrary: r)
  case (Cons x xs)
  have r: "ownersRetired (do_swap x r)" "owners (do_swap x r) = owners r \<or> (\<exists>live. x = Retire (Some live) \<and> owners (do_swap x r) = Some live)"
    using Cons.prems by (cases x; auto simp: UseOwners_def RetireOwners_def Let_def split: option.splits)+
  show ?case using Cons.IH [OF r(1)] r(2) by auto
qed simp

text \<open>
  C24. The lookup of a namespace's owner, which starts over whenever the ownership reader was swapped while it
  read, ends: with fewer than four swaps during its reads it never gives up, and the process makes
  at most two. An answer it returns was read through the reader that is current when it returns.
\<close>

theorem ownership_lookup_settles:
  assumes "length (during env) < 4"
  shows "fst (owner_attempts 4 env name rk) \<noteq> Inl Unsettled \<and>
    (owner_attempts 4 env name rk = (Inr answer, r', k') \<longrightarrow> (\<exists>k1. Of (owners r') name k1 = (Inr answer, k')))"
proof (intro conjI impI)
  have "length (filter (\<lambda>e. snd e \<noteq> []) l) \<le> length (concat (map snd l))" for l :: "('a swap list \<times> 'a swap list) list"
  proof (induction l)
    case (Cons e l)
    have "0 < length (snd e) \<or> snd e = []" by simp
    then show ?case using Cons by (auto simp: Suc_le_eq less_add_same_cancel2 intro: le_less_trans)
  qed simp
  moreover have "length (concat (map snd (take 4 env))) \<le> length (during env)"
    unfolding during_def by (metis append_take_drop_id concat_append le_add1 length_append map_append)
  ultimately have "length (filter (\<lambda>e. snd e \<noteq> []) (take 4 env)) < 4"
    using assms by (meson le_less_trans order_trans)
  then show "fst (owner_attempts 4 env name rk) \<noteq> Inl Unsettled" by (rule owner_attempts_settles)
next
  assume a: "owner_attempts 4 env name rk = (Inr answer, r', k')"
  have "length (snd e) \<le> length (during env)" if "e \<in> set env" for e
    using that unfolding during_def by (induction env) auto
  then have "\<forall>e \<in> set env. length (snd e) < 2 ^ 64" using assms by fastforce
  moreover obtain r k where "rk = (r, k)" by (cases rk)
  ultimately show "\<exists>k1. Of (owners r') name k1 = (Inr answer, k')" using owner_attempts_current [of env 4 name r k] a by simp
qed


text \<open>A reader that attributes every namespace to one project, for the examples.\<close>

definition demo_reader :: "string \<Rightarrow> unit Reader" where
  "demo_reader p =
     \<lparr>rdNamespace = (\<lambda>n k. (Inr \<lparr>nsName = n, nsUID = ''u'', nsLabels = [(labels_Project, p)]\<rparr>, k)),
      rdProject = (\<lambda>n k. (Inr \<lparr>pName = n, pMembers = [], pNamespaces = [], pClaims = []\<rparr>, k))\<rparr>"

definition demo_swaps :: "unit interference" where
  "demo_swaps = [([], [Offer (Some (demo_reader ''old''))]), ([], [Retire (Some (demo_reader ''shop''))])]"

theorem ownership_lookup_settles_witness:
  "fst (owner_attempts 4 demo_swaps ''ns'' (NewOwners (Some (demo_reader ''shop'')), ())) \<noteq> Inl Unsettled \<and>
   fst (owner_attempts 4 demo_swaps ''ns'' (NewOwners (Some (demo_reader ''shop'')), ())) = Inr (''shop'', True)"
proof
  have "length (during demo_swaps) < 4" by (simp add: during_def demo_swaps_def)
  then show "fst (owner_attempts 4 demo_swaps ''ns'' (NewOwners (Some (demo_reader ''shop'')), ())) \<noteq> Inl Unsettled"
    by (rule conjunct1 [OF ownership_lookup_settles])
  show "fst (owner_attempts 4 demo_swaps ''ns'' (NewOwners (Some (demo_reader ''shop'')), ())) = Inr (''shop'', True)"
    by code_simp
qed

definition demo_retired :: "unit Owners" where
  "demo_retired = RetireOwners (Some (demo_reader ''shop'')) (NewOwners (Some (demo_reader ''shop'')))"

definition demo_offer :: "unit interference" where
  "demo_offer = [([Offer (Some (demo_reader ''old''))], [])]"


subsection \<open>Who passes a route\<close>

definition member_role :: "Project \<Rightarrow> string \<Rightarrow> string option" where
  "member_role p email = get (fold (\<lambda>(email, role) m. put email role m) (pMembers p) []) email"

text \<open>
  A caller's standing in a project: an admin acts as its owner, anyone else has the role with which
  the Project lists the email, as read during the request.
\<close>

definition standing :: "'k services \<Rightarrow> string \<Rightarrow> string \<Rightarrow> ProjectAccess \<Rightarrow> bool" where
  "standing sv email role a \<longleftrightarrow>
     (if role = Role_Admin then paIsAdmin a \<and> paRole a = RoleOwner
      else \<not> paIsAdmin a \<and> KnownRole (paRole a) \<and> paProject a \<noteq> [] \<and>
           (\<exists>p k k'. svProject sv (paProject a) k = (Inr p, k') \<and> member_role p email = Some (paRole a)))"

lemma resolveProject_standing:
  assumes "resolveProject sv email project role k = (Some a, k')"
  shows "role \<noteq> [] \<and> paProject a = project \<and> standing sv email role a"
proof (cases "role = Role_Admin")
  case True
  then show ?thesis using assms by (auto simp: resolveProject_def standing_def split: if_splits)
next
  case False
  then have "role \<noteq> []" "project \<noteq> []" using assms by (auto simp: resolveProject_def split: if_splits)
  obtain x k1 where g: "svProject sv project k = (x, k1)" by (cases "svProject sv project k")
  obtain p where p: "x = Inr p"
    using assms g False \<open>role \<noteq> []\<close> \<open>project \<noteq> []\<close>
    by (cases x) (auto simp: resolveProject_def ProjectMembers_def split: kerror.splits)
  have "member_role p email = Some (paRole a) \<and> KnownRole (paRole a) \<and> paProject a = project \<and> \<not> paIsAdmin a"
    using assms False \<open>role \<noteq> []\<close> \<open>project \<noteq> []\<close>
    by (auto simp: resolveProject_def ProjectMembers_def g p member_role_def split: option.splits if_splits)
  then show ?thesis
    using g p False \<open>role \<noteq> []\<close> \<open>project \<noteq> []\<close> by (auto simp: standing_def)
qed

lemma Resolve_standing:
  assumes "Resolve sv mo email ns r = (Some a, r')"
  shows "fst (global_role sv mo email r) \<noteq> [] \<and> standing sv email (fst (global_role sv mo email r)) a \<and>
    (\<exists>rk rk'. projectForName (svNamespace sv) (swaps mo) ns rk = (Inr (paProject a), rk'))"
proof -
  obtain role r1 where g: "global_role sv mo email r = (role, r1)" by (cases "global_role sv mo email r")
  obtain x o1 k1 where p: "projectForName (svNamespace sv) (swaps mo) ns (rsvOwners r1, rsvKube r1) = (x, o1, k1)"
    by (metis prod_cases3)
  have role: "role \<noteq> []" using assms by (auto simp: Resolve_def g split: if_splits)
  then obtain project where x: "x = Inr project" using assms by (cases x) (auto simp: Resolve_def g p)
  obtain k2 where "resolveProject sv email project role k1 = (Some a, k2)"
    using assms role by (auto simp: Resolve_def g p x split: prod.splits)
  then show ?thesis
    using resolveProject_standing [of sv email project role k1 a k2] g role p x by auto
qed

lemma ResolveProject_standing:
  assumes "ResolveProject sv mo email project r = (Some a, r')"
  shows "fst (global_role sv mo email r) \<noteq> [] \<and> standing sv email (fst (global_role sv mo email r)) a \<and> paProject a = project"
  using assms resolveProject_standing
  by (fastforce simp: ResolveProject_def split: prod.splits)

definition guard_cap :: "guard \<Rightarrow> string option" where
  "guard_cap g = (case g of ProjectCap name \<Rightarrow> Some name | NamespaceCap name \<Rightarrow> Some name | QueryCap name \<Rightarrow> Some name | _ \<Rightarrow> None)"

text \<open>The project a guarded request is about.\<close>

definition about_project :: "'k services \<Rightarrow> 'k moment \<Rightarrow> guard \<Rightarrow> api_request \<Rightarrow> string \<Rightarrow> bool" where
  "about_project sv mo g rq project =
     (let owns = (\<lambda>ns. \<exists>rk rk'. projectForName (svNamespace sv) (swaps mo) ns rk = (Inr project, rk')) in
      case g of
        ProjectCap _ \<Rightarrow> project = apiName rq
      | NamespaceCap _ \<Rightarrow> owns (apiName rq)
      | QueryCap _ \<Rightarrow> owns (values_Get (URL_Query (apiQuery rq)) ''namespace'')
      | _ \<Rightarrow> True)"

definition guard_met :: "'k services \<Rightarrow> 'k moment \<Rightarrow> guard \<Rightarrow> api_request \<Rightarrow> string \<Rightarrow> request_context \<Rightarrow> bool" where
  "guard_met sv mo g rq email cx =
     (case guard_cap g of
        Some name \<Rightarrow>
          (\<exists>access role. cxAccess cx = Some access \<and> role \<noteq> [] \<and> standing sv email role access \<and>
             Holds (paRole access) name \<and> about_project sv mo g rq (paProject access))
      | None \<Rightarrow>
          (case g of SignedIn \<Rightarrow> True | DeployerUp \<Rightarrow> cxRole cx \<in> {Role_Admin, Role_Deployer} | _ \<Rightarrow> cxRole cx = Role_Admin))"

lemma RequireRole_pass: "RequireRole roles cx = Pass cx' \<longleftrightarrow> cxRole cx \<in> set roles \<and> cx' = cx"
  by (auto simp: RequireRole_def get_fold_put_True Let_def)

lemma RequireCapability_pass:
  "RequireCapability name cx = Pass cx' \<longleftrightarrow> cx' = cx \<and> (\<exists>access. cxAccess cx = Some access \<and> Holds (paRole access) name)"
  by (auto simp: RequireCapability_def Allows_def split: option.splits)

lemma and_then_pass: "and_then p f = (Pass cx', r') \<longleftrightarrow> (\<exists>cx. p = (Pass cx, r') \<and> f cx = Pass cx')"
  by (cases p; cases "fst p") (auto simp: and_then_def)

lemma scopeBy_pass:
  "scopeBy resolve sv mo rq cx r = (Pass cx', r') \<longleftrightarrow>
     (\<exists>claims access. cxUser cx = Some claims \<and> resolve sv mo (acEmail claims) (apiName rq) r = (Some access, r') \<and>
        cx' = cx\<lparr>cxAccess := Some access\<rparr>)"
  by (auto simp: scopeBy_def split: option.splits prod.splits)

lemma ProjectScopeQuery_pass:
  "ProjectScopeQuery sv mo rq cx r = (Pass cx', r') \<Longrightarrow>
     \<exists>claims access. cxUser cx = Some claims \<and>
       Resolve sv mo (acEmail claims) (values_Get (URL_Query (apiQuery rq)) ''namespace'') r = (Some access, r') \<and>
       cx' = cx\<lparr>cxAccess := Some access\<rparr>"
  by (auto simp: ProjectScopeQuery_def Let_def split: option.splits prod.splits if_splits)

lemma run_guard_met:
  assumes "run_guard g sv mo rq cx r = (Pass cx', r')" and "cxUser cx = Some claims"
  shows "guard_met sv mo g rq (acEmail claims) cx' \<and> cxUser cx' = Some claims \<and> cxRole cx' = cxRole cx"
proof (cases g)
  case (ProjectCap name)
  then obtain access where "ResolveProject sv mo (acEmail claims) (apiName rq) r = (Some access, r')"
      "cx' = cx\<lparr>cxAccess := Some access\<rparr>" "Holds (paRole access) name"
    using assms by (auto simp: run_guard_def ProjectScope_def and_then_pass scopeBy_pass RequireCapability_pass)
  then show ?thesis
    using assms(2) ResolveProject_standing ProjectCap by (fastforce simp: guard_met_def guard_cap_def about_project_def)
next
  case (NamespaceCap name)
  then obtain access where a: "Resolve sv mo (acEmail claims) (apiName rq) r = (Some access, r')"
      "cx' = cx\<lparr>cxAccess := Some access\<rparr>" "Holds (paRole access) name"
    using assms by (auto simp: run_guard_def NamespaceScope_def and_then_pass scopeBy_pass RequireCapability_pass)
  then show ?thesis
    using assms(2) Resolve_standing [OF a(1)] NamespaceCap by (auto simp: guard_met_def guard_cap_def about_project_def)
next
  case (QueryCap name)
  then obtain access where a: "Resolve sv mo (acEmail claims) (values_Get (URL_Query (apiQuery rq)) ''namespace'') r = (Some access, r')"
      "cx' = cx\<lparr>cxAccess := Some access\<rparr>" "Holds (paRole access) name"
    using assms by (auto simp: run_guard_def and_then_pass RequireCapability_pass dest!: ProjectScopeQuery_pass)
  then show ?thesis
    using assms(2) Resolve_standing [OF a(1)] QueryCap by (auto simp: guard_met_def guard_cap_def about_project_def)
qed (use assms in \<open>auto simp: run_guard_def guard_met_def guard_cap_def RequireRole_pass and_then_pass ProjectScope_def scopeBy_pass\<close>)

lemma serve_pass:
  assumes "serve parse a sv rt c mo1 mo2 rq (ks, r) = (Pass cx, w')"
  obtains claims raw ks' where "extractBearerToken (apiAuthorization rq) = Some raw"
    and "parse \<lparr>roMethods = [''RS256''], roIssuer = auIssuer a, roAudiences = [auAudience a, CLIAudience]\<rparr> (JWKSKeyFunc c) raw ks = (Some claims, ks')"
    and "EmailUsableForAuth claims" and "cxUser cx = Some claims" and "cxRole cx \<noteq> []"
    and "guard_met sv mo2 (rtGuard rt) rq (acEmail claims) cx"
proof -
  obtain claims ks1 where v: "extractAndValidate parse a c (apiAuthorization rq) ks = (Some claims, ks1)"
    using assms by (auto simp: serve_def Auth_Handler_def split: prod.splits option.splits)
  define cx0 where "cx0 = empty_context\<lparr>cxUser := Some claims\<rparr>"
  have "Auth_Handler parse a c rq empty_context ks = (Pass cx0, ks1)" by (simp add: Auth_Handler_def v cx0_def)
  then obtain cx1 r1 r2 where m: "RoleMiddleware sv mo1 cx0 r = (Pass cx1, r1)" "run_guard (rtGuard rt) sv mo2 rq cx1 r1 = (Pass cx, r2)"
    using assms by (auto simp: serve_def split: prod.splits passage.splits)
  have "cxUser cx1 = Some claims" "cxRole cx1 \<noteq> []"
    using m(1) by (auto simp: RoleMiddleware_def cx0_def split: prod.splits if_splits)
  moreover from this have "guard_met sv mo2 (rtGuard rt) rq (acEmail claims) cx" "cxUser cx = Some claims" "cxRole cx = cxRole cx1"
    using run_guard_met [OF m(2)] by simp_all
  moreover obtain raw where "extractBearerToken (apiAuthorization rq) = Some raw"
    "parse \<lparr>roMethods = [''RS256''], roIssuer = auIssuer a, roAudiences = [auAudience a, CLIAudience]\<rparr> (JWKSKeyFunc c) raw ks = (Some claims, ks1)"
    "EmailUsableForAuth claims"
    using v by (auto simp: extractAndValidate_def split: option.splits prod.splits if_splits)
  ultimately show thesis using that by simp
qed


definition demo_claims :: "string \<Rightarrow> auth_claims" where
  "demo_claims email = \<lparr>cIssuer = ''dex'', cSubject = email, cAudience = [DefaultAudience], cExpiresAt = Some (900 * second),
     cNotBefore = None, cIssuedAt = None, cID = [], acEmail = email, acEmailVerified = None, acName = [], acGroups = []\<rparr>"

definition demo_parse :: rs_parser where
  "demo_parse opt kf raw ks = (if roIssuer opt = ''dex'' then (Some (demo_claims raw), ks) else (None, ks))"

definition demo_auth :: Auth where
  "demo_auth = \<lparr>auIssuer = ''dex'', auAudience = DefaultAudience\<rparr>"

definition demo_services :: "table services" where
  "demo_services = \<lparr>svUsers = table_client, svJson = line_json, svNamespace = (\<lambda>n k. (Inl NotFound, k)),
     svProject = (\<lambda>n k. (Inr \<lparr>pName = n, pMembers = [(''ann'', ''deployer''), (''cid'', ''owner'')], pNamespaces = [], pClaims = []\<rparr>, k))\<rparr>"

definition demo_moment :: "table moment" where
  "demo_moment = \<lparr>at0 = 100 * second, at1 = 100 * second, at2 = 100 * second, swaps = []\<rparr>"

definition demo_resolver :: "table resolver" where
  "demo_resolver = \<lparr>rsvRoles = NewRoleStore, rsvOwners = NewOwners None, rsvKube = demo_users\<rparr>"

definition demo_request :: "string \<Rightarrow> api_request" where
  "demo_request email = \<lparr>apiAuthorization = ''Bearer '' @ email, apiName = ''shop'', apiQuery = []\<rparr>"

definition demo_serve :: "route \<Rightarrow> string \<Rightarrow> passage \<times> jwks \<times> table resolver" where
  "demo_serve rt email = serve demo_parse demo_auth demo_services rt (demo_key_call (100 * second) None) demo_moment demo_moment
     (demo_request email) (new_jwks, demo_resolver)"

definition demo_scale :: route where
  "demo_scale = \<lparr>rtMethod = ''PUT'', rtPath = ''/projects/{name}/apps/{app}/scale'', rtGuard = NamespaceCap ''kipper.write''\<rparr>"

lemma demo_passes:
  obtains cx w' where "demo_serve demo_scale ''ann'' = (Pass cx, w')"
proof -
  have "(case fst (demo_serve demo_scale ''ann'') of Stop _ \<Rightarrow> False | Pass _ \<Rightarrow> True)" by code_simp
  then show thesis using that by (cases "demo_serve demo_scale ''ann''") (auto split: passage.splits)
qed


text \<open>The rows of the table that change something and take a capability.\<close>

definition function_diagnosis :: string where
  "function_diagnosis = ''/projects/{name}/functions/{fn}/diagnose''"

definition owner_capabilities :: "string list" where
  "owner_capabilities = [''members.manage'', ''project.settings'', ''project.delete'']"

definition viewer_names :: "string list" where
  "viewer_names = [''database.read'', ''env.read'', ''kipper.read'', ''members.read'', ''pods.logs.read'', ''project.read'',
     ''storage.read'', ''workloads.read'']"

lemma viewer_holds: "Holds RoleViewer name \<longleftrightarrow> name \<in> set viewer_names"
proof -
  have "BuiltIn RoleViewer = viewer_names" by code_simp
  then show ?thesis by (simp add: Holds_iff)
qed

definition changes_something :: "route \<Rightarrow> bool" where
  "changes_something rt = (if rtMethod rt = ''GET'' then False else rtPath rt \<noteq> function_diagnosis)"

definition kept_from_viewers :: "route \<Rightarrow> bool" where
  "kept_from_viewers rt =
     (case guard_cap (rtGuard rt) of None \<Rightarrow> True
      | Some name \<Rightarrow> if changes_something rt then \<not> List.member viewer_names name else True)"

lemma changing_routes_table: "list_all kept_from_viewers console_routes"
proof -
  have "list_all kept_from_viewers routes_platform_services" by code_simp
  moreover have "list_all kept_from_viewers routes_projects" by code_simp
  moreover have "list_all kept_from_viewers routes_namespace_functions" by code_simp
  moreover have "list_all kept_from_viewers routes_namespace_apps" by code_simp
  moreover have "list_all kept_from_viewers routes_storage_admin" by code_simp
  ultimately show ?thesis by (simp add: console_routes_def)
qed

lemma owner_capabilities_table: "list_all (\<lambda>name. \<not> Holds RoleViewer name \<and> \<not> Holds RoleDeployer name) owner_capabilities"
  by code_simp



end
