(* ===== verification/Member_Binding.thy ===== *)
theory Member_Binding
  imports Go_Encoding "HOL-Library.Char_ord"
begin

text \<open>
  The names of the RoleBindings that project membership writes
  (\<^verbatim>\<open>controller/pkg/memberbinding/memberbinding.go\<close>). SHA-256 is the parameter \<open>sha\<close>, as its 32 bytes.
\<close>

definition binding_prefix :: string where
  "binding_prefix = ''kipper-''"

definition digestLength :: nat where
  "digestLength = 32"

definition binding_digest :: "(string \<Rightarrow> string) \<Rightarrow> string \<Rightarrow> string" where
  "binding_digest sha s = take digestLength (hex_EncodeToString (sha s))"

definition binding_Name :: "(string \<Rightarrow> string) \<Rightarrow> string \<Rightarrow> string \<Rightarrow> string" where
  "binding_Name sha project role = binding_prefix @ binding_digest sha project @ ''-'' @ binding_digest sha role"

definition binding_Prefix :: "(string \<Rightarrow> string) \<Rightarrow> string \<Rightarrow> string" where
  "binding_Prefix sha project = binding_prefix @ binding_digest sha project @ ''-''"

definition LegacyNames :: "string list" where
  "LegacyNames = [''kipper-project-owner'', ''kipper-project-deployer'', ''kipper-project-viewer'']"

definition isDigest :: "string \<Rightarrow> bool" where
  "isDigest s =
     (if length s \<noteq> digestLength then False
      else list_all (\<lambda>c. (CHR ''0'' \<le> c \<and> c \<le> CHR ''9'') \<or> (CHR ''a'' \<le> c \<and> c \<le> CHR ''f'')) s)"

definition CutPrefix :: "string \<Rightarrow> string \<Rightarrow> string \<times> bool" where
  "CutPrefix s p = (if HasPrefix s p then (drop (length p) s, True) else (s, False))"

definition IsManaged :: "string \<Rightarrow> bool" where
  "IsManaged name =
     (if list_ex (\<lambda>legacy. name = legacy) LegacyNames then True
      else (case CutPrefix name binding_prefix of
              (rest, found_prefix) \<Rightarrow>
                if \<not> found_prefix then False
                else (case Cut rest (CHR ''-'') of
                        (project, role, found) \<Rightarrow> if \<not> found then False else isDigest project \<and> isDigest role)))"

definition ProjectPrefixOf :: "string \<Rightarrow> string option" where
  "ProjectPrefixOf name =
     (case CutPrefix name binding_prefix of
        (rest, found_prefix) \<Rightarrow>
          if \<not> found_prefix then None
          else (case Cut rest (CHR ''-'') of
                  (project, role, found) \<Rightarrow>
                    if \<not> found \<or> \<not> isDigest project \<or> \<not> isDigest role then None
                    else Some (binding_prefix @ project @ ''-'')))"

subsection \<open>Names and their attribution\<close>

lemma Cut_eq: "Cut s c = (a, b, True) \<longleftrightarrow> s = a @ c # b \<and> c \<notin> set a"
proof
  assume "s = a @ c # b \<and> c \<notin> set a"
  then show "Cut s c = (a, b, True)" by simp
next
  assume cut: "Cut s c = (a, b, True)"
  then have "c \<in> set s" by (simp add: Cut_def split: if_splits)
  then obtain x y where s: "s = x @ c # y" "c \<notin> set x" by (meson split_list_first)
  then show "s = a @ c # b \<and> c \<notin> set a" using cut by simp
qed

lemma digest_chars: "isDigest s \<Longrightarrow> CHR ''-'' \<notin> set s"
proof
  assume "isDigest s" and "CHR ''-'' \<in> set s"
  then have "(CHR ''0'' \<le> CHR ''-'' \<and> CHR ''-'' \<le> CHR ''9'') \<or> (CHR ''a'' \<le> CHR ''-'' \<and> CHR ''-'' \<le> CHR ''f'')"
    by (auto simp: isDigest_def list_all_iff split: if_splits)
  moreover have "\<not> ((CHR ''0'' \<le> CHR ''-'' \<and> CHR ''-'' \<le> CHR ''9'') \<or> (CHR ''a'' \<le> CHR ''-'' \<and> CHR ''-'' \<le> CHR ''f''))"
    by code_simp
  ultimately show False by blast
qed

lemma digest_isDigest: "length (sha s) = 32 \<Longrightarrow> isDigest (binding_digest sha s)"
proof -
  have "list_all (\<lambda>c. (CHR ''0'' \<le> c \<and> c \<le> CHR ''9'') \<or> (CHR ''a'' \<le> c \<and> c \<le> CHR ''f'')) hex_digits" by code_simp
  then show "length (sha s) = 32 \<Longrightarrow> isDigest (binding_digest sha s)"
    using set_hex [of "sha s"] set_take_subset [of digestLength "hex_EncodeToString (sha s)"]
    by (auto simp: isDigest_def binding_digest_def digestLength_def list_all_iff)
qed

lemma ProjectPrefixOf_iff:
  "ProjectPrefixOf name = Some q \<longleftrightarrow>
     (\<exists>d e. isDigest d \<and> isDigest e \<and> name = binding_prefix @ d @ ''-'' @ e \<and> q = binding_prefix @ d @ ''-'')"
proof
  assume "ProjectPrefixOf name = Some q"
  then obtain d e where "HasPrefix name binding_prefix" "Cut (drop (length binding_prefix) name) (CHR ''-'') = (d, e, True)"
      "isDigest d" "isDigest e" "q = binding_prefix @ d @ ''-''"
    by (auto simp: ProjectPrefixOf_def CutPrefix_def split: if_splits prod.splits)
  then show "\<exists>d e. isDigest d \<and> isDigest e \<and> name = binding_prefix @ d @ ''-'' @ e \<and> q = binding_prefix @ d @ ''-''"
    by (auto simp: Cut_eq HasPrefix_iff)
next
  assume "\<exists>d e. isDigest d \<and> isDigest e \<and> name = binding_prefix @ d @ ''-'' @ e \<and> q = binding_prefix @ d @ ''-''"
  then show "ProjectPrefixOf name = Some q"
    by (auto simp: ProjectPrefixOf_def CutPrefix_def digest_chars)
qed

lemma IsManaged_iff: "IsManaged name \<longleftrightarrow> name \<in> set LegacyNames \<or> ProjectPrefixOf name \<noteq> None"
  by (auto simp: IsManaged_def ProjectPrefixOf_def list_ex_iff split: prod.splits)



end
