(* ===== verification/Env_Template.thy ===== *)
theory Env_Template
  imports Go_Encoding "HOL-Library.List_Lexorder" "HOL-Library.Char_ord"
begin

text \<open>
  References in environment values (\<^verbatim>\<open>controller/pkg/envtemplate/envtemplate.go\<close>): the grammar of
  \<open>${NAME}\<close>, its rendering with and without masked secrets, and the readers that share the grammar.

  \<open>walk\<close> calls two functions of its caller in the order of the text; here it is the list of those
  calls, which each caller folds over. A position in the text is the suffix that starts there.
\<close>

subsection \<open>Placeholders\<close>

definition validName :: "string \<Rightarrow> bool" where
  "validName name =
     (if name = [] then False
      else list_all (\<lambda>(i, c).
             if (CHR ''a'' \<le> c \<and> c \<le> CHR ''z'') \<or> (CHR ''A'' \<le> c \<and> c \<le> CHR ''Z'') \<or> c = CHR ''_'' then True
             else if CHR ''0'' \<le> c \<and> c \<le> CHR ''9'' then i \<noteq> 0
             else False) (enumerate 0 name))"

record reference =
  refName :: string
  refUrlencode :: bool
  refWidth :: nat

definition IndexByte :: "string \<Rightarrow> char \<Rightarrow> nat option" where
  "IndexByte s c = find (\<lambda>i. s ! i = c) [0..<length s]"

definition parsePlaceholder :: "string \<Rightarrow> reference option" where
  "parsePlaceholder s =
     (if length s < 4 \<or> s ! 0 \<noteq> CHR ''$'' \<or> s ! 1 \<noteq> CHR ''{'' then None
      else (case IndexByte s (CHR ''}'') of
              None \<Rightarrow> None
            | Some close \<Rightarrow>
                let body = drop 2 (take close s);
                    (name, modifier, hasModifier) =
                      (case IndexByte body (CHR '':'') of
                         None \<Rightarrow> (body, [], False)
                       | Some colon \<Rightarrow> (take colon body, drop (colon + 1) body, True))
                in if \<not> validName name then None
                   else if \<not> hasModifier then Some \<lparr>refName = name, refUrlencode = False, refWidth = close + 1\<rparr>
                   else if modifier = ''urlencode'' then Some \<lparr>refName = name, refUrlencode = True, refWidth = close + 1\<rparr>
                   else None))"

lemma IndexByte_Some: "IndexByte s c = Some i \<Longrightarrow> i < length s \<and> s ! i = c"
  by (auto simp: IndexByte_def find_Some_iff)

lemma parsePlaceholder_width: "parsePlaceholder s = Some r \<Longrightarrow> 0 < refWidth r \<and> refWidth r \<le> length s"
  by (auto simp: parsePlaceholder_def Let_def Suc_le_eq split: if_splits option.splits prod.splits dest!: IndexByte_Some)

subsection \<open>The grammar\<close>

datatype event = Literal string | Ref reference string

function walk :: "string \<Rightarrow> event list" where
  "walk [] = []"
| "walk (c # s) =
     (if c \<noteq> CHR ''$'' then Literal [c] # walk s
      else if s \<noteq> [] \<and> hd s = CHR ''$'' then
        (case parsePlaceholder s of
           Some r \<Rightarrow> Literal (take (refWidth r) s) # walk (drop (refWidth r) s)
         | None \<Rightarrow> Literal ''$$'' # walk (tl s))
      else (case parsePlaceholder (c # s) of
              None \<Rightarrow> Literal ''$'' # walk s
            | Some r \<Rightarrow> Ref r (take (refWidth r) (c # s)) # walk (drop (refWidth r) (c # s))))"
  by pat_completeness auto

termination
  by (relation "measure length") (auto dest: parsePlaceholder_width)

declare walk.simps(2) [simp del]

subsection \<open>Rendering\<close>

record Value =
  Text :: string
  Secret :: bool

type_synonym MaskedLookup = "string \<Rightarrow> Value option"

definition Mask :: string where
  "Mask = concat (replicate 8 [CHR 0xE2, CHR 0x80, CHR 0xA2])"

definition urlEncode_byte :: "char \<Rightarrow> string" where
  "urlEncode_byte c =
     (if (CHR ''a'' \<le> c \<and> c \<le> CHR ''z'') \<or> (CHR ''A'' \<le> c \<and> c \<le> CHR ''Z'') \<or> (CHR ''0'' \<le> c \<and> c \<le> CHR ''9'') \<or>
         c = CHR ''-'' \<or> c = CHR ''.'' \<or> c = CHR ''_'' \<or> c = CHR ''~'' then [c]
      else [CHR ''%'', upper_hex ! (byte c div 16), upper_hex ! (byte c mod 16)])"

definition urlEncodeComponent :: "string \<Rightarrow> string" where
  "urlEncodeComponent s = concat (map urlEncode_byte s)"

definition resolve_event :: "MaskedLookup \<Rightarrow> event \<Rightarrow> string \<times> (string, bool) gomap \<Rightarrow> string \<times> (string, bool) gomap" where
  "resolve_event lookup e st =
     (case st of (out, unresolved) \<Rightarrow>
        (case e of
           Literal t \<Rightarrow> (out @ t, unresolved)
         | Ref r raw \<Rightarrow>
             (case lookup (refName r) of
                None \<Rightarrow> (out @ raw, put (refName r) True unresolved)
              | Some v \<Rightarrow>
                  if Secret v then (out @ Mask, unresolved)
                  else if refUrlencode r then (out @ urlEncodeComponent (Text v), unresolved)
                  else (out @ Text v, unresolved))))"

definition env_resolve :: "string \<Rightarrow> MaskedLookup \<Rightarrow> string \<times> string list" where
  "env_resolve v lookup =
     (case fold (resolve_event lookup) (walk v) ([], []) of
        (out, unresolved) \<Rightarrow> if unresolved = [] then (out, []) else (out, sort (keys unresolved)))"

definition ResolveMasked :: "string \<Rightarrow> MaskedLookup \<Rightarrow> string \<times> string list" where
  "ResolveMasked v lookup = env_resolve v lookup"

definition Resolve_env :: "string \<Rightarrow> (string \<Rightarrow> string option) \<Rightarrow> string \<times> string list" where
  "Resolve_env v lookup = env_resolve v (\<lambda>name. map_option (\<lambda>t. \<lparr>Text = t, Secret = False\<rparr>) (lookup name))"

definition ResolveAll :: "(string, string) gomap \<Rightarrow> (string \<Rightarrow> string option) \<Rightarrow> (string, string) gomap \<times> string list" where
  "ResolveAll vals lookup =
     (case fold (\<lambda>(k, v) (out, seen).
              case Resolve_env v lookup of
                (resolved, missing) \<Rightarrow> (put k resolved out, fold (\<lambda>n m. put n True m) missing seen)) vals ([], []) of
        (out, seen) \<Rightarrow> if seen = [] then (out, []) else (out, sort (keys seen)))"

subsection \<open>Other readers of the grammar\<close>

definition StripPlaceholders :: "string \<Rightarrow> string" where
  "StripPlaceholders v = fold (\<lambda>e out. case e of Literal t \<Rightarrow> out @ t | Ref _ _ \<Rightarrow> out) (walk v) []"

definition note_name :: "string \<Rightarrow> string list \<times> (string, bool) gomap \<Rightarrow> string list \<times> (string, bool) gomap" where
  "note_name n st = (case st of (names, seen) \<Rightarrow>
     if get seen n = Some True then (names, seen) else (names @ [n], put n True seen))"

definition Names :: "string \<Rightarrow> string list" where
  "Names v = fst (fold (\<lambda>e st. case e of Literal _ \<Rightarrow> st | Ref r _ \<Rightarrow> note_name (refName r) st) (walk v) ([], []))"

function shell_refs :: "string \<Rightarrow> string list \<times> (string, bool) gomap \<Rightarrow> string list \<times> (string, bool) gomap" where
  "shell_refs s st =
     (if length s \<le> 3 then st
      else if s ! 0 \<noteq> CHR ''$'' \<or> s ! 1 \<noteq> CHR ''('' then shell_refs (tl s) st
      else (case IndexByte s (CHR '')'') of
              None \<Rightarrow> st
            | Some close \<Rightarrow>
                let name = drop 2 (take close s) in
                if \<not> validName name then shell_refs (tl s) st
                else shell_refs (drop (close + 1) s) (note_name name st)))"
  by pat_completeness auto

termination
  by (relation "measure (length \<circ> fst)") auto

declare shell_refs.simps [simp del]

definition ShellStyleRefs :: "string \<Rightarrow> string list" where
  "ShellStyleRefs v = fst (shell_refs v ([], []))"

subsection \<open>Reading a placeholder back\<close>

definition placeholder :: "string \<Rightarrow> bool \<Rightarrow> string" where
  "placeholder name urlencode = ''${'' @ name @ (if urlencode then '':urlencode'' else []) @ ''}''"

lemma valid_chars: "validName name \<Longrightarrow> CHR ''}'' \<notin> set name \<and> CHR '':'' \<notin> set name \<and> CHR ''$'' \<notin> set name \<and> name \<noteq> []"
proof -
  assume v: "validName name"
  have "c \<noteq> CHR ''}'' \<and> c \<noteq> CHR '':'' \<and> c \<noteq> CHR ''$''" if c: "c \<in> set name" for c
  proof -
    obtain i where "i < length name" "c = name ! i" using c unfolding in_set_conv_nth by blast
    then have "(i, c) \<in> set (enumerate 0 name)" by (simp add: in_set_enumerate_eq)
    then have "(CHR ''a'' \<le> c \<and> c \<le> CHR ''z'') \<or> (CHR ''A'' \<le> c \<and> c \<le> CHR ''Z'') \<or> c = CHR ''_'' \<or> (CHR ''0'' \<le> c \<and> c \<le> CHR ''9'')"
      using v by (auto simp: validName_def list_all_iff split: if_splits)
    then show ?thesis by (auto simp: less_eq_char_def)
  qed
  then show ?thesis using v by (auto simp: validName_def)
qed

lemma IndexByte_append: "c \<notin> set a \<Longrightarrow> IndexByte (a @ c # b) c = Some (length a)"
  unfolding IndexByte_def find_Some_iff
  by (intro exI [of _ "length a"]) (auto simp: nth_append dest: nth_mem)

lemma IndexByte_None: "c \<notin> set s \<Longrightarrow> IndexByte s c = None"
  by (auto simp: IndexByte_def find_None_iff dest: nth_mem)

lemma IndexByte_first:
  assumes "IndexByte s c = Some i"
  shows "s = take i s @ c # drop (Suc i) s" and "c \<notin> set (take i s)"
proof -
  have i: "i < length s" "s ! i = c" "\<And>k. k < i \<Longrightarrow> s ! k \<noteq> c"
    using assms by (auto simp: IndexByte_def find_Some_iff)
  then show "s = take i s @ c # drop (Suc i) s" by (metis id_take_nth_drop)
  show "c \<notin> set (take i s)" using i by (auto simp: in_set_conv_nth)
qed

lemma parse_placeholder:
  assumes "validName name"
  shows "parsePlaceholder (placeholder name u @ rest) =
    Some \<lparr>refName = name, refUrlencode = u, refWidth = length (placeholder name u)\<rparr>"
proof -
  note v = valid_chars [OF assms]
  let ?body = "name @ (if u then '':urlencode'' else [])"
  have "IndexByte (''${'' @ ?body @ CHR ''}'' # rest) (CHR ''}'') = Some (length (''${'' @ ?body))"
    using v IndexByte_append [of "CHR ''}''" "''${'' @ ?body" rest] by auto
  then have "IndexByte (placeholder name u @ rest) (CHR ''}'') = Some (length (''${'' @ ?body))"
    by (simp add: placeholder_def)
  moreover have "IndexByte ?body (CHR '':'') = (if u then Some (length name) else None)"
    using v IndexByte_append [of "CHR '':''" name "''urlencode''"] by (auto simp: IndexByte_None)
  moreover have "0 < length name" using v by simp
  ultimately show ?thesis
    using assms by (simp add: parsePlaceholder_def placeholder_def Let_def)
qed

lemma parse_placeholderD:
  assumes "parsePlaceholder s = Some r"
  shows "validName (refName r)" and "take (refWidth r) s = placeholder (refName r) (refUrlencode r)"
proof -
  have p: "\<not> (length s < 4 \<or> s ! 0 \<noteq> CHR ''$'' \<or> s ! 1 \<noteq> CHR ''{'')"
    using assms by (auto simp: parsePlaceholder_def split: if_splits)
  then obtain t where s: "s = ''${'' @ t" by (cases s; cases "tl s") auto
  obtain close where c: "IndexByte s (CHR ''}'') = Some close"
    using assms p by (auto simp: parsePlaceholder_def split: option.splits)
  note f = IndexByte_first [OF c]
  have close: "2 \<le> close" using IndexByte_Some [OF c] s by (cases close; cases "close - 1") auto
  define body where "body = drop 2 (take close s)"
  have "take close s = ''${'' @ body"
    using close by (simp add: s body_def take_Cons' drop_Cons')
  then have t: "take (close + 1) s = ''${'' @ body @ ''}''"
    using f(1) IndexByte_Some [OF c] by (simp add: take_Suc_conv_app_nth)
  show "validName (refName r)" and "take (refWidth r) s = placeholder (refName r) (refUrlencode r)"
    using assms p c t body_def [symmetric] IndexByte_first [of body "CHR '':''"]
    by (auto simp: parsePlaceholder_def placeholder_def Let_def split: option.splits if_splits)
qed

subsection \<open>Rendering\<close>

definition render_event :: "MaskedLookup \<Rightarrow> event \<Rightarrow> string" where
  "render_event lookup e =
     (case e of
        Literal t \<Rightarrow> t
      | Ref r raw \<Rightarrow>
          (case lookup (refName r) of
             None \<Rightarrow> raw
           | Some v \<Rightarrow> if Secret v then Mask else if refUrlencode r then urlEncodeComponent (Text v) else Text v))"

definition event_names :: "event list \<Rightarrow> string list" where
  "event_names es = concat (map (\<lambda>e. case e of Literal _ \<Rightarrow> [] | Ref r _ \<Rightarrow> [refName r]) es)"

lemma render_Literal [simp]: "render_event lookup (Literal t) = t"
  by (simp add: render_event_def)

lemma event_names_simps [simp]:
  "event_names [] = []" "event_names (Literal t # es) = event_names es" "event_names (Ref r raw # es) = refName r # event_names es"
  by (simp_all add: event_names_def)

lemma fold_resolve_event:
  "fold (resolve_event lookup) es (out, u) =
     (out @ concat (map (render_event lookup) es),
      fold (\<lambda>n m. put n True m) (filter (\<lambda>n. lookup n = None) (event_names es)) u)"
  by (induction es arbitrary: out u)
    (auto simp: resolve_event_def render_event_def split: event.splits option.splits)

lemma env_resolve_eq:
  "fst (env_resolve v lookup) = concat (map (render_event lookup) (walk v))"
  "set (snd (env_resolve v lookup)) = {n \<in> set (event_names (walk v)). lookup n = None}"
  "sorted (snd (env_resolve v lookup)) \<and> distinct (snd (env_resolve v lookup))"
proof -
  define u where "u = fold (\<lambda>n m. put n True m) (filter (\<lambda>n. lookup n = None) (event_names (walk v))) []"
  have r: "env_resolve v lookup = (concat (map (render_event lookup) (walk v)), sort (keys u))"
    by (auto simp: env_resolve_def fold_resolve_event u_def)
  have "set (keys u) = {n \<in> set (event_names (walk v)). lookup n = None}"
    unfolding u_def by (subst keys_fold_put_True) auto
  moreover have "distinct (keys u)"
    using distinct_fold_put_True [of "[]"] unfolding u_def by (simp add: distinct_keys_def)
  ultimately show "fst (env_resolve v lookup) = concat (map (render_event lookup) (walk v))"
    "set (snd (env_resolve v lookup)) = {n \<in> set (event_names (walk v)). lookup n = None}"
    "sorted (snd (env_resolve v lookup)) \<and> distinct (snd (env_resolve v lookup))"
    by (simp_all add: r del: set_map)
qed

lemma Names_eq: "set (Names v) = set (event_names (walk v)) \<and> distinct (Names v)"
proof -
  have "\<forall>n. get seen n = Some True \<longleftrightarrow> n \<in> set names \<Longrightarrow> distinct names \<Longrightarrow>
      (case fold (\<lambda>e st. case e of Literal _ \<Rightarrow> st | Ref r _ \<Rightarrow> note_name (refName r) st) es (names, seen) of
         (names', seen') \<Rightarrow> set names' = set names \<union> set (event_names es) \<and> distinct names')" for es names seen
  proof (induction es arbitrary: names seen)
    case (Cons e es)
    show ?case
    proof (cases e)
      case (Literal t)
      then show ?thesis using Cons by simp
    next
      case (Ref r raw)
      have "\<forall>n. get (put (refName r) True seen) n = Some True \<longleftrightarrow> n \<in> set (names @ [refName r])"
        using Cons.prems(1) by (auto simp: update_conv')
      then show ?thesis
        using Ref Cons.prems Cons.IH [of seen names] Cons.IH [of "put (refName r) True seen" "names @ [refName r]"]
        by (auto simp: note_name_def)
    qed
  qed simp
  from this [of "[]" "[]" "walk v"] show ?thesis by (simp add: Names_def split_def)
qed

lemma walk_plain: "CHR ''$'' \<notin> set a \<Longrightarrow> walk (a @ b) = map (\<lambda>c. Literal [c]) a @ walk b"
  by (induction a) (auto simp: walk.simps(2))

lemma render_plain [simp]: "concat (map (render_event lookup \<circ> (\<lambda>c. Literal [c])) a) = a"
  by (induction a) (simp_all add: render_event_def)

lemma walk_placeholder:
  assumes "validName name"
  shows "walk (placeholder name u @ b) =
     Ref \<lparr>refName = name, refUrlencode = u, refWidth = length (placeholder name u)\<rparr> (placeholder name u) # walk b"
    and "walk (CHR ''$'' # placeholder name u @ b) = Literal (placeholder name u) # walk b"
proof -
  note p = parse_placeholder [OF assms, of u b]
  obtain t where t: "placeholder name u @ b = CHR ''$'' # CHR ''{'' # t" by (simp add: placeholder_def)
  have "walk (CHR ''$'' # CHR ''{'' # t) =
      (case parsePlaceholder (CHR ''$'' # CHR ''{'' # t) of
         None \<Rightarrow> Literal ''$'' # walk (CHR ''{'' # t)
       | Some r \<Rightarrow> Ref r (take (refWidth r) (CHR ''$'' # CHR ''{'' # t)) # walk (drop (refWidth r) (CHR ''$'' # CHR ''{'' # t)))"
    by (subst walk.simps(2)) simp
  from this [folded t]
  show "walk (placeholder name u @ b) =
     Ref \<lparr>refName = name, refUrlencode = u, refWidth = length (placeholder name u)\<rparr> (placeholder name u) # walk b"
    using p by simp
  have "placeholder name u @ b \<noteq> []" "hd (placeholder name u @ b) = CHR ''$''" using t by simp_all
  then show "walk (CHR ''$'' # placeholder name u @ b) = Literal (placeholder name u) # walk b"
    using p by (simp add: walk.simps(2))
qed

lemma no_reference_walk: "\<not> Contains v ''${'' \<Longrightarrow> concat (map (render_event lookup) (walk v)) = v \<and> event_names (walk v) = []"
proof (induction v rule: walk.induct)
  case 1
  then show ?case by simp
next
  case (2 c s)
  have sub: "\<not> Contains t ''${''" if "c # s = p @ t" for p t
  proof
    assume "Contains t ''${''"
    then obtain a b where "t = a @ ''${'' @ b" unfolding Contains_iff by blast
    then have "c # s = (p @ a) @ ''${'' @ b" using that by simp
    then show False using "2.prems" unfolding Contains_iff by blast
  qed
  have none: "parsePlaceholder t = None" if "c # s = p @ t" for p t
  proof (rule ccontr)
    assume "parsePlaceholder t \<noteq> None"
    then obtain r where r: "parsePlaceholder t = Some r" by blast
    have "take (refWidth r) t = placeholder (refName r) (refUrlencode r)" by (rule parse_placeholderD(2) [OF r])
    then have "t = [] @ ''${'' @ (refName r @ (if refUrlencode r then '':urlencode'' else []) @ ''}'' @ drop (refWidth r) t)"
      using append_take_drop_id [of "refWidth r" t] by (simp add: placeholder_def)
    then have "Contains t ''${''" unfolding Contains_iff by blast
    then show False using sub [OF that] by simp
  qed
  show ?case
  proof (cases "c = CHR ''$'' \<and> s \<noteq> [] \<and> hd s = CHR ''$''")
    case True
    then obtain s' where s: "s = CHR ''$'' # s'" by (cases s) auto
    have n: "parsePlaceholder s = None" using none [of "[c]" s] by simp
    have "\<not> Contains s' ''${''" using sub [of "[c, CHR ''$'']" s'] s by simp
    then have "concat (map (render_event lookup) (walk s')) = s' \<and> event_names (walk s') = []"
      using "2.IH"(2) True n s by simp
    then show ?thesis
      using True n s by (simp add: walk.simps(2))
  next
    case False
    moreover have "parsePlaceholder (c # s) = None" using none [of "[]"] by simp
    moreover have "\<not> Contains s ''${''" using sub [of "[c]" s] by simp
    ultimately show ?thesis
      using "2.IH"(1,4) by (cases "c = CHR ''$''") (auto simp: walk.simps(2))
  qed
qed



text \<open>
  C33. A masked preview depends on no secret. Two lookups that know the same names, mark the same ones as
  secret and agree on the values that are not, give the same preview, whatever the secret values
  are, their lengths included.
\<close>

theorem preview_hides_secrets:
  assumes "\<And>n. map_option Secret (l1 n) = map_option Secret (l2 n)"
    and "\<And>n v1 v2. l1 n = Some v1 \<Longrightarrow> l2 n = Some v2 \<Longrightarrow> \<not> Secret v1 \<Longrightarrow> Text v1 = Text v2"
  shows "ResolveMasked v l1 = ResolveMasked v l2"
proof -
  have "resolve_event l1 e (out, u) = resolve_event l2 e (out, u)" for e out u
  proof (cases e)
    case (Ref r raw)
    show ?thesis
    proof (cases "l1 (refName r)")
      case None
      then have "l2 (refName r) = None" using assms(1) [of "refName r"] by simp
      then show ?thesis using None Ref by (simp add: resolve_event_def)
    next
      case (Some v1)
      then obtain v2 where v2: "l2 (refName r) = Some v2" "Secret v2 = Secret v1"
        using assms(1) [of "refName r"] by (cases "l2 (refName r)") simp_all
      then show ?thesis
        using Some Ref assms(2) [OF Some v2(1)] by (simp add: resolve_event_def)
    qed
  qed (simp add: resolve_event_def)
  then have "resolve_event l1 = resolve_event l2" by (intro ext) (metis prod.collapse)
  then show ?thesis by (simp add: ResolveMasked_def env_resolve_def)
qed

theorem preview_hides_secrets_witness:
  "ResolveMasked (''key='' @ placeholder ''K'' False) (\<lambda>n. Some \<lparr>Text = ''short'', Secret = True\<rparr>) =
   ResolveMasked (''key='' @ placeholder ''K'' False) (\<lambda>n. Some \<lparr>Text = ''a much longer one'', Secret = True\<rparr>)"
  by (rule preview_hides_secrets) auto

lemma url_byte_plain: "urlEncode_byte c = (if unreserved c then [c] else [CHR ''%'', upper_hex ! (byte c div 16), upper_hex ! (byte c mod 16)])"
proof -
  have "\<forall>c. ((CHR ''a'' \<le> c \<and> c \<le> CHR ''z'') \<or> (CHR ''A'' \<le> c \<and> c \<le> CHR ''Z'') \<or> (CHR ''0'' \<le> c \<and> c \<le> CHR ''9'') \<or>
         c = CHR ''-'' \<or> c = CHR ''.'' \<or> c = CHR ''_'' \<or> c = CHR ''~'') \<longleftrightarrow> unreserved c"
    by code_simp
  then show ?thesis by (simp add: urlEncode_byte_def)
qed

lemma hex_unreserved: "n < 16 \<Longrightarrow> unreserved (upper_hex ! n)"
proof -
  have "list_all (\<lambda>n. unreserved (upper_hex ! n)) [0..<16]" by code_simp
  then show "n < 16 \<Longrightarrow> unreserved (upper_hex ! n)" by (simp add: list_all_iff)
qed

lemma unescape_url_byte: "QueryUnescape (urlEncode_byte c @ s) = map_option ((#) c) (QueryUnescape s)"
proof (cases "unreserved c")
  case True
  then have "c \<noteq> CHR ''%''" "c \<noteq> CHR ''+''" by (auto simp: unreserved_def)
  then show ?thesis using True by (simp add: url_byte_plain)
next
  case False
  have "byte c div 16 < 16" by (simp add: less_mult_imp_div_less)
  then show ?thesis
    using False by (auto simp: url_byte_plain unhex_upper split: option.splits)
qed

lemma url_byte_chars: "c' \<in> set (urlEncode_byte c) \<Longrightarrow> unreserved c' \<or> c' = CHR ''%''"
proof -
  have "byte c div 16 < 16" by (simp add: less_mult_imp_div_less)
  then show "c' \<in> set (urlEncode_byte c) \<Longrightarrow> unreserved c' \<or> c' = CHR ''%''"
    by (auto simp: url_byte_plain hex_unreserved split: if_splits)
qed

text \<open>
  The encoding of a value for a URL loses nothing and lets nothing through: it decodes to the value,
  under the decoding that reads a plus as a space too, and it consists of letters, digits, the four
  unreserved marks and percent signs, so no value can end the user, the password or the path it is
  put into.
\<close>

lemma url_encoding_roundtrip:
  "QueryUnescape (urlEncodeComponent s) = Some s \<and>
   list_all (\<lambda>c. unreserved c \<or> c = CHR ''%'') (urlEncodeComponent s) \<and>
   set (urlEncodeComponent s) \<inter> set '':/@?#[]&=+$ '' = {}"
proof (intro conjI)
  show "QueryUnescape (urlEncodeComponent s) = Some s"
    by (induction s) (simp_all add: urlEncodeComponent_def unescape_url_byte)
  show chars: "list_all (\<lambda>c. unreserved c \<or> c = CHR ''%'') (urlEncodeComponent s)"
    using url_byte_chars by (auto simp: urlEncodeComponent_def list_all_iff)
  have "list_all (\<lambda>c. \<not> unreserved c \<and> c \<noteq> CHR ''%'') '':/@?#[]&=+$ ''" by code_simp
  then show "set (urlEncodeComponent s) \<inter> set '':/@?#[]&=+$ '' = {}"
    using chars unfolding list_all_iff by blast
qed

end
