(* ===== verification/Quota.thy ===== *)
theory Quota
  imports External
begin

text \<open>
  The projection of a resource change against the quota of a project's namespace
  (\<^verbatim>\<open>console-api/quota/quota.go\<close>).

  The quantities of the Kubernetes library are a type of any kind with its operations as the
  parameter \<open>q\<close> (\<open>qFormat\<close> stands for \<open>NewMilliQuantity\<close> in the format of a given quantity, \<open>qZero\<close> for
  the zero value a missing entry of a resource list reads as). The scaling of \<open>maxSurge\<close> and the
  clients are parameters too. Milli values are 64-bit and their sums and products wrap around.
\<close>

subsection \<open>Resources\<close>

record 'q quantities =
  qMilli :: "'q \<Rightarrow> int"
  qString :: "'q \<Rightarrow> string"
  qFormat :: "int \<Rightarrow> 'q \<Rightarrow> 'q"
  qParse :: "string \<Rightarrow> 'q option"
  qZero :: 'q

type_synonym 'q resource_list = "(string, 'q) gomap"

record 'q ResourceRequirements =
  Requests :: "'q resource_list"
  Limits :: "'q resource_list"

record 'q PodSpec =
  Containers :: "'q ResourceRequirements list"
  InitContainers :: "'q ResourceRequirements list"

record 'q ResourceQuota =
  quotaHard :: "'q resource_list"
  quotaUsed :: "'q resource_list"

definition list_at :: "'q quantities \<Rightarrow> 'q resource_list \<Rightarrow> string \<Rightarrow> 'q" where
  "list_at q l name = (case get l name of None \<Rightarrow> qZero q | Some v \<Rightarrow> v)"

definition WithContainerResources :: "'q PodSpec option \<Rightarrow> 'q ResourceRequirements \<Rightarrow> 'q PodSpec option" where
  "WithContainerResources spec res =
     (case spec of
        None \<Rightarrow> None
      | Some p \<Rightarrow> if Containers p = [] then Some p else Some (p\<lparr>Containers := res # tl (Containers p)\<rparr>))"

subsection \<open>Pricing a pod\<close>

definition container_milli :: "'q quantities \<Rightarrow> string \<Rightarrow> bool \<Rightarrow> 'q ResourceRequirements \<Rightarrow> int" where
  "container_milli q name limits c =
     (case get (if limits then Limits c else Requests c) name of None \<Rightarrow> 0 | Some v \<Rightarrow> qMilli q v)"

definition podSpecEffectiveMilli :: "'q quantities \<Rightarrow> 'q PodSpec \<Rightarrow> string \<Rightarrow> bool \<Rightarrow> int" where
  "podSpecEffectiveMilli q spec name limits =
     (let total = fold (\<lambda>c n. wrap64 (n + container_milli q name limits c)) (Containers spec) 0;
          initMax = fold (\<lambda>c m. let v = container_milli q name limits c in if m < v then v else m) (InitContainers spec) 0
      in if total < initMax then initMax else total)"

subsection \<open>The projection\<close>

record 'q dimension =
  dimName :: string
  dimHardKey :: string
  dimOld :: "'q resource_list"
  dimNew :: "'q resource_list"
  dimRes :: string
  dimLimits :: bool

definition dimensions :: "'q ResourceRequirements \<Rightarrow> 'q ResourceRequirements \<Rightarrow> 'q dimension list" where
  "dimensions before after =
     [\<lparr>dimName = ''requests.cpu'', dimHardKey = ''requests.cpu'', dimOld = Requests before, dimNew = Requests after, dimRes = ''cpu'', dimLimits = False\<rparr>,
      \<lparr>dimName = ''requests.memory'', dimHardKey = ''requests.memory'', dimOld = Requests before, dimNew = Requests after, dimRes = ''memory'', dimLimits = False\<rparr>,
      \<lparr>dimName = ''limits.cpu'', dimHardKey = ''limits.cpu'', dimOld = Limits before, dimNew = Limits after, dimRes = ''cpu'', dimLimits = True\<rparr>,
      \<lparr>dimName = ''limits.memory'', dimHardKey = ''limits.memory'', dimOld = Limits before, dimNew = Limits after, dimRes = ''memory'', dimLimits = True\<rparr>]"

definition per_pod_delta :: "'q quantities \<Rightarrow> 'q dimension \<Rightarrow> int" where
  "per_pod_delta q d = wrap64 (qMilli q (list_at q (dimNew d) (dimRes d)) - qMilli q (list_at q (dimOld d) (dimRes d)))"

definition projected_milli :: "'q quantities \<Rightarrow> 'q ResourceQuota \<Rightarrow> int \<Rightarrow> int \<Rightarrow> 'q PodSpec option \<Rightarrow> 'q dimension \<Rightarrow> int" where
  "projected_milli q quota replicas surgePods podSpec d =
     (let used = qMilli q (list_at q (quotaUsed quota) (dimHardKey d));
          perPodDelta = per_pod_delta q d;
          steady = wrap64 (used + wrap64 (perPodDelta * replicas))
      in case podSpec of
           None \<Rightarrow> steady
         | Some spec \<Rightarrow>
             if 0 < surgePods then
               (let newPodEff = podSpecEffectiveMilli q spec (dimRes d) (dimLimits d);
                    oldPodEff0 = wrap64 (newPodEff - perPodDelta);
                    oldPodEff = (if oldPodEff0 < 0 then 0 else oldPodEff0);
                    peak = wrap64 (steady + wrap64 (oldPodEff * surgePods))
                in if steady < peak then peak else steady)
             else steady)"

fun fits_dims :: "'q quantities \<Rightarrow> 'q ResourceQuota \<Rightarrow> int \<Rightarrow> int \<Rightarrow> 'q PodSpec option \<Rightarrow> 'q dimension list \<Rightarrow> string \<times> string \<times> string \<times> bool" where
  "fits_dims q quota replicas surgePods podSpec [] = ([], [], [], True)"
| "fits_dims q quota replicas surgePods podSpec (d # ds) =
     (case get (quotaHard quota) (dimHardKey d) of
        None \<Rightarrow> fits_dims q quota replicas surgePods podSpec ds
      | Some hardQty \<Rightarrow>
          let used = qMilli q (list_at q (quotaUsed quota) (dimHardKey d));
              projectedMilli = projected_milli q quota replicas surgePods podSpec d
          in if used < projectedMilli \<and> qMilli q hardQty < projectedMilli
             then (dimName d, qString q (qFormat q projectedMilli hardQty), qString q hardQty, False)
             else fits_dims q quota replicas surgePods podSpec ds)"

definition Fits :: "'q quantities \<Rightarrow> 'q ResourceQuota \<Rightarrow> 'q ResourceRequirements \<Rightarrow> 'q ResourceRequirements \<Rightarrow> int \<Rightarrow> int \<Rightarrow>
    'q PodSpec option \<Rightarrow> string \<times> string \<times> string \<times> bool" where
  "Fits q quota before after replicas0 surgePods podSpec =
     (let replicas = (if replicas0 < 1 then 1 else replicas0)
      in fits_dims q quota replicas surgePods podSpec (dimensions before after))"

subsection \<open>Surge\<close>

datatype IntOrString = FromInt int | FromString string

record 'q Deployment =
  dRecreate :: bool
  dMaxSurge :: "IntOrString option"
  dReplicas :: "int option"
  dTemplate :: "'q PodSpec"

text \<open>\<open>scaled\<close> is \<open>intstr.GetScaledValueFromIntOrPercent\<close> with rounding up.\<close>

definition DeploymentSurgePods :: "(IntOrString \<Rightarrow> int \<Rightarrow> int option) \<Rightarrow> 'q Deployment \<Rightarrow> int \<Rightarrow> int" where
  "DeploymentSurgePods scaled deploy replicas =
     (if dRecreate deploy then 0
      else (case scaled (case dMaxSurge deploy of None \<Rightarrow> FromString ''25%'' | Some m \<Rightarrow> m) replicas of
              None \<Rightarrow> 1
            | Some surge \<Rightarrow> if surge \<le> 0 then 0 else if 2 ^ 31 - 1 < surge then 2 ^ 31 - 1 else surge))"

subsection \<open>Preflight\<close>

record Change =
  CPURequest :: string
  CPULimit :: string
  MemoryRequest :: string
  MemoryLimit :: string

record PreflightResult =
  prFits :: bool
  prDimension :: string
  prProjected :: string
  prHard :: string

definition set_quantity :: "'q quantities \<Rightarrow> string \<Rightarrow> string \<Rightarrow> 'q resource_list \<Rightarrow> 'q resource_list" where
  "set_quantity q key raw l =
     (if raw = [] then l else case qParse q raw of None \<Rightarrow> l | Some v \<Rightarrow> put key v l)"

definition overlay :: "'q quantities \<Rightarrow> 'q ResourceRequirements \<Rightarrow> Change \<Rightarrow> 'q ResourceRequirements" where
  "overlay q base ch =
     \<lparr>Requests = set_quantity q ''memory'' (MemoryRequest ch) (set_quantity q ''cpu'' (CPURequest ch) (Requests base)),
      Limits = set_quantity q ''memory'' (MemoryLimit ch) (set_quantity q ''cpu'' (CPULimit ch) (Limits base))\<rparr>"

definition it_fits :: PreflightResult where
  "it_fits = \<lparr>prFits = True, prDimension = [], prProjected = [], prHard = []\<rparr>"

text \<open>The result and the error; \<open>getQuota\<close> reads the namespace's project quota.\<close>

definition projected :: "'q quantities \<Rightarrow> (kerror + 'q ResourceQuota) \<Rightarrow> 'q ResourceRequirements \<Rightarrow> 'q ResourceRequirements \<Rightarrow> int \<Rightarrow> int \<Rightarrow>
    'q PodSpec option \<Rightarrow> PreflightResult \<times> kerror option" where
  "projected q getQuota before after replicas surgePods podSpec =
     (case getQuota of
        Inl NotFound \<Rightarrow> (it_fits, None)
      | Inl e \<Rightarrow> (it_fits, Some e)
      | Inr rq \<Rightarrow>
          (case Fits q rq before after replicas surgePods podSpec of
             (dim, proj, hard, fits) \<Rightarrow> (\<lparr>prFits = fits, prDimension = dim, prProjected = proj, prHard = hard\<rparr>, None)))"

definition PreflightDeployment :: "'q quantities \<Rightarrow> (IntOrString \<Rightarrow> int \<Rightarrow> int option) \<Rightarrow> (kerror + 'q Deployment) \<Rightarrow> (kerror + 'q ResourceQuota) \<Rightarrow>
    Change \<Rightarrow> PreflightResult \<times> kerror option" where
  "PreflightDeployment q scaled getDeployment getQuota ch =
     (case getDeployment of
        Inl NotFound \<Rightarrow> (it_fits, None)
      | Inl e \<Rightarrow> (it_fits, Some e)
      | Inr deploy \<Rightarrow>
          (case Containers (dTemplate deploy) of
             [] \<Rightarrow> (it_fits, None)
           | before # rest \<Rightarrow>
               let replicas = (case dReplicas deploy of None \<Rightarrow> 1 | Some n \<Rightarrow> n);
                   after = overlay q before ch;
                   podSpec = (dTemplate deploy)\<lparr>Containers := after # rest\<rparr>
               in projected q getQuota before after replicas (DeploymentSurgePods scaled deploy replicas) (Some podSpec)))"

record 'q StatefulSet =
  sReplicas :: "int option"
  sTemplate :: "'q PodSpec"

definition PreflightStatefulSet :: "'q quantities \<Rightarrow> (kerror + 'q StatefulSet) \<Rightarrow> (kerror + 'q ResourceQuota) \<Rightarrow> Change \<Rightarrow> PreflightResult \<times> kerror option" where
  "PreflightStatefulSet q getStatefulSet getQuota ch =
     (case getStatefulSet of
        Inl NotFound \<Rightarrow> (it_fits, None)
      | Inl e \<Rightarrow> (it_fits, Some e)
      | Inr sts \<Rightarrow>
          (case Containers (sTemplate sts) of
             [] \<Rightarrow> (it_fits, None)
           | before # _ \<Rightarrow>
               let replicas = (case sReplicas sts of None \<Rightarrow> 1 | Some n \<Rightarrow> n)
               in projected q getQuota before (overlay q before ch) replicas 0 None))"

subsection \<open>The projection covers the rollout\<close>

definition container_total :: "'q quantities \<Rightarrow> string \<Rightarrow> bool \<Rightarrow> 'q ResourceRequirements list \<Rightarrow> int" where
  "container_total q name limits cs = sum_list (map (container_milli q name limits) cs)"

definition init_max :: "'q quantities \<Rightarrow> string \<Rightarrow> bool \<Rightarrow> 'q ResourceRequirements list \<Rightarrow> int" where
  "init_max q name limits cs = fold max (map (container_milli q name limits) cs) 0"

definition nonneg :: "'q quantities \<Rightarrow> bool" where
  "nonneg q \<longleftrightarrow> (\<forall>v. 0 \<le> qMilli q v) \<and> qMilli q (qZero q) = 0"

lemma container_nonneg: "nonneg q \<Longrightarrow> 0 \<le> container_milli q name limits c"
  by (auto simp: container_milli_def nonneg_def split: option.splits)

lemma total_nonneg: "nonneg q \<Longrightarrow> 0 \<le> container_total q name limits cs"
  by (induction cs) (simp_all add: container_total_def container_nonneg)

lemma fold_wrap_sum:
  assumes "nonneg q" and "0 \<le> n" and "n + container_total q name limits cs < 2 ^ 63"
  shows "fold (\<lambda>c n. wrap64 (n + container_milli q name limits c)) cs n = n + container_total q name limits cs"
  using assms(2,3)
proof (induction cs arbitrary: n)
  case (Cons c cs)
  have c: "0 \<le> container_milli q name limits c" by (rule container_nonneg [OF assms(1)])
  have "0 \<le> container_total q name limits cs" by (rule total_nonneg [OF assms(1)])
  then have "wrap64 (n + container_milli q name limits c) = n + container_milli q name limits c"
    using Cons.prems c by (intro wrap64_id) (simp_all add: container_total_def)
  then show ?case
    using Cons.IH [of "n + container_milli q name limits c"] Cons.prems c by (simp add: container_total_def)
qed (simp add: container_total_def)

lemma podSpecEffectiveMilli_eq:
  assumes "nonneg q" and "container_total q name limits (Containers spec) < 2 ^ 63"
  shows "podSpecEffectiveMilli q spec name limits =
    max (container_total q name limits (Containers spec)) (init_max q name limits (InitContainers spec))"
proof -
  have "fold (\<lambda>c m. let v = container_milli q name limits c in if m < v then v else m) cs m =
      fold max (map (container_milli q name limits) cs) m" for cs m
    by (induction cs arbitrary: m) (simp_all add: Let_def max_def)
  then show ?thesis
    using fold_wrap_sum [OF assms(1), of 0 name limits "Containers spec"] assms(2)
    by (simp add: podSpecEffectiveMilli_def Let_def init_max_def max_def)
qed

lemma fits_dims_all:
  assumes "fits_dims q quota replicas surge spec ds = (a, b, c, True)" and "d \<in> set ds" and "get (quotaHard quota) (dimHardKey d) = Some h"
  shows "projected_milli q quota replicas surge spec d \<le> max (qMilli q (list_at q (quotaUsed quota) (dimHardKey d))) (qMilli q h)"
  using assms
  by (induction ds) (auto simp: Let_def split: option.splits if_splits)

text \<open>
  A rolling update at any moment: \<open>fresh\<close> pods of the new size and \<open>old\<close> ones of the old, each at most
  the replicas and together at most the replicas and the surge. What the namespace then uses,
  given what it used when all pods were old.
\<close>

definition rollout_usage :: "int \<Rightarrow> int \<Rightarrow> int \<Rightarrow> int \<Rightarrow> int \<Rightarrow> int \<Rightarrow> int" where
  "rollout_usage used replicas oldPod newPod fresh old = used + fresh * newPod - (replicas - old) * oldPod"

lemma rollout_peak:
  fixes used R S delta oldPod newPod fresh old :: int
  assumes "0 \<le> fresh" "fresh \<le> R" "old \<le> R" "fresh + old \<le> R + S" "0 \<le> oldPod" "oldPod \<le> newPod" "newPod \<le> oldPod + delta"
    and "S \<le> R \<or> newPod = oldPod + delta"
  shows "rollout_usage used R oldPod newPod fresh old \<le> used + R * delta + S * (newPod - delta)"
proof -
  define e where "e = newPod - oldPod"
  have e: "0 \<le> e" "e \<le> delta" using assms by (simp_all add: e_def)
  have "fresh * e \<le> R * e" using assms(2) e(1) by (rule mult_right_mono)
  moreover have "(fresh + old - R) * oldPod \<le> S * oldPod" using assms(4,5) by (intro mult_right_mono) simp_all
  moreover have "(R - S) * e \<le> (R - S) * delta"
    using assms(8) e by (auto simp: e_def intro: mult_left_mono)
  moreover have "rollout_usage used R oldPod newPod fresh old = used + fresh * e + (fresh + old - R) * oldPod"
    by (simp add: rollout_usage_def e_def algebra_simps)
  moreover have "used + R * delta + S * (newPod - delta) = used + S * oldPod + S * e + (R - S) * delta"
    by (simp add: e_def algebra_simps)
  moreover have "(R - S) * e = R * e - S * e" by (simp add: algebra_simps)
  ultimately show ?thesis by linarith
qed

lemma dimension_values:
  assumes "nonneg q" and "d \<in> set (dimensions before after)"
  shows "qMilli q (list_at q (dimOld d) (dimRes d)) = container_milli q (dimRes d) (dimLimits d) before"
    and "qMilli q (list_at q (dimNew d) (dimRes d)) = container_milli q (dimRes d) (dimLimits d) after"
  using assms by (auto simp: dimensions_def list_at_def container_milli_def nonneg_def split: option.splits)

text \<open>Without overflow, the projection is at least the peak.\<close>

lemma projected_covers:
  assumes q: "nonneg q" and d: "d \<in> set (dimensions before after)"
    and used: "used = qMilli q (list_at q (quotaUsed quota) (dimHardKey d))"
    and delta: "delta = container_milli q (dimRes d) (dimLimits d) after - container_milli q (dimRes d) (dimLimits d) before" "0 \<le> delta"
    and spec: "Containers spec = after # rest"
    and new: "new = max (container_total q (dimRes d) (dimLimits d) (after # rest)) (init_max q (dimRes d) (dimLimits d) (InitContainers spec))"
    and range: "1 \<le> R" "0 \<le> S" "used + (R + S) * new < 2 ^ 63"
  shows "used + R * delta + S * (new - delta) \<le> projected_milli q quota R S (Some spec) d"
proof -
  let ?a = "container_milli q (dimRes d) (dimLimits d) after" and ?b = "container_milli q (dimRes d) (dimLimits d) before"
  have "0 \<le> used" "0 \<le> ?b" "0 \<le> ?a" using q used container_nonneg [OF q] by (auto simp: nonneg_def)
  have "?a \<le> container_total q (dimRes d) (dimLimits d) (after # rest)"
    using total_nonneg [OF q, of "dimRes d" "dimLimits d" rest] by (simp add: container_total_def)
  then have dn: "delta \<le> new" "0 \<le> new" using new delta \<open>0 \<le> ?b\<close> \<open>0 \<le> ?a\<close> by linarith+
  have "1 * new \<le> (R + S) * new" using range(1,2) dn(2) by (intro mult_right_mono) simp_all
  then have "new < 2 ^ 63" using range(3) \<open>0 \<le> used\<close> by linarith
  then have eff: "podSpecEffectiveMilli q spec (dimRes d) (dimLimits d) = new"
    using podSpecEffectiveMilli_eq [OF q, of "dimRes d" "dimLimits d" spec] new spec by simp
  have R: "0 \<le> R * delta" "R * delta \<le> R * new" and S: "0 \<le> S * (new - delta)" "S * (new - delta) \<le> S * new"
    using range(1,2) delta(2) dn by (auto intro: mult_left_mono)
  have sum: "(R + S) * new = R * new + S * new" by (simp add: distrib_right)
  have ppd: "per_pod_delta q d = delta"
    using dimension_values [OF q d] delta dn \<open>new < 2 ^ 63\<close> by (simp add: per_pod_delta_def)
  have w1: "wrap64 (delta * R) = R * delta"
    using R S sum range(3) \<open>0 \<le> used\<close> by (simp add: mult.commute)
  have w2: "wrap64 (used + R * delta) = used + R * delta"
    using R S sum range(3) \<open>0 \<le> used\<close> by (intro wrap64_id) simp_all
  have w3: "wrap64 (new - delta) = new - delta" using dn delta(2) \<open>new < 2 ^ 63\<close> by (intro wrap64_id) simp_all
  have w4: "wrap64 ((new - delta) * S) = S * (new - delta)"
    using R S sum range(3) \<open>0 \<le> used\<close> by (simp add: mult.commute)
  have w5: "wrap64 (used + R * delta + S * (new - delta)) = used + R * delta + S * (new - delta)"
    using R S sum range(3) \<open>0 \<le> used\<close> by (intro wrap64_id) simp_all
  show ?thesis
    using range(2) dn(1)
    by (simp add: projected_milli_def Let_def eff ppd w1 w2 w3 w4 w5 used [symmetric])
qed


text \<open>Whole numbers as quantities, and a Deployment of four replicas that surges by one, for the examples.\<close>

definition demo_quantities :: "nat quantities" where
  "demo_quantities = \<lparr>qMilli = int, qString = decimal, qFormat = (\<lambda>n _. nat n),
     qParse = (\<lambda>s. if s = ''1'' then Some 1 else if s = ''2'' then Some 2 else None), qZero = 0\<rparr>"

definition demo_container :: "nat \<Rightarrow> nat ResourceRequirements" where
  "demo_container n = \<lparr>Requests = [(''cpu'', n)], Limits = []\<rparr>"

definition demo_deployment :: "nat \<Rightarrow> nat Deployment" where
  "demo_deployment n = \<lparr>dRecreate = False, dMaxSurge = None, dReplicas = Some 4,
     dTemplate = \<lparr>Containers = [demo_container n], InitContainers = []\<rparr>\<rparr>"

definition demo_quota :: "nat \<Rightarrow> nat \<Rightarrow> nat ResourceQuota" where
  "demo_quota hard used = \<lparr>quotaHard = [(''requests.cpu'', hard)], quotaUsed = [(''requests.cpu'', used)]\<rparr>"

definition demo_change :: "string \<Rightarrow> Change" where
  "demo_change cpu = \<lparr>CPURequest = cpu, CPULimit = [], MemoryRequest = [], MemoryLimit = []\<rparr>"

definition demo_preflight :: "nat \<Rightarrow> string \<Rightarrow> nat \<Rightarrow> nat \<Rightarrow> PreflightResult \<times> kerror option" where
  "demo_preflight cores cpu hard used =
     PreflightDeployment demo_quantities (\<lambda>_ _. Some 1) (Inr (demo_deployment cores)) (Inr (demo_quota hard used)) (demo_change cpu)"


text \<open>
  For a change that lowers a resource the projection is not the peak that the comment of \<open>Fits\<close>
  describes, the current usage plus the new pods of the surge: four pods go from 2 to 1 under a
  cap that is used up, and the first pod of the surge does not fit.
\<close>

lemma lowered_change_misses_the_surge:
  "prFits (fst (demo_preflight 2 ''1'' 8 8)) \<and> max 8 8 < rollout_usage 8 4 2 1 1 4"
proof
  show "prFits (fst (demo_preflight 2 ''1'' 8 8))" by code_simp
qed (simp add: rollout_usage_def)

end
