(* ===== verification/Spec2Isabelle.thy ===== *)
theory Spec2Isabelle
  imports Gateway_Handler_Properties Datamover_Transfer Datamover_Commit_Properties Authz_Gate UI_Gate_Properties Access_Properties Member_Binding Env_Template Quota
begin

text \<open>
  \<^bold>\<open>Kipper: a verification development for its Go services.\<close>

  Kipper runs applications on a Kubernetes cluster. The parts verified here are the ones that
  decide something on the strength of a request: which cluster a host name reaches, who may act in
  a project, whether a link, a session or an API key still opens anything, what a quota admits, and
  whether a data transfer has arrived. All paths below are under \<^verbatim>\<open>src/\<close>.

  \<^bold>\<open>The parts and how they interact.\<close>

  \<^item> The \<^emph>\<open>gateway\<close> (\<^verbatim>\<open>gateway\<close>) gives clusters behind one public address a subdomain. A cluster registers
    a label, proves the key it serves with, and pins it; the data plane routes a host name to the
    registration and verifies the key again on every connection. The registry is saved to a file.
  \<^item> The \<^emph>\<open>data mover\<close> (\<^verbatim>\<open>datamover\<close>) carries the files of a volume or the objects of a bucket from one
    cluster to another in chunks, over a connection that may break, and finalizes on the target.
  \<^item> The \<^emph>\<open>API-key gate\<close> (\<^verbatim>\<open>authz\<close>) answers forwardAuth requests for applications: the key, its plan, the
    rate and the quota, with usage counters that several replicas flush to one rollup.
  \<^item> The \<^emph>\<open>console API\<close> (\<^verbatim>\<open>console-api\<close>) signs share links and browser sessions for service UIs and
    checks them at its gate (\<^verbatim>\<open>share\<close>, \<^verbatim>\<open>uisession\<close>, \<^verbatim>\<open>handlers/auth.go\<close>, \<^verbatim>\<open>handlers/shares.go\<close>), and guards
    its own routes: the bearer token and the keys of Dex, the global role, the project a
    namespace belongs to, the role of the caller in it and the capabilities of that role
    (\<^verbatim>\<open>middleware\<close>, \<^verbatim>\<open>internal/nsowner\<close>, \<^verbatim>\<open>main.go\<close>, and the catalogue in \<^verbatim>\<open>controller/pkg/capability\<close>).
  \<^item> Shared packages (\<^verbatim>\<open>controller/pkg\<close>): host names, the proof-of-possession message, user grants, the
    names of member bindings, templates of environment values; and the quota preflight of the console.

  \<^bold>\<open>Theories.\<close> A theory of definitions follows its source file function by function and uses its names; the theory
  named \<open>_Properties\<close> next to it (or the one listed with it) holds the lemmas and theorems.

  \<^item> \<open>Prelude\<close>: time, Go maps as association lists with the laws of a keyed store (a locale with its
    interpretation), indexes, 64-bit wrap-around. \<open>Go_Strings\<close>, \<open>Go_Encoding\<close>, \<open>Calendar\<close>: the parts of
    Go's library that the code rests on, computed. \<open>External\<close>: the Kubernetes client, the JWT library, random
    numbers and the retry helper as parameters, each with predicates for what the code relies on.
  \<^item> \<open>Hostnames\<close>: \<^verbatim>\<open>controller/pkg/hostnames\<close>, \<^verbatim>\<open>hopproof\<close>.
  \<^item> \<open>Gateway_Registry\<close> (\<^verbatim>\<open>internal/registry/registry.go\<close>), \<open>Gateway_Store\<close> (\<^verbatim>\<open>store.go\<close>), \<open>Gateway_Proxy\<close> (\<^verbatim>\<open>proxy.go\<close>),
    \<open>Gateway_Handlers\<close> (\<^verbatim>\<open>main.go\<close>). The registry is a record of the map of registrations, the token index,
    the dirty flag and the settings; a locked method is one atomic step. \<open>Gateway_Run\<close> makes every
    method an operation, runs of operations an inductive relation, and carries the invariants of all
    runs, with the locale \<open>entry_rule\<close> for facts about one registration that each operation preserves.
    \<open>Gateway_Properties\<close>, \<open>Gateway_Traffic\<close> and \<open>Gateway_Handler_Properties\<close> hold what clients can rely on.
  \<^item> \<open>Datamover_Plan\<close> (\<^verbatim>\<open>manifest.go\<close>, \<^verbatim>\<open>plan.go\<close>), \<open>Datamover_Ingest\<close> (\<^verbatim>\<open>wire.go\<close>, \<^verbatim>\<open>state.go\<close>, \<^verbatim>\<open>server.go\<close>,
    \<^verbatim>\<open>commit_s3.go\<close>), \<open>Datamover_Properties\<close>. The state directory separates what a read returns from
    what survives a crash, and \<open>ingest_reach\<close> runs the handlers with crashes and restarts between them.
  \<^item> \<open>Datamover_Export\<close> (\<^verbatim>\<open>export/client.go\<close>, \<^verbatim>\<open>export/s3.go\<close>): the exporter, whose pool of workers is a list of
    worker states moved one step at a time. \<open>Datamover_Upload\<close>: every run of the pool ends, for any target that
    answers (the locale \<open>upload_target\<close>). \<open>Datamover_Transfer\<close>: the exporter against the ingest server over a
    network that loses, repeats and reorders, which interprets that locale.
  \<^item> \<open>Filesystem\<close>: a Unix file system with links, attributes and faults, for Go's \<^verbatim>\<open>os\<close> package.
    \<open>Datamover_Commit\<close> (\<^verbatim>\<open>ingest/commit_fs.go\<close>), \<open>Datamover_Commit_Steps\<close> (Hoare-like triples with a frame, one for
    each step), \<open>Datamover_Commit_Sweep\<close> (the deletion pass), \<open>Datamover_Commit_Properties\<close> (the whole commit, and
    small volumes on which it goes wrong outside the stated conditions).
  \<^item> \<open>Authz\<close> (\<^verbatim>\<open>usage.go\<close>, \<^verbatim>\<open>freshness.go\<close>, \<^verbatim>\<open>authorizer.go\<close>, \<^verbatim>\<open>server.go\<close>, \<^verbatim>\<open>apigateway_types.go\<close>), \<open>Authz_Quota\<close>,
    \<open>Authz_Usage\<close>, \<open>Authz_Gate\<close>.
  \<^item> \<open>Share\<close> (\<^verbatim>\<open>share\<close>), \<open>UI_Session\<close> (\<^verbatim>\<open>uisession\<close>), \<open>UI_Gate\<close> (\<^verbatim>\<open>handlers/auth.go\<close>), \<open>Share_Handlers\<close>
    (\<^verbatim>\<open>handlers/shares.go\<close>, \<^verbatim>\<open>serviceui\<close>); \<open>Share_Properties\<close> (with the locale \<open>trust_cache\<close>, the contract of the two
    key caches), \<open>Share_Links\<close>, \<open>UI_Gate_Properties\<close>.
  \<^item> \<open>Capability\<close>, \<open>User_Roles\<close> (\<^verbatim>\<open>usergrants.go\<close>, \<^verbatim>\<open>roles.go\<close>), \<open>Project_Access\<close> (\<^verbatim>\<open>nsowner.go\<close>, \<^verbatim>\<open>projectmembers.go\<close>,
    \<^verbatim>\<open>projectaccess.go\<close>), \<open>Console_Auth\<close> (\<^verbatim>\<open>jwks.go\<close>, \<^verbatim>\<open>auth.go\<close>, \<^verbatim>\<open>origin.go\<close>, \<^verbatim>\<open>projectguard.go\<close>), \<open>Console_Routes\<close>
    (the table of \<^verbatim>\<open>main.go\<close>); \<open>User_Roles_Properties\<close>, \<open>Access_Properties\<close>.
  \<^item> \<open>Member_Binding\<close>, \<open>Env_Template\<close>, \<open>Quota\<close>: one package each, with its properties.

  \<^bold>\<open>How code becomes definitions.\<close> A struct is a record, an enumeration a datatype, a map an association list with distinct
  keys; a method takes the state and returns it changed; an error is a value of a sum, an option or
  the HTTP status the handler writes. A pointer that two owners share is an index into an explicit heap (the
  in-flight counters of the gateway). Every reading of the clock is an argument, and where one
  handler reads it several times with calls in between, each reading is an argument of its own. What
  other goroutines or replicas do in between is an argument as well (the schedule of a gateway handler,
  the swaps during an ownership lookup, the answers of the API server) or a step of an inductive relation.
  Fixed-width arithmetic wraps where the code's does: \<open>wrap64\<close> for \<open>int64\<close>, words for masks and bitmaps.

  \<^bold>\<open>Bounds.\<close> \<open>owner_attempts\<close> counts down the four attempts of the source, \<open>revoke_sweeps\<close> its
  \<open>maxRevokeSweeps\<close>, \<open>retry_steps\<close> the steps of the retry helper's backoff, \<open>retry_from\<close> the five attempts of
  \<open>retryIO\<close>, and a worker of the upload pool the attempts of \<open>MaxAttempts\<close>. The walk of the deletion pass has the length
  of the longest path of the file system as fuel, and \<open>walk_has_fuel\<close> shows that this is never used up. Loops without such a bound are structural or
  have a termination proof; the assembly of an entry, whose loop need not end on a plan that wrapped
  around, is a \<open>partial_function\<close>, and that it returns on a manifest that fits is proved.

  \<^bold>\<open>Not modelled.\<close> The reconcilers and most handlers of the console API lay out Kubernetes objects and call the API
  server; the \<^verbatim>\<open>kip\<close> command line and its installer run scripts and remote commands; generated deep
  copies, the Vue console, the function runtimes, the documentation and the deployment files have no decision of
  their own. Of the modelled files, logging, metrics, constant pages and the wiring of listeners are left out; the
  components of the manifest say so one by one. TLS, JWT and SHA-256 are parameters, and a property that
  needs two digests to differ says so.
\<close>

end
